(* ===== verification/Prelude.thy ===== *)
theory Prelude
  imports Complex_Main "HOL-Library.AList" "HOL-Library.Multiset" "HOL-Library.Sublist"
begin

section \<open>Shared vocabulary of the BrokerLite models\<close>

text \<open>
  What every component of \<^verbatim>\<open>src/brokerlite\<close> uses of Python: exceptions as values, insertion
  ordered dictionaries as association lists, list indexing and slicing with negative indices,
  and the lemmas about them that the component theories share. The collection \<open>dict_simps\<close>
  holds the rewrite rules for dictionaries, \<open>slice_simps\<close> those for slices.
\<close>

named_theorems dict_simps \<open>dictionary operations as association list operations\<close>
named_theorems slice_simps \<open>Python slices as take and drop\<close>

subsection \<open>Exceptions\<close>

text \<open>
  The exception classes the code raises or lets escape, without their message texts.
  \<open>IllTyped\<close> marks the places where a value read from a dictionary does not have the type the
  code annotates: Python carries the value on, the typed model stops there.
\<close>

datatype py_error =
    ValueError | IndexError | KeyError | TypeError | ZeroDivisionError | AttributeError
  | RuntimeError | StructError | UnicodeDecodeError | ConnectionError | TimeoutError | RecursionError | IllTyped

type_synonym 'a result = "py_error + 'a"

definition is_ok :: "'a result \<Rightarrow> bool" where
  "is_ok r = (case r of Inl _ \<Rightarrow> False | Inr _ \<Rightarrow> True)"

lemma is_ok_simps [simp]: "is_ok (Inr x)" "\<not> is_ok (Inl e)"
  by (simp_all add: is_ok_def)

lemma is_okE: "is_ok r \<Longrightarrow> (\<And>x. r = Inr x \<Longrightarrow> P) \<Longrightarrow> P"
  by (cases r) auto

text \<open>Sequencing: the first exception ends the computation.\<close>

definition bind_r :: "'a result \<Rightarrow> ('a \<Rightarrow> 'b result) \<Rightarrow> 'b result" where
  "bind_r r f = (case r of Inl e \<Rightarrow> Inl e | Inr x \<Rightarrow> f x)"

lemma bind_r_simps [simp]: "bind_r (Inl e) f = Inl e" "bind_r (Inr x) f = f x"
  by (simp_all add: bind_r_def)

lemma bind_r_Inr: "bind_r r f = Inr y \<longleftrightarrow> (\<exists>x. r = Inr x \<and> f x = Inr y)"
  by (cases r) auto

subsection \<open>Dictionaries\<close>

text \<open>
  A Python dictionary keeps its insertion order: updating an existing key leaves its place,
  a new key goes last, deleting keeps the order of the rest. That is \<open>AList.update\<close> and
  \<open>AList.delete\<close> on an association list with distinct keys (\<open>wf_dict\<close>).
\<close>

type_synonym ('k, 'v) dict = "('k \<times> 'v) list"

abbreviation dict_get :: "('k, 'v) dict \<Rightarrow> 'k \<Rightarrow> 'v option" where
  "dict_get \<equiv> map_of"

abbreviation dict_set :: "'k \<Rightarrow> 'v \<Rightarrow> ('k, 'v) dict \<Rightarrow> ('k, 'v) dict" where
  "dict_set \<equiv> AList.update"

abbreviation dict_del :: "'k \<Rightarrow> ('k, 'v) dict \<Rightarrow> ('k, 'v) dict" where
  "dict_del \<equiv> AList.delete"

abbreviation keys :: "('k, 'v) dict \<Rightarrow> 'k list" where
  "keys d \<equiv> map fst d"

definition wf_dict :: "('k, 'v) dict \<Rightarrow> bool" where
  "wf_dict d = distinct (keys d)"

definition dict_get_default :: "('k, 'v) dict \<Rightarrow> 'k \<Rightarrow> 'v \<Rightarrow> 'v" where
  "dict_get_default d k v = (case dict_get d k of None \<Rightarrow> v | Some x \<Rightarrow> x)"

lemma dict_get_set [dict_simps, simp]:
  "dict_get (dict_set k v d) k' = (if k' = k then Some v else dict_get d k')"
  by (simp add: update_conv')

lemma dict_get_del [dict_simps, simp]:
  "dict_get (dict_del k d) k' = (if k' = k then None else dict_get d k')"
  by (simp add: delete_conv')

lemma wf_dict_Nil [simp]: "wf_dict []"
  by (simp add: wf_dict_def)

lemma wf_dict_set [simp, intro]: "wf_dict d \<Longrightarrow> wf_dict (dict_set k v d)"
  by (simp add: wf_dict_def distinct_update)

lemma wf_dict_del [simp, intro]: "wf_dict d \<Longrightarrow> wf_dict (dict_del k d)"
  by (simp add: wf_dict_def distinct_delete)

lemma dict_get_in: "wf_dict d \<Longrightarrow> dict_get d k = Some v \<longleftrightarrow> (k, v) \<in> set d"
  by (auto simp: wf_dict_def dest: map_of_SomeD)

lemma in_keys_iff: "k \<in> set (keys d) \<longleftrightarrow> dict_get d k \<noteq> None"
  by (auto simp: map_of_eq_None_iff)

lemma dict_set_new: "k \<notin> set (keys d) \<Longrightarrow> dict_set k v d = d @ [(k, v)]"
  by (induction d) auto

lemma set_dict_set: "set (dict_set k v d) \<subseteq> insert (k, v) (set d)"
  by (induction d) auto

lemma keys_dict_set:
  "keys (dict_set k v d) = (if k \<in> set (keys d) then keys d else keys d @ [k])"
  by (simp add: update_keys)

lemma dict_del_filter: "dict_del k d = filter (\<lambda>(k', _). k \<noteq> k') d"
  by (simp add: AList.delete_eq)

lemma dict_del_absent: "dict_get d k = None \<Longrightarrow> dict_del k d = d"
  by (simp add: map_of_eq_None_iff)

text \<open>Values held by a dictionary, as a multiset: the conservation laws count with it.\<close>

definition dict_values :: "('k, 'v) dict \<Rightarrow> 'v multiset" where
  "dict_values d = mset (map snd d)"

lemma dict_values_Nil [simp]: "dict_values [] = {#}"
  by (simp add: dict_values_def)

lemma dict_values_set_new:
  "dict_get d k = None \<Longrightarrow> dict_values (dict_set k v d) = add_mset v (dict_values d)"
  by (simp add: dict_values_def dict_set_new map_of_eq_None_iff)

lemma dict_values_del:
  "wf_dict d \<Longrightarrow> dict_get d k = Some v \<Longrightarrow>
    dict_values d = add_mset v (dict_values (dict_del k d))"
proof (induction d)
  case Nil
  then show ?case by simp
next
  case (Cons p d)
  obtain k' v' where p: "p = (k', v')" by (cases p)
  show ?case
  proof (cases "k = k'")
    case True
    with Cons.prems p have "k \<notin> set (keys d)" and "v = v'"
      by (auto simp: wf_dict_def)
    with p True show ?thesis by (simp add: dict_values_def)
  next
    case False
    with Cons.prems p have "wf_dict d" and "dict_get d k = Some v"
      by (auto simp: wf_dict_def)
    from Cons.IH [OF this] p False show ?thesis by (simp add: dict_values_def)
  qed
qed

text \<open>
  Grouping: \<open>groups.setdefault(f(x), []).append(x)\<close> over a list. Each group is the sublist
  of the elements with its key, in their order.
\<close>

definition group_add :: "('a \<Rightarrow> 'k) \<Rightarrow> 'a \<Rightarrow> ('k, 'a list) dict \<Rightarrow> ('k, 'a list) dict" where
  "group_add f x g = dict_set (f x) (dict_get_default g (f x) [] @ [x]) g"

definition group_by :: "('a \<Rightarrow> 'k) \<Rightarrow> 'a list \<Rightarrow> ('k, 'a list) dict" where
  "group_by f xs = fold (group_add f) xs []"

lemma group_by_snoc: "group_by f (xs @ [x]) = group_add f x (group_by f xs)"
  by (simp add: group_by_def)

lemma group_by_Nil [simp]: "group_by f [] = []"
  by (simp add: group_by_def)

lemma dict_get_group_by:
  "dict_get (group_by f xs) k =
     (if k \<in> f ` set xs then Some (filter (\<lambda>x. f x = k) xs) else None)"
proof (induction xs rule: rev_induct)
  case Nil
  then show ?case by simp
next
  case (snoc x xs)
  have "filter (\<lambda>y. f y = f x) xs = []" if "f x \<notin> f ` set xs"
    using that by (metis (mono_tags) filter_False image_eqI)
  with snoc show ?case
    by (auto simp: group_by_snoc group_add_def dict_get_default_def)
qed

lemma wf_group_by: "wf_dict (group_by f xs)"
  by (induction xs rule: rev_induct) (simp_all add: group_by_snoc group_add_def)

lemma keys_group_by: "set (keys (group_by f xs)) = f ` set xs"
  by (intro set_eqI) (simp only: in_keys_iff dict_get_group_by, simp)

subsection \<open>Indexing and slicing\<close>

definition py_nth :: "'a list \<Rightarrow> int \<Rightarrow> 'a result" where
  "py_nth xs i =
     (if i < - int (length xs) \<or> int (length xs) \<le> i then Inl IndexError
      else if i < 0 then Inr (xs ! nat (int (length xs) + i))
      else Inr (xs ! nat i))"

text \<open>A slice bound is counted from the end when negative and clipped to the list.\<close>

definition slice_bound :: "int \<Rightarrow> int \<Rightarrow> int" where
  "slice_bound n i = (if i < 0 then max 0 (n + i) else min i n)"

definition py_slice :: "'a list \<Rightarrow> int \<Rightarrow> int \<Rightarrow> 'a list" where
  "py_slice xs i j =
     (let n = int (length xs); a = slice_bound n i; b = slice_bound n j
      in take (nat (b - a)) (drop (nat a) xs))"

lemma py_nth_in_range:
  "0 \<le> i \<Longrightarrow> i < int (length xs) \<Longrightarrow> py_nth xs i = Inr (xs ! nat i)"
  by (simp add: py_nth_def)

lemma py_nth_out_of_range:
  "int (length xs) \<le> i \<Longrightarrow> py_nth xs i = Inl IndexError"
  by (simp add: py_nth_def)

lemma py_slice_take_drop [slice_simps]:
  assumes "0 \<le> i" and "0 \<le> j"
  shows "py_slice xs i j = take (nat (j - i)) (drop (nat i) xs)"
proof (cases "i \<le> int (length xs)")
  case True
  with assms show ?thesis
    by (auto simp: py_slice_def slice_bound_def Let_def min_def)
next
  case False
  with assms show ?thesis
    by (auto simp: py_slice_def slice_bound_def Let_def min_def)
qed

lemma set_py_slice: "set (py_slice xs i j) \<subseteq> set xs"
  unfolding py_slice_def Let_def by (meson order_trans set_drop_subset set_take_subset)

subsection \<open>Lists\<close>

lemma filter_sorted_wrt: "sorted_wrt P xs \<Longrightarrow> sorted_wrt P (filter Q xs)"
  by (rule sorted_wrt_filter)

lemma sorted_wrt_map_filter:
  "sorted_wrt P (map f xs) \<Longrightarrow> sorted_wrt P (map f (filter Q xs))"
  by (simp add: sorted_wrt_map sorted_wrt_filter)

lemma distinct_map_filter_inj:
  "distinct (map f xs) \<Longrightarrow> distinct (map f (filter Q xs))"
  by (induction xs) auto

lemma find_append: "List.find P (xs @ ys) =
    (case List.find P xs of None \<Rightarrow> List.find P ys | Some x \<Rightarrow> Some x)"
  by (induction xs) auto

lemma last_take_in: "xs \<noteq> [] \<Longrightarrow> 0 < k \<Longrightarrow> last (take k xs) \<in> set xs"
  by (metis in_set_takeD last_in_set not_gr0 take_eq_Nil)

text \<open>A filter that only removes a prefix is a \<open>drop\<close>: what retention relies on.\<close>

lemma filter_sorted_is_drop:
  assumes "sorted (map f xs)"
  shows "filter (\<lambda>x. c \<le> f x) xs = drop (length (filter (\<lambda>x. f x < c) xs)) xs"
  using assms
proof (induction xs)
  case Nil
  then show ?case by simp
next
  case (Cons x xs)
  show ?case
  proof (cases "c \<le> f x")
    case True
    with Cons.prems have all: "\<forall>y \<in> set xs. c \<le> f y" by auto
    then have "filter (\<lambda>x. f x < c) xs = []" and "filter (\<lambda>x. c \<le> f x) xs = xs"
      by (auto simp: filter_empty_conv not_less)
    with True show ?thesis by simp
  next
    case False
    with Cons show ?thesis by simp
  qed
qed

lemma filter_sorted_is_take:
  assumes "sorted (map f xs)"
  shows "take (length (filter (\<lambda>x. f x < c) xs)) xs = filter (\<lambda>x. f x < c) xs"
  using assms
proof (induction xs)
  case Nil
  then show ?case by simp
next
  case (Cons x xs)
  show ?case
  proof (cases "f x < c")
    case True
    with Cons show ?thesis by simp
  next
    case False
    with Cons.prems have "filter (\<lambda>x. f x < c) xs = []"
      by (force simp: filter_empty_conv)
    with False show ?thesis by simp
  qed
qed

subsection \<open>Decimal numbers\<close>

text \<open>\<open>str(n)\<close> for an integer.\<close>

fun decimal :: "nat \<Rightarrow> string" where
  "decimal n =
     (if n < 10 then [char_of (48 + n)] else decimal (n div 10) @ [char_of (48 + n mod 10)])"

declare decimal.simps [simp del]

definition py_str_int :: "int \<Rightarrow> string" where
  "py_str_int i = (if i < 0 then CHR ''-'' # decimal (nat (- i)) else decimal (nat i))"

subsection \<open>Dealing out in turn\<close>

lemma one_per_window:
  fixes a j n :: int
  assumes "0 \<le> j" and "j < n"
  shows "{i \<in> {a..<a + n}. i mod n = j} = {a + (j - a) mod n}"
proof (rule set_eqI)
  fix i
  have "i mod n = j \<longleftrightarrow> (i - a) mod n = (j - a) mod n"
    using assms mod_eq_dvd_iff [of i n j] mod_eq_dvd_iff [of "i - a" n "j - a"] by simp
  moreover have "(i - a) mod n = i - a" if "a \<le> i" "i < a + n"
    using that by simp
  moreover have "0 \<le> (j - a) mod n" "(j - a) mod n < n" using assms by simp_all
  ultimately show "i \<in> {i \<in> {a..<a + n}. i mod n = j} \<longleftrightarrow> i \<in> {a + (j - a) mod n}"
    by auto
qed

lemma card_split_window:
  fixes a b c :: int
  assumes "a \<le> b" and "b \<le> c"
  shows "card {i \<in> {a..<c}. P i} = card {i \<in> {a..<b}. P i} + card {i \<in> {b..<c}. P i}"
proof -
  have fin: "finite {i \<in> {x..<y :: int}. P i}" for x y
    by (rule finite_subset [of _ "{x..<y}"]) auto
  have "{i \<in> {a..<c}. P i} = {i \<in> {a..<b}. P i} \<union> {i \<in> {b..<c}. P i}"
    using assms by auto
  moreover have "{i \<in> {a..<b}. P i} \<inter> {i \<in> {b..<c}. P i} = {}" by auto
  ultimately show ?thesis using fin by (simp add: card_Un_disjoint)
qed

lemma count_in_windows:
  fixes a j n :: int
  assumes "0 \<le> j" and "j < n"
  shows "card {i \<in> {a..<a + n * int k}. i mod n = j} = k"
proof (induction k)
  case 0
  then show ?case by simp
next
  case (Suc k)
  let ?b = "a + n * int k"
  have "card {i \<in> {a..<?b + n}. i mod n = j}
      = card {i \<in> {a..<?b}. i mod n = j} + card {i \<in> {?b..<?b + n}. i mod n = j}"
    by (rule card_split_window) (use assms in simp_all)
  then show ?case using Suc one_per_window [OF assms, of ?b] by (simp add: algebra_simps)
qed

text \<open>Among \<open>N\<close> consecutive numbers each residue occurs \<open>N div n\<close> times or once more.\<close>

lemma count_consecutive:
  fixes a j :: int and n :: nat
  assumes "0 \<le> j" and "j < int n"
  shows "card {i \<in> {a..<a + int N}. i mod int n = j} \<in> {N div n, Suc (N div n)}"
proof -
  let ?k = "N div n" and ?m = "N mod n"
  let ?b = "a + int n * int ?k"
  have N: "a + int N = ?b + int ?m" by (simp flip: of_nat_mult of_nat_add)
  have "card {i \<in> {a..<?b + int ?m}. i mod int n = j}
      = card {i \<in> {a..<?b}. i mod int n = j} + card {i \<in> {?b..<?b + int ?m}. i mod int n = j}"
    by (rule card_split_window) simp_all
  moreover have "card {i \<in> {a..<?b}. i mod int n = j} = ?k" using assms by (rule count_in_windows)
  moreover have "card {i \<in> {?b..<?b + int n}. i mod int n = j}
      = card {i \<in> {?b..<?b + int ?m}. i mod int n = j}
        + card {i \<in> {?b + int ?m..<?b + int n}. i mod int n = j}"
    by (rule card_split_window) (use assms in \<open>auto intro: less_imp_le\<close>)
  then have "card {i \<in> {?b..<?b + int ?m}. i mod int n = j} \<le> 1"
    using one_per_window [OF assms, of ?b] by simp
  ultimately show ?thesis unfolding N by auto
qed

end
