(* ===== verification/Message.thy ===== *)
theory Message
  imports Prelude "HOL-Library.Word"
begin

section \<open>Messages\<close>

text \<open>
  \<^verbatim>\<open>message.py\<close>: message headers, the message itself and message batches, with the UTF-8
  conversions its serialisation uses. A Python \<open>str\<close> is represented by its UTF-8 bytes (a HOL
  \<open>string\<close>, one \<open>char\<close> per byte), so that \<open>encode\<close> changes only the type and
  \<open>len(s.encode())\<close> is \<open>length s\<close>; a Python \<open>bytes\<close> is a list of 8-bit words. Floats are reals.
  Message objects are shared and mutated in place by the components that receive them, so they
  live in a store: \<open>mstore\<close> maps an object reference to the current contents of the object.
\<close>

type_synonym byte = "8 word"
type_synonym mref = nat

subsection \<open>UTF-8\<close>

definition byte_of_char :: "char \<Rightarrow> byte" where
  "byte_of_char c = word_of_nat (of_char c)"

definition char_of_byte :: "byte \<Rightarrow> char" where
  "char_of_byte b = char_of (unat b)"

lemma byte_of_char_of_byte [simp]: "byte_of_char (char_of_byte b) = b"
proof -
  have "unat b < 256" using unsigned_less [of b] by simp
  then show ?thesis by (simp add: byte_of_char_def char_of_byte_def)
qed

lemma char_of_byte_of_char [simp]: "char_of_byte (byte_of_char c) = c"
proof -
  have "of_char c < (256 :: nat)" by (rule nat_of_char_less_256)
  then have "unat (word_of_nat (of_char c) :: byte) = of_char c"
    by (simp add: unat_of_nat)
  then show ?thesis by (simp add: byte_of_char_def char_of_byte_def)
qed

definition utf8_encode :: "string \<Rightarrow> byte list" where
  "utf8_encode s = map byte_of_char s"

text \<open>
  One step of the decoder: \<open>Inr n\<close> when the input starts with a valid sequence of \<open>n\<close> bytes,
  \<open>Inl n\<close> when it starts with an ill-formed one whose maximal valid prefix has \<open>n\<close> bytes (at
  least one), which the \<open>replace\<close> handler turns into one replacement character.
\<close>

definition cont :: "byte \<Rightarrow> bool" where
  "cont b = (0x80 \<le> b \<and> b \<le> 0xBF)"

definition second_ok :: "byte \<Rightarrow> byte \<Rightarrow> bool" where
  "second_ok b0 b1 =
     (if b0 = 0xE0 then 0xA0 \<le> b1 \<and> b1 \<le> 0xBF
      else if b0 = 0xED then 0x80 \<le> b1 \<and> b1 \<le> 0x9F
      else if b0 = 0xF0 then 0x90 \<le> b1 \<and> b1 \<le> 0xBF
      else if b0 = 0xF4 then 0x80 \<le> b1 \<and> b1 \<le> 0x8F
      else cont b1)"

fun utf8_tail :: "nat \<Rightarrow> nat \<Rightarrow> byte list \<Rightarrow> nat + nat" where
  "utf8_tail 0 k bs = Inr k"
| "utf8_tail (Suc n) k [] = Inl k"
| "utf8_tail (Suc n) k (b # bs) = (if cont b then utf8_tail n (Suc k) bs else Inl k)"

fun utf8_step :: "byte list \<Rightarrow> nat + nat" where
  "utf8_step [] = Inl 1"
| "utf8_step (b0 # bs) =
     (if b0 < 0x80 then Inr 1
      else if 0xC2 \<le> b0 \<and> b0 \<le> 0xF4 then
        (case bs of
           [] \<Rightarrow> Inl 1
         | b1 # bs' \<Rightarrow>
             if \<not> second_ok b0 b1 then Inl 1
             else utf8_tail (if b0 < 0xE0 then 0 else if b0 < 0xF0 then 1 else 2) 2 bs')
      else Inl 1)"

lemma utf8_tail_Inl: "utf8_tail n k bs = Inl m \<Longrightarrow> k \<le> m"
  by (induction n k bs rule: utf8_tail.induct) (auto split: if_splits)

lemma utf8_tail_Inr: "utf8_tail n k bs = Inr m \<Longrightarrow> k \<le> m"
  by (induction n k bs rule: utf8_tail.induct) (auto split: if_splits)

lemma utf8_step_Inl: "utf8_step bs = Inl n \<Longrightarrow> 0 < n"
  by (cases bs) (auto split: if_splits list.splits dest!: utf8_tail_Inl)

lemma utf8_step_Inr: "utf8_step bs = Inr n \<Longrightarrow> 0 < n"
  by (cases bs) (auto split: if_splits list.splits dest!: utf8_tail_Inr)

text \<open>\<open>bytes.decode("utf-8")\<close>: \<open>None\<close> is the UnicodeDecodeError.\<close>

function utf8_valid :: "byte list \<Rightarrow> bool" where
  "utf8_valid bs =
     (if bs = [] then True
      else case utf8_step bs of Inl _ \<Rightarrow> False | Inr n \<Rightarrow> utf8_valid (drop n bs))"
  by pat_completeness auto
termination
proof (relation "measure length")
  fix bs :: "byte list" and n
  assume "bs \<noteq> []" and "utf8_step bs = Inr n"
  then show "(drop n bs, bs) \<in> measure length"
    by (simp add: utf8_step_Inr)
qed simp

declare utf8_valid.simps [simp del]

definition utf8_decode :: "byte list \<Rightarrow> string result" where
  "utf8_decode bs = (if utf8_valid bs then Inr (map char_of_byte bs) else Inl UnicodeDecodeError)"

text \<open>\<open>bytes.decode("utf-8", errors="replace")\<close>; U+FFFD is three bytes.\<close>

definition replacement_char :: string where
  "replacement_char = map char_of_byte [0xEF, 0xBF, 0xBD :: byte]"

function utf8_decode_replace :: "byte list \<Rightarrow> string" where
  "utf8_decode_replace bs =
     (if bs = [] then []
      else case utf8_step bs of
             Inl n \<Rightarrow> replacement_char @ utf8_decode_replace (drop n bs)
           | Inr n \<Rightarrow> map char_of_byte (take n bs) @ utf8_decode_replace (drop n bs))"
  by pat_completeness auto
termination
proof (relation "measure length")
  fix bs :: "byte list" and n
  assume "bs \<noteq> []" and "utf8_step bs = Inr n"
  then show "(drop n bs, bs) \<in> measure length"
    by (simp add: utf8_step_Inr)
next
  fix bs :: "byte list" and n
  assume "bs \<noteq> []" and "utf8_step bs = Inl n"
  then show "(drop n bs, bs) \<in> measure length"
    by (simp add: utf8_step_Inl)
qed simp

declare utf8_decode_replace.simps [simp del]

lemma utf8_encode_decode: "utf8_encode (map char_of_byte bs) = bs"
  by (simp add: utf8_encode_def comp_def)

lemma utf8_decode_encode:
  "utf8_valid (utf8_encode s) \<Longrightarrow> utf8_decode (utf8_encode s) = Inr s"
  by (simp add: utf8_decode_def utf8_encode_def comp_def)

lemma utf8_replace_valid:
  "utf8_valid bs \<Longrightarrow> utf8_decode_replace bs = map char_of_byte bs"
proof (induction bs rule: utf8_decode_replace.induct)
  case (1 bs)
  show ?case
  proof (cases "bs = []")
    case True
    then show ?thesis by (simp add: utf8_decode_replace.simps)
  next
    case False
    with "1.prems" obtain n where n: "utf8_step bs = Inr n" and v: "utf8_valid (drop n bs)"
      by (subst (asm) utf8_valid.simps) (auto split: sum.splits)
    from "1.IH"(2) [OF False n v]
    have "utf8_decode_replace (drop n bs) = map char_of_byte (drop n bs)" .
    with False n show ?thesis
      by (subst utf8_decode_replace.simps) (simp flip: map_append)
  qed
qed


subsection \<open>JSON values\<close>

text \<open>What \<^verbatim>\<open>json\<close> reads and writes; the typed accessors below fail on other types.\<close>

datatype json =
    JNull | JBool bool | JInt int | JFloat real | JStr string
  | JList "json list" | JDict "(string \<times> json) list"

fun as_str :: "json \<Rightarrow> string result" where
  "as_str (JStr s) = Inr s"
| "as_str _ = Inl IllTyped"

fun as_str_opt :: "json \<Rightarrow> string option result" where
  "as_str_opt JNull = Inr None"
| "as_str_opt (JStr s) = Inr (Some s)"
| "as_str_opt _ = Inl IllTyped"

fun as_int :: "json \<Rightarrow> int result" where
  "as_int (JInt i) = Inr i"
| "as_int _ = Inl IllTyped"

fun as_float :: "json \<Rightarrow> real result" where
  "as_float (JFloat x) = Inr x"
| "as_float (JInt i) = Inr (of_int i)"
| "as_float _ = Inl IllTyped"

fun as_str_items :: "(string \<times> json) list \<Rightarrow> (string, string) dict result" where
  "as_str_items [] = Inr []"
| "as_str_items ((k, v) # kvs) =
     bind_r (as_str v) (\<lambda>s. bind_r (as_str_items kvs) (\<lambda>r. Inr ((k, s) # r)))"

text \<open>\<open>data.get(key, default)\<close> followed by the typed read.\<close>

definition get_as :: "(json \<Rightarrow> 'a result) \<Rightarrow> (string, json) dict \<Rightarrow> string \<Rightarrow> 'a \<Rightarrow> 'a result" where
  "get_as conv d k dflt = (case dict_get d k of None \<Rightarrow> Inr dflt | Some v \<Rightarrow> conv v)"

subsection \<open>Message headers\<close>

type_synonym headers = "(string, string) dict"

definition headers_new :: "headers option \<Rightarrow> headers" where
  "headers_new h = (case h of None \<Rightarrow> [] | Some d \<Rightarrow> d)"

definition headers_set :: "string \<Rightarrow> string \<Rightarrow> headers \<Rightarrow> headers" where
  "headers_set k v h = dict_set k v h"

definition headers_get :: "headers \<Rightarrow> string \<Rightarrow> string option \<Rightarrow> string option" where
  "headers_get h k dflt = (case dict_get h k of None \<Rightarrow> dflt | Some v \<Rightarrow> Some v)"

definition headers_remove :: "string \<Rightarrow> headers \<Rightarrow> string option \<times> headers" where
  "headers_remove k h = (dict_get h k, dict_del k h)"

definition headers_has :: "headers \<Rightarrow> string \<Rightarrow> bool" where
  "headers_has h k = (k \<in> set (keys h))"

definition headers_keys :: "headers \<Rightarrow> string list" where
  "headers_keys h = keys h"

definition headers_items :: "headers \<Rightarrow> (string \<times> string) list" where
  "headers_items h = h"

definition headers_len :: "headers \<Rightarrow> nat" where
  "headers_len h = length h"

text \<open>\<open>==\<close> of dictionaries does not look at the order.\<close>

definition headers_eq :: "headers \<Rightarrow> headers \<Rightarrow> bool" where
  "headers_eq h h' \<longleftrightarrow> length h = length h' \<and> list_all (\<lambda>(k, v). dict_get h' k = Some v) h"

definition headers_from_json :: "json \<Rightarrow> headers result" where
  "headers_from_json j = (case j of
       JDict kvs \<Rightarrow> as_str_items kvs
     | JNull \<Rightarrow> Inr []
     | _ \<Rightarrow> Inl IllTyped)"

definition headers_to_json :: "headers \<Rightarrow> json" where
  "headers_to_json h = JDict (map (\<lambda>(k, v). (k, JStr v)) h)"

lemma headers_json_roundtrip [simp]: "headers_from_json (headers_to_json h) = Inr h"
proof -
  have "as_str_items (map (\<lambda>(k, v). (k, JStr v)) h) = Inr h"
    by (induction h) auto
  then show ?thesis by (simp add: headers_from_json_def headers_to_json_def)
qed

subsection \<open>The message\<close>

record message =
  m_topic :: string
  m_value :: "byte list"
  m_key :: "string option"
  m_id :: string
  m_headers :: headers
  m_timestamp :: real
  m_broker_timestamp :: real
  m_partition :: int
  m_offset :: int
  m_ttl :: int
  m_priority :: int
  m_producer_id :: string
  m_sequence_number :: int

type_synonym mstore = "mref \<Rightarrow> message"

text \<open>
  The dataclass constructor with its defaults; the generated id and the clock reading are
  arguments.
\<close>

definition message_new ::
    "string \<Rightarrow> real \<Rightarrow> string \<Rightarrow> byte list \<Rightarrow> string option \<Rightarrow> headers \<Rightarrow> message" where
  "message_new uid now topic val key hdrs =
     \<lparr>m_topic = topic, m_value = val, m_key = key, m_id = uid, m_headers = hdrs,
      m_timestamp = now, m_broker_timestamp = 0, m_partition = -1, m_offset = -1,
      m_ttl = 0, m_priority = 0, m_producer_id = [], m_sequence_number = -1\<rparr>"

definition size_bytes :: "message \<Rightarrow> nat" where
  "size_bytes m =
     length (m_value m)
     + (case m_key m of None \<Rightarrow> 0 | Some k \<Rightarrow> length (utf8_encode k))
     + length (utf8_encode (m_id m))
     + length (utf8_encode (m_topic m))
     + sum_list (map (\<lambda>(k, v). length (utf8_encode k) + length (utf8_encode v)) (m_headers m))"

definition is_expired :: "real \<Rightarrow> message \<Rightarrow> bool" where
  "is_expired now m = (if m_ttl m \<le> 0 then False else now > m_timestamp m + of_int (m_ttl m))"

definition message_eq :: "message \<Rightarrow> message \<Rightarrow> bool" where
  "message_eq a b = (m_id a = m_id b)"

definition to_dict :: "message \<Rightarrow> (string, json) dict" where
  "to_dict m =
     [(''id'', JStr (m_id m)),
      (''topic'', JStr (m_topic m)),
      (''key'', case m_key m of None \<Rightarrow> JNull | Some k \<Rightarrow> JStr k),
      (''value'', JStr (utf8_decode_replace (m_value m))),
      (''headers'', headers_to_json (m_headers m)),
      (''timestamp'', JFloat (m_timestamp m)),
      (''broker_timestamp'', JFloat (m_broker_timestamp m)),
      (''partition'', JInt (m_partition m)),
      (''offset'', JInt (m_offset m)),
      (''ttl'', JInt (m_ttl m)),
      (''priority'', JInt (m_priority m)),
      (''producer_id'', JStr (m_producer_id m)),
      (''sequence_number'', JInt (m_sequence_number m))]"

definition from_dict :: "string \<Rightarrow> real \<Rightarrow> (string, json) dict \<Rightarrow> message result" where
  "from_dict uid now d =
     bind_r (get_as headers_from_json d ''headers'' []) (\<lambda>hdrs.
     bind_r (get_as as_str d ''value'' []) (\<lambda>val.
     bind_r (get_as as_str d ''id'' uid) (\<lambda>i.
     bind_r (case dict_get d ''topic'' of None \<Rightarrow> Inl KeyError | Some t \<Rightarrow> as_str t) (\<lambda>topic.
     bind_r (get_as as_str_opt d ''key'' None) (\<lambda>key.
     bind_r (get_as as_float d ''timestamp'' now) (\<lambda>ts.
     bind_r (get_as as_float d ''broker_timestamp'' 0) (\<lambda>bts.
     bind_r (get_as as_int d ''partition'' (-1)) (\<lambda>part.
     bind_r (get_as as_int d ''offset'' (-1)) (\<lambda>off.
     bind_r (get_as as_int d ''ttl'' 0) (\<lambda>ttl.
     bind_r (get_as as_int d ''priority'' 0) (\<lambda>prio.
     bind_r (get_as as_str d ''producer_id'' []) (\<lambda>pid.
     bind_r (get_as as_int d ''sequence_number'' (-1)) (\<lambda>sn.
       Inr \<lparr>m_topic = topic, m_value = utf8_encode val, m_key = key, m_id = i,
            m_headers = hdrs, m_timestamp = ts, m_broker_timestamp = bts,
            m_partition = part, m_offset = off, m_ttl = ttl, m_priority = prio,
            m_producer_id = pid, m_sequence_number = sn\<rparr>)))))))))))))"

text \<open>\<open>clone\<close>: the serialised message with some entries replaced.\<close>

definition clone :: "string \<Rightarrow> real \<Rightarrow> (string, json) dict \<Rightarrow> message \<Rightarrow> message result" where
  "clone uid now overrides m =
     from_dict uid now (fold (\<lambda>(k, v) d. dict_set k v d) overrides (to_dict m))"

lemma as_key_roundtrip [simp]:
  "as_str_opt (case k of None \<Rightarrow> JNull | Some s \<Rightarrow> JStr s) = Inr k"
  by (cases k) simp_all

lemma from_dict_to_dict_replace:
  "from_dict uid now (to_dict m)
     = Inr (m\<lparr>m_value := utf8_encode (utf8_decode_replace (m_value m))\<rparr>)"
  by (simp add: from_dict_def to_dict_def get_as_def)

text \<open>
  C20. Serialising a message to its dictionary form and reading it back gives the same message,
  every field included, whenever its payload is valid UTF-8; with no overrides the same holds
  for \<open>clone\<close>. (An ill-formed payload comes back with replacement characters.)
\<close>

theorem message_dict_roundtrip:
  assumes "utf8_valid (m_value m)"
  shows "from_dict uid now (to_dict m) = Inr m \<and> clone uid now [] m = Inr m"
  using assms
  by (simp add: from_dict_to_dict_replace clone_def utf8_replace_valid utf8_encode_decode)

theorem message_dict_roundtrip_witness:
  "from_dict ''u'' 0 (to_dict (message_new ''m1'' 5 ''orders'' [0x68, 0xC3, 0xA9] None [])) =
     Inr (message_new ''m1'' 5 ''orders'' [0x68, 0xC3, 0xA9] None [])"
proof -
  have v: "utf8_valid [0x68, 0xC3, 0xA9]" by code_simp
  show ?thesis
    using message_dict_roundtrip [of "message_new ''m1'' 5 ''orders'' [0x68, 0xC3, 0xA9] None []" "''u''" 0] v
    by (simp add: message_new_def)
qed

subsection \<open>Batches\<close>

text \<open>A batch is the list of its messages' references.\<close>

type_synonym batch = "mref list"

definition batch_add :: "mref \<Rightarrow> batch \<Rightarrow> batch" where
  "batch_add r b = b @ [r]"

definition batch_extend :: "mref list \<Rightarrow> batch \<Rightarrow> batch" where
  "batch_extend rs b = b @ rs"

definition batch_size :: "batch \<Rightarrow> nat" where
  "batch_size b = length b"

definition batch_total_bytes :: "mstore \<Rightarrow> batch \<Rightarrow> nat" where
  "batch_total_bytes ms b = sum_list (map (\<lambda>r. size_bytes (ms r)) b)"

definition batch_by_topic :: "mstore \<Rightarrow> batch \<Rightarrow> (string, mref list) dict" where
  "batch_by_topic ms b = group_by (\<lambda>r. m_topic (ms r)) b"

definition batch_by_partition :: "mstore \<Rightarrow> batch \<Rightarrow> (string \<times> int, mref list) dict" where
  "batch_by_partition ms b = group_by (\<lambda>r. (m_topic (ms r), m_partition (ms r))) b"

definition batch_clear :: "batch \<Rightarrow> batch" where
  "batch_clear b = []"

definition batch_new :: "mref list option \<Rightarrow> batch" where
  "batch_new messages = (case messages of None \<Rightarrow> [] | Some rs \<Rightarrow> rs)"

definition batch_messages :: "batch \<Rightarrow> mref list" where
  "batch_messages b = b"

subsection \<open>JSON text\<close>

text \<open>
  \<open>to_bytes\<close> and \<open>from_bytes\<close> of messages and batches; \<open>dumps\<close> and \<open>loads\<close> are those of the JSON library.
  A value that is no object has no \<open>get\<close>. Iterating over an object gives its keys and over a string its
  characters, none of which has one either.
\<close>

definition message_value_str :: "message \<Rightarrow> string result" where
  "message_value_str m = utf8_decode (m_value m)"

definition message_to_bytes :: "(json \<Rightarrow> string) \<Rightarrow> message \<Rightarrow> byte list" where
  "message_to_bytes dumps m = utf8_encode (dumps (JDict (to_dict m)))"

definition from_json :: "string \<Rightarrow> real \<Rightarrow> json \<Rightarrow> message result" where
  "from_json uid now j = (case j of JDict d \<Rightarrow> from_dict uid now d | _ \<Rightarrow> Inl AttributeError)"

definition message_from_bytes ::
    "(string \<Rightarrow> json result) \<Rightarrow> string \<Rightarrow> real \<Rightarrow> byte list \<Rightarrow> message result" where
  "message_from_bytes loads uid now data = bind_r (bind_r (utf8_decode data) loads) (from_json uid now)"

definition batch_to_bytes :: "(json \<Rightarrow> string) \<Rightarrow> mstore \<Rightarrow> batch \<Rightarrow> byte list" where
  "batch_to_bytes dumps ms b = utf8_encode (dumps (JList (map (\<lambda>r. JDict (to_dict (ms r))) b)))"

definition json_items :: "json \<Rightarrow> json list result" where
  "json_items j =
     (case j of
        JList js \<Rightarrow> Inr js
      | JDict d \<Rightarrow> Inr (map (\<lambda>(k, _). JStr k) d)
      | JStr s \<Rightarrow> Inr (map (\<lambda>c. JStr [c]) s)
      | _ \<Rightarrow> Inl TypeError)"

text \<open>Item \<open>i\<close> gets the fresh id \<open>uid i\<close> and the time \<open>now i\<close> where its own are missing.\<close>

fun messages_from :: "(nat \<Rightarrow> string) \<Rightarrow> (nat \<Rightarrow> real) \<Rightarrow> nat \<Rightarrow> json list \<Rightarrow> message list result" where
  "messages_from uid now i [] = Inr []"
| "messages_from uid now i (j # js) =
     bind_r (from_json (uid i) (now i) j) (\<lambda>m. bind_r (messages_from uid now (i + 1) js) (\<lambda>msgs. Inr (m # msgs)))"

definition batch_from_bytes ::
    "(string \<Rightarrow> json result) \<Rightarrow> (nat \<Rightarrow> string) \<Rightarrow> (nat \<Rightarrow> real) \<Rightarrow> byte list \<Rightarrow> message list result" where
  "batch_from_bytes loads uid now data =
     bind_r (bind_r (utf8_decode data) loads) (\<lambda>j. bind_r (json_items j) (messages_from uid now 0))"

lemma messages_from_dicts:
  "\<forall>m \<in> set msgs. utf8_valid (m_value m) \<Longrightarrow>
     messages_from uid now i (map (\<lambda>m. JDict (to_dict m)) msgs) = Inr msgs"
  by (induction msgs arbitrary: i)
    (simp_all add: from_json_def from_dict_to_dict_replace utf8_replace_valid utf8_encode_decode)

text \<open>A batch written as bytes is read back message by message, every field included, whenever the
  payloads are valid UTF-8; of the JSON library it is used that it reads back the text it wrote for
  this very batch, and that this text is valid UTF-8.\<close>

theorem batch_bytes_roundtrip:
  assumes "\<forall>r \<in> set b. utf8_valid (m_value (ms r))"
    and "loads (dumps (JList (map (\<lambda>r. JDict (to_dict (ms r))) b))) = Inr (JList (map (\<lambda>r. JDict (to_dict (ms r))) b))"
    and "utf8_valid (utf8_encode (dumps (JList (map (\<lambda>r. JDict (to_dict (ms r))) b))))"
  shows "batch_from_bytes loads uid now (batch_to_bytes dumps ms b) = Inr (map ms b)"
  using assms messages_from_dicts [of "map ms b" uid now 0] utf8_decode_encode [OF assms(3)]
  by (simp add: batch_from_bytes_def batch_to_bytes_def json_items_def comp_def)

theorem batch_bytes_roundtrip_witness:
  "\<exists>dumps loads. batch_from_bytes loads (\<lambda>_. []) (\<lambda>_. 0)
      (batch_to_bytes dumps (\<lambda>_. message_new ''m1'' 5 ''orders'' [0x68, 0xC3, 0xA9] None []) [0, 1])
    = Inr (map (\<lambda>_. message_new ''m1'' 5 ''orders'' [0x68, 0xC3, 0xA9] None []) [0 :: nat, 1])"
proof -
  let ?m = "message_new ''m1'' 5 ''orders'' [0x68, 0xC3, 0xA9] None []"
  let ?j = "JList (map (\<lambda>r :: nat. JDict (to_dict ?m)) [0, 1])"
  have "utf8_valid [0x68, 0xC3, 0xA9]" "utf8_valid (utf8_encode ''b'')" by code_simp+
  then have "batch_from_bytes (\<lambda>_. Inr ?j) (\<lambda>_. []) (\<lambda>_. 0) (batch_to_bytes (\<lambda>_. ''b'') (\<lambda>_. ?m) [0, 1])
      = Inr (map (\<lambda>_. ?m) [0 :: nat, 1])"
    by (intro batch_bytes_roundtrip) (simp_all add: message_new_def)
  then show ?thesis by blast
qed

end
