(* ===== verification/Big_Endian.thy ===== *)
theory Big_Endian
  imports Message
begin

section \<open>Packed integers\<close>

text \<open>
  Integers in network byte order, as \<open>struct.pack\<close> and \<open>struct.unpack\<close> write and read them: shared
  by the frames of the wire protocol and the binary serializer.
\<close>

subsection \<open>Big-endian integers\<close>

fun be_bytes :: "nat \<Rightarrow> nat \<Rightarrow> byte list" where
  "be_bytes 0 x = []"
| "be_bytes (Suc n) x = be_bytes n (x div 256) @ [word_of_nat (x mod 256)]"

definition be_nat :: "byte list \<Rightarrow> nat" where
  "be_nat bs = foldl (\<lambda>a b. a * 256 + unat b) 0 bs"

lemma length_be_bytes [simp]: "length (be_bytes n x) = n"
  by (induction n x rule: be_bytes.induct) simp_all

lemma be_nat_snoc [simp]: "be_nat (bs @ [b]) = be_nat bs * 256 + unat b"
  by (simp add: be_nat_def)

lemma be_nat_bytes: "be_nat (be_bytes n x) = x mod 256 ^ n"
proof (induction n x rule: be_bytes.induct)
  case (1 x)
  then show ?case by (simp add: be_nat_def)
next
  case (2 n x)
  have "unat (word_of_nat (x mod 256) :: byte) = x mod 256"
    by (simp add: unat_of_nat take_bit_eq_mod)
  moreover have "x mod (256 * 256 ^ n) = 256 * (x div 256 mod 256 ^ n) + x mod 256"
    by (rule mod_mult2_eq)
  ultimately show ?case using 2 by simp
qed

text \<open>\<open>struct.pack\<close> for an unsigned and a signed field of \<open>n\<close> bytes: out of range is struct.error.\<close>

definition pack_unsigned :: "nat \<Rightarrow> int \<Rightarrow> byte list result" where
  "pack_unsigned n x = (if 0 \<le> x \<and> x < 256 ^ n then Inr (be_bytes n (nat x)) else Inl StructError)"

definition pack_i32 :: "int \<Rightarrow> byte list result" where
  "pack_i32 x = (if - (2 ^ 31) \<le> x \<and> x < 2 ^ 31
     then Inr (be_bytes 4 (unat (word_of_int x :: 32 word))) else Inl StructError)"

definition unpack_i32 :: "byte list \<Rightarrow> int" where
  "unpack_i32 bs = sint (word_of_nat (be_nat bs) :: 32 word)"

lemma unpack_pack_unsigned:
  "pack_unsigned n x = Inr bs \<Longrightarrow> int (be_nat bs) = x \<and> length bs = n"
  by (auto simp: pack_unsigned_def be_nat_bytes nat_less_iff split: if_splits)

lemma unpack_pack_i32: "pack_i32 x = Inr bs \<Longrightarrow> unpack_i32 bs = x \<and> length bs = 4"
proof -
  assume "pack_i32 x = Inr bs"
  then have x: "- (2 ^ 31) \<le> x" "x < 2 ^ 31" and bs: "bs = be_bytes 4 (unat (word_of_int x :: 32 word))"
    by (auto simp: pack_i32_def split: if_splits)
  have "unat (word_of_int x :: 32 word) < 2 ^ 32"
    using unsigned_less [of "word_of_int x :: 32 word"] by simp
  then have "be_nat bs = unat (word_of_int x :: 32 word)" by (simp add: bs be_nat_bytes)
  then have "unpack_i32 bs = sint (word_of_int x :: 32 word)" by (simp add: unpack_i32_def)
  also have "\<dots> = x" using x by (simp add: sint_sbintrunc' signed_take_bit_int_eq_self)
  finally show ?thesis by (simp add: bs)
qed

end
