(* ===== verification/Logs.thy ===== *)
theory Logs
  imports Prelude
begin

section \<open>What the logs have in common\<close>

text \<open>
  Partitions (\<^verbatim>\<open>partition.py\<close>) and the write-ahead log (\<^verbatim>\<open>storage.py\<close>) share two things, which
  are stated here once: key-based compaction, written out in both files with the same two loops,
  and the contract of a log that is read by offset (\<open>offset_log\<close>), from which it follows that a
  reader that keeps asking for the entries after the last one it got sees every entry once.
\<close>

subsection \<open>Compaction\<close>

text \<open>
  The two loops of \<open>compact\<close>: \<open>latest_by_key\<close> records, per key, the index of its last entry;
  the second pass keeps the entries without a key and those whose index is the recorded one.
\<close>

definition latest_step :: "('a \<Rightarrow> 'k option) \<Rightarrow> nat \<times> 'a \<Rightarrow> ('k, nat) dict \<Rightarrow> ('k, nat) dict" where
  "latest_step keyf ix d = (case keyf (snd ix) of None \<Rightarrow> d | Some k \<Rightarrow> dict_set k (fst ix) d)"

definition latest_by_key :: "('a \<Rightarrow> 'k option) \<Rightarrow> 'a list \<Rightarrow> ('k, nat) dict" where
  "latest_by_key keyf xs = fold (latest_step keyf) (enumerate 0 xs) []"

definition compact_entries :: "('a \<Rightarrow> 'k option) \<Rightarrow> 'a list \<Rightarrow> 'a list" where
  "compact_entries keyf xs =
     (let latest = latest_by_key keyf xs
      in map snd (filter (\<lambda>(i, x). case keyf x of
                                     None \<Rightarrow> True
                                   | Some k \<Rightarrow> dict_get latest k = Some i) (enumerate 0 xs)))"

text \<open>The specification: drop an entry when a later one has the same key.\<close>

fun keep_latest :: "('a \<Rightarrow> 'k option) \<Rightarrow> 'a list \<Rightarrow> 'a list" where
  "keep_latest keyf [] = []"
| "keep_latest keyf (x # xs) =
     (if keyf x \<noteq> None \<and> keyf x \<in> keyf ` set xs then keep_latest keyf xs
      else x # keep_latest keyf xs)"

fun last_index :: "('a \<Rightarrow> 'k option) \<Rightarrow> nat \<Rightarrow> 'a list \<Rightarrow> 'k \<Rightarrow> nat option" where
  "last_index keyf n [] k = None"
| "last_index keyf n (x # xs) k =
     (case last_index keyf (Suc n) xs k of
        Some i \<Rightarrow> Some i
      | None \<Rightarrow> if keyf x = Some k then Some n else None)"

lemma last_index_None: "last_index keyf n xs k = None \<longleftrightarrow> Some k \<notin> keyf ` set xs"
proof (induction xs arbitrary: n)
  case Nil
  then show ?case by simp
next
  case (Cons x xs)
  show ?case
    using Cons.IH [of "Suc n"] by (cases "last_index keyf (Suc n) xs k") auto
qed

lemma last_index_ge: "last_index keyf n xs k = Some i \<Longrightarrow> n \<le> i"
proof (induction xs arbitrary: n)
  case Nil
  then show ?case by simp
next
  case (Cons x xs)
  then show ?case by (auto split: option.splits if_splits dest: Suc_leD)
qed

lemma latest_by_key_fold:
  "dict_get (fold (latest_step keyf) (enumerate n xs) d) k =
     (case last_index keyf n xs k of Some i \<Rightarrow> Some i | None \<Rightarrow> dict_get d k)"
  by (induction xs arbitrary: n d) (auto simp: latest_step_def split: option.splits)

lemma compact_filter:
  assumes "\<And>k. Some k \<in> keyf ` set xs \<Longrightarrow> dict_get D k = last_index keyf n xs k"
  shows "map snd (filter (\<lambda>(i, x). case keyf x of None \<Rightarrow> True | Some k \<Rightarrow> dict_get D k = Some i)
           (enumerate n xs)) = keep_latest keyf xs"
  using assms
proof (induction xs arbitrary: n)
  case Nil
  then show ?case by simp
next
  case (Cons x xs)
  have tail: "dict_get D k = last_index keyf (Suc n) xs k" if "Some k \<in> keyf ` set xs" for k
    using that Cons.prems [of k] by (auto simp: last_index_None split: option.splits)
  note IH = Cons.IH [OF tail]
  show ?case
  proof (cases "keyf x")
    case None
    with IH show ?thesis by simp
  next
    case (Some k)
    have "dict_get D k = Some n \<longleftrightarrow> Some k \<notin> keyf ` set xs"
      using Some Cons.prems [of k] last_index_ge [of keyf "Suc n" xs k]
        last_index_None [of keyf "Suc n" xs k]
      by (auto split: option.splits)
    with IH Some show ?thesis by simp
  qed
qed

lemma compact_entries_spec: "compact_entries keyf xs = keep_latest keyf xs"
  unfolding compact_entries_def Let_def
  by (rule compact_filter)
    (simp add: latest_by_key_def latest_by_key_fold split: option.splits)

lemma subseq_keep_latest: "subseq (keep_latest keyf xs) xs"
  by (induction xs) auto

lemma set_keep_latest: "set (keep_latest keyf xs) \<subseteq> set xs"
  by (induction xs) auto

lemma keep_latest_unkeyed: "x \<in> set xs \<Longrightarrow> keyf x = None \<Longrightarrow> x \<in> set (keep_latest keyf xs)"
  by (induction xs) auto

lemma keep_latest_last: "keyf x = Some k \<Longrightarrow> Some k \<notin> keyf ` set ys \<Longrightarrow>
    x \<in> set (keep_latest keyf (xs @ x # ys))"
  by (induction xs) auto

lemma keep_latest_mid:
  "distinct (xs @ x # ys) \<Longrightarrow> keyf x \<noteq> None \<Longrightarrow>
     x \<in> set (keep_latest keyf (xs @ x # ys)) \<longleftrightarrow> (\<forall>y \<in> set ys. keyf y \<noteq> keyf x)"
proof (induction xs)
  case Nil
  then show ?case using set_keep_latest [of keyf ys] by (auto simp: image_iff)
qed auto

lemma keep_latest_keys: "keyf ` set (keep_latest keyf xs) = keyf ` set xs"
  by (induction xs) auto

lemma last_keep_latest: "xs \<noteq> [] \<Longrightarrow> last (keep_latest keyf xs) = last xs"
proof (induction xs)
  case (Cons x xs)
  have "keep_latest keyf xs \<noteq> []" if "xs \<noteq> []"
    using that keep_latest_keys [of keyf xs] by auto
  with Cons show ?case by auto
qed simp

lemma keep_latest_distinct:
  "distinct (map keyf (filter (\<lambda>x. keyf x \<noteq> None) (keep_latest keyf xs)))"
proof (induction xs)
  case Nil
  then show ?case by simp
next
  case (Cons x xs)
  have "keyf x \<notin> keyf ` set (keep_latest keyf xs)" if "keyf x \<notin> keyf ` set xs"
    using that by (simp add: keep_latest_keys)
  with Cons show ?case by auto
qed

lemma keep_latest_idem: "keep_latest keyf (keep_latest keyf xs) = keep_latest keyf xs"
  by (induction xs) (auto simp: keep_latest_keys)

lemma sorted_wrt_subseq: "subseq ys xs \<Longrightarrow> sorted_wrt P xs \<Longrightarrow> sorted_wrt P ys"
proof (induction rule: list_emb.induct)
  case (list_emb_Cons2 x y xs ys)
  then show ?case by (auto dest: list_emb_set)
qed auto

lemma distinct_subseq: "subseq ys xs \<Longrightarrow> distinct xs \<Longrightarrow> distinct ys"
proof (induction rule: list_emb.induct)
  case (list_emb_Cons2 x y xs ys)
  then show ?case by (auto dest: list_emb_set)
qed auto

subsection \<open>Reading by offset\<close>

text \<open>
  A reader with a position: it reads up to \<open>n\<close> entries, moves its position behind the last one
  and goes on until nothing is returned. \<open>fuel\<close> bounds the number of reads.
\<close>

fun drain :: "(int \<Rightarrow> int \<Rightarrow> 'e list) \<Rightarrow> ('e \<Rightarrow> int) \<Rightarrow> nat \<Rightarrow> int \<Rightarrow> int \<Rightarrow> 'e list" where
  "drain rd off 0 pos n = []"
| "drain rd off (Suc fuel) pos n =
     (case rd pos n of
        [] \<Rightarrow> []
      | e # es \<Rightarrow> (e # es) @ drain rd off fuel (off (last (e # es)) + 1) n)"

text \<open>With consecutive offsets, the entries from an offset on are a suffix, found by index.\<close>

lemma filter_consecutive:
  fixes f :: "'e \<Rightarrow> int"
  assumes "\<And>i. i < length xs \<Longrightarrow> f (xs ! i) = b + int i"
  shows "filter (\<lambda>x. pos \<le> f x) xs = drop (nat (pos - b)) xs"
  using assms
proof (induction xs arbitrary: b)
  case Nil
  then show ?case by simp
next
  case (Cons x xs)
  have x: "f x = b" using Cons.prems [of 0] by simp
  have "f (xs ! i) = (b + 1) + int i" if "i < length xs" for i
    using Cons.prems [of "Suc i"] that by simp
  then have IH: "filter (\<lambda>x. pos \<le> f x) xs = drop (nat (pos - (b + 1))) xs"
    by (rule Cons.IH)
  show ?case
  proof (cases "pos \<le> b")
    case True
    with IH x show ?thesis by simp
  next
    case False
    then have "nat (pos - b) = Suc (nat (pos - (b + 1)))" by simp
    with IH x False show ?thesis by simp
  qed
qed

lemma find_consecutive:
  fixes f :: "'e \<Rightarrow> int"
  assumes "\<And>i. i < length xs \<Longrightarrow> f (xs ! i) = b + int i"
  shows "List.find (\<lambda>x. f x = pos) xs =
    (if 0 \<le> pos - b \<and> pos - b < int (length xs) then Some (xs ! nat (pos - b)) else None)"
  using assms
proof (induction xs arbitrary: b)
  case Nil
  then show ?case by simp
next
  case (Cons x xs)
  have x: "f x = b" using Cons.prems [of 0] by simp
  have "f (xs ! i) = (b + 1) + int i" if "i < length xs" for i
    using Cons.prems [of "Suc i"] that by simp
  moreover have "nat (pos - b) - Suc 0 = nat (pos - (b + 1))" by arith
  ultimately show ?case
    using Cons.IH [of "b + 1"] x by (auto simp: nth_Cons')
qed

text \<open>
  The contract of a log read by offset: offsets grow strictly along the log and stay below the
  next offset, and a read returns the first entries at or after the requested offset.
\<close>

locale offset_log =
  fixes invar :: "'s \<Rightarrow> bool"
    and entries :: "'s \<Rightarrow> 'e list"
    and off :: "'s \<Rightarrow> 'e \<Rightarrow> int"
    and next_off :: "'s \<Rightarrow> int"
    and rd :: "'s \<Rightarrow> int \<Rightarrow> int \<Rightarrow> 'e list"
  assumes increasing: "invar s \<Longrightarrow> sorted_wrt (<) (map (off s) (entries s))"
    and below_next: "invar s \<Longrightarrow> e \<in> set (entries s) \<Longrightarrow> off s e < next_off s"
    and read_spec: "invar s \<Longrightarrow> 0 \<le> n \<Longrightarrow>
          rd s pos n = take (nat n) (filter (\<lambda>e. pos \<le> off s e) (entries s))"
begin

lemma read_at_end: "invar s \<Longrightarrow> 0 \<le> n \<Longrightarrow> next_off s \<le> pos \<Longrightarrow> rd s pos n = []"
  using below_next [of s] by (fastforce simp: read_spec filter_empty_conv)

lemma rest_after_take:
  fixes f :: "'e \<Rightarrow> int"
  assumes "sorted_wrt (<) (map f xs)" and "0 < k" and "filter (\<lambda>e. pos \<le> f e) xs \<noteq> []"
  shows "filter (\<lambda>e. f (last (take k (filter (\<lambda>e. pos \<le> f e) xs))) + 1 \<le> f e) xs
           = drop k (filter (\<lambda>e. pos \<le> f e) xs)"
  using assms
proof (induction xs arbitrary: pos k)
  case Nil
  then show ?case by simp
next
  case (Cons x xs)
  have gt: "\<forall>y \<in> set xs. f x < f y" and srt: "sorted_wrt (<) (map f xs)"
    using Cons.prems(1) by auto
  show ?case
  proof (cases "pos \<le> f x")
    case False
    with Cons.prems have ne: "filter (\<lambda>e. pos \<le> f e) xs \<noteq> []" by simp
    let ?l = "last (take k (filter (\<lambda>e. pos \<le> f e) xs))"
    have "?l \<in> set (filter (\<lambda>e. pos \<le> f e) xs)"
      using ne Cons.prems(2) by (rule last_take_in)
    then have "f x < f ?l" using gt by simp
    with Cons.IH [OF srt Cons.prems(2) ne] False show ?thesis by simp
  next
    case True
    with gt have all: "filter (\<lambda>e. pos \<le> f e) xs = xs" by (force simp: filter_id_conv)
    obtain j where k: "k = Suc j" using Cons.prems(2) by (cases k) auto
    show ?thesis
    proof (cases "j = 0 \<or> xs = []")
      case True
      with all gt k \<open>pos \<le> f x\<close> show ?thesis
        by (fastforce simp: filter_id_conv)
    next
      case False
      let ?l = "last (take j xs)"
      have "?l \<in> set xs" using False by (auto intro: last_take_in)
      moreover have "filter (\<lambda>e. f x + 1 \<le> f e) xs = xs"
        using gt by (force simp: filter_id_conv)
      ultimately show ?thesis
        using Cons.IH [OF srt, of j "f x + 1"] False gt k all \<open>pos \<le> f x\<close> by auto
    qed
  qed
qed

text \<open>No entry is skipped and none is seen twice, whatever the size of the reads.\<close>

lemma drain_complete:
  assumes "invar s" and "0 < n" and "length (filter (\<lambda>e. pos \<le> off s e) (entries s)) < fuel"
  shows "drain (rd s) (off s) fuel pos n = filter (\<lambda>e. pos \<le> off s e) (entries s)"
  using assms(3)
proof (induction fuel arbitrary: pos)
  case 0
  then show ?case by simp
next
  case (Suc fuel)
  let ?F = "filter (\<lambda>e. pos \<le> off s e) (entries s)"
  have rd: "rd s pos n = take (nat n) ?F" using assms by (simp add: read_spec)
  show ?case
  proof (cases "?F = []")
    case True
    with rd show ?thesis by simp
  next
    case False
    let ?pos = "off s (last (take (nat n) ?F)) + 1"
    have rest: "filter (\<lambda>e. ?pos \<le> off s e) (entries s) = drop (nat n) ?F"
      using rest_after_take [OF increasing [OF assms(1)], of "nat n" pos] False assms(2) by simp
    obtain e es where ees: "take (nat n) ?F = e # es"
      using False assms(2) by (cases "take (nat n) ?F") auto
    have "length (drop (nat n) ?F) < fuel"
      using Suc.prems assms(2) False by (cases ?F) auto
    then have "drain (rd s) (off s) fuel ?pos n = drop (nat n) ?F"
      using Suc.IH [of ?pos] rest by simp
    then have "drain (rd s) (off s) (Suc fuel) pos n = take (nat n) ?F @ drop (nat n) ?F"
      using rd ees by simp
    then show ?thesis by simp
  qed
qed

end

end
