(* ===== verification/Partition.thy ===== *)
theory Partition
  imports Message Logs
begin

section \<open>Partitions\<close>

text \<open>
  \<^verbatim>\<open>partition.py\<close>: an append-only list of messages with consecutive offsets, the committed offsets
  of the consumer groups, retention and compaction. The log holds references into the message
  store, because \<open>append\<close> writes the partition, the offset and the broker timestamp into the
  message object it is given. Every method runs under the partition's lock, so each is one step;
  the clock readings (\<open>time.time()\<close>) are arguments. The creation time is not modelled, no
  operation reads it.
\<close>

record partition =
  p_topic :: string
  p_id :: int
  p_max_size :: int
  p_retention_ms :: int
  p_log :: "mref list"
  p_next_offset :: int
  p_committed :: "(string, int) dict"

definition partition_new :: "string \<Rightarrow> int \<Rightarrow> int \<Rightarrow> int \<Rightarrow> partition" where
  "partition_new topic pid max_size retention =
     \<lparr>p_topic = topic, p_id = pid, p_max_size = max_size, p_retention_ms = retention,
      p_log = [], p_next_offset = 0, p_committed = []\<rparr>"

definition current_offset :: "partition \<Rightarrow> int" where
  "current_offset p = p_next_offset p"

definition earliest_offset :: "mstore \<Rightarrow> partition \<Rightarrow> int" where
  "earliest_offset ms p = (case p_log p of [] \<Rightarrow> p_next_offset p | r # _ \<Rightarrow> m_offset (ms r))"

definition partition_size :: "partition \<Rightarrow> nat" where
  "partition_size p = length (p_log p)"

definition partition_size_bytes :: "mstore \<Rightarrow> partition \<Rightarrow> nat" where
  "partition_size_bytes ms p = sum_list (map (\<lambda>r. size_bytes (ms r)) (p_log p))"

definition stamp :: "real \<Rightarrow> int \<Rightarrow> int \<Rightarrow> message \<Rightarrow> message" where
  "stamp now pid offset m =
     m\<lparr>m_partition := pid, m_offset := offset, m_broker_timestamp := now\<rparr>"

definition partition_append ::
    "real \<Rightarrow> mstore \<Rightarrow> partition \<Rightarrow> mref \<Rightarrow> (mstore \<times> partition) \<times> int result" where
  "partition_append now ms p r =
     (if p_max_size p > 0 \<and> int (length (p_log p)) \<ge> p_max_size p
      then ((ms, p), Inl ValueError)
      else
        (let offset = p_next_offset p;
             ms' = ms(r := stamp now (p_id p) offset (ms r));
             p' = p\<lparr>p_log := p_log p @ [r], p_next_offset := p_next_offset p + 1\<rparr>
         in ((ms', p'), Inr offset)))"

definition partition_read :: "mstore \<Rightarrow> partition \<Rightarrow> int \<Rightarrow> int \<Rightarrow> mref list" where
  "partition_read ms p offset max_messages =
     (case p_log p of
        [] \<Rightarrow> []
      | r # _ \<Rightarrow>
          let base_offset = m_offset (ms r);
              start = offset - base_offset;
              start_idx = (if start < 0 then 0 else start)
          in if start_idx \<ge> int (length (p_log p)) then []
             else py_slice (p_log p) start_idx
                    (min (start_idx + max_messages) (int (length (p_log p)))))"

definition partition_read_at :: "mstore \<Rightarrow> partition \<Rightarrow> int \<Rightarrow> mref option" where
  "partition_read_at ms p offset =
     (case p_log p of
        [] \<Rightarrow> None
      | r # _ \<Rightarrow>
          let idx = offset - m_offset (ms r)
          in if 0 \<le> idx \<and> idx < int (length (p_log p)) then Some (p_log p ! nat idx) else None)"

definition commit_offset :: "string \<Rightarrow> int \<Rightarrow> partition \<Rightarrow> partition" where
  "commit_offset group_id offset p =
     p\<lparr>p_committed := dict_set group_id offset (p_committed p)\<rparr>"

definition get_committed_offset :: "partition \<Rightarrow> string \<Rightarrow> int" where
  "get_committed_offset p group_id = dict_get_default (p_committed p) group_id 0"

definition consumer_lag :: "partition \<Rightarrow> string \<Rightarrow> int" where
  "consumer_lag p group_id =
     max 0 (p_next_offset p - dict_get_default (p_committed p) group_id 0)"

definition partition_apply_retention :: "real \<Rightarrow> mstore \<Rightarrow> partition \<Rightarrow> partition \<times> int" where
  "partition_apply_retention now ms p =
     (if p_retention_ms p \<le> 0 then (p, 0)
      else
        (let cutoff = now - of_int (p_retention_ms p) / 1000;
             log' = filter (\<lambda>r. m_broker_timestamp (ms r) \<ge> cutoff) (p_log p)
         in (p\<lparr>p_log := log'\<rparr>, int (length (p_log p)) - int (length log'))))"

definition partition_compact :: "mstore \<Rightarrow> partition \<Rightarrow> partition \<times> int" where
  "partition_compact ms p =
     (let compacted = compact_entries (\<lambda>r. m_key (ms r)) (p_log p)
      in (p\<lparr>p_log := compacted\<rparr>, int (length (p_log p)) - int (length compacted)))"

definition partition_clear :: "partition \<Rightarrow> partition" where
  "partition_clear p = p\<lparr>p_log := []\<rparr>"

record partition_info =
  pi_topic :: string
  pi_id :: int
  pi_current :: int
  pi_earliest :: int
  pi_count :: nat
  pi_bytes :: nat
  pi_committed :: "(string, int) dict"

definition partition_snapshot :: "mstore \<Rightarrow> partition \<Rightarrow> partition_info" where
  "partition_snapshot ms p =
     \<lparr>pi_topic = p_topic p, pi_id = p_id p, pi_current = p_next_offset p,
      pi_earliest = earliest_offset ms p, pi_count = length (p_log p),
      pi_bytes = partition_size_bytes ms p, pi_committed = p_committed p\<rparr>"

subsection \<open>Invariants\<close>

text \<open>
  \<open>ordered\<close> holds in every reachable state: no message object twice in the log, offsets strictly
  increasing, below the next offset and not negative, and every message carrying this
  partition's number. \<open>dense\<close> is what the index arithmetic of \<open>read\<close> needs on top: the offsets
  are consecutive and end at the next one. Compaction keeps only the first.
\<close>

abbreviation offsets :: "mstore \<Rightarrow> partition \<Rightarrow> int list" where
  "offsets ms p \<equiv> map (\<lambda>r. m_offset (ms r)) (p_log p)"

definition ordered :: "mstore \<Rightarrow> partition \<Rightarrow> bool" where
  "ordered ms p \<longleftrightarrow>
     distinct (p_log p) \<and> sorted_wrt (<) (offsets ms p) \<and> 0 \<le> p_next_offset p \<and>
     (\<forall>r \<in> set (p_log p). 0 \<le> m_offset (ms r) \<and> m_offset (ms r) < p_next_offset p
                          \<and> m_partition (ms r) = p_id p)"

definition dense :: "mstore \<Rightarrow> partition \<Rightarrow> bool" where
  "dense ms p \<longleftrightarrow>
     (\<forall>i < length (p_log p).
        m_offset (ms (p_log p ! i)) = p_next_offset p - int (length (p_log p)) + int i)"

lemma orderedD:
  assumes "ordered ms p"
  shows "distinct (p_log p)" and "sorted_wrt (<) (offsets ms p)" and "0 \<le> p_next_offset p"
    and "r \<in> set (p_log p) \<Longrightarrow> m_offset (ms r) < p_next_offset p"
    and "r \<in> set (p_log p) \<Longrightarrow> 0 \<le> m_offset (ms r)"
  using assms by (auto simp: ordered_def)

lemma denseD: "dense ms p \<Longrightarrow> i < length (p_log p) \<Longrightarrow>
    m_offset (ms (p_log p ! i)) = p_next_offset p - int (length (p_log p)) + int i"
  by (simp add: dense_def)

text \<open>Only the offsets and partition numbers of the messages in the log matter.\<close>

lemma ordered_cong:
  assumes "\<And>r. r \<in> set (p_log p) \<Longrightarrow>
    m_offset (ms' r) = m_offset (ms r) \<and> m_partition (ms' r) = m_partition (ms r)"
  shows "ordered ms' p = ordered ms p"
proof -
  have o: "offsets ms' p = offsets ms p" using assms by simp
  have q: "(\<forall>r \<in> set (p_log p). 0 \<le> m_offset (ms' r) \<and> m_offset (ms' r) < p_next_offset p
              \<and> m_partition (ms' r) = p_id p)
         = (\<forall>r \<in> set (p_log p). 0 \<le> m_offset (ms r) \<and> m_offset (ms r) < p_next_offset p
              \<and> m_partition (ms r) = p_id p)"
    using assms by simp
  show ?thesis by (simp only: ordered_def o q)
qed

lemma dense_cong:
  assumes "\<And>r. r \<in> set (p_log p) \<Longrightarrow> m_offset (ms' r) = m_offset (ms r)"
  shows "dense ms' p = dense ms p"
  using assms by (simp add: dense_def)

lemma ordered_new: "ordered ms (partition_new t i mx ret)"
  by (simp add: ordered_def partition_new_def)

lemma dense_new: "dense ms (partition_new t i mx ret)"
  by (simp add: dense_def partition_new_def)

lemma ordered_subseq:
  assumes "ordered ms p" and "subseq log' (p_log p)"
  shows "ordered ms (p\<lparr>p_log := log'\<rparr>)"
proof -
  have "subseq (map (\<lambda>r. m_offset (ms r)) log') (offsets ms p)"
    using assms(2) by (rule subseq_map)
  moreover have "set log' \<subseteq> set (p_log p)" using assms(2) by (auto dest: list_emb_set)
  ultimately show ?thesis
    using assms distinct_subseq sorted_wrt_subseq by (fastforce simp: ordered_def)
qed

text \<open>What an append does to the log and to the messages, when the object is not yet in the log.\<close>

lemma partition_append_ok:
  assumes "partition_append now ms p r = ((ms', p'), Inr off)"
  shows "off = p_next_offset p" and "ms' = ms(r := stamp now (p_id p) off (ms r))"
    and "p' = p\<lparr>p_log := p_log p @ [r], p_next_offset := p_next_offset p + 1\<rparr>"
  using assms by (auto simp: partition_append_def Let_def split: if_splits)

lemma partition_append_err:
  "partition_append now ms p r = ((ms', p'), Inl e) \<Longrightarrow>
     ms' = ms \<and> p' = p \<and> e = ValueError \<and> 0 < p_max_size p \<and> p_max_size p \<le> int (length (p_log p))"
  by (auto simp: partition_append_def Let_def split: if_splits)

lemma stamp_sel [simp]:
  "m_offset (stamp now i k m) = k" "m_partition (stamp now i k m) = i"
  "m_broker_timestamp (stamp now i k m) = now" "m_key (stamp now i k m) = m_key m"
  "m_value (stamp now i k m) = m_value m" "m_id (stamp now i k m) = m_id m"
  "m_topic (stamp now i k m) = m_topic m" "m_priority (stamp now i k m) = m_priority m"
  "m_headers (stamp now i k m) = m_headers m"
  by (simp_all add: stamp_def)

lemma ordered_append:
  assumes "ordered ms p" and "r \<notin> set (p_log p)"
    and "partition_append now ms p r = ((ms', p'), res)"
  shows "ordered ms' p'"
proof (cases res)
  case (Inl e)
  with assms partition_append_err show ?thesis by metis
next
  case (Inr off)
  note ok = partition_append_ok [OF assms(3) [unfolded Inr]]
  have "offsets ms' p' = offsets ms p @ [p_next_offset p]"
    using assms(2) by (auto simp: ok)
  moreover from assms(1) have "sorted_wrt (<) (offsets ms p @ [p_next_offset p])"
    by (auto simp: ordered_def sorted_wrt_append)
  ultimately have "sorted_wrt (<) (offsets ms' p')" by (simp only:)
  with assms(1,2) show ?thesis
    unfolding ordered_def by (auto simp: ok)
qed

lemma dense_append:
  assumes "dense ms p" and "r \<notin> set (p_log p)"
    and "partition_append now ms p r = ((ms', p'), res)"
  shows "dense ms' p'"
proof (cases res)
  case (Inl e)
  with assms partition_append_err show ?thesis by metis
next
  case (Inr off)
  note ok = partition_append_ok [OF assms(3) [unfolded Inr]]
  have "p_log p ! i \<noteq> r" if "i < length (p_log p)" for i
    using that assms(2) nth_mem by fastforce
  with assms(1) show ?thesis
    unfolding ok dense_def by (auto simp: nth_append less_Suc_eq)
qed

lemma retention_subseq: "subseq (p_log (fst (partition_apply_retention now ms p))) (p_log p)"
  by (simp add: partition_apply_retention_def Let_def)

lemma compact_log:
  "p_log (fst (partition_compact ms p)) = keep_latest (\<lambda>r. m_key (ms r)) (p_log p)"
  by (simp add: partition_compact_def Let_def compact_entries_spec)

lemma ordered_retention: "ordered ms p \<Longrightarrow> ordered ms (fst (partition_apply_retention now ms p))"
  by (simp add: partition_apply_retention_def Let_def ordered_subseq)

lemma ordered_compact: "ordered ms p \<Longrightarrow> ordered ms (fst (partition_compact ms p))"
  by (simp add: partition_compact_def Let_def compact_entries_spec ordered_subseq subseq_keep_latest)

lemma ordered_clear: "ordered ms p \<Longrightarrow> ordered ms (partition_clear p)"
  by (simp add: partition_clear_def ordered_subseq)

lemma dense_clear: "dense ms (partition_clear p)"
  by (simp add: partition_clear_def dense_def)

lemma ordered_commit: "ordered ms (commit_offset g k p) = ordered ms p"
  by (simp add: ordered_def commit_offset_def)

lemma dense_commit: "dense ms (commit_offset g k p) = dense ms p"
  by (simp add: dense_def commit_offset_def)

subsection \<open>Reading\<close>

lemma dense_base: "dense ms p \<Longrightarrow> p_log p = r # rs \<Longrightarrow>
    m_offset (ms r) = p_next_offset p - int (length (p_log p))"
  using denseD [of ms p 0] by simp

lemma partition_read_suffix:
  assumes "dense ms p" and "0 \<le> n"
  shows "partition_read ms p pos n =
    take (nat n) (drop (nat (pos - (p_next_offset p - int (length (p_log p))))) (p_log p))"
proof (cases "p_log p")
  case Nil
  then show ?thesis by (simp add: partition_read_def)
next
  case (Cons r rs)
  note base = dense_base [OF assms(1) Cons]
  show ?thesis
    using assms(2) base Cons
    by (auto simp: partition_read_def Let_def py_slice_take_drop nat_le_iff min_def take_all_iff)
qed

lemma partition_read_spec:
  assumes "dense ms p" and "0 \<le> n"
  shows "partition_read ms p pos n = take (nat n) (filter (\<lambda>r. pos \<le> m_offset (ms r)) (p_log p))"
  using filter_consecutive [of "p_log p" "\<lambda>r. m_offset (ms r)"] denseD [OF assms(1)]
  by (simp add: partition_read_suffix [OF assms])

lemma partition_read_at_spec:
  assumes "dense ms p"
  shows "partition_read_at ms p pos = List.find (\<lambda>r. m_offset (ms r) = pos) (p_log p)"
proof (cases "p_log p")
  case Nil
  then show ?thesis by (simp add: partition_read_at_def)
next
  case (Cons r rs)
  show ?thesis
    using find_consecutive [of "p_log p" "\<lambda>r. m_offset (ms r)"] denseD [OF assms]
      dense_base [OF assms Cons] Cons
    by (simp add: partition_read_at_def)
qed

interpretation plog: offset_log
    "\<lambda>(ms, p). ordered ms p \<and> dense ms p"
    "\<lambda>(ms, p). p_log p"
    "\<lambda>(ms, p) r. m_offset (ms r)"
    "\<lambda>(ms, p). p_next_offset p"
    "\<lambda>(ms, p). partition_read ms p"
  by unfold_locales (auto simp: ordered_def partition_read_spec)

subsection \<open>Runs of a partition\<close>

text \<open>
  One rule per method that changes the partition; \<open>append\<close> is labelled with the offset it
  returns. The appended object must not be in the log already: the callers in this repository
  (\<open>Producer.send\<close>, the server's produce handler, the CLI) build a new message for each call.
\<close>

inductive partition_step :: "mstore \<times> partition \<Rightarrow> int option \<Rightarrow> mstore \<times> partition \<Rightarrow> bool" where
  append_ok: "r \<notin> set (p_log p) \<Longrightarrow> partition_append now ms p r = (s', Inr off) \<Longrightarrow>
     partition_step (ms, p) (Some off) s'"
| append_full: "partition_append now ms p r = (s', Inl e) \<Longrightarrow> partition_step (ms, p) None s'"
| commit: "partition_step (ms, p) None (ms, commit_offset g k p)"
| retention: "partition_step (ms, p) None (ms, fst (partition_apply_retention now ms p))"
| compact: "partition_step (ms, p) None (ms, fst (partition_compact ms p))"
| clear: "partition_step (ms, p) None (ms, partition_clear p)"

inductive partition_run :: "mstore \<times> partition \<Rightarrow> int list \<Rightarrow> mstore \<times> partition \<Rightarrow> bool" where
  run_start: "partition_run s [] s"
| run_step: "partition_run s offs t \<Longrightarrow> partition_step t lab u \<Longrightarrow>
     partition_run s (offs @ (case lab of None \<Rightarrow> [] | Some k \<Rightarrow> [k])) u"

definition within_size :: "partition \<Rightarrow> bool" where
  "within_size p \<longleftrightarrow> 0 < p_max_size p \<longrightarrow> int (length (p_log p)) \<le> p_max_size p"

lemma within_size_subseq:
  "within_size p \<Longrightarrow> subseq xs (p_log p) \<Longrightarrow> within_size (p\<lparr>p_log := xs\<rparr>)"
  by (auto simp: within_size_def dest: list_emb_length)

lemma partition_step_ordered: "partition_step s lab t \<Longrightarrow> case_prod ordered s \<Longrightarrow> case_prod ordered t"
proof (induction rule: partition_step.induct)
  case (append_ok r p now ms s' off)
  then show ?case by (cases s') (auto intro: ordered_append)
next
  case (append_full now ms p r s' e)
  then show ?case by (cases s') (auto dest!: partition_append_err)
qed (simp_all add: ordered_retention ordered_compact ordered_clear ordered_commit)

lemma partition_step_size: "partition_step s lab t \<Longrightarrow> within_size (snd s) \<Longrightarrow> within_size (snd t)"
proof (induction rule: partition_step.induct)
  case (append_ok r p now ms s' off)
  then show ?case
    by (cases s') (auto simp: within_size_def partition_append_def Let_def split: if_splits)
next
  case (append_full now ms p r s' e)
  then show ?case by (cases s') (auto dest!: partition_append_err)
next
  case (retention ms p now)
  then show ?case
    by (auto simp: partition_apply_retention_def Let_def intro: within_size_subseq)
next
  case (compact ms p)
  then show ?case
    by (simp add: partition_compact_def Let_def compact_entries_spec within_size_subseq
        subseq_keep_latest)
qed (auto simp: within_size_def commit_offset_def partition_clear_def)

lemma partition_step_next:
  "partition_step s lab t \<Longrightarrow>
     (case lab of None \<Rightarrow> p_next_offset (snd t) = p_next_offset (snd s)
                | Some k \<Rightarrow> k = p_next_offset (snd s) \<and> p_next_offset (snd t) = k + 1)"
proof (induction rule: partition_step.induct)
  case (append_ok r p now ms s' off)
  then show ?case by (cases s') (auto simp: partition_append_def Let_def split: if_splits)
next
  case (append_full now ms p r s' e)
  then show ?case by (cases s') (auto dest!: partition_append_err)
qed (simp_all add: partition_apply_retention_def partition_compact_def Let_def
       partition_clear_def commit_offset_def)

lemma partition_run_invariant:
  assumes "partition_run s offs t" and "case_prod ordered s" and "within_size (snd s)"
  shows "case_prod ordered t \<and> within_size (snd t) \<and>
    offs = map (\<lambda>i. p_next_offset (snd s) + int i) [0..<length offs] \<and>
    p_next_offset (snd t) = p_next_offset (snd s) + int (length offs)"
  using assms
proof (induction rule: partition_run.induct)
  case (run_start s)
  then show ?case by simp
next
  case (run_step s offs t lab u)
  then show ?case
    using partition_step_ordered [OF run_step.hyps(2)] partition_step_size [OF run_step.hyps(2)]
      partition_step_next [OF run_step.hyps(2)]
    by (auto split: option.splits)
qed

subsection \<open>Properties\<close>

text \<open>
  C26. Appending a message that is not in the log yet: a full partition refuses with ValueError
  and nothing changes; otherwise the call returns the next offset, the message goes to the end
  of the log carrying that offset, this partition's number and the clock reading with its
  payload and key untouched, no other message changes, the next offset grows by one, the new
  message is found at its offset, and both invariants still hold.
\<close>

theorem partition_append_correct:
  assumes "ordered ms p" and "dense ms p" and "r \<notin> set (p_log p)"
    and "partition_append now ms p r = ((ms', p'), res)"
  shows "(if 0 < p_max_size p \<and> p_max_size p \<le> int (partition_size p)
          then res = Inl ValueError \<and> ms' = ms \<and> p' = p
          else res = Inr (current_offset p) \<and> p_log p' = p_log p @ [r]
               \<and> current_offset p' = current_offset p + 1
               \<and> m_offset (ms' r) = current_offset p \<and> m_partition (ms' r) = p_id p
               \<and> m_broker_timestamp (ms' r) = now \<and> m_value (ms' r) = m_value (ms r)
               \<and> m_key (ms' r) = m_key (ms r) \<and> (\<forall>x. x \<noteq> r \<longrightarrow> ms' x = ms x)
               \<and> partition_read_at ms' p' (current_offset p) = Some r)
         \<and> ordered ms' p' \<and> dense ms' p'"
proof -
  have inv: "ordered ms' p'" "dense ms' p'"
    using assms ordered_append dense_append by blast+
  show ?thesis
  proof (cases res)
    case (Inl e)
    with assms(4) inv show ?thesis
      by (auto dest!: partition_append_err simp: partition_size_def)
  next
    case (Inr off)
    note ok = partition_append_ok [OF assms(4) [unfolded Inr]]
    have room: "\<not> (0 < p_max_size p \<and> p_max_size p \<le> int (length (p_log p)))"
      using assms(4) Inr by (auto simp: partition_append_def split: if_splits)
    have "find (\<lambda>x. m_offset (ms' x) = p_next_offset p) (p_log p) = None"
      using assms(3) orderedD(4) [OF assms(1)] by (force simp: find_None_iff ok(2))
    then have "partition_read_at ms' p' (p_next_offset p) = Some r"
      unfolding partition_read_at_spec [OF inv(2)]
      by (simp add: find_append ok)
    with Inr ok room inv show ?thesis
      by (simp add: current_offset_def partition_size_def)
  qed
qed

theorem partition_append_correct_witness:
  fixes ms :: mstore
  defines "ms \<equiv> (\<lambda>_. message_new ''m'' 1 ''t'' [7] None [])"
  shows "\<exists>ms' p'. partition_append 2 ms (partition_new ''t'' 3 0 0) 5 = ((ms', p'), Inr 0)
    \<and> m_offset (ms' 5) = 0 \<and> m_partition (ms' 5) = 3 \<and> partition_read_at ms' p' 0 = Some 5"
proof -
  let ?p = "partition_new ''t'' 3 0 0"
  obtain ms' p' res where eq: "partition_append 2 ms ?p 5 = ((ms', p'), res)"
    by (metis surj_pair)
  have "(5 :: mref) \<notin> set (p_log ?p)" by (simp add: partition_new_def)
  from partition_append_correct [OF ordered_new dense_new this eq] eq
  show ?thesis by (auto simp: partition_new_def current_offset_def)
qed

text \<open>
  C14. In every state a partition reaches by appends, commits, retention, compaction and clearing,
  the offsets handed out are 0, 1, 2, ... without gap or repetition, the offsets in the log are
  strictly increasing, non-negative and below the next one, no message is in the log twice, and
  a size limit is respected.
\<close>

theorem partition_offsets_never_reused:
  assumes "partition_run (ms, partition_new topic pid max_size ret) offs (ms', p')"
  shows "offs = map int [0..<length offs] \<and> current_offset p' = int (length offs)
    \<and> ordered ms' p' \<and> within_size p'"
  using partition_run_invariant [OF assms]
  by (simp add: ordered_new) (simp add: partition_new_def within_size_def current_offset_def)

theorem partition_offsets_never_reused_witness:
  fixes ms :: mstore
  defines "ms \<equiv> (\<lambda>_. message_new ''m'' 1 ''t'' [7] None [])"
  shows "\<exists>ms' p'. partition_run (ms, partition_new ''t'' 3 0 0) [0] (ms', p')
    \<and> current_offset p' = 1 \<and> ordered ms' p'"
proof -
  let ?p = "partition_new ''t'' 3 0 0"
  obtain ms' p' where eq: "partition_append 2 ms ?p 5 = ((ms', p'), Inr 0)"
    by (simp add: partition_append_def partition_new_def)
  have "partition_step (ms, ?p) (Some 0) (ms', p')"
    using append_ok [OF _ eq] by (simp add: partition_new_def)
  from run_step [OF run_start this] have run: "partition_run (ms, ?p) [0] (ms', p')" by simp
  with partition_offsets_never_reused [OF run] show ?thesis by auto
qed

text \<open>
  C27. Reading: when the offsets in the log are consecutive (\<open>dense\<close>, which appending, committing
  and clearing preserve), \<open>read\<close> returns the first \<open>n\<close> messages at or after the requested
  offset, \<open>read_at\<close> the message with exactly that offset if the log has one, and a reader that
  continues after the last message of each read gets every message from its start position on
  exactly once and in order, whatever its batch size.
\<close>

theorem partition_read_correct:
  assumes "ordered ms p" and "dense ms p" and "0 < n"
  shows "partition_read ms p pos n
           = take (nat n) (filter (\<lambda>r. pos \<le> m_offset (ms r)) (p_log p))
       \<and> partition_read_at ms p pos = List.find (\<lambda>r. m_offset (ms r) = pos) (p_log p)
       \<and> drain (partition_read ms p) (\<lambda>r. m_offset (ms r)) (Suc (partition_size p)) pos n
           = filter (\<lambda>r. pos \<le> m_offset (ms r)) (p_log p)"
proof -
  have "length (filter (\<lambda>r. pos \<le> m_offset (ms r)) (p_log p)) < Suc (length (p_log p))"
    by (simp add: le_imp_less_Suc)
  with plog.drain_complete [of "(ms, p)" n pos "Suc (length (p_log p))"] assms
  show ?thesis by (simp add: partition_read_spec partition_read_at_spec partition_size_def)
qed

theorem partition_read_correct_witness:
  fixes ms :: mstore
  defines "ms \<equiv> (\<lambda>i. (message_new ''m'' 1 ''t'' [7] None [])\<lparr>m_offset := 3 + int i\<rparr>)"
  shows "partition_read ms \<lparr>p_topic = ''t'', p_id = -1, p_max_size = 0, p_retention_ms = 0,
           p_log = [0, 1, 2], p_next_offset = 6, p_committed = []\<rparr> 4 10 = [1, 2]"
proof -
  let ?p = "\<lparr>p_topic = ''t'', p_id = -1, p_max_size = 0, p_retention_ms = 0,
           p_log = [0, 1, 2], p_next_offset = 6, p_committed = []\<rparr> :: partition"
  have o: "ordered ms ?p" by (simp add: ordered_def ms_def message_new_def)
  have d: "dense ms ?p" by (simp add: dense_def ms_def message_new_def All_less_Suc numeral_eq_Suc)
  from partition_read_correct [OF o d, of 10 4] show ?thesis
    by (simp add: ms_def message_new_def)
qed

text \<open>
  C5. Retention removes exactly the messages whose broker timestamp is older than the cutoff and
  reports their number; when the clock readings along the log never decrease (broker timestamps
  sorted) the removed messages are a prefix, so consecutive offsets stay consecutive and reads
  by offset stay correct.
\<close>

theorem partition_retention_correct:
  assumes "0 < p_retention_ms p" and "sorted (map (\<lambda>r. m_broker_timestamp (ms r)) (p_log p))"
    and "ordered ms p" and "dense ms p"
    and "partition_apply_retention now ms p = (p', k)"
  shows "\<exists>j. p_log p' = drop j (p_log p) \<and> k = int j \<and> j \<le> length (p_log p)
      \<and> (\<forall>r \<in> set (take j (p_log p)).
           m_broker_timestamp (ms r) < now - of_int (p_retention_ms p) / 1000)
      \<and> (\<forall>r \<in> set (drop j (p_log p)).
           now - of_int (p_retention_ms p) / 1000 \<le> m_broker_timestamp (ms r))
      \<and> p_next_offset p' = p_next_offset p \<and> ordered ms p' \<and> dense ms p'"
proof -
  let ?c = "now - of_int (p_retention_ms p) / 1000"
  let ?t = "\<lambda>r. m_broker_timestamp (ms r)"
  define j where "j = length (filter (\<lambda>r. ?t r < ?c) (p_log p))"
  have log: "filter (\<lambda>r. ?c \<le> ?t r) (p_log p) = drop j (p_log p)"
    unfolding j_def by (rule filter_sorted_is_drop [OF assms(2)])
  have jle: "j \<le> length (p_log p)" by (simp add: j_def)
  have p': "p' = p\<lparr>p_log := drop j (p_log p)\<rparr>" and k: "k = int j"
    using assms(1,5) log jle by (auto simp: partition_apply_retention_def Let_def)
  have "take j (p_log p) = filter (\<lambda>r. ?t r < ?c) (p_log p)"
    unfolding j_def by (rule filter_sorted_is_take [OF assms(2)])
  then have old: "\<forall>r \<in> set (take j (p_log p)). ?t r < ?c" by simp
  have young: "\<forall>r \<in> set (drop j (p_log p)). ?c \<le> ?t r" by (simp flip: log)
  have "dense ms p'"
    using assms(4) jle by (auto simp: dense_def p' of_nat_diff algebra_simps)
  moreover have "ordered ms p'"
    unfolding p' by (rule ordered_subseq [OF assms(3)]) (simp add: suffix_imp_subseq suffix_drop)
  ultimately show ?thesis using p' k jle old young by auto
qed

theorem partition_retention_correct_witness:
  fixes ms :: mstore
  defines "ms \<equiv> (\<lambda>i. (message_new ''m'' 1 ''t'' [7] None [])
             \<lparr>m_offset := int i, m_partition := 0, m_broker_timestamp := 10 * real i\<rparr>)"
  shows "\<exists>p'. partition_apply_retention 25 ms \<lparr>p_topic = ''t'', p_id = 0, p_max_size = 0,
           p_retention_ms = 10000, p_log = [0, 1, 2], p_next_offset = 3, p_committed = []\<rparr> = (p', 2)
         \<and> dense ms p' \<and> p_log p' = [2]"
proof -
  let ?p = "\<lparr>p_topic = ''t'', p_id = 0, p_max_size = 0, p_retention_ms = 10000,
             p_log = [0, 1, 2], p_next_offset = 3, p_committed = []\<rparr> :: partition"
  have o: "ordered ms ?p" by (simp add: ordered_def ms_def message_new_def)
  have d: "dense ms ?p" by (simp add: dense_def ms_def message_new_def All_less_Suc numeral_eq_Suc)
  obtain p' k where eq: "partition_apply_retention 25 ms ?p = (p', k)" by fastforce
  have "k = 2" and "p_log p' = [2]"
    using eq by (auto simp: partition_apply_retention_def Let_def ms_def message_new_def)
  moreover have "dense ms p'"
    using partition_retention_correct [OF _ _ o d eq] by (auto simp: ms_def message_new_def)
  ultimately show ?thesis using eq by blast
qed

text \<open>
  C28. Compaction keeps, in log order, every message without a key and for each key exactly the
  last message with that key, reports the number removed, changes no other field, keeps the log
  ordered, and doing it twice is the same as doing it once.
\<close>

theorem partition_compact_correct:
  assumes "ordered ms p" and "partition_compact ms p = (p', k)"
  shows "subseq (p_log p') (p_log p)
    \<and> (\<forall>r \<in> set (p_log p). m_key (ms r) = None \<longrightarrow> r \<in> set (p_log p'))
    \<and> (\<forall>xs r ys. p_log p = xs @ r # ys \<and> m_key (ms r) \<noteq> None \<longrightarrow>
         (r \<in> set (p_log p') \<longleftrightarrow> (\<forall>y \<in> set ys. m_key (ms y) \<noteq> m_key (ms r))))
    \<and> k = int (partition_size p) - int (partition_size p')
    \<and> p' = p\<lparr>p_log := p_log p'\<rparr> \<and> ordered ms p' \<and> partition_compact ms p' = (p', 0)"
proof -
  let ?key = "\<lambda>r. m_key (ms r)"
  have log: "p_log p' = keep_latest ?key (p_log p)" and p': "p' = p\<lparr>p_log := p_log p'\<rparr>"
    and k: "k = int (length (p_log p)) - int (length (p_log p'))"
    using assms(2) by (auto simp: partition_compact_def Let_def compact_entries_spec)
  have iff: "r \<in> set (p_log p') \<longleftrightarrow> (\<forall>y \<in> set ys. ?key y \<noteq> ?key r)"
    if "p_log p = xs @ r # ys" and "?key r \<noteq> None" for xs r ys
    using keep_latest_mid [of xs r ys ?key] that orderedD(1) [OF assms(1)] by (simp add: log)
  have "ordered ms p'"
    using ordered_compact [OF assms(1)] assms(2) by (metis fst_conv)
  moreover have "partition_compact ms p' = (p', 0)"
    using p' by (simp add: partition_compact_def Let_def compact_entries_spec log keep_latest_idem)
  ultimately show ?thesis
    using iff p' k by (simp add: log subseq_keep_latest keep_latest_unkeyed partition_size_def)
qed

theorem partition_compact_correct_witness:
  fixes ms :: mstore
  defines "ms \<equiv> (\<lambda>i. (message_new ''m'' 1 ''t'' [7] (Some (if i = 1 then ''b'' else ''a'')) [])
             \<lparr>m_offset := int i, m_partition := 0\<rparr>)"
  shows "\<exists>p'. partition_compact ms \<lparr>p_topic = ''t'', p_id = 0, p_max_size = 0,
           p_retention_ms = 0, p_log = [0, 1, 2], p_next_offset = 3, p_committed = []\<rparr> = (p', 1)
         \<and> p_log p' = [1, 2] \<and> ordered ms p'"
proof -
  let ?p = "\<lparr>p_topic = ''t'', p_id = 0, p_max_size = 0, p_retention_ms = 0,
             p_log = [0, 1, 2], p_next_offset = 3, p_committed = []\<rparr> :: partition"
  have o: "ordered ms ?p" by (simp add: ordered_def ms_def message_new_def)
  obtain p' k where eq: "partition_compact ms ?p = (p', k)" by fastforce
  have "k = 1" and "p_log p' = [1, 2]"
    using eq by (auto simp: partition_compact_def Let_def compact_entries_spec ms_def message_new_def)
  moreover have "ordered ms p'" using partition_compact_correct [OF o eq] by blast
  ultimately show ?thesis using eq by blast
qed

text \<open>
  C16. Compaction and \<open>read\<close> do not fit together: when compaction removes anything behind the first
  surviving message, the newest message is still in the log but reading at its offset returns
  nothing (the index is computed as if offsets were consecutive), so a consumer positioned there
  gets no message although one is waiting for it.
\<close>

theorem compaction_hides_newest:
  assumes "ordered ms p" and "dense ms p" and "partition_compact ms p = (p', k)"
    and "p_log p' = r # rs"
    and "int (partition_size p') < current_offset p' - earliest_offset ms p'"
  shows "last (p_log p') \<in> set (p_log p')
    \<and> m_offset (ms (last (p_log p'))) = current_offset p' - 1
    \<and> partition_read ms p' (current_offset p' - 1) n = []
    \<and> partition_read_at ms p' (current_offset p' - 1) = None"
proof -
  let ?key = "\<lambda>r. m_key (ms r)"
  have log: "p_log p' = keep_latest ?key (p_log p)" and nx: "p_next_offset p' = p_next_offset p"
    using assms(3) by (auto simp: partition_compact_def Let_def compact_entries_spec)
  have ne: "p_log p \<noteq> []" using assms(4) log by auto
  then have "last (p_log p') = last (p_log p)" unfolding log by (rule last_keep_latest)
  moreover have "m_offset (ms (last (p_log p))) = p_next_offset p - 1"
    using ne denseD [OF assms(2), of "length (p_log p) - 1"]
    by (simp add: last_conv_nth of_nat_diff Suc_le_eq)
  moreover have "int (length (p_log p')) \<le> p_next_offset p' - 1 - m_offset (ms r)"
    using assms(4,5) by (simp add: partition_size_def current_offset_def earliest_offset_def)
  moreover have "last (p_log p') \<in> set (p_log p')" using assms(4) by simp
  ultimately show ?thesis
    using assms(4) by (simp add: current_offset_def nx partition_read_def partition_read_at_def
        del: last.simps)
qed

theorem compaction_hides_newest_witness:
  fixes ms :: mstore
  defines "ms \<equiv> (\<lambda>i. (message_new ''m'' 1 ''t'' [7] (Some (if i = 0 then ''b'' else ''a'')) [])
             \<lparr>m_offset := int i, m_partition := 0\<rparr>)"
  shows "\<exists>p'. partition_compact ms \<lparr>p_topic = ''t'', p_id = 0, p_max_size = 0,
           p_retention_ms = 0, p_log = [0, 1, 2], p_next_offset = 3, p_committed = []\<rparr> = (p', 1)
         \<and> p_log p' = [0, 2] \<and> m_offset (ms 2) = 2 \<and> partition_read ms p' 2 100 = []"
proof -
  let ?p = "\<lparr>p_topic = ''t'', p_id = 0, p_max_size = 0, p_retention_ms = 0,
             p_log = [0, 1, 2], p_next_offset = 3, p_committed = []\<rparr> :: partition"
  have o: "ordered ms ?p" by (simp add: ordered_def ms_def message_new_def)
  have d: "dense ms ?p" by (simp add: dense_def ms_def message_new_def All_less_Suc numeral_eq_Suc)
  obtain p' k where eq: "partition_compact ms ?p = (p', k)" by fastforce
  then have k: "k = 1" and log: "p_log p' = [0, 2]" and nx: "p_next_offset p' = 3"
    by (auto simp: partition_compact_def Let_def compact_entries_spec ms_def message_new_def)
  have "int (partition_size p') < current_offset p' - earliest_offset ms p'"
    by (simp add: partition_size_def current_offset_def earliest_offset_def log nx ms_def message_new_def)
  from compaction_hides_newest [OF o d eq log this, of 100] eq k log nx
  show ?thesis by (simp add: current_offset_def ms_def)
qed

text \<open>
  Appending an object that is already in the log (a redelivered message published again) writes
  the new offset into the shared object: its old offset is gone from the log and the log is no
  longer ordered.
\<close>

lemma republish_loses_offset:
  assumes "ordered ms p" and "r \<in> set (p_log p)"
    and "partition_append now ms p r = ((ms', p'), Inr k)"
  shows "\<forall>x \<in> set (p_log p'). m_offset (ms' x) \<noteq> m_offset (ms r)" and "\<not> ordered ms' p'"
proof -
  note ok = partition_append_ok [OF assms(3)]
  have "x = r" if "x \<in> set (p_log p)" and "m_offset (ms x) = m_offset (ms r)" for x
  proof -
    have "distinct (offsets ms p)"
      using orderedD(2) [OF assms(1)] by (simp add: strict_sorted_iff)
    then show ?thesis using that assms(2) by (auto simp: distinct_map dest: inj_onD)
  qed
  moreover have "m_offset (ms r) < p_next_offset p" using orderedD(4) assms(1,2) by blast
  ultimately show "\<forall>x \<in> set (p_log p'). m_offset (ms' x) \<noteq> m_offset (ms r)"
    by (auto simp: ok)
  show "\<not> ordered ms' p'" using assms(2) by (simp add: ordered_def ok)
qed

end
