(* ===== verification/Hashing.thy ===== *)
theory Hashing
  imports Message
begin

section \<open>Hash functions\<close>

text \<open>
  The two hash functions of \<^verbatim>\<open>utils.py\<close>, of which \<^verbatim>\<open>topic.py\<close> repeats the first: MD5 of the UTF-8 key,
  read as a 128-bit number, modulo the number of buckets, and the 32-bit multiply-and-xor hash.
  MD5 (\<open>hashlib.md5\<close>) is written out: padding, the four groups of sixteen steps on 32-bit words
  and the hexadecimal digest read as a number.
\<close>

unbundle bit_operations_syntax

definition md5_K :: "32 word list" where
  "md5_K =
     [0xd76aa478, 0xe8c7b756, 0x242070db, 0xc1bdceee, 0xf57c0faf, 0x4787c62a,
      0xa8304613, 0xfd469501, 0x698098d8, 0x8b44f7af, 0xffff5bb1, 0x895cd7be,
      0x6b901122, 0xfd987193, 0xa679438e, 0x49b40821, 0xf61e2562, 0xc040b340,
      0x265e5a51, 0xe9b6c7aa, 0xd62f105d, 0x02441453, 0xd8a1e681, 0xe7d3fbc8,
      0x21e1cde6, 0xc33707d6, 0xf4d50d87, 0x455a14ed, 0xa9e3e905, 0xfcefa3f8,
      0x676f02d9, 0x8d2a4c8a, 0xfffa3942, 0x8771f681, 0x6d9d6122, 0xfde5380c,
      0xa4beea44, 0x4bdecfa9, 0xf6bb4b60, 0xbebfbc70, 0x289b7ec6, 0xeaa127fa,
      0xd4ef3085, 0x04881d05, 0xd9d4d039, 0xe6db99e5, 0x1fa27cf8, 0xc4ac5665,
      0xf4292244, 0x432aff97, 0xab9423a7, 0xfc93a039, 0x655b59c3, 0x8f0ccc92,
      0xffeff47d, 0x85845dd1, 0x6fa87e4f, 0xfe2ce6e0, 0xa3014314, 0x4e0811a1,
      0xf7537e82, 0xbd3af235, 0x2ad7d2bb, 0xeb86d391]"

definition md5_s :: "nat list" where
  "md5_s =
     [7, 12, 17, 22, 7, 12, 17, 22, 7, 12, 17, 22, 7, 12, 17, 22,
      5, 9, 14, 20, 5, 9, 14, 20, 5, 9, 14, 20, 5, 9, 14, 20,
      4, 11, 16, 23, 4, 11, 16, 23, 4, 11, 16, 23, 4, 11, 16, 23,
      6, 10, 15, 21, 6, 10, 15, 21, 6, 10, 15, 21, 6, 10, 15, 21]"

text \<open>Little-endian 32-bit words of a block of bytes.\<close>

fun le_words :: "byte list \<Rightarrow> 32 word list" where
  "le_words (a # b # c # d # bs) =
     (ucast a OR push_bit 8 (ucast b) OR push_bit 16 (ucast c) OR push_bit 24 (ucast d))
     # le_words bs"
| "le_words _ = []"

definition md5_pad :: "byte list \<Rightarrow> byte list" where
  "md5_pad bs =
     (let n = length bs
      in bs @ [0x80] @ replicate ((119 - n mod 64) mod 64) 0
         @ map (\<lambda>i. word_of_nat (8 * n div 256 ^ i)) [0..<8])"

definition md5_step ::
    "32 word list \<Rightarrow> nat \<Rightarrow> 32 word \<times> 32 word \<times> 32 word \<times> 32 word
       \<Rightarrow> 32 word \<times> 32 word \<times> 32 word \<times> 32 word" where
  "md5_step M i st = (case st of (a, b, c, d) \<Rightarrow>
     (let fg = (if i < 16 then ((b AND c) OR (NOT b AND d), i)
                else if i < 32 then ((d AND b) OR (NOT d AND c), (5 * i + 1) mod 16)
                else if i < 48 then (b XOR c XOR d, (3 * i + 5) mod 16)
                else (c XOR (b OR NOT d), (7 * i) mod 16));
          f = fst fg + a + md5_K ! i + M ! snd fg
      in (d, b + word_rotl (md5_s ! i) f, b, c)))"

definition md5_block ::
    "byte list \<Rightarrow> 32 word \<times> 32 word \<times> 32 word \<times> 32 word
       \<Rightarrow> 32 word \<times> 32 word \<times> 32 word \<times> 32 word" where
  "md5_block blk st =
     (let M = le_words blk in
      case (st, fold (md5_step M) [0..<64] st) of
        ((a0, b0, c0, d0), (a, b, c, d)) \<Rightarrow> (a0 + a, b0 + b, c0 + c, d0 + d))"

fun md5_blocks ::
    "nat \<Rightarrow> byte list \<Rightarrow> 32 word \<times> 32 word \<times> 32 word \<times> 32 word
       \<Rightarrow> 32 word \<times> 32 word \<times> 32 word \<times> 32 word" where
  "md5_blocks 0 bs st = st"
| "md5_blocks (Suc n) bs st = md5_blocks n (drop 64 bs) (md5_block (take 64 bs) st)"

definition le_bytes :: "32 word \<Rightarrow> nat list" where
  "le_bytes w = map (\<lambda>i. unat (drop_bit (8 * i) w) mod 256) [0..<4]"

text \<open>\<open>int(hashlib.md5(data).hexdigest(), 16)\<close>\<close>

definition md5_int :: "byte list \<Rightarrow> nat" where
  "md5_int bs =
     (let p = md5_pad bs in
      case md5_blocks (length p div 64) p (0x67452301, 0xefcdab89, 0x98badcfe, 0x10325476) of
        (a, b, c, d) \<Rightarrow>
          foldl (\<lambda>acc x. 256 * acc + x) 0 (le_bytes a @ le_bytes b @ le_bytes c @ le_bytes d))"

subsection \<open>The two hash functions\<close>

definition consistent_hash :: "string \<Rightarrow> int \<Rightarrow> int result" where
  "consistent_hash key num_buckets =
     (if num_buckets = 0 then Inl ZeroDivisionError
      else Inr (int (md5_int (utf8_encode key)) mod num_buckets))"

definition murmur_hash_2 :: "string \<Rightarrow> int" where
  "murmur_hash_2 key =
     fold (\<lambda>b h. ((h XOR uint b) * 0x01000193) AND 0xFFFFFFFF) (utf8_encode key) 0x811C9DC5"

lemma consistent_hash_range:
  "0 < n \<Longrightarrow> \<exists>h. consistent_hash key n = Inr h \<and> 0 \<le> h \<and> h < n"
  by (simp add: consistent_hash_def)

lemma murmur_hash_2_range: "0 \<le> murmur_hash_2 key \<and> murmur_hash_2 key < 2 ^ 32"
proof -
  have m: "x AND 0xFFFFFFFF = x mod 2 ^ 32" for x :: int
    using take_bit_eq_mask [of 32 x] by (simp add: mask_eq_exp_minus_1 take_bit_eq_mod)
  have "0 \<le> h \<and> h < 2 ^ 32 \<Longrightarrow>
      0 \<le> fold (\<lambda>b h. ((h XOR uint b) * 0x01000193) AND 0xFFFFFFFF) bs h
      \<and> fold (\<lambda>b h. ((h XOR uint b) * 0x01000193) AND 0xFFFFFFFF) bs h < 2 ^ 32"
    for h :: int and bs :: "byte list"
    by (induction bs arbitrary: h) (simp_all add: m)
  then show ?thesis by (simp add: murmur_hash_2_def)
qed

end
