(* ===== verification/Topic.thy ===== *)
theory Topic
  imports Partition Hashing
begin

section \<open>Topics\<close>

text \<open>
  \<^verbatim>\<open>topic.py\<close>: a named list of partitions, the choice of a partition by key hash or round robin,
  publishing, and retention and compaction over all partitions. Partition objects are shared
  with the consumers they are assigned to, so they live in a store \<open>pstore\<close> and a topic holds
  references. \<open>topic_inv\<close> says that a topic owns as many partitions as configured, numbered by
  their position, all with ordered logs.
\<close>

type_synonym pref = nat
type_synonym pstore = "pref \<Rightarrow> partition"

record topic_config =
  num_partitions :: int
  retention_ms :: int
  max_message_bytes :: int
  max_partition_size :: int
  compaction_enabled :: bool

definition default_topic_config :: topic_config where
  "default_topic_config =
     \<lparr>num_partitions = 4, retention_ms = 0, max_message_bytes = 0, max_partition_size = 0,
      compaction_enabled = False\<rparr>"

record topic =
  t_name :: string
  t_config :: topic_config
  t_partitions :: "pref list"
  t_round_robin :: int
  t_subscribers :: "string set"

text \<open>
  The constructor allocates its partitions at the references from \<open>fresh\<close> on; \<open>range(n)\<close> is
  empty for a negative \<open>n\<close>.
\<close>

definition topic_new ::
    "string \<Rightarrow> topic_config \<Rightarrow> pref \<Rightarrow> pstore \<Rightarrow> topic \<times> pstore \<times> pref" where
  "topic_new name cfg fresh ps =
     (let n = nat (num_partitions cfg);
          ps' = fold (\<lambda>i ps. ps(fresh + i :=
                   partition_new name (int i) (max_partition_size cfg) (retention_ms cfg)))
                 [0..<n] ps
      in (\<lparr>t_name = name, t_config = cfg, t_partitions = map (\<lambda>i. fresh + i) [0..<n],
           t_round_robin = 0, t_subscribers = {}\<rparr>, ps', fresh + n))"

definition get_partition :: "topic \<Rightarrow> int \<Rightarrow> pref result" where
  "get_partition t partition_id =
     (if partition_id < 0 \<or> partition_id \<ge> int (length (t_partitions t)) then Inl ValueError
      else Inr (t_partitions t ! nat partition_id))"

definition assign_partition :: "topic \<Rightarrow> string option \<Rightarrow> topic \<times> int result" where
  "assign_partition t key =
     (case key of
        Some k \<Rightarrow> (t, consistent_hash k (int (length (t_partitions t))))
      | None \<Rightarrow>
          if t_partitions t = [] then (t, Inl ZeroDivisionError)
          else (t\<lparr>t_round_robin := t_round_robin t + 1\<rparr>,
                Inr (t_round_robin t mod int (length (t_partitions t)))))"

text \<open>The partition a message goes to: the one it names, or one assigned by key or in turn.\<close>

definition choose_partition :: "mstore \<Rightarrow> topic \<Rightarrow> mref \<Rightarrow> topic \<times> int result" where
  "choose_partition ms t r =
     (if m_partition (ms r) < 0 then assign_partition t (m_key (ms r))
      else (t, Inr (m_partition (ms r))))"

definition topic_publish ::
    "real \<Rightarrow> mstore \<Rightarrow> pstore \<Rightarrow> topic \<Rightarrow> mref \<Rightarrow> (mstore \<times> pstore \<times> topic) \<times> int result" where
  "topic_publish now ms ps t r =
     (if max_message_bytes (t_config t) > 0
         \<and> int (size_bytes (ms r)) > max_message_bytes (t_config t)
      then ((ms, ps, t), Inl ValueError)
      else
        (let (t1, a) = choose_partition ms t r in
         case a of
           Inl e \<Rightarrow> ((ms, ps, t1), Inl e)
         | Inr pid \<Rightarrow>
             (let ms1 = ms(r := (ms r)\<lparr>m_partition := pid\<rparr>) in
              case py_nth (t_partitions t1) pid of
                Inl e \<Rightarrow> ((ms1, ps, t1), Inl e)
              | Inr p \<Rightarrow>
                  (let ms2 = ms1(r := (ms1 r)\<lparr>m_topic := t_name t\<rparr>);
                       ((ms3, q), res) = partition_append now ms2 (ps p) r
                   in ((ms3, ps(p := q), t1), res)))))"

definition topic_subscribe :: "string \<Rightarrow> topic \<Rightarrow> topic" where
  "topic_subscribe group_id t = t\<lparr>t_subscribers := insert group_id (t_subscribers t)\<rparr>"

definition topic_unsubscribe :: "string \<Rightarrow> topic \<Rightarrow> topic" where
  "topic_unsubscribe group_id t = t\<lparr>t_subscribers := t_subscribers t - {group_id}\<rparr>"

definition subscriber_count :: "topic \<Rightarrow> nat" where
  "subscriber_count t = card (t_subscribers t)"

definition total_messages :: "pstore \<Rightarrow> topic \<Rightarrow> nat" where
  "total_messages ps t = sum_list (map (\<lambda>p. partition_size (ps p)) (t_partitions t))"

definition topic_total_bytes :: "mstore \<Rightarrow> pstore \<Rightarrow> topic \<Rightarrow> nat" where
  "topic_total_bytes ms ps t =
     sum_list (map (\<lambda>p. partition_size_bytes ms (ps p)) (t_partitions t))"

text \<open>
  The maintenance loops: \<open>f\<close> runs on each partition in turn and the removal counts add up.
  Retention reads the clock once per partition (\<open>clock p\<close>).
\<close>

fun each_partition ::
    "(pref \<Rightarrow> partition \<Rightarrow> partition \<times> int) \<Rightarrow> pref list \<Rightarrow> pstore \<Rightarrow> pstore \<times> int" where
  "each_partition f [] ps = (ps, 0)"
| "each_partition f (p # refs) ps =
     (let (q, k) = f p (ps p); (ps', total) = each_partition f refs (ps(p := q))
      in (ps', k + total))"

definition topic_apply_retention ::
    "(pref \<Rightarrow> real) \<Rightarrow> mstore \<Rightarrow> pstore \<Rightarrow> topic \<Rightarrow> pstore \<times> int" where
  "topic_apply_retention clock ms ps t =
     each_partition (\<lambda>p q. partition_apply_retention (clock p) ms q) (t_partitions t) ps"

definition topic_compact :: "mstore \<Rightarrow> pstore \<Rightarrow> topic \<Rightarrow> pstore \<times> int" where
  "topic_compact ms ps t =
     (if \<not> compaction_enabled (t_config t) then (ps, 0)
      else each_partition (\<lambda>p q. partition_compact ms q) (t_partitions t) ps)"

subsection \<open>Invariant\<close>

definition topic_inv :: "mstore \<Rightarrow> pstore \<Rightarrow> topic \<Rightarrow> bool" where
  "topic_inv ms ps t \<longleftrightarrow>
     length (t_partitions t) = nat (num_partitions (t_config t)) \<and> distinct (t_partitions t) \<and>
     0 \<le> t_round_robin t \<and>
     (\<forall>i < length (t_partitions t).
        p_id (ps (t_partitions t ! i)) = int i \<and> p_topic (ps (t_partitions t ! i)) = t_name t
        \<and> ordered ms (ps (t_partitions t ! i)))"

text \<open>A message object is fresh for a topic when none of its logs holds it.\<close>

definition fresh_for :: "mref \<Rightarrow> pstore \<Rightarrow> topic \<Rightarrow> bool" where
  "fresh_for r ps t \<longleftrightarrow> (\<forall>p \<in> set (t_partitions t). r \<notin> set (p_log (ps p)))"

lemma fold_alloc:
  "fold (\<lambda>i ps. ps(fresh + i := f i)) [0..<n] ps x =
     (if fresh \<le> x \<and> x < fresh + n then f (x - fresh) else ps x)"
  by (induction n) auto

lemma topic_new_inv:
  assumes "topic_new name cfg fresh ps = (t, ps', fresh')"
  shows "topic_inv ms ps' t" and "set (t_partitions t) = {fresh..<fresh'}"
    and "fresh' = fresh + nat (num_partitions cfg)"
    and "\<And>x. x < fresh \<Longrightarrow> ps' x = ps x"
    and "\<And>p. p \<in> set (t_partitions t) \<Longrightarrow> p_log (ps' p) = [] \<and> dense ms (ps' p)"
  using assms
  by (auto simp: topic_new_def Let_def topic_inv_def fold_alloc distinct_map ordered_new dense_new
      partition_new_def image_iff ordered_def dense_def)

lemma ordered_frame: "r \<notin> set (p_log p) \<Longrightarrow> ordered (ms(r := m)) p = ordered ms p"
  by (rule ordered_cong) auto

lemma dense_frame: "r \<notin> set (p_log p) \<Longrightarrow> dense (ms(r := m)) p = dense ms p"
  by (rule dense_cong) auto

lemma assign_partition_range:
  assumes "assign_partition t key = (t1, Inr pid)" and "0 \<le> t_round_robin t"
  shows "0 \<le> pid" and "pid < int (length (t_partitions t))"
  using assms by (auto simp: assign_partition_def consistent_hash_def split: option.splits if_splits)

lemma assign_partition_frame:
  "assign_partition t key = (t1, a) \<Longrightarrow>
     t_partitions t1 = t_partitions t \<and> t_name t1 = t_name t \<and> t_config t1 = t_config t
     \<and> t_subscribers t1 = t_subscribers t \<and> t_round_robin t \<le> t_round_robin t1"
  by (auto simp: assign_partition_def split: option.splits if_splits)

subsection \<open>Maintenance\<close>

lemma each_partition_spec:
  "distinct refs \<Longrightarrow> each_partition f refs ps
     = ((\<lambda>p. if p \<in> set refs then fst (f p (ps p)) else ps p),
        sum_list (map (\<lambda>p. snd (f p (ps p))) refs))"
proof (induction refs arbitrary: ps)
  case Nil
  then show ?case by simp
next
  case (Cons p refs)
  have "(\<Sum>x\<leftarrow>refs. snd (f x ((ps(p := fst (f p (ps p)))) x))) = (\<Sum>x\<leftarrow>refs. snd (f x (ps x)))"
    by (rule arg_cong [where f = sum_list], rule map_cong) (use Cons.prems in auto)
  with Cons show ?case
    by (simp add: case_prod_beta Let_def fun_eq_iff del: fun_upd_apply) (auto simp: fun_upd_apply)
qed

lemma topic_apply_retention_inv:
  assumes "topic_inv ms ps t"
  shows "topic_inv ms (fst (topic_apply_retention clock ms ps t)) t"
  using assms
  by (simp add: topic_inv_def topic_apply_retention_def each_partition_spec ordered_retention)
    (simp add: partition_apply_retention_def Let_def)

lemma topic_compact_inv:
  assumes "topic_inv ms ps t"
  shows "topic_inv ms (fst (topic_compact ms ps t)) t"
  using assms
  by (simp add: topic_inv_def topic_compact_def each_partition_spec ordered_compact)
    (simp add: partition_compact_def Let_def)

subsection \<open>Publishing\<close>

lemma choose_partition_frame:
  "choose_partition ms t r = (t1, a) \<Longrightarrow>
     t_partitions t1 = t_partitions t \<and> t_name t1 = t_name t \<and> t_config t1 = t_config t
     \<and> t_subscribers t1 = t_subscribers t \<and> t_round_robin t \<le> t_round_robin t1"
  by (auto simp: choose_partition_def dest: assign_partition_frame split: if_splits)

lemma choose_partition_nonneg:
  "choose_partition ms t r = (t1, Inr pid) \<Longrightarrow> 0 \<le> t_round_robin t \<Longrightarrow> 0 \<le> pid"
  by (auto simp: choose_partition_def dest: assign_partition_range split: if_splits)

lemma py_nth_nonneg: "0 \<le> i \<Longrightarrow> py_nth xs i =
    (if i < int (length xs) then Inr (xs ! nat i) else Inl IndexError)"
  by (simp add: py_nth_def)

text \<open>The four ways a publish can end.\<close>

lemma topic_publish_cases [consumes 2, case_names too_large unassigned no_partition append]:
  assumes "topic_publish now ms ps t r = ((ms', ps', t'), res)" and "0 \<le> t_round_robin t"
  obtains
    (too_large) "0 < max_message_bytes (t_config t)"
      "int (size_bytes (ms r)) > max_message_bytes (t_config t)"
      "ms' = ms" "ps' = ps" "t' = t" "res = Inl ValueError"
  | (unassigned) e where "choose_partition ms t r = (t', Inl e)" "ms' = ms" "ps' = ps" "res = Inl e"
  | (no_partition) pid where "choose_partition ms t r = (t', Inr pid)"
      "int (length (t_partitions t)) \<le> pid" "ms' = ms(r := (ms r)\<lparr>m_partition := pid\<rparr>)"
      "ps' = ps" "res = Inl IndexError"
  | (append) pid p q where "choose_partition ms t r = (t', Inr pid)"
      "0 \<le> pid" "pid < int (length (t_partitions t))" "p = t_partitions t ! nat pid"
      "partition_append now (ms(r := (ms r)\<lparr>m_partition := pid, m_topic := t_name t\<rparr>)) (ps p) r
         = ((ms', q), res)"
      "ps' = ps(p := q)"
proof (cases "0 < max_message_bytes (t_config t)
    \<and> int (size_bytes (ms r)) > max_message_bytes (t_config t)")
  case True
  with assms(1) show ?thesis by (intro that(1)) (auto simp: topic_publish_def)
next
  case False
  obtain t1 a where ch: "choose_partition ms t r = (t1, a)" by fastforce
  note fr = choose_partition_frame [OF ch]
  show ?thesis
  proof (cases a)
    case (Inl e)
    with assms(1) False ch show ?thesis by (intro that(2)) (auto simp: topic_publish_def)
  next
    case (Inr pid)
    have nn: "0 \<le> pid" using choose_partition_nonneg ch Inr assms(2) by blast
    show ?thesis
    proof (cases "pid < int (length (t_partitions t))")
      case False': False
      with assms(1) False ch Inr fr nn show ?thesis
        by (intro that(3)) (auto simp: topic_publish_def py_nth_nonneg)
    next
      case True
      let ?ms2 = "ms(r := (ms r)\<lparr>m_partition := pid, m_topic := t_name t\<rparr>)"
      obtain ms3 q res' where pa:
        "partition_append now ?ms2 (ps (t_partitions t ! nat pid)) r = ((ms3, q), res')"
        by (metis surj_pair)
      have "ms' = ms3 \<and> ps' = ps(t_partitions t ! nat pid := q) \<and> t' = t1 \<and> res = res'"
        using assms(1) False ch Inr fr nn True pa
        by (simp add: topic_publish_def py_nth_nonneg)
      with ch Inr nn True pa show ?thesis by (intro that(4)) auto
    qed
  qed
qed

lemma topic_inv_frame: "fresh_for r ps t \<Longrightarrow> topic_inv (ms(r := m)) ps t = topic_inv ms ps t"
proof -
  assume fresh: "fresh_for r ps t"
  have "ordered (ms(r := m)) (ps (t_partitions t ! i)) = ordered ms (ps (t_partitions t ! i))"
    if "i < length (t_partitions t)" for i
    by (rule ordered_frame) (use fresh that in \<open>auto simp: fresh_for_def\<close>)
  then show ?thesis by (simp add: topic_inv_def)
qed

lemma topic_inv_ordered: "topic_inv ms ps t \<Longrightarrow> p \<in> set (t_partitions t) \<Longrightarrow> ordered ms (ps p)"
  by (auto simp: topic_inv_def in_set_conv_nth)

lemma topic_inv_id:
  "topic_inv ms ps t \<Longrightarrow> i < length (t_partitions t) \<Longrightarrow> p_id (ps (t_partitions t ! i)) = int i"
  unfolding topic_inv_def by blast

lemma topic_inv_config:
  assumes "topic_inv ms ps t" and "t_partitions t' = t_partitions t" and "t_name t' = t_name t"
    and "t_config t' = t_config t" and "t_round_robin t \<le> t_round_robin t'"
  shows "topic_inv ms ps t'"
  using assms by (simp add: topic_inv_def)

lemma partition_append_meta:
  "partition_append now ms p r = ((ms', p'), res) \<Longrightarrow> p_id p' = p_id p \<and> p_topic p' = p_topic p"
  by (auto simp: partition_append_def Let_def split: if_splits)

lemma partition_append_frame:
  "partition_append now ms p r = ((ms', p'), res) \<Longrightarrow> x \<noteq> r \<Longrightarrow> ms' x = ms x"
  by (auto simp: partition_append_def Let_def split: if_splits)

lemma topic_publish_frame:
  assumes "topic_publish now ms ps t r = ((ms', ps', t'), res)" and "0 \<le> t_round_robin t" and "x \<noteq> r"
  shows "ms' x = ms x"
  using assms by (cases rule: topic_publish_cases) (auto dest!: partition_append_frame)

lemma topic_publish_inv:
  assumes pub: "topic_publish now ms ps t r = ((ms', ps', t'), res)"
    and inv: "topic_inv ms ps t" and fresh: "fresh_for r ps t"
  shows "topic_inv ms' ps' t'"
proof -
  have rr: "0 \<le> t_round_robin t" using inv by (simp add: topic_inv_def)
  from pub rr show ?thesis
  proof (cases rule: topic_publish_cases)
    case too_large
    with inv show ?thesis by simp
  next
    case (unassigned e)
    with inv topic_inv_config choose_partition_frame show ?thesis by metis
  next
    case (no_partition pid)
    have "topic_inv ms' ps' t" using inv fresh no_partition(3,4) by (simp add: topic_inv_frame)
    with no_partition(1) topic_inv_config choose_partition_frame show ?thesis by metis
  next
    case (append pid p q)
    let ?ms2 = "ms(r := (ms r)\<lparr>m_partition := pid, m_topic := t_name t\<rparr>)"
    have p: "p \<in> set (t_partitions t)" using append(2,3,4) by simp
    have inv2: "topic_inv ?ms2 ps t" using inv fresh by (simp add: topic_inv_frame)
    then have "ordered ?ms2 (ps p)" using p by (rule topic_inv_ordered)
    then have oq: "ordered ms' q"
      using ordered_append [OF _ _ append(5)] fresh p by (simp add: fresh_for_def)
    have others: "ordered ms' (ps x)" if "x \<in> set (t_partitions t)" "x \<noteq> p" for x
    proof -
      have "ordered ?ms2 (ps x)" using inv2 that(1) by (rule topic_inv_ordered)
      moreover have "r \<notin> set (p_log (ps x))" using fresh that by (simp add: fresh_for_def)
      ultimately show ?thesis
        using ordered_cong [of "ps x" ms' ?ms2] partition_append_frame [OF append(5)] by metis
    qed
    have "topic_inv ms' ps' t"
      using inv2 partition_append_meta [OF append(5)] oq others
      by (auto simp: topic_inv_def append(6))
    with append(1) topic_inv_config choose_partition_frame show ?thesis by metis
  qed
qed

lemma choose_partition_key:
  assumes "choose_partition ms t r = (t1, Inr pid)"
  shows "m_partition (ms r) < 0 \<Longrightarrow> m_key (ms r) = Some k \<Longrightarrow>
           pid = int (md5_int (utf8_encode k)) mod int (length (t_partitions t)) \<and> t1 = t"
    and "m_partition (ms r) < 0 \<Longrightarrow> m_key (ms r) = None \<Longrightarrow>
           pid = t_round_robin t mod int (length (t_partitions t))
           \<and> t1 = t\<lparr>t_round_robin := t_round_robin t + 1\<rparr>"
    and "\<not> m_partition (ms r) < 0 \<Longrightarrow> pid = m_partition (ms r) \<and> t1 = t"
  using assms
  by (auto simp: choose_partition_def assign_partition_def consistent_hash_def split: if_splits)

text \<open>
  C21. Publishing a new message to a topic with partitions: on success it is appended, with its
  payload and key untouched and the topic's name on it, to exactly one partition log, at that
  partition's next offset, and no other partition and no other message changes. The partition is
  the one the message names; else, for a keyed message, the MD5 hash of the key modulo the number
  of partitions, whatever was published before; else the round-robin counter modulo that number.
  It fails only with ValueError (message too large or partition full) or, for a named partition
  that does not exist, IndexError, and then no log changes. The topic invariant is kept.
\<close>

theorem topic_publish_correct:
  assumes "topic_publish now ms ps t r = ((ms', ps', t'), res)" and "topic_inv ms ps t"
    and "fresh_for r ps t" and "t_partitions t \<noteq> []"
  shows "(case res of
      Inr off \<Rightarrow> (\<exists>i < length (t_partitions t). let p = t_partitions t ! i in
          off = current_offset (ps p) \<and> m_offset (ms' r) = off \<and> m_partition (ms' r) = int i
        \<and> m_topic (ms' r) = t_name t \<and> m_value (ms' r) = m_value (ms r) \<and> m_key (ms' r) = m_key (ms r)
        \<and> p_log (ps' p) = p_log (ps p) @ [r] \<and> (\<forall>q. q \<noteq> p \<longrightarrow> ps' q = ps q)
        \<and> int i = (if m_partition (ms r) \<ge> 0 then m_partition (ms r)
                   else case m_key (ms r) of
                     Some k \<Rightarrow> int (md5_int (utf8_encode k) mod length (t_partitions t))
                   | None \<Rightarrow> t_round_robin t mod int (length (t_partitions t))))
    | Inl e \<Rightarrow> ps' = ps \<and> (e = ValueError \<or>
          e = IndexError \<and> int (length (t_partitions t)) \<le> m_partition (ms r)))
    \<and> (\<forall>x. x \<noteq> r \<longrightarrow> ms' x = ms x) \<and> topic_inv ms' ps' t'"
proof -
  have rr: "0 \<le> t_round_robin t" using assms(2) by (simp add: topic_inv_def)
  have frame: "\<forall>x. x \<noteq> r \<longrightarrow> ms' x = ms x" using topic_publish_frame [OF assms(1) rr] by blast
  have inv: "topic_inv ms' ps' t'" using assms topic_publish_inv by blast
  from assms(1) rr show ?thesis
  proof (cases rule: topic_publish_cases)
    case too_large
    with frame inv show ?thesis by simp
  next
    case (unassigned e)
    then have False using assms(4)
      by (auto simp: choose_partition_def assign_partition_def consistent_hash_def
          split: if_splits option.splits)
    then show ?thesis ..
  next
    case (no_partition pid)
    have "m_partition (ms r) \<ge> 0"
    proof (rule ccontr)
      assume neg: "\<not> m_partition (ms r) \<ge> 0"
      then have "pid < int (length (t_partitions t))"
        using choose_partition_key(1,2) [OF no_partition(1)] assms(4)
        by (cases "m_key (ms r)") auto
      with no_partition(2) show False by simp
    qed
    then have "pid = m_partition (ms r)" using choose_partition_key(3) [OF no_partition(1)] by simp
    with no_partition frame inv show ?thesis by simp
  next
    case (append pid p q)
    show ?thesis
    proof (cases res)
      case (Inl e)
      with append(5) have "q = ps p" and "e = ValueError" by (auto dest: partition_append_err)
      with Inl append(6) frame inv show ?thesis by simp
    next
      case (Inr off)
      note ok = partition_append_ok [OF append(5) [unfolded Inr]]
      have pidp: "p_id (ps p) = pid"
        using topic_inv_id [OF assms(2), of "nat pid"] append(2,3,4) by (simp add: nat_less_iff)
      have ch: "pid = (if m_partition (ms r) \<ge> 0 then m_partition (ms r)
                   else case m_key (ms r) of
                     Some k \<Rightarrow> int (md5_int (utf8_encode k) mod length (t_partitions t))
                   | None \<Rightarrow> t_round_robin t mod int (length (t_partitions t)))"
        using choose_partition_key [OF append(1)]
        by (auto simp: zmod_int split: option.split)
      have i: "nat pid < length (t_partitions t)" "int (nat pid) = pid" using append(2,3) by simp_all
      show ?thesis
        unfolding Inr sum.case Let_def
        by (intro conjI exI [of _ "nat pid"] frame inv)
          (use i ch pidp append(4,6) ok in \<open>simp_all add: current_offset_def\<close>)
    qed
  qed
qed

text \<open>Publishing a list of messages one after the other, as the clients' loops do.\<close>

fun publish_all ::
    "(real \<times> mref) list \<Rightarrow> mstore \<times> pstore \<times> topic \<Rightarrow> (mstore \<times> pstore \<times> topic) \<times> int result list" where
  "publish_all [] s = (s, [])"
| "publish_all ((now, r) # rs) (ms, ps, t) =
     (let (s1, res) = topic_publish now ms ps t r;
          (s2, rest) = publish_all rs s1
      in (s2, res # rest))"

lemma publish_keyless_step:
  assumes "topic_publish now ms ps t r = ((ms', ps', t'), res)" and "0 \<le> t_round_robin t"
    and "t_partitions t \<noteq> []" and "max_message_bytes (t_config t) \<le> 0"
    and "m_key (ms r) = None" and "m_partition (ms r) < 0"
  shows "t' = t\<lparr>t_round_robin := t_round_robin t + 1\<rparr>"
  using assms(1,2)
proof (cases rule: topic_publish_cases)
  case (append pid p q)
  with choose_partition_key(2) assms show ?thesis by blast
qed (use assms in \<open>auto simp: choose_partition_def assign_partition_def\<close>)

lemma topic_publish_fresh:
  assumes "topic_publish now ms ps t r = ((ms', ps', t'), res)" and "0 \<le> t_round_robin t"
    and "fresh_for x ps t" and "x \<noteq> r"
  shows "fresh_for x ps' t'"
  using assms(1,2)
proof (cases rule: topic_publish_cases)
  case (append pid p q)
  have "x \<notin> set (p_log q)" if "p \<in> set (t_partitions t)"
    using append(5) assms(3,4) that
    by (auto simp: partition_append_def Let_def fresh_for_def split: if_splits)
  with assms(3) append(1,6) choose_partition_frame show ?thesis
    by (fastforce simp: fresh_for_def)
qed (use assms choose_partition_frame in \<open>auto simp: fresh_for_def\<close>)

lemma publish_keyless_partition:
  assumes "topic_publish now ms ps t r = ((ms', ps', t'), res)" and "topic_inv ms ps t"
    and "t_partitions t \<noteq> []" and "max_message_bytes (t_config t) \<le> 0"
    and "m_key (ms r) = None" and "m_partition (ms r) < 0"
  shows "m_partition (ms' r) = t_round_robin t mod int (length (t_partitions t))"
proof -
  have rr: "0 \<le> t_round_robin t" using assms(2) by (simp add: topic_inv_def)
  from assms(1) rr show ?thesis
  proof (cases rule: topic_publish_cases)
    case (append pid p q)
    have pid: "pid = t_round_robin t mod int (length (t_partitions t))"
      using choose_partition_key(2) [OF append(1) assms(6,5)] by simp
    have "p_id (ps p) = pid"
      using topic_inv_id [OF assms(2), of "nat pid"] append(2,3,4) by (simp add: nat_less_iff)
    then show ?thesis
      using append(5) pid by (auto simp: partition_append_def Let_def split: if_splits)
  qed (use assms choose_partition_key(2) in
        \<open>auto simp: choose_partition_def assign_partition_def\<close>)
qed

lemma publish_all_keyless:
  assumes "publish_all rs (ms, ps, t) = ((ms', ps', t'), results)" and "topic_inv ms ps t"
    and "t_partitions t \<noteq> []" and "max_message_bytes (t_config t) \<le> 0"
    and "distinct (map snd rs)"
    and "\<forall>r \<in> snd ` set rs. fresh_for r ps t \<and> m_key (ms r) = None \<and> m_partition (ms r) < 0"
  shows "(\<forall>i < length rs. m_partition (ms' (snd (rs ! i)))
            = (t_round_robin t + int i) mod int (length (t_partitions t)))
       \<and> (\<forall>x. x \<notin> snd ` set rs \<longrightarrow> ms' x = ms x)"
  using assms
proof (induction rs arbitrary: ms ps t results)
  case Nil
  then show ?case by simp
next
  case (Cons nr rs)
  obtain now r where nr: "nr = (now, r)" by (cases nr)
  have rr: "0 \<le> t_round_robin t" using Cons.prems(2) by (simp add: topic_inv_def)
  obtain ms1 ps1 t1 res where pub: "topic_publish now ms ps t r = ((ms1, ps1, t1), res)"
    by (metis surj_pair)
  obtain rest where rest: "publish_all rs (ms1, ps1, t1) = ((ms', ps', t'), rest)"
    using Cons.prems(1) nr pub by (auto split: prod.splits)
  have r: "fresh_for r ps t" "m_key (ms r) = None" "m_partition (ms r) < 0"
    using Cons.prems(6) nr by auto
  have t1: "t1 = t\<lparr>t_round_robin := t_round_robin t + 1\<rparr>"
    using publish_keyless_step [OF pub rr Cons.prems(3,4) r(2,3)] .
  have part: "m_partition (ms1 r) = t_round_robin t mod int (length (t_partitions t))"
    using publish_keyless_partition [OF pub Cons.prems(2,3,4) r(2,3)] .
  have rest_ok: "fresh_for x ps1 t1 \<and> m_key (ms1 x) = None \<and> m_partition (ms1 x) < 0"
    if "x \<in> snd ` set rs" for x
  proof -
    have "x \<noteq> r" using Cons.prems(5) that nr by auto
    moreover have "fresh_for x ps t" "m_key (ms x) = None" "m_partition (ms x) < 0"
      using Cons.prems(6) that nr by auto
    ultimately show ?thesis
      using topic_publish_fresh [OF pub rr] topic_publish_frame [OF pub rr] by simp
  qed
  have IH: "(\<forall>i < length rs. m_partition (ms' (snd (rs ! i)))
              = (t_round_robin t1 + int i) mod int (length (t_partitions t1)))
         \<and> (\<forall>x. x \<notin> snd ` set rs \<longrightarrow> ms' x = ms1 x)"
    using Cons.IH [OF rest topic_publish_inv [OF pub Cons.prems(2) r(1)]] Cons.prems(3,4,5) rest_ok t1 nr
    by simp
  have "r \<notin> snd ` set rs" using Cons.prems(5) nr by auto
  with IH part have head: "m_partition (ms' r) = t_round_robin t mod int (length (t_partitions t))"
    by simp
  have "m_partition (ms' (snd ((nr # rs) ! i)))
        = (t_round_robin t + int i) mod int (length (t_partitions t))"
    if "i < length (nr # rs)" for i
    using that IH head nr t1 by (cases i) (auto simp: algebra_simps)
  moreover have "ms' x = ms x" if "x \<notin> snd ` set (nr # rs)" for x
    using that IH nr topic_publish_frame [OF pub rr] by simp
  ultimately show ?case by blast
qed

text \<open>
  C9. Keyless messages are dealt out evenly: after publishing \<open>N\<close> new keyless messages one after
  the other to a topic with \<open>n\<close> partitions and no size limit on messages, the i-th has gone to
  partition (counter + i) mod n, and every partition has been chosen \<open>N div n\<close> times or once more.
\<close>

theorem round_robin_even:
  assumes "publish_all rs (ms, ps, t) = ((ms', ps', t'), results)" and "topic_inv ms ps t"
    and "max_message_bytes (t_config t) \<le> 0" and "distinct (map snd rs)"
    and "\<forall>r \<in> snd ` set rs. fresh_for r ps t \<and> m_key (ms r) = None \<and> m_partition (ms r) < 0"
    and "j < length (t_partitions t)"
  shows "(\<forall>i < length rs. m_partition (ms' (snd (rs ! i)))
            = (t_round_robin t + int i) mod int (length (t_partitions t)))
    \<and> length (filter (\<lambda>(_, r). m_partition (ms' r) = int j) rs)
        \<in> {length rs div length (t_partitions t), Suc (length rs div length (t_partitions t))}"
proof -
  let ?n = "length (t_partitions t)" and ?c = "t_round_robin t"
  have ne: "t_partitions t \<noteq> []" using assms(6) by auto
  have parts: "m_partition (ms' (snd (rs ! i))) = (?c + int i) mod int ?n" if "i < length rs" for i
    using publish_all_keyless [OF assms(1,2) ne assms(3,4,5)] that by blast
  have "length (filter (\<lambda>(_, r). m_partition (ms' r) = int j) rs)
      = card {i. i < length rs \<and> m_partition (ms' (snd (rs ! i))) = int j}"
    by (simp add: length_filter_conv_card case_prod_beta)
  also have "{i. i < length rs \<and> m_partition (ms' (snd (rs ! i))) = int j}
      = {i. i < length rs \<and> (?c + int i) mod int ?n = int j}"
    using parts by auto
  also have "card \<dots> = card {i \<in> {?c..<?c + int (length rs)}. i mod int ?n = int j}"
    by (rule bij_betw_same_card [of "\<lambda>i. ?c + int i"], rule bij_betw_byWitness
        [of _ "\<lambda>i. nat (i - ?c)"]) auto
  also have "\<dots> \<in> {length rs div ?n, Suc (length rs div ?n)}"
    by (rule count_consecutive) (use assms(6) in simp_all)
  finally show ?thesis using parts by simp
qed

subsection \<open>Witnesses\<close>

text \<open>A topic with two partitions at the references 0 and 1, and five fresh keyless messages.\<close>

definition sample_cfg :: topic_config where
  "sample_cfg = default_topic_config\<lparr>num_partitions := 2\<rparr>"

definition sample_ms :: mstore where
  "sample_ms r = message_new ''m'' 1 ''t'' [7] None []"

definition sample_ps :: pstore where
  "sample_ps p = partition_new [] 0 0 0"

lemma sample_topic:
  assumes "topic_new ''t'' sample_cfg 0 sample_ps = (t, ps, k)"
  shows "topic_inv sample_ms ps t" and "length (t_partitions t) = 2" and "t_partitions t \<noteq> []"
    and "fresh_for r ps t" and "t_round_robin t = 0" and "max_message_bytes (t_config t) = 0"
proof -
  show "topic_inv sample_ms ps t" by (rule topic_new_inv(1) [OF assms])
  show "fresh_for r ps t" using topic_new_inv(5) [OF assms] by (simp add: fresh_for_def)
  show "length (t_partitions t) = 2" "t_round_robin t = 0" "max_message_bytes (t_config t) = 0"
    using assms by (auto simp: topic_new_def sample_cfg_def default_topic_config_def)
  then show "t_partitions t \<noteq> []" by auto
qed

theorem topic_publish_correct_witness:
  "\<exists>t ps k ms' ps' t' off. topic_new ''t'' sample_cfg 0 sample_ps = (t, ps, k)
     \<and> topic_publish 3 sample_ms ps t 9 = ((ms', ps', t'), Inr off)
     \<and> off = 0 \<and> m_partition (ms' 9) = 0"
proof -
  obtain t ps k where new: "topic_new ''t'' sample_cfg 0 sample_ps = (t, ps, k)"
    by (metis surj_pair)
  note s = sample_topic [OF new]
  have pn: "ps 0 = partition_new ''t'' 0 0 0" and tp: "t_partitions t = [0, 1]"
    using new by (auto simp: topic_new_def sample_cfg_def default_topic_config_def Let_def
        fold_alloc upt_rec numeral_eq_Suc)
  obtain ms' ps' t' res where pub: "topic_publish 3 sample_ms ps t 9 = ((ms', ps', t'), res)"
    by (metis surj_pair)
  have un: "m_partition (sample_ms 9) = -1" "m_key (sample_ms 9) = None"
    by (simp_all add: sample_ms_def message_new_def)
  have res: "res = Inr 0"
    using pub un s(6) pn tp
    by (auto simp: topic_publish_def choose_partition_def assign_partition_def s(5) py_nth_def
        partition_append_def partition_new_def Let_def)
  from topic_publish_correct [OF pub s(1) s(4) s(3)] un s(2,5)
  have "m_partition (ms' 9) = 0" by (auto simp: res Let_def)
  with new pub res show ?thesis by blast
qed

theorem round_robin_even_witness:
  "\<exists>t ps k ms' ps' t' results. topic_new ''t'' sample_cfg 0 sample_ps = (t, ps, k)
     \<and> publish_all [(1, 11), (2, 12), (3, 13)] (sample_ms, ps, t) = ((ms', ps', t'), results)
     \<and> m_partition (ms' 11) = 0 \<and> m_partition (ms' 12) = 1 \<and> m_partition (ms' 13) = 0"
proof -
  let ?rs = "[(1, 11), (2, 12), (3, 13)] :: (real \<times> mref) list"
  obtain t ps k where new: "topic_new ''t'' sample_cfg 0 sample_ps = (t, ps, k)"
    by (metis surj_pair)
  note s = sample_topic [OF new]
  obtain ms' ps' t' results
    where pub: "publish_all ?rs (sample_ms, ps, t) = ((ms', ps', t'), results)"
    by (metis surj_pair)
  have fr: "\<forall>r \<in> snd ` set ?rs. fresh_for r ps t \<and> m_key (sample_ms r) = None
              \<and> m_partition (sample_ms r) < 0"
    using s(4) by (simp add: sample_ms_def message_new_def)
  have "\<forall>i < length ?rs. m_partition (ms' (snd (?rs ! i))) = (0 + int i) mod 2"
    using round_robin_even [OF pub s(1) _ _ fr, of 0] s(2,5,6) by simp
  then have "m_partition (ms' 11) = 0 \<and> m_partition (ms' 12) = 1 \<and> m_partition (ms' 13) = 0"
    by (simp add: All_less_Suc numeral_eq_Suc)
  with new pub show ?thesis by blast
qed

end
