(* ===== verification/Heapq.thy ===== *)
theory Heapq
  imports Prelude
begin

section \<open>Binary heaps in a list\<close>

text \<open>
  The two operations of Python's \<^verbatim>\<open>heapq\<close> that \<^verbatim>\<open>queue.py\<close> uses, as the standard library writes
  them, on entries that are compared by their first component. The locale \<open>priority_store\<close> is
  the contract the priority queue relies on: pushing adds an entry, popping removes a smallest
  one; its consequence is that popping everything gives the entries in order. The heap functions
  interpret it.
\<close>

subsection \<open>The operations\<close>

text \<open>\<open>_siftdown\<close>: move parents down until \<open>newitem\<close> fits.\<close>

function siftdown_loop ::
    "('k :: linorder \<times> 'v) list \<Rightarrow> nat \<Rightarrow> nat \<Rightarrow> 'k \<times> 'v \<Rightarrow> ('k \<times> 'v) list" where
  "siftdown_loop heap startpos pos newitem =
     (if pos > startpos then
        (let parentpos = (pos - 1) div 2; parent = heap ! parentpos
         in if fst newitem < fst parent
            then siftdown_loop (heap[pos := parent]) startpos parentpos newitem
            else heap[pos := newitem])
      else heap[pos := newitem])"
  by pat_completeness auto
termination
  by (relation "measure (\<lambda>(heap, startpos, pos, newitem). pos)") auto

declare siftdown_loop.simps [simp del]

definition siftdown :: "('k :: linorder \<times> 'v) list \<Rightarrow> nat \<Rightarrow> nat \<Rightarrow> ('k \<times> 'v) list" where
  "siftdown heap startpos pos = siftdown_loop heap startpos pos (heap ! pos)"

text \<open>\<open>_siftup\<close>: bubble the smaller child up until a leaf is reached, then sift down there.\<close>

function siftup_loop ::
    "('k :: linorder \<times> 'v) list \<Rightarrow> nat \<Rightarrow> nat \<Rightarrow> ('k \<times> 'v) list \<times> nat" where
  "siftup_loop heap endpos pos =
     (let childpos = 2 * pos + 1 in
      if childpos < endpos then
        (let rightpos = childpos + 1;
             c = (if rightpos < endpos \<and> \<not> fst (heap ! childpos) < fst (heap ! rightpos)
                  then rightpos else childpos)
         in siftup_loop (heap[pos := heap ! c]) endpos c)
      else (heap, pos))"
  by pat_completeness auto
termination
  by (relation "measure (\<lambda>(heap, endpos, pos). endpos - pos)") auto

declare siftup_loop.simps [simp del]

definition siftup :: "('k :: linorder \<times> 'v) list \<Rightarrow> nat \<Rightarrow> ('k \<times> 'v) list" where
  "siftup heap pos =
     (let newitem = heap ! pos; (h, p) = siftup_loop heap (length heap) pos
      in siftdown (h[p := newitem]) pos p)"

definition heappush :: "'k :: linorder \<times> 'v \<Rightarrow> ('k \<times> 'v) list \<Rightarrow> ('k \<times> 'v) list" where
  "heappush item heap = siftdown (heap @ [item]) 0 (length heap)"

definition heappop :: "('k :: linorder \<times> 'v) list \<Rightarrow> (('k \<times> 'v) \<times> ('k \<times> 'v) list) option" where
  "heappop heap =
     (if heap = [] then None
      else (let lastelt = last heap; h = butlast heap
            in if h \<noteq> [] then Some (h ! 0, siftup (h[0 := lastelt]) 0)
               else Some (lastelt, [])))"

subsection \<open>The heap order\<close>

definition parent :: "nat \<Rightarrow> nat" where
  "parent i = (i - 1) div 2"

abbreviation edge :: "('k :: linorder \<times> 'v) list \<Rightarrow> nat \<Rightarrow> bool" where
  "edge h i \<equiv> fst (h ! parent i) \<le> fst (h ! i)"

definition is_heap :: "('k :: linorder \<times> 'v) list \<Rightarrow> bool" where
  "is_heap h \<longleftrightarrow> (\<forall>i. 0 < i \<and> i < length h \<longrightarrow> edge h i)"

text \<open>Only the edge into \<open>pos\<close> may be wrong, and the grandparent is below the grandchildren.\<close>

definition heap_but :: "('k :: linorder \<times> 'v) list \<Rightarrow> nat \<Rightarrow> bool" where
  "heap_but g pos \<longleftrightarrow>
     (\<forall>i. 0 < i \<and> i < length g \<and> i \<noteq> pos \<longrightarrow> edge g i) \<and>
     (\<forall>i. 0 < i \<and> i < length g \<and> parent i = pos \<and> 0 < pos \<longrightarrow>
        fst (g ! parent pos) \<le> fst (g ! i))"

lemma parent_less: "0 < i \<Longrightarrow> parent i < i"
  by (auto simp: parent_def)

lemma parent_iff: "0 < i \<Longrightarrow> parent i = p \<longleftrightarrow> i = 2 * p + 1 \<or> i = 2 * p + 2"
  by (auto simp: parent_def)

lemma is_heap_min: "is_heap h \<Longrightarrow> i < length h \<Longrightarrow> fst (h ! 0) \<le> fst (h ! i)"
proof (induction i rule: less_induct)
  case (less i)
  show ?case
  proof (cases "i = 0")
    case False
    then have "parent i < i" by (simp add: parent_less)
    with less.IH [OF this] less.prems(1,2) have "fst (h ! 0) \<le> fst (h ! parent i)" by simp
    also have "\<dots> \<le> fst (h ! i)" using less.prems False by (simp add: is_heap_def)
    finally show ?thesis .
  qed simp
qed

lemma mset_swap_in:
  assumes "i < length h" and "j < length h" and "i \<noteq> j"
  shows "mset (h[j := h ! i, i := x]) = mset (h[j := x])"
proof -
  have "h[j := h ! i, i := x] = (h[j := x])[j := (h[j := x]) ! i, i := (h[j := x]) ! j]"
    using assms by simp
  then show ?thesis using assms by (simp only: mset_swap length_list_update)
qed

lemma siftdown_loop_mset:
  "pos < length heap \<Longrightarrow> mset (siftdown_loop heap s pos x) = mset (heap[pos := x])"
proof (induction heap s pos x rule: siftdown_loop.induct)
  case (1 heap s pos x)
  show ?case
  proof (cases "pos > s \<and> fst x < fst (heap ! ((pos - 1) div 2))")
    case True
    let ?pp = "(pos - 1) div 2"
    have pp: "?pp < pos" using True by auto
    have "mset (siftdown_loop (heap[pos := heap ! ?pp]) s ?pp x) = mset (heap[pos := heap ! ?pp, ?pp := x])"
      using "1.IH" True "1.prems" pp by simp
    also have "\<dots> = mset (heap[pos := x])"
      by (rule mset_swap_in) (use pp "1.prems" in auto)
    finally show ?thesis using True by (simp add: siftdown_loop.simps [of heap s pos x] Let_def)
  next
    case False
    then show ?thesis by (auto simp: siftdown_loop.simps [of heap s pos x])
  qed
qed

lemma heap_but_step:
  assumes "heap_but (h[pos := x]) pos" and "0 < pos" and "pos < length h"
    and "fst x < fst (h ! parent pos)"
  shows "heap_but (h[pos := h ! parent pos, parent pos := x]) (parent pos)"
proof -
  let ?pp = "parent pos" and ?g = "h[pos := x]"
  let ?g' = "h[pos := h ! parent pos, parent pos := x]"
  have pp: "?pp < pos" using assms(2) by (rule parent_less)
  have A: "0 < i \<Longrightarrow> i < length h \<Longrightarrow> i \<noteq> pos \<Longrightarrow> edge ?g i" for i
    using assms(1) by (simp add: heap_but_def)
  have B: "fst (h ! ?pp) \<le> fst (h ! i)" if "0 < i" "i < length h" "parent i = pos" for i
  proof -
    have "fst (?g ! ?pp) \<le> fst (?g ! i)" using assms(1,2) that by (simp add: heap_but_def)
    moreover have "i \<noteq> pos" "?pp \<noteq> pos" using that parent_less [OF that(1)] pp by simp_all
    ultimately show ?thesis by simp
  qed
  have sib: "fst (h ! ?pp) \<le> fst (h ! i)" if "0 < i" "i < length h" "parent i = ?pp" "i \<noteq> pos" for i
    using A [OF that(1,2,4)] that pp by simp
  have up: "fst (h ! parent ?pp) \<le> fst (h ! ?pp)" if "0 < ?pp"
    using A [OF that] that pp assms(3) parent_less [OF that] by simp
  have "edge ?g' i" if "0 < i" "i < length h" "i \<noteq> ?pp" for i
  proof -
    have pi: "parent i < i" using that(1) by (rule parent_less)
    consider "i = pos" | "i \<noteq> pos" "parent i = pos" | "i \<noteq> pos" "parent i = ?pp"
      | "i \<noteq> pos" "parent i \<noteq> pos" "parent i \<noteq> ?pp" by blast
    then show ?thesis
    proof cases
      case 1
      with assms(3,4) pp show ?thesis by simp
    next
      case 2
      with B [OF that(1,2)] that pi pp show ?thesis by simp
    next
      case 3
      with sib [OF that(1,2)] that pi pp assms(3,4) show ?thesis by simp
    next
      case 4
      with A [OF that(1,2)] that pi pp show ?thesis by simp
    qed
  qed
  moreover have "fst (?g' ! parent ?pp) \<le> fst (?g' ! i)"
    if "0 < i" "i < length h" "parent i = ?pp" "0 < ?pp" for i
  proof (cases "i = pos")
    case True
    with that up pp parent_less [OF that(4)] assms(3) show ?thesis by simp
  next
    case False
    have "i \<noteq> ?pp" using parent_less [OF that(1)] that(3) by simp
    with that up sib [OF that(1,2,3) False] False pp parent_less [OF that(4)] show ?thesis by simp
  qed
  ultimately show ?thesis by (simp add: heap_but_def)
qed

lemma siftdown_loop_heap:
  "pos < length heap \<Longrightarrow> heap_but (heap[pos := x]) pos \<Longrightarrow> is_heap (siftdown_loop heap 0 pos x)"
proof (induction heap "0 :: nat" pos x rule: siftdown_loop.induct)
  case (1 heap pos x)
  show ?case
  proof (cases "0 < pos \<and> fst x < fst (heap ! parent pos)")
    case True
    have "parent pos < length heap" using parent_less [of pos] True "1.prems"(1) by simp
    with True heap_but_step [OF "1.prems"(2)] "1.prems"(1) "1.hyps"
    have "is_heap (siftdown_loop (heap[pos := heap ! parent pos]) 0 (parent pos) x)"
      by (simp add: parent_def)
    with True show ?thesis by (simp add: siftdown_loop.simps [of heap 0 pos x] parent_def Let_def)
  next
    case False
    then have eq: "siftdown_loop heap 0 pos x = heap[pos := x]"
      by (auto simp: siftdown_loop.simps [of heap 0 pos x] parent_def)
    have "edge (heap[pos := x]) pos" if "0 < pos"
      using that False "1.prems"(1) parent_less [OF that] by simp
    moreover have "edge (heap[pos := x]) i" if "0 < i" "i < length heap" "i \<noteq> pos" for i
      using "1.prems"(2) that by (simp add: heap_but_def)
    ultimately show ?thesis unfolding is_heap_def eq by (metis length_list_update)
  qed
qed

lemma siftup_loop_mset:
  "pos < length heap \<Longrightarrow> endpos \<le> length heap \<Longrightarrow>
     (case siftup_loop heap endpos pos of (h, p) \<Rightarrow>
        mset (h[p := x]) = mset (heap[pos := x]) \<and> length h = length heap \<and> p < length heap)"
proof (induction heap endpos pos rule: siftup_loop.induct)
  case (1 heap endpos pos)
  show ?case
  proof (cases "2 * pos + 1 < endpos")
    case True
    define c where "c = (if 2 * pos + 1 + 1 < endpos \<and>
        \<not> fst (heap ! (2 * pos + 1)) < fst (heap ! (2 * pos + 1 + 1)) then 2 * pos + 1 + 1 else 2 * pos + 1)"
    have c: "c < length heap" "pos < c" using True "1.prems" by (auto simp: c_def)
    have "mset (heap[pos := heap ! c, c := x]) = mset (heap[pos := x])"
      by (rule mset_swap_in) (use c "1.prems" in auto)
    with "1.IH" [OF refl True refl c_def] c "1.prems" True show ?thesis
      by (subst siftup_loop.simps) (auto simp: Let_def c_def split: prod.splits)
  next
    case False
    with "1.prems" show ?thesis by (subst siftup_loop.simps) simp
  qed
qed

text \<open>The loop from the root: afterwards the list is a heap with a leaf at the final position.\<close>

lemma siftup_loop_heap:
  "pos < length heap \<Longrightarrow>
   (\<forall>i. 0 < i \<and> i < length heap \<and> (pos = 0 \<longrightarrow> parent i \<noteq> 0) \<longrightarrow> edge heap i) \<Longrightarrow>
     (case siftup_loop heap (length heap) pos of (h, p) \<Rightarrow>
        length h \<le> 2 * p + 1 \<and> (\<forall>i. 0 < i \<and> i < length h \<and> i \<noteq> p \<longrightarrow> edge h i))"
proof (induction heap "length heap" pos rule: siftup_loop.induct)
  case (1 heap pos)
  show ?case
  proof (cases "2 * pos + 1 < length heap")
    case True
    define c where "c = (if 2 * pos + 1 + 1 < length heap \<and>
        \<not> fst (heap ! (2 * pos + 1)) < fst (heap ! (2 * pos + 1 + 1)) then 2 * pos + 1 + 1 else 2 * pos + 1)"
    have c: "c < length heap" "pos < c" "parent c = pos" using True by (auto simp: c_def parent_def)
    have small: "fst (heap ! c) \<le> fst (heap ! i)"
      if "0 < i" "i < length heap" "parent i = pos" for i
      using that parent_iff [OF that(1), of pos] by (auto simp: c_def)
    let ?h = "heap[pos := heap ! c]"
    have "edge ?h i" if "0 < i" "i < length heap" for i
    proof (cases "i = pos")
      case True
      have "edge heap pos" and "edge heap c"
        using "1.prems"(2) that c True by auto
      with True c parent_less [OF that(1)] that show ?thesis by simp
    next
      case False
      then show ?thesis
        using small [OF that] "1.prems" that by (cases "parent i = pos") auto
    qed
    then have "case siftup_loop ?h (length heap) c of (h, p) \<Rightarrow>
        length h \<le> 2 * p + 1 \<and> (\<forall>i. 0 < i \<and> i < length h \<and> i \<noteq> p \<longrightarrow> edge h i)"
      using "1.hyps" [OF refl True refl c_def] c by simp
    moreover have "siftup_loop heap (length heap) pos = siftup_loop ?h (length heap) c"
      using True by (subst siftup_loop.simps) (simp add: Let_def c_def)
    ultimately show ?thesis by simp
  next
    case False
    with "1.prems" show ?thesis by (subst siftup_loop.simps) auto
  qed
qed

lemma heap_but_leaf:
  assumes "length h \<le> 2 * p + 1" and "p < length h"
    and "\<forall>i. 0 < i \<and> i < length h \<and> i \<noteq> p \<longrightarrow> edge h i"
  shows "heap_but (h[p := x]) p"
proof -
  have no_child: "parent i \<noteq> p" if "0 < i" "i < length h" for i
    using that assms(1) parent_iff [OF that(1), of p] by auto
  have "edge (h[p := x]) i" if "0 < i" "i < length h" "i \<noteq> p" for i
    using that no_child [OF that(1,2)] assms(3) by simp
  then show ?thesis using no_child unfolding heap_but_def by (metis length_list_update)
qed

subsection \<open>Push and pop\<close>

lemma heappush_mset: "mset (heappush item heap) = add_mset item (mset heap)"
  by (simp add: heappush_def siftdown_def siftdown_loop_mset)

lemma heappush_heap:
  assumes "is_heap heap"
  shows "is_heap (heappush item heap)"
proof -
  let ?h = "heap @ [item]"
  have "edge ?h i" if "0 < i" "i < length ?h" "i \<noteq> length heap" for i
    using assms that parent_less [OF that(1)] by (simp add: is_heap_def nth_append)
  then have "heap_but (?h[length heap := item]) (length heap)"
    by (intro heap_but_leaf) auto
  then show ?thesis
    by (simp add: heappush_def siftdown_def siftdown_loop_heap)
qed

lemma siftup_root:
  assumes "heap \<noteq> []" and "\<forall>i. 0 < i \<and> i < length heap \<and> parent i \<noteq> 0 \<longrightarrow> edge heap i"
  shows "is_heap (siftup heap 0)" and "mset (siftup heap 0) = mset heap"
proof -
  obtain h p where loop: "siftup_loop heap (length heap) 0 = (h, p)" by fastforce
  have len: "length h = length heap" "p < length heap"
    and ms: "mset (h[p := heap ! 0]) = mset (heap[0 := heap ! 0])"
    using siftup_loop_mset [of 0 heap "length heap" "heap ! 0"] assms(1) loop by auto
  have leaf: "length h \<le> 2 * p + 1" "\<forall>i. 0 < i \<and> i < length h \<and> i \<noteq> p \<longrightarrow> edge h i"
    using siftup_loop_heap [of 0 heap] assms loop by auto
  have up: "siftup heap 0 = siftdown_loop (h[p := heap ! 0]) 0 p (heap ! 0)"
    using loop len by (simp add: siftup_def siftdown_def Let_def)
  have "heap_but (h[p := heap ! 0, p := heap ! 0]) p"
    using heap_but_leaf [OF leaf(1) _ leaf(2), of "heap ! 0"] len by simp
  then show "is_heap (siftup heap 0)"
    unfolding up using len by (intro siftdown_loop_heap) simp_all
  show "mset (siftup heap 0) = mset heap"
    unfolding up using len ms by (simp add: siftdown_loop_mset)
qed

lemma heappop_None: "heappop heap = None \<longleftrightarrow> heap = []"
  by (simp add: heappop_def Let_def)

lemma heappop_Some:
  assumes "is_heap heap" and "heappop heap = Some (e, heap')"
  shows "is_heap heap'" and "mset heap = add_mset e (mset heap')"
    and "\<And>x. x \<in> set heap \<Longrightarrow> fst e \<le> fst x"
proof -
  obtain rest l where heap: "heap = rest @ [l]"
    using assms(2) by (cases heap rule: rev_cases) (auto simp: heappop_def)
  have res: "e = heap ! 0 \<and> is_heap heap' \<and> mset heap = add_mset e (mset heap')"
  proof (cases rest)
    case Nil
    with assms(2) heap show ?thesis by (simp add: heappop_def is_heap_def)
  next
    case (Cons a as)
    have pop: "e = a" "heap' = siftup (l # as) 0"
      using assms(2) heap Cons by (simp_all add: heappop_def Let_def butlast_append)
    have edges: "edge (l # as) i" if "0 < i" "i < length (l # as)" "parent i \<noteq> 0" for i
    proof -
      have "i < length heap" using that(2) by (simp add: heap Cons)
      then have "edge heap i" using assms(1) that(1) unfolding is_heap_def by blast
      moreover have "heap ! j = (l # as) ! j" if "0 < j" "j < length (l # as)" for j
        using that by (cases j) (simp_all add: heap Cons nth_append)
      ultimately show ?thesis using that parent_less [OF that(1)] by simp
    qed
    then have "is_heap (siftup (l # as) 0)" and "mset (siftup (l # as) 0) = mset (l # as)"
      using siftup_root [of "l # as"] by blast+
    with pop heap Cons show ?thesis by simp
  qed
  then show "is_heap heap'" "mset heap = add_mset e (mset heap')" by blast+
  show "fst e \<le> fst x" if "x \<in> set heap" for x
    using that is_heap_min [OF assms(1)] res by (auto simp: in_set_conv_nth)
qed

subsection \<open>The contract\<close>

text \<open>\<open>pop_all\<close> pops until nothing is left; \<open>fuel\<close> bounds the number of pops.\<close>

fun pop_all :: "('q \<Rightarrow> (('k \<times> 'v) \<times> 'q) option) \<Rightarrow> nat \<Rightarrow> 'q \<Rightarrow> ('k \<times> 'v) list" where
  "pop_all pop 0 q = []"
| "pop_all pop (Suc fuel) q =
     (case pop q of None \<Rightarrow> [] | Some (e, q') \<Rightarrow> e # pop_all pop fuel q')"

locale priority_store =
  fixes invar :: "'q \<Rightarrow> bool"
    and content :: "'q \<Rightarrow> ('k :: linorder \<times> 'v) multiset"
    and push :: "'k \<times> 'v \<Rightarrow> 'q \<Rightarrow> 'q"
    and pop :: "'q \<Rightarrow> (('k \<times> 'v) \<times> 'q) option"
  assumes push_invar: "invar q \<Longrightarrow> invar (push e q)"
    and push_content: "invar q \<Longrightarrow> content (push e q) = add_mset e (content q)"
    and pop_none: "invar q \<Longrightarrow> pop q = None \<longleftrightarrow> content q = {#}"
    and pop_invar: "invar q \<Longrightarrow> pop q = Some (e, q') \<Longrightarrow> invar q'"
    and pop_content: "invar q \<Longrightarrow> pop q = Some (e, q') \<Longrightarrow> content q = add_mset e (content q')"
    and pop_least: "invar q \<Longrightarrow> pop q = Some (e, q') \<Longrightarrow> x \<in># content q \<Longrightarrow> fst e \<le> fst x"
begin

lemma pop_all_mset: "invar q \<Longrightarrow> size (content q) \<le> fuel \<Longrightarrow> mset (pop_all pop fuel q) = content q"
proof (induction fuel arbitrary: q)
  case 0
  then show ?case by simp
next
  case (Suc fuel)
  show ?case
  proof (cases "pop q")
    case None
    with Suc.prems pop_none have "content q = {#}" by simp
    with None show ?thesis by simp
  next
    case (Some eq)
    obtain e q' where eq: "eq = (e, q')" by (cases eq)
    with Some Suc.prems pop_invar pop_content have "invar q'" "content q = add_mset e (content q')"
      by blast+
    with Suc Some eq show ?thesis by simp
  qed
qed

lemma pop_all_sorted: "invar q \<Longrightarrow> sorted (map fst (pop_all pop fuel q))"
proof (induction fuel arbitrary: q)
  case 0
  then show ?case by simp
next
  case (Suc fuel)
  show ?case
  proof (cases "pop q")
    case None
    then show ?thesis by simp
  next
    case (Some eq)
    obtain e q' where eq: "eq = (e, q')" by (cases eq)
    with Some Suc.prems have inv: "invar q'" and cont: "content q = add_mset e (content q')"
      and least: "\<And>x. x \<in># content q \<Longrightarrow> fst e \<le> fst x"
      using pop_invar pop_content pop_least by blast+
    have "set (pop_all pop n r) \<subseteq> set_mset (content r)" if "invar r" for n r
      using that
    proof (induction n arbitrary: r)
      case (Suc n)
      show ?case
      proof (cases "pop r")
        case (Some er)
        obtain e' r' where er: "er = (e', r')" by (cases er)
        with Some Suc.prems have "invar r'" "content r = add_mset e' (content r')"
          using pop_invar pop_content by blast+
        with Suc.IH [of r'] Some er show ?thesis by auto
      qed simp
    qed simp
    with inv cont least Suc.IH [OF inv] Some eq show ?thesis by fastforce
  qed
qed

end

interpretation hq: priority_store is_heap mset heappush heappop
proof (unfold_locales, goal_cases)
  case (6 q e q' x)
  then show ?case using heappop_Some(3) [of q e q' x] by simp
qed (simp_all add: heappush_heap heappush_mset heappop_None heappop_Some)

end
