(* ===== verification/Queue.thy ===== *)
theory Queue
  imports Message Heapq "HOL-Library.Product_Lexorder"
begin

section \<open>Point-to-point queues\<close>

text \<open>
  \<^verbatim>\<open>queue.py\<close>: the FIFO queue and the priority queue with visibility timeouts. A dequeued message
  is kept in \<open>in_flight\<close> under its id with the time its visibility ends; acknowledging removes
  it, a negative acknowledgement or the end of the time puts it back. Both queues run each method
  under their lock; \<open>dequeue\<close> reads the clock twice, before requeueing and for the new expiry, and
  takes the lock twice, and is modelled by the two parts in sequence. The creation time and the
  texts of the ValueErrors are not modelled.
\<close>

type_synonym flight = "(string, mref \<times> real) dict"

text \<open>\<open>visibility_timeout or self.visibility_timeout\<close>: None and 0.0 both give the default.\<close>

definition effective_timeout :: "real option \<Rightarrow> real \<Rightarrow> real" where
  "effective_timeout t dflt = (case t of None \<Rightarrow> dflt | Some x \<Rightarrow> if x = 0 then dflt else x)"

definition expired_ids :: "real \<Rightarrow> flight \<Rightarrow> string list" where
  "expired_ids now d = map fst (filter (\<lambda>(mid, r, expiry). now \<ge> expiry) d)"

subsection \<open>The FIFO queue\<close>

record message_queue =
  q_name :: string
  q_max_size :: int
  q_visibility_timeout :: real
  q_queue :: "mref list"
  q_in_flight :: flight
  q_total_enqueued :: int
  q_total_dequeued :: int
  q_total_acked :: int

definition queue_new :: "string \<Rightarrow> int \<Rightarrow> real \<Rightarrow> message_queue" where
  "queue_new name max_size timeout =
     \<lparr>q_name = name, q_max_size = max_size, q_visibility_timeout = timeout, q_queue = [],
      q_in_flight = [], q_total_enqueued = 0, q_total_dequeued = 0, q_total_acked = 0\<rparr>"

definition queue_depth :: "message_queue \<Rightarrow> nat" where
  "queue_depth q = length (q_queue q)"

definition queue_in_flight_count :: "message_queue \<Rightarrow> nat" where
  "queue_in_flight_count q = length (q_in_flight q)"

definition queue_enqueue ::
    "real \<Rightarrow> mstore \<Rightarrow> message_queue \<Rightarrow> mref \<Rightarrow> (mstore \<times> message_queue) \<times> unit result" where
  "queue_enqueue now ms q r =
     (if q_max_size q > 0 \<and> int (length (q_queue q)) \<ge> q_max_size q
      then ((ms, q), Inl ValueError)
      else ((ms(r := (ms r)\<lparr>m_broker_timestamp := now\<rparr>),
             q\<lparr>q_queue := q_queue q @ [r], q_total_enqueued := q_total_enqueued q + 1\<rparr>), Inr ()))"

text \<open>\<open>self._in_flight.pop(mid)\<close> and \<open>appendleft\<close>, for one id and for all expired ones in turn.\<close>

definition requeue_one :: "string \<Rightarrow> message_queue \<Rightarrow> message_queue" where
  "requeue_one mid q =
     (case dict_get (q_in_flight q) mid of
        None \<Rightarrow> q
      | Some (r, _) \<Rightarrow> q\<lparr>q_in_flight := dict_del mid (q_in_flight q), q_queue := r # q_queue q\<rparr>)"

definition queue_requeue_timed_out :: "real \<Rightarrow> message_queue \<Rightarrow> message_queue \<times> nat" where
  "queue_requeue_timed_out now q =
     (let ids = expired_ids now (q_in_flight q) in (fold requeue_one ids q, length ids))"

definition queue_dequeue ::
    "real \<Rightarrow> real \<Rightarrow> mstore \<Rightarrow> real option \<Rightarrow> message_queue \<Rightarrow> message_queue \<times> mref option" where
  "queue_dequeue now1 now2 ms visibility_timeout q0 =
     (let q = fst (queue_requeue_timed_out now1 q0);
          timeout = effective_timeout visibility_timeout (q_visibility_timeout q)
      in case q_queue q of
           [] \<Rightarrow> (q, None)
         | r # rest \<Rightarrow>
             (q\<lparr>q_queue := rest,
                q_in_flight := dict_set (m_id (ms r)) (r, now2 + timeout) (q_in_flight q),
                q_total_dequeued := q_total_dequeued q + 1\<rparr>, Some r))"

definition queue_acknowledge :: "string \<Rightarrow> message_queue \<Rightarrow> message_queue \<times> bool" where
  "queue_acknowledge message_id q =
     (if message_id \<in> set (keys (q_in_flight q))
      then (q\<lparr>q_in_flight := dict_del message_id (q_in_flight q),
              q_total_acked := q_total_acked q + 1\<rparr>, True)
      else (q, False))"

definition queue_nack :: "string \<Rightarrow> message_queue \<Rightarrow> message_queue \<times> bool" where
  "queue_nack message_id q =
     (case dict_get (q_in_flight q) message_id of
        Some (r, _) \<Rightarrow>
          (q\<lparr>q_in_flight := dict_del message_id (q_in_flight q), q_queue := r # q_queue q\<rparr>, True)
      | None \<Rightarrow> (q, False))"

definition queue_peek :: "message_queue \<Rightarrow> mref option" where
  "queue_peek q = (case q_queue q of [] \<Rightarrow> None | r # _ \<Rightarrow> Some r)"

definition queue_purge :: "message_queue \<Rightarrow> message_queue \<times> nat" where
  "queue_purge q = (q\<lparr>q_queue := []\<rparr>, length (q_queue q))"

record queue_info =
  qi_name :: string
  qi_depth :: nat
  qi_in_flight :: nat
  qi_enqueued :: int
  qi_dequeued :: int
  qi_acked :: int
  qi_max_size :: int
  qi_visibility_timeout :: real

definition queue_snapshot :: "message_queue \<Rightarrow> queue_info" where
  "queue_snapshot q =
     \<lparr>qi_name = q_name q, qi_depth = length (q_queue q), qi_in_flight = length (q_in_flight q),
      qi_enqueued = q_total_enqueued q, qi_dequeued = q_total_dequeued q,
      qi_acked = q_total_acked q, qi_max_size = q_max_size q,
      qi_visibility_timeout = q_visibility_timeout q\<rparr>"

subsection \<open>The priority queue\<close>

text \<open>Heap entries are \<open>(-priority, sequence)\<close> with the message; the sequence is unique.\<close>

record priority_queue =
  pq_name :: string
  pq_max_size :: int
  pq_visibility_timeout :: real
  pq_heap :: "((int \<times> nat) \<times> mref) list"
  pq_sequence :: nat
  pq_in_flight :: flight
  pq_total_enqueued :: int
  pq_total_dequeued :: int

definition pq_new :: "string \<Rightarrow> int \<Rightarrow> real \<Rightarrow> priority_queue" where
  "pq_new name max_size timeout =
     \<lparr>pq_name = name, pq_max_size = max_size, pq_visibility_timeout = timeout, pq_heap = [],
      pq_sequence = 0, pq_in_flight = [], pq_total_enqueued = 0, pq_total_dequeued = 0\<rparr>"

definition pq_depth :: "priority_queue \<Rightarrow> nat" where
  "pq_depth q = length (pq_heap q)"

definition pq_push :: "mstore \<Rightarrow> mref \<Rightarrow> priority_queue \<Rightarrow> priority_queue" where
  "pq_push ms r q =
     q\<lparr>pq_heap := heappush ((- m_priority (ms r), pq_sequence q), r) (pq_heap q),
       pq_sequence := pq_sequence q + 1\<rparr>"

definition pq_enqueue ::
    "real \<Rightarrow> mstore \<Rightarrow> priority_queue \<Rightarrow> mref \<Rightarrow> (mstore \<times> priority_queue) \<times> unit result" where
  "pq_enqueue now ms q r =
     (if pq_max_size q > 0 \<and> int (length (pq_heap q)) \<ge> pq_max_size q
      then ((ms, q), Inl ValueError)
      else
        (let ms' = ms(r := (ms r)\<lparr>m_broker_timestamp := now\<rparr>)
         in ((ms', (pq_push ms' r q)\<lparr>pq_total_enqueued := pq_total_enqueued q + 1\<rparr>), Inr ())))"

definition pq_requeue_one :: "mstore \<Rightarrow> string \<Rightarrow> priority_queue \<Rightarrow> priority_queue" where
  "pq_requeue_one ms mid q =
     (case dict_get (pq_in_flight q) mid of
        None \<Rightarrow> q
      | Some (r, _) \<Rightarrow> pq_push ms r (q\<lparr>pq_in_flight := dict_del mid (pq_in_flight q)\<rparr>))"

definition pq_requeue_timed_out :: "real \<Rightarrow> mstore \<Rightarrow> priority_queue \<Rightarrow> priority_queue \<times> nat" where
  "pq_requeue_timed_out now ms q =
     (let ids = expired_ids now (pq_in_flight q) in (fold (pq_requeue_one ms) ids q, length ids))"

definition pq_dequeue ::
    "real \<Rightarrow> real \<Rightarrow> mstore \<Rightarrow> real option \<Rightarrow> priority_queue \<Rightarrow> priority_queue \<times> mref option" where
  "pq_dequeue now1 now2 ms visibility_timeout q0 =
     (let q = fst (pq_requeue_timed_out now1 ms q0);
          timeout = effective_timeout visibility_timeout (pq_visibility_timeout q)
      in case heappop (pq_heap q) of
           None \<Rightarrow> (q, None)
         | Some ((_, r), rest) \<Rightarrow>
             (q\<lparr>pq_heap := rest,
                pq_in_flight := dict_set (m_id (ms r)) (r, now2 + timeout) (pq_in_flight q),
                pq_total_dequeued := pq_total_dequeued q + 1\<rparr>, Some r))"

definition pq_acknowledge :: "string \<Rightarrow> priority_queue \<Rightarrow> priority_queue \<times> bool" where
  "pq_acknowledge message_id q =
     (if message_id \<in> set (keys (pq_in_flight q))
      then (q\<lparr>pq_in_flight := dict_del message_id (pq_in_flight q)\<rparr>, True)
      else (q, False))"

definition pq_nack :: "mstore \<Rightarrow> string \<Rightarrow> priority_queue \<Rightarrow> priority_queue \<times> bool" where
  "pq_nack ms message_id q =
     (case dict_get (pq_in_flight q) message_id of
        Some (r, _) \<Rightarrow>
          (pq_push ms r (q\<lparr>pq_in_flight := dict_del message_id (pq_in_flight q)\<rparr>), True)
      | None \<Rightarrow> (q, False))"

record priority_queue_info =
  pqi_name :: string
  pqi_depth :: nat
  pqi_in_flight :: nat
  pqi_enqueued :: int
  pqi_dequeued :: int
  pqi_max_size :: int

definition pq_snapshot :: "priority_queue \<Rightarrow> priority_queue_info" where
  "pq_snapshot q =
     \<lparr>pqi_name = pq_name q, pqi_depth = length (pq_heap q), pqi_in_flight = length (pq_in_flight q),
      pqi_enqueued = pq_total_enqueued q, pqi_dequeued = pq_total_dequeued q,
      pqi_max_size = pq_max_size q\<rparr>"

end
