(* ===== verification/Delivery.thy ===== *)
theory Delivery
  imports Queue
begin

section \<open>Delivery guarantees of the queues\<close>

text \<open>
  The contract both queues of \<^verbatim>\<open>queue.py\<close> keep. \<open>requeueing\<close> is the loop over the expired messages,
  \<open>delivery\<close> the effect of each operation on two multisets, the messages waiting and the messages
  in flight; from it follow the conservation laws over whole runs. Both queues interpret both
  locales.
\<close>

definition flight_refs :: "flight \<Rightarrow> mref multiset" where
  "flight_refs d = mset (map (\<lambda>(mid, r, expiry). r) d)"

definition expired :: "real \<Rightarrow> string \<times> mref \<times> real \<Rightarrow> bool" where
  "expired now = (\<lambda>(mid, r, expiry). now \<ge> expiry)"

lemma expired_ids_map: "expired_ids now d = map fst (filter (expired now) d)"
  by (simp add: expired_ids_def expired_def)

lemma flight_refs_split:
  "flight_refs d = flight_refs (filter P d) + flight_refs (filter (\<lambda>x. \<not> P x) d)"
  by (induction d) (auto simp: flight_refs_def)

lemma flight_refs_del:
  assumes "wf_dict d" and "dict_get d mid = Some (r, t)"
  shows "flight_refs d = add_mset r (flight_refs (dict_del mid d))"
proof -
  have "flight_refs x = image_mset fst (dict_values x)" for x
    by (induction x) (auto simp: flight_refs_def dict_values_def)
  with dict_values_del [OF assms] show ?thesis by simp
qed

lemma flight_refs_set_new:
  "dict_get d mid = None \<Longrightarrow> flight_refs (dict_set mid (r, t) d) = add_mset r (flight_refs d)"
  by (simp add: flight_refs_def dict_set_new map_of_eq_None_iff)

subsection \<open>The requeueing loop\<close>

locale requeueing =
  fixes invar :: "'s \<Rightarrow> bool"
    and waiting :: "'s \<Rightarrow> mref multiset"
    and flight_of :: "'s \<Rightarrow> flight"
    and one :: "string \<Rightarrow> 's \<Rightarrow> 's"
  assumes wf_flight: "invar s \<Longrightarrow> wf_dict (flight_of s)"
    and one_invar: "invar s \<Longrightarrow> dict_get (flight_of s) mid = Some (r, t) \<Longrightarrow> invar (one mid s)"
    and one_waiting: "invar s \<Longrightarrow> dict_get (flight_of s) mid = Some (r, t) \<Longrightarrow>
          waiting (one mid s) = add_mset r (waiting s)"
    and one_flight: "invar s \<Longrightarrow> dict_get (flight_of s) mid = Some (r, t) \<Longrightarrow>
          flight_of (one mid s) = dict_del mid (flight_of s)"
begin

lemma fold_one:
  assumes "invar s" and "wf_dict es" and "set es \<subseteq> set (flight_of s)"
  shows "invar (fold one (map fst es) s)
    \<and> flight_of (fold one (map fst es) s) = filter (\<lambda>x. fst x \<notin> set (keys es)) (flight_of s)
    \<and> waiting (fold one (map fst es) s) = waiting s + flight_refs es"
  using assms
proof (induction es arbitrary: s)
  case Nil
  then show ?case by (simp add: flight_refs_def)
next
  case (Cons x es)
  obtain mid r t where x: "x = (mid, r, t)" by (cases x)
  have get: "dict_get (flight_of s) mid = Some (r, t)"
    using Cons.prems(3) x dict_get_in [OF wf_flight [OF Cons.prems(1)]] by simp
  have mid: "mid \<notin> set (keys es)" using Cons.prems(2) x by (simp add: wf_dict_def)
  have fl: "flight_of (one mid s) = dict_del mid (flight_of s)"
    by (rule one_flight [OF Cons.prems(1) get])
  have "set es \<subseteq> set (flight_of (one mid s))"
    using Cons.prems(3) mid unfolding fl dict_del_filter by auto (metis fst_conv image_eqI)
  with Cons.IH [of "one mid s"] Cons.prems(2) one_invar [OF Cons.prems(1) get]
  have IH: "invar (fold one (map fst es) (one mid s))
    \<and> flight_of (fold one (map fst es) (one mid s))
        = filter (\<lambda>x. fst x \<notin> set (keys es)) (flight_of (one mid s))
    \<and> waiting (fold one (map fst es) (one mid s)) = waiting (one mid s) + flight_refs es"
    by (simp add: wf_dict_def)
  have "filter (\<lambda>x. fst x \<notin> set (keys es)) (dict_del mid (flight_of s))
      = filter (\<lambda>y. fst y \<notin> set (keys (x # es))) (flight_of s)"
    unfolding dict_del_filter filter_filter x by (rule filter_cong) auto
  with IH fl show ?case
    by (simp add: x one_waiting [OF Cons.prems(1) get] flight_refs_def)
qed

lemma fold_expired:
  assumes "invar s"
  shows "invar (fold one (expired_ids now (flight_of s)) s)
    \<and> flight_of (fold one (expired_ids now (flight_of s)) s)
        = filter (\<lambda>x. \<not> expired now x) (flight_of s)
    \<and> waiting (fold one (expired_ids now (flight_of s)) s)
        = waiting s + flight_refs (filter (expired now) (flight_of s))"
proof -
  let ?d = "flight_of s"
  let ?es = "filter (expired now) ?d"
  have d: "distinct (keys ?d)" using wf_flight [OF assms] by (simp add: wf_dict_def)
  have wf: "wf_dict ?es" using distinct_map_filter_inj [OF d] by (simp add: wf_dict_def)
  have "fst x \<notin> set (keys ?es) \<longleftrightarrow> \<not> expired now x" if "x \<in> set ?d" for x
    using that d by (auto simp: distinct_map dest: inj_onD)
  then have "filter (\<lambda>x. fst x \<notin> set (keys ?es)) ?d = filter (\<lambda>x. \<not> expired now x) ?d"
    by (rule filter_cong [OF refl])
  with fold_one [OF assms wf] show ?thesis by (simp add: expired_ids_map)
qed

end

subsection \<open>The delivery contract\<close>

text \<open>
  The operations a queue offers, and what one application of them does: \<open>Delivered R x\<close> is a
  dequeue that first returned the expired messages \<open>R\<close> to the queue and then handed out \<open>x\<close>.
\<close>

datatype qop = Enq real mref | Deq real real "real option" | Ack string | Nack string

datatype effect =
    Enqueued mref | Refused | Delivered "mref multiset" "mref option"
  | Acked mref | Nacked mref | Unknown_id

fun enqueued :: "effect \<Rightarrow> mref multiset" where
  "enqueued (Enqueued r) = {#r#}"
| "enqueued _ = {#}"

fun delivered :: "effect \<Rightarrow> mref multiset" where
  "delivered (Delivered R (Some r)) = {#r#}"
| "delivered _ = {#}"

fun acked :: "effect \<Rightarrow> mref multiset" where
  "acked (Acked r) = {#r#}"
| "acked _ = {#}"

fun returned :: "effect \<Rightarrow> mref multiset" where
  "returned (Nacked r) = {#r#}"
| "returned (Delivered R x) = R"
| "returned _ = {#}"

definition total :: "(effect \<Rightarrow> mref multiset) \<Rightarrow> effect list \<Rightarrow> mref multiset" where
  "total f es = sum_list (map f es)"

lemma total_simps [simp]: "total f [] = {#}" "total f (e # es) = f e + total f es"
  by (simp_all add: total_def)

text \<open>
  A run of operations with its effects. Every message given to \<open>enqueue\<close> must have an id that is
  not in the queue already (\<open>accepts\<close>): messages are identified by their UUID.
\<close>

inductive qrun ::
    "('s \<Rightarrow> mref \<Rightarrow> bool) \<Rightarrow> (qop \<Rightarrow> 's \<Rightarrow> 's \<times> effect) \<Rightarrow> 's \<Rightarrow> effect list \<Rightarrow> 's \<Rightarrow> bool"
  for accepts :: "'s \<Rightarrow> mref \<Rightarrow> bool" and app :: "qop \<Rightarrow> 's \<Rightarrow> 's \<times> effect" where
  qrun_done: "qrun accepts app s [] s"
| qrun_more: "(\<And>now r. op = Enq now r \<Longrightarrow> accepts s r) \<Longrightarrow> app op s = (t, e) \<Longrightarrow>
     qrun accepts app t es u \<Longrightarrow> qrun accepts app s (e # es) u"

lemma chain:
  fixes a b c d e f u :: "'a multiset"
  assumes "a + b = c + d" and "c + e = u + f"
  shows "a + (b + e) = u + (d + f)"
proof (rule multiset_eqI)
  fix x
  from assms [THEN arg_cong, of "\<lambda>m. count m x"]
  show "count (a + (b + e)) x = count (u + (d + f)) x" by simp
qed

locale delivery =
  fixes invar :: "'s \<Rightarrow> bool"
    and waiting :: "'s \<Rightarrow> mref multiset"
    and flying :: "'s \<Rightarrow> mref multiset"
    and accepts :: "'s \<Rightarrow> mref \<Rightarrow> bool"
    and app :: "qop \<Rightarrow> 's \<Rightarrow> 's \<times> effect"
  assumes enq: "invar s \<Longrightarrow> accepts s r \<Longrightarrow> app (Enq now r) s = (t, e) \<Longrightarrow>
        invar t \<and> flying t = flying s \<and>
        (e = Enqueued r \<and> waiting t = add_mset r (waiting s)
         \<or> e = Refused \<and> waiting t = waiting s)"
    and deq: "invar s \<Longrightarrow> app (Deq now1 now2 vt) s = (t, e) \<Longrightarrow>
        invar t \<and> (\<exists>R x. e = Delivered R x \<and> R \<subseteq># flying s \<and>
          (case x of
             None \<Rightarrow> waiting s + R = {#} \<and> waiting t = {#} \<and> flying t = flying s
           | Some r \<Rightarrow> waiting s + R = add_mset r (waiting t)
                       \<and> flying t = add_mset r (flying s - R)))"
    and ack: "invar s \<Longrightarrow> app (Ack mid) s = (t, e) \<Longrightarrow>
        invar t \<and> waiting t = waiting s \<and>
        ((\<exists>r. e = Acked r \<and> flying s = add_mset r (flying t))
         \<or> e = Unknown_id \<and> flying t = flying s)"
    and nack: "invar s \<Longrightarrow> app (Nack mid) s = (t, e) \<Longrightarrow>
        invar t \<and>
        ((\<exists>r. e = Nacked r \<and> flying s = add_mset r (flying t) \<and> waiting t = add_mset r (waiting s))
         \<or> e = Unknown_id \<and> flying t = flying s \<and> waiting t = waiting s)"
begin

lemma step_conserves:
  assumes "invar s" and "\<And>now r. op = Enq now r \<Longrightarrow> accepts s r" and "app op s = (t, e)"
  shows "invar t \<and> waiting s + flying s + enqueued e = waiting t + flying t + acked e
    \<and> flying s + delivered e = flying t + acked e + returned e"
proof (cases op)
  case (Enq now r)
  with enq [OF assms(1), of r now t e] assms(2,3) show ?thesis by auto
next
  case (Deq now1 now2 vt)
  with deq [OF assms(1), of now1 now2 vt t e] assms(3) obtain R x where
    inv: "invar t" and e: "e = Delivered R x" and R: "R \<subseteq># flying s" and
    x: "case x of None \<Rightarrow> waiting s + R = {#} \<and> waiting t = {#} \<and> flying t = flying s
        | Some r \<Rightarrow> waiting s + R = add_mset r (waiting t) \<and> flying t = add_mset r (flying s - R)"
    by blast
  from R have fl: "flying s = (flying s - R) + R" by simp
  show ?thesis
  proof (cases x)
    case None
    with inv e x show ?thesis by simp
  next
    case (Some r)
    with x have w: "waiting s + R = add_mset r (waiting t)" and f: "flying t = add_mset r (flying s - R)"
      by simp_all
    have "waiting s + flying s = waiting s + R + (flying s - R)"
      using fl by (metis add.assoc add.commute)
    then have "waiting s + flying s = waiting t + flying t" by (simp add: w f)
    moreover have "flying s + {#r#} = flying t + R" using fl f by simp
    ultimately show ?thesis using inv e Some by simp
  qed
next
  case (Ack mid)
  with ack [OF assms(1), of mid t e] assms(3) show ?thesis by auto
next
  case (Nack mid)
  with nack [OF assms(1), of mid t e] assms(3) show ?thesis by auto
qed

lemma run_conserves:
  assumes "qrun accepts app s es u" and "invar s"
  shows "invar u \<and> waiting s + flying s + total enqueued es = waiting u + flying u + total acked es
    \<and> flying s + total delivered es = flying u + total acked es + total returned es"
  using assms
proof (induction rule: qrun.induct)
  case (qrun_done s)
  then show ?case by simp
next
  case (qrun_more op s t e es u)
  have step: "invar t \<and> waiting s + flying s + enqueued e = waiting t + flying t + acked e
      \<and> flying s + delivered e = flying t + acked e + returned e"
    using qrun_more.hyps(1,2) qrun_more.prems by (intro step_conserves)
  with qrun_more.IH have IH: "invar u"
    "waiting t + flying t + total enqueued es = waiting u + flying u + total acked es"
    "flying t + total delivered es = flying u + total acked es + total returned es" by blast+
  have a: "waiting s + flying s + total enqueued (e # es)
      = waiting u + flying u + total acked (e # es)"
    using chain [of "waiting s + flying s" "enqueued e" "waiting t + flying t" "acked e"] step IH(2)
    by simp
  have b: "flying s + total delivered (e # es)
      = flying u + total acked (e # es) + total returned (e # es)"
  proof -
    have "flying s + delivered e = flying t + (acked e + returned e)"
      using step by (simp add: ac_simps)
    moreover have "flying t + total delivered es = flying u + (total acked es + total returned es)"
      using IH(3) by (simp add: ac_simps)
    ultimately have "flying s + (delivered e + total delivered es)
        = flying u + ((acked e + returned e) + (total acked es + total returned es))"
      by (rule chain)
    then show ?thesis by (simp add: ac_simps)
  qed
  from a b IH(1) show ?case by blast
qed

end

end
