(* ===== verification/Queue_Delivery.thy ===== *)
theory Queue_Delivery
  imports Delivery
begin

section \<open>Both queues keep the delivery contract\<close>

text \<open>
  The invariants of the FIFO queue and of the priority queue, the interpretations of
  \<open>requeueing\<close> and \<open>delivery\<close> on their operations, and what follows for a caller: conservation of
  messages over any run, the order of delivery, and invisibility of what is in flight.
\<close>

definition flight_ids_match :: "mstore \<Rightarrow> flight \<Rightarrow> bool" where
  "flight_ids_match ms d \<longleftrightarrow> (\<forall>(mid, r, t) \<in> set d. m_id (ms r) = mid)"

lemma flight_ids_match_get:
  "flight_ids_match ms d \<Longrightarrow> dict_get d mid = Some (r, t) \<Longrightarrow> m_id (ms r) = mid"
  by (auto simp: flight_ids_match_def dest!: map_of_SomeD)

lemma flight_ids_match_del: "flight_ids_match ms d \<Longrightarrow> flight_ids_match ms (dict_del mid d)"
  by (auto simp: flight_ids_match_def dict_del_filter)

lemma flight_ids_match_set:
  "flight_ids_match ms d \<Longrightarrow> m_id (ms r) = mid \<Longrightarrow> dict_get d mid = None \<Longrightarrow>
    flight_ids_match ms (dict_set mid (r, t) d)"
  by (auto simp: flight_ids_match_def dict_set_new map_of_eq_None_iff)

text \<open>\<open>enqueue\<close> stamps the message; no id changes.\<close>

lemma stamp_m_id [simp]: "m_id ((ms(r := (ms r)\<lparr>m_broker_timestamp := now\<rparr>)) r') = m_id (ms r')"
  by simp

lemma flight_ids_match_stamp [simp]:
  "flight_ids_match (ms(r := (ms r)\<lparr>m_broker_timestamp := now\<rparr>)) d = flight_ids_match ms d"
  unfolding flight_ids_match_def by (simp only: stamp_m_id)

subsection \<open>The FIFO queue\<close>

definition ids :: "mstore \<Rightarrow> mref list \<Rightarrow> string list" where
  "ids ms rs = map (\<lambda>r. m_id (ms r)) rs"

lemma in_ids: "m \<in> set (ids ms rs) \<longleftrightarrow> (\<exists>r \<in> set rs. m = m_id (ms r))"
  by (auto simp: ids_def)

lemma ids_simps [simp]:
  "ids ms [] = []" "ids ms (r # rs) = m_id (ms r) # ids ms rs"
  "ids ms (rs @ ss) = ids ms rs @ ids ms ss"
  by (simp_all add: ids_def)

lemma ids_stamp [simp]: "ids (ms(r := (ms r)\<lparr>m_broker_timestamp := now\<rparr>)) rs = ids ms rs"
  unfolding ids_def by (simp only: stamp_m_id)

definition mq_inv :: "mstore \<Rightarrow> message_queue \<Rightarrow> bool" where
  "mq_inv ms q \<longleftrightarrow> distinct (ids ms (q_queue q)) \<and> wf_dict (q_in_flight q)
     \<and> flight_ids_match ms (q_in_flight q)
     \<and> (\<forall>r \<in> set (q_queue q). dict_get (q_in_flight q) (m_id (ms r)) = None)"

definition mq_accepts :: "mstore \<times> message_queue \<Rightarrow> mref \<Rightarrow> bool" where
  "mq_accepts s r = (case s of (ms, q) \<Rightarrow>
     m_id (ms r) \<notin> set (ids ms (q_queue q)) \<and> dict_get (q_in_flight q) (m_id (ms r)) = None)"

text \<open>The operations with their effects; what came back by timeout is read off the flights.\<close>

fun mq_apply :: "qop \<Rightarrow> mstore \<times> message_queue \<Rightarrow> (mstore \<times> message_queue) \<times> effect" where
  "mq_apply (Enq now r) (ms, q) =
     (case queue_enqueue now ms q r of
        (s, Inr _) \<Rightarrow> (s, Enqueued r) | (s, Inl _) \<Rightarrow> (s, Refused))"
| "mq_apply (Deq now1 now2 vt) (ms, q) =
     (case queue_dequeue now1 now2 ms vt q of
        (q', x) \<Rightarrow> ((ms, q'), Delivered (flight_refs (filter (expired now1) (q_in_flight q))) x))"
| "mq_apply (Ack mid) (ms, q) =
     (case queue_acknowledge mid q of
        (q', ok) \<Rightarrow> ((ms, q'), if ok then Acked (fst (the (dict_get (q_in_flight q) mid)))
                             else Unknown_id))"
| "mq_apply (Nack mid) (ms, q) =
     (case queue_nack mid q of
        (q', ok) \<Rightarrow> ((ms, q'), if ok then Nacked (fst (the (dict_get (q_in_flight q) mid)))
                             else Unknown_id))"

lemma mq_inv_new: "mq_inv ms (queue_new name max_size timeout)"
  by (simp add: mq_inv_def queue_new_def flight_ids_match_def)

lemma mq_requeue_one:
  assumes "mq_inv ms q" and "dict_get (q_in_flight q) mid = Some (r, t)"
  shows "mq_inv ms (requeue_one mid q)"
    and "q_queue (requeue_one mid q) = r # q_queue q"
    and "q_in_flight (requeue_one mid q) = dict_del mid (q_in_flight q)"
proof -
  from assms have "m_id (ms r) = mid" by (auto simp: mq_inv_def dest: flight_ids_match_get)
  with assms show "mq_inv ms (requeue_one mid q)"
    by (auto simp: mq_inv_def requeue_one_def flight_ids_match_del in_ids)
  from assms(2) show "q_queue (requeue_one mid q) = r # q_queue q"
    and "q_in_flight (requeue_one mid q) = dict_del mid (q_in_flight q)"
    by (simp_all add: requeue_one_def)
qed

interpretation mq_req: requeueing "mq_inv ms" "\<lambda>q. mset (q_queue q)" q_in_flight requeue_one
  for ms
  by unfold_locales (simp_all only: mq_requeue_one mset.simps, simp add: mq_inv_def)

text \<open>The expired messages go to the front, the one that was dequeued last first.\<close>

lemma mq_requeue_fold:
  assumes "wf_dict (q_in_flight q)" and "wf_dict es" and "set es \<subseteq> set (q_in_flight q)"
  shows "q_queue (fold requeue_one (keys es) q) = rev (map (\<lambda>(mid, r, t). r) es) @ q_queue q"
  using assms
proof (induction es arbitrary: q)
  case Nil
  then show ?case by simp
next
  case (Cons x es)
  obtain mid r t where x: "x = (mid, r, t)" by (cases x)
  with Cons.prems have get: "dict_get (q_in_flight q) mid = Some (r, t)" by (simp add: dict_get_in)
  have "mid \<notin> set (keys es)" using Cons.prems(2) x by (simp add: wf_dict_def)
  with Cons.prems(3) have "set es \<subseteq> set (dict_del mid (q_in_flight q))"
    unfolding dict_del_filter by auto (metis fst_conv image_eqI)
  moreover have one: "q_in_flight (requeue_one mid q) = dict_del mid (q_in_flight q)"
    "q_queue (requeue_one mid q) = r # q_queue q"
    using get by (simp_all add: requeue_one_def)
  moreover have "wf_dict es" using Cons.prems(2) by (simp add: wf_dict_def)
  ultimately show ?case
    using Cons.IH [of "requeue_one mid q"] Cons.prems(1) x by simp
qed

lemma mq_requeue_queue:
  assumes "mq_inv ms q"
  shows "q_queue (fst (queue_requeue_timed_out now q))
    = rev (map (\<lambda>(mid, r, t). r) (filter (expired now) (q_in_flight q))) @ q_queue q"
proof -
  let ?es = "filter (expired now) (q_in_flight q)"
  have wf: "wf_dict (q_in_flight q)" using assms by (simp add: mq_inv_def)
  then have "wf_dict ?es" by (simp add: wf_dict_def distinct_map_filter_inj)
  from mq_requeue_fold [OF wf this] show ?thesis
    by (simp add: queue_requeue_timed_out_def expired_ids_map)
qed

lemma mq_requeue:
  assumes "mq_inv ms q"
  shows "mq_inv ms (fst (queue_requeue_timed_out now q))"
    and "q_in_flight (fst (queue_requeue_timed_out now q))
      = filter (\<lambda>x. \<not> expired now x) (q_in_flight q)"
    and "mset (q_queue (fst (queue_requeue_timed_out now q)))
      = mset (q_queue q) + flight_refs (filter (expired now) (q_in_flight q))"
  using mq_req.fold_expired [OF assms, of now] by (simp_all add: queue_requeue_timed_out_def Let_def)

lemma requeue_one_settings:
  "q_visibility_timeout (requeue_one mid q) = q_visibility_timeout q \<and>
   q_name (requeue_one mid q) = q_name q \<and> q_max_size (requeue_one mid q) = q_max_size q \<and>
   q_total_dequeued (requeue_one mid q) = q_total_dequeued q"
  by (simp add: requeue_one_def split: option.split)

lemma requeue_settings:
  "q_visibility_timeout (fst (queue_requeue_timed_out now q)) = q_visibility_timeout q \<and>
   q_name (fst (queue_requeue_timed_out now q)) = q_name q \<and>
   q_max_size (fst (queue_requeue_timed_out now q)) = q_max_size q \<and>
   q_total_dequeued (fst (queue_requeue_timed_out now q)) = q_total_dequeued q"
proof -
  have "q_visibility_timeout (fold requeue_one xs q) = q_visibility_timeout q \<and>
   q_name (fold requeue_one xs q) = q_name q \<and> q_max_size (fold requeue_one xs q) = q_max_size q \<and>
   q_total_dequeued (fold requeue_one xs q) = q_total_dequeued q" for xs
    by (induction xs arbitrary: q) (simp_all add: requeue_one_settings)
  then show ?thesis by (simp add: queue_requeue_timed_out_def Let_def)
qed

lemma mq_inv_enqueue:
  assumes "mq_inv ms q" and "mq_accepts (ms, q) r" and "queue_enqueue now ms q r = ((ms', q'), res)"
  shows "mq_inv ms' q' \<and> q_in_flight q' = q_in_flight q
    \<and> (res = Inr () \<and> q_queue q' = q_queue q @ [r] \<or> res = Inl ValueError \<and> q' = q \<and> ms' = ms)"
proof (cases "q_max_size q > 0 \<and> int (length (q_queue q)) \<ge> q_max_size q")
  case True
  with assms show ?thesis by (simp add: queue_enqueue_def)
next
  case False
  let ?ms = "ms(r := (ms r)\<lparr>m_broker_timestamp := now\<rparr>)"
  from False assms(3) have eq: "ms' = ?ms" "res = Inr ()"
    "q' = q\<lparr>q_queue := q_queue q @ [r], q_total_enqueued := q_total_enqueued q + 1\<rparr>"
    by (auto simp: queue_enqueue_def)
  have "mq_inv ?ms q'" using assms(1,2) unfolding mq_inv_def mq_accepts_def eq(3) stamp_m_id
      flight_ids_match_stamp ids_stamp by (auto simp: stamp_m_id)
  with eq show ?thesis by simp
qed

lemma mq_inv_dequeue:
  assumes "mq_inv ms q"
  shows "mq_inv ms (fst (queue_dequeue now1 now2 ms vt q))
    \<and> (case q_queue (fst (queue_requeue_timed_out now1 q)) of
        [] \<Rightarrow> queue_dequeue now1 now2 ms vt q = (fst (queue_requeue_timed_out now1 q), None)
      | r # rest \<Rightarrow> (\<exists>q'. queue_dequeue now1 now2 ms vt q = (q', Some r) \<and> q_queue q' = rest
          \<and> dict_get (filter (\<lambda>x. \<not> expired now1 x) (q_in_flight q)) (m_id (ms r)) = None
          \<and> q_in_flight q' = dict_set (m_id (ms r))
              (r, now2 + effective_timeout vt (q_visibility_timeout q))
              (filter (\<lambda>x. \<not> expired now1 x) (q_in_flight q))))"
proof -
  let ?q = "fst (queue_requeue_timed_out now1 q)"
  note inv = mq_requeue(1) [OF assms, of now1] and fl = mq_requeue(2) [OF assms, of now1]
  show ?thesis
  proof (cases "q_queue ?q")
    case Nil
    with inv show ?thesis by (simp add: queue_dequeue_def Let_def)
  next
    case (Cons r rest)
    with inv have get: "dict_get (q_in_flight ?q) (m_id (ms r)) = None"
      and ne: "\<forall>r' \<in> set rest. m_id (ms r') \<noteq> m_id (ms r)"
      by (auto simp: mq_inv_def in_ids)
    have "mq_inv ms (?q\<lparr>q_queue := rest,
        q_in_flight := dict_set (m_id (ms r)) (r, t) (q_in_flight ?q), q_total_dequeued := n\<rparr>)" for t n
      using inv Cons get ne by (auto simp: mq_inv_def intro: flight_ids_match_set)
    with Cons get fl show ?thesis by (simp add: queue_dequeue_def Let_def requeue_settings)
  qed
qed

definition mq_ok :: "mstore \<times> message_queue \<Rightarrow> bool" where
  "mq_ok s = mq_inv (fst s) (snd s)"

abbreviation mq_waiting :: "mstore \<times> message_queue \<Rightarrow> mref multiset" where
  "mq_waiting s \<equiv> mset (q_queue (snd s))"

abbreviation mq_flying :: "mstore \<times> message_queue \<Rightarrow> mref multiset" where
  "mq_flying s \<equiv> flight_refs (q_in_flight (snd s))"

lemma flight_refs_filter_sub: "flight_refs (filter P d) \<subseteq># flight_refs d"
  using flight_refs_split [of d P] by simp

lemma flight_refs_rest:
  "flight_refs (filter (\<lambda>x. \<not> P x) d) = flight_refs d - flight_refs (filter P d)"
  using flight_refs_split [of d P] by simp

lemma mq_apply_enq:
  assumes "mq_ok s" and "mq_accepts s r" and "mq_apply (Enq now r) s = (t, e)"
  shows "mq_ok t \<and> mq_flying t = mq_flying s \<and>
    (e = Enqueued r \<and> mq_waiting t = add_mset r (mq_waiting s)
     \<or> e = Refused \<and> mq_waiting t = mq_waiting s)"
proof -
  obtain ms q where s: "s = (ms, q)" by (cases s)
  obtain ms' q' res where enq: "queue_enqueue now ms q r = ((ms', q'), res)"
    by (metis prod.collapse)
  from assms(1,2) s have "mq_inv ms q" "mq_accepts (ms, q) r" by (simp_all add: mq_ok_def)
  from mq_inv_enqueue [OF this enq] enq assms(3) s show ?thesis
    by (auto simp: mq_ok_def)
qed

lemma mq_apply_deq:
  assumes "mq_ok s" and "mq_apply (Deq now1 now2 vt) s = (t, e)"
  shows "mq_ok t \<and> (\<exists>R x. e = Delivered R x \<and> R \<subseteq># mq_flying s \<and>
    (case x of
       None \<Rightarrow> mq_waiting s + R = {#} \<and> mq_waiting t = {#} \<and> mq_flying t = mq_flying s
     | Some r \<Rightarrow> mq_waiting s + R = add_mset r (mq_waiting t)
                 \<and> mq_flying t = add_mset r (mq_flying s - R)))"
proof -
  obtain ms q where s: "s = (ms, q)" by (cases s)
  from assms(1) s have inv: "mq_inv ms q" by (simp add: mq_ok_def)
  note deq = mq_inv_dequeue [OF inv, of now1 now2 vt] and req = mq_requeue [OF inv, of now1]
  let ?R = "flight_refs (filter (expired now1) (q_in_flight q))"
  show ?thesis
  proof (cases "q_queue (fst (queue_requeue_timed_out now1 q))")
    case Nil
    with deq req assms(2) s flight_refs_filter_sub flight_refs_rest [of "expired now1" "q_in_flight q"]
    show ?thesis by (auto simp: mq_ok_def)
  next
    case (Cons r rest)
    with deq obtain q' where q': "queue_dequeue now1 now2 ms vt q = (q', Some r)" "q_queue q' = rest"
      "dict_get (filter (\<lambda>x. \<not> expired now1 x) (q_in_flight q)) (m_id (ms r)) = None"
      "q_in_flight q' = dict_set (m_id (ms r)) (r, now2 + effective_timeout vt (q_visibility_timeout q))
          (filter (\<lambda>x. \<not> expired now1 x) (q_in_flight q))" and "mq_inv ms q'"
      by auto
    moreover from this have "flight_refs (q_in_flight q') = add_mset r (flight_refs (q_in_flight q) - ?R)"
      by (simp add: flight_refs_set_new flight_refs_rest)
    moreover have "mset (q_queue q) + ?R = add_mset r (mset rest)"
      using req(3) Cons by simp
    ultimately show ?thesis using assms(2) s flight_refs_filter_sub by (auto simp: mq_ok_def)
  qed
qed

lemma mq_inv_settled:
  assumes "mq_inv ms q" and "dict_get (q_in_flight q) mid = Some (r, t)"
  shows "mq_inv ms (q\<lparr>q_in_flight := dict_del mid (q_in_flight q), q_total_acked := n\<rparr>)"
    and "mq_inv ms (q\<lparr>q_in_flight := dict_del mid (q_in_flight q), q_queue := r # q_queue q\<rparr>)"
  using assms mq_requeue_one(1) [OF assms]
  by (auto simp: mq_inv_def flight_ids_match_del requeue_one_def)

lemma mq_apply_ack:
  assumes "mq_ok s" and "mq_apply (Ack mid) s = (t, e)"
  shows "mq_ok t \<and> mq_waiting t = mq_waiting s \<and>
    ((\<exists>r. e = Acked r \<and> mq_flying s = add_mset r (mq_flying t))
     \<or> e = Unknown_id \<and> mq_flying t = mq_flying s)"
proof -
  obtain ms q where s: "s = (ms, q)" by (cases s)
  from assms(1) s have inv: "mq_inv ms q" by (simp add: mq_ok_def)
  then have wf: "wf_dict (q_in_flight q)" by (simp add: mq_inv_def)
  show ?thesis
  proof (cases "dict_get (q_in_flight q) mid")
    case None
    then have "mid \<notin> set (keys (q_in_flight q))" by (simp only: in_keys_iff simp_thms)
    with assms s show ?thesis by (auto simp: queue_acknowledge_def)
  next
    case (Some x)
    then have mem: "mid \<in> set (keys (q_in_flight q))" by (simp only: in_keys_iff, simp)
    obtain r u where x: "x = (r, u)" by (cases x)
    with Some have get: "dict_get (q_in_flight q) mid = Some (r, u)" by simp
    from mem assms(2) get s have "e = Acked r"
      and "t = (ms, q\<lparr>q_in_flight := dict_del mid (q_in_flight q),
              q_total_acked := q_total_acked q + 1\<rparr>)"
      by (auto simp: queue_acknowledge_def)
    with mq_inv_settled(1) [OF inv get] flight_refs_del [OF wf get] s show ?thesis
      by (simp add: mq_ok_def)
  qed
qed

lemma mq_apply_nack:
  assumes "mq_ok s" and "mq_apply (Nack mid) s = (t, e)"
  shows "mq_ok t \<and>
    ((\<exists>r. e = Nacked r \<and> mq_flying s = add_mset r (mq_flying t)
         \<and> mq_waiting t = add_mset r (mq_waiting s))
     \<or> e = Unknown_id \<and> mq_flying t = mq_flying s \<and> mq_waiting t = mq_waiting s)"
proof -
  obtain ms q where s: "s = (ms, q)" by (cases s)
  from assms(1) s have inv: "mq_inv ms q" by (simp add: mq_ok_def)
  then have wf: "wf_dict (q_in_flight q)" by (simp add: mq_inv_def)
  show ?thesis
  proof (cases "dict_get (q_in_flight q) mid")
    case None
    with assms s show ?thesis by (auto simp: queue_nack_def)
  next
    case (Some x)
    obtain r u where x: "x = (r, u)" by (cases x)
    with Some have get: "dict_get (q_in_flight q) mid = Some (r, u)" by simp
    with assms(2) s have "e = Nacked r"
      and "t = (ms, q\<lparr>q_in_flight := dict_del mid (q_in_flight q), q_queue := r # q_queue q\<rparr>)"
      by (auto simp: queue_nack_def)
    with mq_inv_settled(2) [OF inv get] flight_refs_del [OF wf get] s show ?thesis
      by (simp add: mq_ok_def)
  qed
qed

interpretation mq: delivery mq_ok mq_waiting mq_flying mq_accepts mq_apply
  by unfold_locales (fact mq_apply_enq mq_apply_deq mq_apply_ack mq_apply_nack)+

subsection \<open>What the FIFO queue promises\<close>

lemma requeue_fold_frame:
  "\<exists>a b. fold requeue_one xs q = q\<lparr>q_queue := a, q_in_flight := b\<rparr>"
proof (induction xs arbitrary: q)
  case Nil
  have "q = q\<lparr>q_queue := q_queue q, q_in_flight := q_in_flight q\<rparr>" by simp
  then show ?case by (metis fold_simps(1))
next
  case (Cons x xs)
  have "requeue_one x q
      = q\<lparr>q_queue := q_queue (requeue_one x q), q_in_flight := q_in_flight (requeue_one x q)\<rparr>"
    by (cases q) (simp add: requeue_one_def split: option.split)
  then obtain a b where one: "requeue_one x q = q\<lparr>q_queue := a, q_in_flight := b\<rparr>" by blast
  from Cons.IH [of "requeue_one x q"] obtain c d where
    "fold requeue_one xs (requeue_one x q) = (requeue_one x q)\<lparr>q_queue := c, q_in_flight := d\<rparr>"
    by blast
  then show ?case by (auto simp: one)
qed

lemma mq_requeue_eq:
  assumes "mq_inv ms q"
  shows "fst (queue_requeue_timed_out now q) =
    q\<lparr>q_queue := rev (map (\<lambda>(mid, r, t). r) (filter (expired now) (q_in_flight q))) @ q_queue q,
      q_in_flight := filter (\<lambda>x. \<not> expired now x) (q_in_flight q)\<rparr>"
proof -
  obtain a b where "fst (queue_requeue_timed_out now q) = q\<lparr>q_queue := a, q_in_flight := b\<rparr>"
    using requeue_fold_frame [of "expired_ids now (q_in_flight q)" q]
    by (auto simp: queue_requeue_timed_out_def Let_def)
  with mq_requeue_queue [OF assms, of now] mq_requeue(2) [OF assms, of now] show ?thesis by simp
qed

text \<open>C29. \<open>dequeue\<close>, on every branch: the messages whose visibility ended come to the front, the
  one dequeued last first; the first message is handed out and is in flight, last in the dict,
  until the clock reading plus the given or else the default timeout. The rest is unchanged.\<close>

theorem queue_dequeue_correct:
  fixes q :: message_queue and now1 :: real
  assumes "mq_inv ms q"
  defines "kept \<equiv> filter (\<lambda>x. \<not> expired now1 x) (q_in_flight q)"
  defines "line \<equiv> rev (map (\<lambda>(mid, r, t). r) (filter (expired now1) (q_in_flight q))) @ q_queue q"
  shows "queue_dequeue now1 now2 ms vt q =
    (case line of
       [] \<Rightarrow> (q\<lparr>q_queue := [], q_in_flight := kept\<rparr>, None)
     | r # rest \<Rightarrow>
         (q\<lparr>q_queue := rest,
            q_in_flight := kept @
              [(m_id (ms r), r, now2 + effective_timeout vt (q_visibility_timeout q))],
            q_total_dequeued := q_total_dequeued q + 1\<rparr>, Some r))"
proof -
  have eq: "fst (queue_requeue_timed_out now1 q) = q\<lparr>q_queue := line, q_in_flight := kept\<rparr>"
    using mq_requeue_eq [OF assms(1), of now1] by (simp add: kept_def line_def)
  have "m_id (ms r) \<notin> set (keys kept)" if "line = r # rest" for r rest
  proof -
    have "mq_inv ms (fst (queue_requeue_timed_out now1 q))" by (rule mq_requeue(1) [OF assms(1)])
    with that show ?thesis by (simp add: eq mq_inv_def map_of_eq_None_iff)
  qed
  then show ?thesis
    by (simp add: queue_dequeue_def eq dict_set_new split: list.split)
qed

lemma queue_dequeue_correct_witness:
  "\<exists>ms r. fst ((queue_dequeue 5 6 ms None
      (queue_new ''q'' 0 30 \<lparr>q_queue := [1], q_in_flight := [(m_id (ms r), r, 4)]\<rparr>))) =
    queue_new ''q'' 0 30 \<lparr>q_queue := [1], q_in_flight := [(m_id (ms r), r, 36)], q_total_dequeued := 1\<rparr>"
proof -
  obtain m :: message where "True" by simp
  let ?ms = "(\<lambda>_. m)(0 := m\<lparr>m_id := ''a''\<rparr>, Suc 0 := m\<lparr>m_id := ''b''\<rparr>)"
  have "mq_inv ?ms (queue_new ''q'' 0 30 \<lparr>q_queue := [1], q_in_flight := [(m_id (?ms 0), 0, 4)]\<rparr>)"
    by (simp add: mq_inv_def queue_new_def flight_ids_match_def wf_dict_def)
  from queue_dequeue_correct [OF this, of 5 6 None] show ?thesis
    by (intro exI [of _ ?ms] exI [of _ 0])
      (simp add: expired_def queue_new_def effective_timeout_def)
qed

text \<open>C8. Over any run of \<open>enqueue\<close>, \<open>dequeue\<close>, \<open>acknowledge\<close> and \<open>nack\<close>, with any clock
  readings, from a new queue: what was enqueued is exactly what waits, is in flight or was
  acknowledged, so nothing is lost and nothing is acknowledged twice; and each delivery is in
  flight, was acknowledged, or was returned by a nack or a timeout.\<close>

theorem queue_conserves_messages:
  assumes "qrun mq_accepts mq_apply (ms, queue_new name max_size timeout) es (ms', q)"
  shows "total enqueued es
      = mset (q_queue q) + flight_refs (q_in_flight q) + total acked es
    \<and> total delivered es
      = flight_refs (q_in_flight q) + total acked es + total returned es"
  using mq.run_conserves [OF assms] mq_inv_new [of ms name max_size timeout]
  by (simp_all add: mq_ok_def queue_new_def flight_refs_def)

text \<open>A concrete run: two messages, one nacked and taken again, then acknowledged.\<close>

lemma queue_conserves_messages_witness:
  "\<exists>ms ms' q. qrun mq_accepts mq_apply (ms, queue_new ''q'' 0 30)
      [Enqueued 0, Enqueued 1, Delivered {#} (Some 0), Nacked 0, Delivered {#} (Some 0), Acked 0] (ms', q)
    \<and> {#0, 1#} = mset (q_queue q) + flight_refs (q_in_flight q) + {#0#}"
proof -
  obtain m :: message where "True" by simp
  let ?ms = "(\<lambda>_. m)(0 := m\<lparr>m_id := ''a''\<rparr>, Suc 0 := m\<lparr>m_id := ''b''\<rparr>)"
  have "\<exists>ms' q. qrun mq_accepts mq_apply (?ms, queue_new ''q'' 0 30)
      [Enqueued 0, Enqueued 1, Delivered {#} (Some 0), Nacked 0, Delivered {#} (Some 0), Acked 0] (ms', q)"
    by (rule exI, rule exI, rule qrun_more [of "Enq 1 0"], simp add: mq_accepts_def queue_new_def,
        simp add: queue_enqueue_def queue_new_def, rule qrun_more [of "Enq 1 1"],
        simp add: mq_accepts_def, simp add: queue_enqueue_def, rule qrun_more [of "Deq 1 1 None"],
        simp, simp add: queue_dequeue_def queue_requeue_timed_out_def expired_ids_def flight_refs_def
          effective_timeout_def, rule qrun_more [of "Nack ''a''"],
        simp, simp add: queue_nack_def, rule qrun_more [of "Deq 2 2 None"],
        simp, simp add: queue_dequeue_def queue_requeue_timed_out_def expired_ids_def flight_refs_def
          effective_timeout_def, rule qrun_more [of "Ack ''a''"],
        simp, simp add: queue_acknowledge_def, rule qrun_done)
  then obtain ms' q where run: "qrun mq_accepts mq_apply (?ms, queue_new ''q'' 0 30)
      [Enqueued 0, Enqueued 1, Delivered {#} (Some 0), Nacked 0, Delivered {#} (Some 0), Acked 0] (ms', q)"
    by blast
  moreover have "{#0, 1#} = mset (q_queue q) + flight_refs (q_in_flight q) + {#0#}"
    using queue_conserves_messages [OF run] by simp
  ultimately show ?thesis by blast
qed

text \<open>A message handed out is not handed out again before its expiry, and stays in flight with
  that expiry; from the expiry on the next \<open>dequeue\<close> has it in the queue again or hands it out.\<close>

theorem queue_visibility:
  assumes "mq_inv ms q" and "queue_dequeue t1 t2 ms vt q = (q1, Some r)"
    and "expiry = t2 + effective_timeout vt (q_visibility_timeout q)"
    and "queue_dequeue t3 t4 ms vt' q1 = (q2, x)"
  shows "if t3 < expiry
    then x \<noteq> Some r \<and> dict_get (q_in_flight q2) (m_id (ms r)) = Some (r, expiry)
    else \<exists>r'. x = Some r' \<and> r \<in> set (r' # q_queue q2)"
proof -
  have inv: "mq_inv ms q1" using mq_inv_dequeue [OF assms(1), of t1 t2 vt] assms(2) by simp
  have fl: "dict_get (q_in_flight q1) (m_id (ms r)) = Some (r, expiry)"
    using mq_inv_dequeue [OF assms(1), of t1 t2 vt] assms(2,3) by (auto split: list.splits)
  let ?q = "fst (queue_requeue_timed_out t3 q1)"
  have wf: "wf_dict (q_in_flight q1)" using inv by (simp add: mq_inv_def)
  note inv' = mq_requeue(1) [OF inv, of t3] and kept = mq_requeue(2) [OF inv, of t3]
  show ?thesis
  proof (cases "t3 < expiry")
    case True
    have in_q: "dict_get (q_in_flight ?q) (m_id (ms r)) = Some (r, expiry)"
    proof -
      have "(m_id (ms r), r, expiry) \<in> set (q_in_flight ?q)"
        using fl wf True by (simp add: kept dict_get_in expired_def)
      moreover have "wf_dict (q_in_flight ?q)" using inv' by (simp add: mq_inv_def)
      ultimately show ?thesis by (simp add: dict_get_in)
    qed
    then have "m_id (ms r') \<noteq> m_id (ms r)" if "r' \<in> set (q_queue ?q)" for r'
      using inv' that by (force simp: mq_inv_def)
    with in_q assms(4) True mq_inv_dequeue [OF inv, of t3 t4 vt'] kept show ?thesis
      by (auto split: list.splits)
  next
    case False
    then have "(m_id (ms r), r, expiry) \<in> set (filter (expired t3) (q_in_flight q1))"
      using fl wf by (simp add: dict_get_in expired_def)
    then have "r \<in> (\<lambda>(mid, r, t). r) ` set (filter (expired t3) (q_in_flight q1))" by force
    then have "r \<in> set (q_queue ?q)" by (simp add: mq_requeue_queue [OF inv])
    with assms(4) False mq_inv_dequeue [OF inv, of t3 t4 vt'] show ?thesis
      by (auto split: list.splits)
  qed
qed

lemma queue_visibility_witness:
  "\<exists>ms q1. queue_dequeue 0 0 ms (Some 5) (queue_new ''q'' 0 30 \<lparr>q_queue := [7]\<rparr>) = (q1, Some 7)
    \<and> snd (queue_dequeue 4 4 ms None q1) \<noteq> Some 7"
proof -
  obtain m :: message where "True" by simp
  let ?ms = "\<lambda>_ :: mref. m" and ?q = "queue_new ''q'' 0 30 \<lparr>q_queue := [7]\<rparr>"
  have inv: "mq_inv ?ms ?q" by (simp add: mq_inv_def queue_new_def flight_ids_match_def)
  obtain q1 where q1: "queue_dequeue 0 0 ?ms (Some 5) ?q = (q1, Some 7)"
    using mq_inv_dequeue [OF inv, of 0 0 "Some 5"]
    by (auto simp: queue_new_def queue_requeue_timed_out_def expired_ids_def)
  obtain q2 x where q2: "queue_dequeue 4 4 ?ms None q1 = (q2, x)" by (metis prod.collapse)
  from queue_visibility [OF inv q1 refl q2] have "x \<noteq> Some 7"
    by (simp add: effective_timeout_def)
  with q1 q2 show ?thesis by (intro exI [of _ ?ms] exI [of _ q1]) simp
qed

text \<open>
  The requeueing loop puts each expired message in front of the one before it: two messages
  dequeued in order and both expired come back in the opposite order.
\<close>

lemma timed_out_reversed:
  assumes "mq_inv ms q" and "q_queue q = []"
    and "q_in_flight q = [(m1, r1, e1), (m2, r2, e2)]" and "e1 \<le> now" and "e2 \<le> now"
  shows "snd (queue_dequeue now t ms vt q) = Some r2"
    and "q_queue (fst (queue_dequeue now t ms vt q)) = [r1]"
proof -
  have "q_queue (fst (queue_requeue_timed_out now q)) = [r2, r1]"
    using mq_requeue_queue [OF assms(1), of now] assms(2-) by (simp add: expired_def)
  with mq_inv_dequeue [OF assms(1), of now t vt]
  show "snd (queue_dequeue now t ms vt q) = Some r2"
    and "q_queue (fst (queue_dequeue now t ms vt q)) = [r1]" by auto
qed

end
