(* ===== verification/Priority_Delivery.thy ===== *)
theory Priority_Delivery
  imports Queue_Delivery
begin

section \<open>The priority queue\<close>

text \<open>
  The same contract for the priority queue: its invariant, the interpretations of \<open>requeueing\<close>
  and \<open>delivery\<close>, conservation over runs, and the order of delivery: draining the queue gives
  the messages by descending priority, equal priorities in the order they came.
\<close>

definition entry_refs :: "((int \<times> nat) \<times> mref) list \<Rightarrow> mref list" where
  "entry_refs h = map snd h"

definition entry_ok :: "mstore \<Rightarrow> nat \<Rightarrow> (int \<times> nat) \<times> mref \<Rightarrow> bool" where
  "entry_ok ms n = (\<lambda>((p, s), r). p = - m_priority (ms r) \<and> s < n)"

definition pq_inv :: "mstore \<Rightarrow> priority_queue \<Rightarrow> bool" where
  "pq_inv ms q \<longleftrightarrow> is_heap (pq_heap q)
     \<and> (\<forall>x \<in># mset (pq_heap q). entry_ok ms (pq_sequence q) x)
     \<and> wf_dict (pq_in_flight q) \<and> flight_ids_match ms (pq_in_flight q)
     \<and> (\<forall>r \<in># image_mset snd (mset (pq_heap q)). dict_get (pq_in_flight q) (m_id (ms r)) = None)
     \<and> (\<forall>i. count (image_mset (\<lambda>x. m_id (ms (snd x))) (mset (pq_heap q))) i \<le> 1)"

definition pq_waiting_of :: "priority_queue \<Rightarrow> mref multiset" where
  "pq_waiting_of q = image_mset snd (mset (pq_heap q))"

definition pq_accepts :: "mstore \<times> priority_queue \<Rightarrow> mref \<Rightarrow> bool" where
  "pq_accepts s r = (case s of (ms, q) \<Rightarrow>
     m_id (ms r) \<notin># image_mset (\<lambda>x. m_id (ms (snd x))) (mset (pq_heap q))
     \<and> dict_get (pq_in_flight q) (m_id (ms r)) = None)"

fun pq_apply :: "qop \<Rightarrow> mstore \<times> priority_queue \<Rightarrow> (mstore \<times> priority_queue) \<times> effect" where
  "pq_apply (Enq now r) (ms, q) =
     (case pq_enqueue now ms q r of
        (s, Inr _) \<Rightarrow> (s, Enqueued r) | (s, Inl _) \<Rightarrow> (s, Refused))"
| "pq_apply (Deq now1 now2 vt) (ms, q) =
     (case pq_dequeue now1 now2 ms vt q of
        (q', x) \<Rightarrow> ((ms, q'), Delivered (flight_refs (filter (expired now1) (pq_in_flight q))) x))"
| "pq_apply (Ack mid) (ms, q) =
     (case pq_acknowledge mid q of
        (q', ok) \<Rightarrow> ((ms, q'), if ok then Acked (fst (the (dict_get (pq_in_flight q) mid)))
                             else Unknown_id))"
| "pq_apply (Nack mid) (ms, q) =
     (case pq_nack ms mid q of
        (q', ok) \<Rightarrow> ((ms, q'), if ok then Nacked (fst (the (dict_get (pq_in_flight q) mid)))
                             else Unknown_id))"

lemma entry_ok_mono: "entry_ok ms n x \<Longrightarrow> n \<le> m \<Longrightarrow> entry_ok ms m x"
  by (auto simp: entry_ok_def)

lemma entry_ok_stamp [simp]:
  "entry_ok (ms(r := (ms r)\<lparr>m_broker_timestamp := now\<rparr>)) n = entry_ok ms n"
  by (rule ext) (auto simp: entry_ok_def split: prod.split)

lemma pq_inv_new: "pq_inv ms (pq_new name max_size timeout)"
  by (simp add: pq_inv_def pq_new_def flight_ids_match_def is_heap_def)

lemma pq_push_parts [simp]:
  "mset (pq_heap (pq_push ms r q)) = add_mset ((- m_priority (ms r), pq_sequence q), r) (mset (pq_heap q))"
  "pq_in_flight (pq_push ms r q) = pq_in_flight q"
  "pq_sequence (pq_push ms r q) = Suc (pq_sequence q)"
  by (simp_all add: pq_push_def heappush_mset)

lemma pq_push_heap: "is_heap (pq_heap q) \<Longrightarrow> is_heap (pq_heap (pq_push ms r q))"
  by (simp add: pq_push_def heappush_heap)

text \<open>Pushing a message whose id is neither waiting nor in flight keeps the invariant.\<close>

lemma pq_push_inv:
  assumes "pq_inv ms q" and "pq_accepts (ms, q) r"
  shows "pq_inv ms (pq_push ms r q)"
  using assms
  by (auto simp: pq_inv_def pq_accepts_def pq_push_heap entry_ok_def count_eq_zero_iff less_Suc_eq)

lemma pq_inv_del:
  assumes "pq_inv ms q" and "dict_get (pq_in_flight q) mid = Some (r, t)"
  shows "pq_inv ms (q\<lparr>pq_in_flight := dict_del mid (pq_in_flight q)\<rparr>)"
    and "pq_accepts (ms, q\<lparr>pq_in_flight := dict_del mid (pq_in_flight q)\<rparr>) r"
proof -
  from assms show "pq_inv ms (q\<lparr>pq_in_flight := dict_del mid (pq_in_flight q)\<rparr>)"
    by (simp add: pq_inv_def flight_ids_match_del)
  from assms have "m_id (ms r) = mid" by (auto simp: pq_inv_def dest: flight_ids_match_get)
  with assms show "pq_accepts (ms, q\<lparr>pq_in_flight := dict_del mid (pq_in_flight q)\<rparr>) r"
    by (force simp: pq_inv_def pq_accepts_def)
qed

lemma pq_requeue_one:
  assumes "pq_inv ms q" and "dict_get (pq_in_flight q) mid = Some (r, t)"
  shows "pq_inv ms (pq_requeue_one ms mid q)"
    and "pq_waiting_of (pq_requeue_one ms mid q) = add_mset r (pq_waiting_of q)"
    and "pq_in_flight (pq_requeue_one ms mid q) = dict_del mid (pq_in_flight q)"
  using pq_push_inv [OF pq_inv_del [OF assms]] assms(2)
  by (simp_all add: pq_requeue_one_def pq_waiting_of_def)

interpretation pq_req: requeueing "pq_inv ms" pq_waiting_of pq_in_flight "pq_requeue_one ms"
  for ms
  by unfold_locales (simp_all only: pq_requeue_one, simp add: pq_inv_def)

lemma pq_requeue:
  assumes "pq_inv ms q"
  shows "pq_inv ms (fst (pq_requeue_timed_out now ms q))"
    and "pq_in_flight (fst (pq_requeue_timed_out now ms q))
      = filter (\<lambda>x. \<not> expired now x) (pq_in_flight q)"
    and "pq_waiting_of (fst (pq_requeue_timed_out now ms q))
      = pq_waiting_of q + flight_refs (filter (expired now) (pq_in_flight q))"
  using pq_req.fold_expired [OF assms, of now] by (simp_all add: pq_requeue_timed_out_def Let_def)

definition pq_ok :: "mstore \<times> priority_queue \<Rightarrow> bool" where
  "pq_ok s = pq_inv (fst s) (snd s)"

abbreviation pq_waiting :: "mstore \<times> priority_queue \<Rightarrow> mref multiset" where
  "pq_waiting s \<equiv> pq_waiting_of (snd s)"

abbreviation pq_flying :: "mstore \<times> priority_queue \<Rightarrow> mref multiset" where
  "pq_flying s \<equiv> flight_refs (pq_in_flight (snd s))"

lemma pq_inv_stamp [simp]:
  "pq_inv (ms(r := (ms r)\<lparr>m_broker_timestamp := now\<rparr>)) q = pq_inv ms q"
  unfolding pq_inv_def stamp_m_id entry_ok_stamp flight_ids_match_stamp ..

lemma pq_accepts_stamp:
  "pq_accepts (ms, q) r \<Longrightarrow> pq_accepts (ms(r' := (ms r')\<lparr>m_broker_timestamp := now\<rparr>), q) r"
  unfolding pq_accepts_def prod.case stamp_m_id .

lemma pq_inv_count [simp]:
  "pq_inv ms (q\<lparr>pq_total_enqueued := n\<rparr>) = pq_inv ms q"
  "pq_inv ms (q\<lparr>pq_total_dequeued := n\<rparr>) = pq_inv ms q"
  by (simp_all add: pq_inv_def)

lemma pq_apply_enq:
  assumes "pq_ok s" and "pq_accepts s r" and "pq_apply (Enq now r) s = (t, e)"
  shows "pq_ok t \<and> pq_flying t = pq_flying s \<and>
    (e = Enqueued r \<and> pq_waiting t = add_mset r (pq_waiting s)
     \<or> e = Refused \<and> pq_waiting t = pq_waiting s)"
proof -
  obtain ms q where s: "s = (ms, q)" by (cases s)
  let ?ms = "ms(r := (ms r)\<lparr>m_broker_timestamp := now\<rparr>)"
  have "pq_inv ?ms (pq_push ?ms r q)"
    using assms(1,2) s pq_push_inv [of ?ms q r] pq_accepts_stamp [of ms q r r now]
    by (simp only: pq_ok_def fst_conv snd_conv pq_inv_stamp)
  with assms s show ?thesis
    by (auto simp: pq_ok_def pq_enqueue_def Let_def pq_waiting_of_def split: if_splits)
qed

lemma pq_apply_deq:
  assumes "pq_ok s" and "pq_apply (Deq now1 now2 vt) s = (t, e)"
  shows "pq_ok t \<and> (\<exists>R x. e = Delivered R x \<and> R \<subseteq># pq_flying s \<and>
    (case x of
       None \<Rightarrow> pq_waiting s + R = {#} \<and> pq_waiting t = {#} \<and> pq_flying t = pq_flying s
     | Some r \<Rightarrow> pq_waiting s + R = add_mset r (pq_waiting t)
                 \<and> pq_flying t = add_mset r (pq_flying s - R)))"
proof -
  obtain ms q where s: "s = (ms, q)" by (cases s)
  from assms(1) s have inv: "pq_inv ms q" by (simp add: pq_ok_def)
  let ?R = "flight_refs (filter (expired now1) (pq_in_flight q))"
    and ?q = "fst (pq_requeue_timed_out now1 ms q)"
  note req = pq_requeue [OF inv, of now1]
  have heap: "is_heap (pq_heap ?q)" using req(1) by (simp add: pq_inv_def)
  show ?thesis
  proof (cases "heappop (pq_heap ?q)")
    case None
    then have "pq_waiting_of ?q = {#}" by (simp add: heappop_None pq_waiting_of_def)
    with None req assms(2) s flight_refs_filter_sub flight_refs_rest [of "expired now1" "pq_in_flight q"]
    show ?thesis by (auto simp: pq_ok_def pq_dequeue_def Let_def)
  next
    case (Some y)
    obtain k r rest where y: "y = ((k, r), rest)" by (metis prod.collapse)
    with Some heappop_Some [OF heap] have rest: "is_heap rest"
      "mset (pq_heap ?q) = add_mset (k, r) (mset rest)" by auto
    with req(1) have get: "dict_get (pq_in_flight ?q) (m_id (ms r)) = None"
      by (auto simp: pq_inv_def)
    have one: "count (add_mset (m_id (ms r)) (image_mset (\<lambda>x. m_id (ms (snd x))) (mset rest))) i \<le> 1" for i
      using req(1) rest(2) by (simp add: pq_inv_def)
    from one [of "m_id (ms r)"]
    have others: "count (image_mset (\<lambda>x. m_id (ms (snd x))) (mset rest)) (m_id (ms r)) = 0" by simp
    then have ne: "\<forall>x \<in> set rest. m_id (ms (snd x)) \<noteq> m_id (ms r)"
      by (auto simp: count_eq_zero_iff image_iff)
    have le: "count (image_mset (\<lambda>x. m_id (ms (snd x))) (mset rest)) i \<le> 1" for i
      using one [of i] by (simp split: if_splits)
    have "pq_inv ms (?q\<lparr>pq_heap := rest,
        pq_in_flight := dict_set (m_id (ms r)) (r, u) (pq_in_flight ?q), pq_total_dequeued := n\<rparr>)" for u n
      using req(1) rest get le ne
      by (auto simp: pq_inv_def intro: flight_ids_match_set)
    moreover have "flight_refs (dict_set (m_id (ms r)) (r, u) (pq_in_flight ?q))
        = add_mset r (flight_refs (pq_in_flight q) - ?R)" for u
      using get by (simp add: flight_refs_set_new) (simp add: req(2) flight_refs_rest)
    moreover have "pq_waiting_of q + ?R = add_mset r (image_mset snd (mset rest))"
      using req(3) rest(2) by (simp add: pq_waiting_of_def)
    ultimately show ?thesis using assms(2) s Some y flight_refs_filter_sub
      by (auto simp: pq_ok_def pq_dequeue_def Let_def pq_waiting_of_def)
  qed
qed

lemma pq_apply_ack:
  assumes "pq_ok s" and "pq_apply (Ack mid) s = (t, e)"
  shows "pq_ok t \<and> pq_waiting t = pq_waiting s \<and>
    ((\<exists>r. e = Acked r \<and> pq_flying s = add_mset r (pq_flying t))
     \<or> e = Unknown_id \<and> pq_flying t = pq_flying s)"
proof -
  obtain ms q where s: "s = (ms, q)" by (cases s)
  from assms(1) s have inv: "pq_inv ms q" by (simp add: pq_ok_def)
  then have wf: "wf_dict (pq_in_flight q)" by (simp add: pq_inv_def)
  show ?thesis
  proof (cases "dict_get (pq_in_flight q) mid")
    case None
    then have "mid \<notin> set (keys (pq_in_flight q))" by (simp only: in_keys_iff simp_thms)
    with assms s show ?thesis by (auto simp: pq_acknowledge_def)
  next
    case (Some x)
    then have mem: "mid \<in> set (keys (pq_in_flight q))" by (simp only: in_keys_iff, simp)
    obtain r u where "x = (r, u)" by (cases x)
    with Some have get: "dict_get (pq_in_flight q) mid = Some (r, u)" by simp
    from mem assms(2) get s have "e = Acked r"
      and "t = (ms, q\<lparr>pq_in_flight := dict_del mid (pq_in_flight q)\<rparr>)"
      by (auto simp: pq_acknowledge_def)
    with pq_inv_del(1) [OF inv get] flight_refs_del [OF wf get] s show ?thesis
      by (simp add: pq_ok_def pq_waiting_of_def)
  qed
qed

lemma pq_apply_nack:
  assumes "pq_ok s" and "pq_apply (Nack mid) s = (t, e)"
  shows "pq_ok t \<and>
    ((\<exists>r. e = Nacked r \<and> pq_flying s = add_mset r (pq_flying t)
         \<and> pq_waiting t = add_mset r (pq_waiting s))
     \<or> e = Unknown_id \<and> pq_flying t = pq_flying s \<and> pq_waiting t = pq_waiting s)"
proof -
  obtain ms q where s: "s = (ms, q)" by (cases s)
  from assms(1) s have inv: "pq_inv ms q" by (simp add: pq_ok_def)
  then have wf: "wf_dict (pq_in_flight q)" by (simp add: pq_inv_def)
  show ?thesis
  proof (cases "dict_get (pq_in_flight q) mid")
    case None
    with assms s show ?thesis by (auto simp: pq_nack_def)
  next
    case (Some x)
    obtain r u where "x = (r, u)" by (cases x)
    with Some have get: "dict_get (pq_in_flight q) mid = Some (r, u)" by simp
    with assms(2) s have "e = Nacked r"
      and "t = (ms, pq_push ms r (q\<lparr>pq_in_flight := dict_del mid (pq_in_flight q)\<rparr>))"
      by (auto simp: pq_nack_def)
    with pq_push_inv [OF pq_inv_del [OF inv get]] flight_refs_del [OF wf get] s show ?thesis
      by (simp add: pq_ok_def pq_waiting_of_def)
  qed
qed

interpretation pq: delivery pq_ok pq_waiting pq_flying pq_accepts pq_apply
  by unfold_locales (fact pq_apply_enq pq_apply_deq pq_apply_ack pq_apply_nack)+

text \<open>C30. The priority queue keeps every message too: over any run from a new queue, enqueued is
  exactly waiting, in flight or acknowledged; delivered is in flight, acknowledged or returned.\<close>

theorem priority_queue_conserves_messages:
  assumes "qrun pq_accepts pq_apply (ms, pq_new name max_size timeout) es (ms', q)"
  shows "total enqueued es
      = image_mset snd (mset (pq_heap q)) + flight_refs (pq_in_flight q) + total acked es
    \<and> total delivered es
      = flight_refs (pq_in_flight q) + total acked es + total returned es"
  using pq.run_conserves [OF assms] pq_inv_new [of ms name max_size timeout]
  by (simp add: pq_ok_def pq_new_def flight_refs_def pq_waiting_of_def)

lemma priority_queue_conserves_messages_witness:
  "\<exists>ms ms' q. qrun pq_accepts pq_apply (ms, pq_new ''q'' 0 30)
      [Enqueued 0, Delivered {#} (Some 0), Acked 0] (ms', q)
    \<and> {#0#} = image_mset snd (mset (pq_heap q)) + flight_refs (pq_in_flight q) + {#0#}"
proof -
  obtain m :: message where "True" by simp
  let ?ms = "\<lambda>_ :: mref. m\<lparr>m_id := ''a''\<rparr>"
  have "\<exists>ms' q. qrun pq_accepts pq_apply (?ms, pq_new ''q'' 0 30)
      [Enqueued 0, Delivered {#} (Some 0), Acked 0] (ms', q)"
    by (rule exI, rule exI, rule qrun_more [of "Enq 1 0"], simp add: pq_accepts_def pq_new_def,
        simp add: pq_enqueue_def pq_new_def pq_push_def heappush_def siftdown_def
          siftdown_loop.simps, rule qrun_more [of "Deq 1 1 None"],
        simp, simp add: pq_dequeue_def pq_requeue_timed_out_def expired_ids_def flight_refs_def
          effective_timeout_def heappop_def, rule qrun_more [of "Ack ''a''"],
        simp, simp add: pq_acknowledge_def, rule qrun_done)
  then obtain ms' q where run: "qrun pq_accepts pq_apply (?ms, pq_new ''q'' 0 30)
      [Enqueued 0, Delivered {#} (Some 0), Acked 0] (ms', q)"
    by blast
  moreover have "{#0#} = image_mset snd (mset (pq_heap q)) + flight_refs (pq_in_flight q) + {#0#}"
    using priority_queue_conserves_messages [OF run] by simp
  ultimately show ?thesis by blast
qed

subsection \<open>The order of delivery\<close>

definition pq_enqueue_all ::
    "real \<Rightarrow> mstore \<times> priority_queue \<Rightarrow> mref list \<Rightarrow> mstore \<times> priority_queue" where
  "pq_enqueue_all now s rs = fold (\<lambda>r s. fst (pq_enqueue now (fst s) (snd s) r)) rs s"

fun pq_drain :: "nat \<Rightarrow> real \<Rightarrow> mstore \<Rightarrow> priority_queue \<Rightarrow> mref list" where
  "pq_drain 0 now ms q = []"
| "pq_drain (Suc n) now ms q =
     (case pq_dequeue now now ms None q of
        (q', None) \<Rightarrow> []
      | (q', Some r) \<Rightarrow> r # pq_drain n now ms q')"

text \<open>Entries in arrival order, numbered from \<open>n\<close>.\<close>

definition entries :: "(mref \<Rightarrow> int) \<Rightarrow> nat \<Rightarrow> mref list \<Rightarrow> ((int \<times> nat) \<times> mref) list" where
  "entries f n rs = map (\<lambda>(i, r). ((f r, i), r)) (enumerate n rs)"

lemma entries_simps [simp]:
  "entries f n [] = []" "entries f n (r # rs) = ((f r, n), r) # entries f (Suc n) rs"
  by (simp_all add: entries_def)

lemma entries_in: "((k, i), r) \<in> set (entries f n rs) \<Longrightarrow> k = f r \<and> n \<le> i"
  by (induction rs arbitrary: n) (auto dest: Suc_leD)

lemma entries_distinct: "distinct (map fst (entries f n rs))"
  by (induction rs arbitrary: n) (auto dest: entries_in)

lemma entries_snd: "map snd (entries f n rs) = rs"
  by (induction rs arbitrary: n) auto

lemma entries_filter:
  "map snd (filter (\<lambda>x. f (snd x) = c) (entries f n rs)) = filter (\<lambda>r. f r = c) rs"
  by (induction rs arbitrary: n) auto

lemma entries_class_sorted:
  "sorted (map fst (filter (\<lambda>x. f (snd x) = c) (entries f n rs)))"
  by (induction rs arbitrary: n) (auto dest: entries_in)

text \<open>Sorting by key and arrival number is the stable sort by key.\<close>

lemma sorted_entries_stable:
  assumes "mset xs = mset (entries f n rs)" and "sorted (map fst xs)"
  shows "map snd xs = sort_key f rs"
proof -
  let ?ys = "entries f n rs"
  have set: "set xs = set ?ys" using assms(1) by (metis set_mset_mset)
  have dist: "distinct (map fst xs)"
    using assms(1) entries_distinct by (metis mset_eq_imp_distinct_iff mset_map)
  have key: "fst (fst x) = f (snd x)" if "x \<in> set xs" for x
    using that entries_in [of "fst (fst x)" "snd (fst x)" "snd x"] set by simp
  have groups: "filter (\<lambda>x. f (snd x) = c) xs = filter (\<lambda>x. f (snd x) = c) ?ys" for c
    by (rule map_sorted_distinct_set_unique [of fst])
      (use assms(2) dist entries_distinct [of f n rs] entries_class_sorted in
        \<open>auto simp: set distinct_map sorted_wrt_map_filter distinct_map_filter_inj
           intro: inj_on_subset\<close>)
  have "sort_key f rs = map snd xs"
  proof (rule properties_for_sort_key)
    show "mset (map snd xs) = mset rs"
      using assms(1) by (metis entries_snd mset_map)
    show "filter (\<lambda>x. f k = f x) (map snd xs) = filter (\<lambda>x. f k = f x) rs" for k
    proof -
      have "filter (\<lambda>r. f r = f k) (map snd xs) = map snd (filter (\<lambda>x. f (snd x) = f k) xs)"
        by (simp add: filter_map comp_def)
      then show ?thesis by (simp add: groups entries_filter eq_commute [of "f k"])
    qed
    have "map f (map snd xs) = map fst (map fst xs)" unfolding map_map
      by (rule map_cong) (simp_all add: key)
    moreover have "sorted (map fst (map fst xs))"
      using assms(2) by (induction xs) (force simp: less_eq_prod_def)+
    ultimately show "sorted (map f (map snd xs))" by (simp only:)
  qed
  then show ?thesis ..
qed

lemma pq_enqueue_all_parts:
  assumes "pq_max_size q \<le> 0" and "is_heap (pq_heap q)"
    and "pq_enqueue_all now (ms, q) rs = (ms', q')" and "f = (\<lambda>r. - m_priority (ms r))"
  shows "is_heap (pq_heap q')
    \<and> mset (pq_heap q') = mset (pq_heap q) + mset (entries f (pq_sequence q) rs)
    \<and> pq_in_flight q' = pq_in_flight q \<and> pq_visibility_timeout q' = pq_visibility_timeout q"
  using assms
proof (induction rs arbitrary: ms q)
  case Nil
  then show ?case by (simp add: pq_enqueue_all_def)
next
  case (Cons r rs)
  let ?ms = "ms(r := (ms r)\<lparr>m_broker_timestamp := now\<rparr>)"
  let ?q = "(pq_push ?ms r q)\<lparr>pq_total_enqueued := pq_total_enqueued q + 1\<rparr>"
  have step: "pq_enqueue_all now (?ms, ?q) rs = (ms', q')"
    using Cons.prems(1,3) by (simp add: pq_enqueue_all_def pq_enqueue_def Let_def)
  have frame: "pq_max_size ?q = pq_max_size q" "pq_visibility_timeout ?q = pq_visibility_timeout q"
    by (simp_all add: pq_push_def)
  have "is_heap (pq_heap ?q)" using Cons.prems(2) by (simp add: pq_push_heap)
  moreover have "f = (\<lambda>r'. - m_priority (?ms r'))" using Cons.prems(4) by auto
  ultimately have "is_heap (pq_heap q')
    \<and> mset (pq_heap q') = mset (pq_heap ?q) + mset (entries f (pq_sequence ?q) rs)
    \<and> pq_in_flight q' = pq_in_flight ?q \<and> pq_visibility_timeout q' = pq_visibility_timeout ?q"
    using Cons.prems(1) step by (intro Cons.IH [of ?q ?ms]) (simp_all only: frame)
  then show ?case using frame(2) Cons.prems(4) by simp
qed

lemma pq_drain_pop_all:
  assumes "\<forall>x \<in> set (pq_in_flight q). \<not> expired now x" and "0 < pq_visibility_timeout q"
  shows "pq_drain n now ms q = map snd (pop_all heappop n (pq_heap q))"
  using assms
proof (induction n arbitrary: q)
  case 0
  then show ?case by simp
next
  case (Suc n)
  have "expired_ids now (pq_in_flight q) = []"
    using Suc.prems(1) by (simp add: expired_ids_map)
  then have same: "fst (pq_requeue_timed_out now ms q) = q"
    by (simp add: pq_requeue_timed_out_def)
  show ?case
  proof (cases "heappop (pq_heap q)")
    case None
    then show ?thesis by (simp add: pq_dequeue_def same)
  next
    case (Some y)
    obtain k r rest where y: "y = ((k, r), rest)" by (metis prod.collapse)
    let ?q = "q\<lparr>pq_heap := rest, pq_in_flight := dict_set (m_id (ms r))
        (r, now + pq_visibility_timeout q) (pq_in_flight q),
        pq_total_dequeued := pq_total_dequeued q + 1\<rparr>"
    have "pq_dequeue now now ms None q = (?q, Some r)"
      using Some y by (simp add: pq_dequeue_def same effective_timeout_def Let_def)
    moreover have "\<forall>x \<in> set (pq_in_flight ?q). \<not> expired now x"
      using Suc.prems set_dict_set [of "m_id (ms r)" "(r, now + pq_visibility_timeout q)" "pq_in_flight q"]
      by (auto simp: expired_def)
    ultimately show ?thesis using Suc.IH [of ?q] Suc.prems(2) Some y by simp
  qed
qed

text \<open>C21. Messages enqueued in any order come out by descending priority, and within a priority in
  the order they were enqueued: draining is the stable sort of the input.\<close>

theorem priority_queue_order:
  assumes "max_size \<le> 0" and "0 < timeout"
    and "pq_enqueue_all now (ms, pq_new name max_size timeout) rs = (ms', q)"
  shows "pq_drain (length rs) now' ms' q = sort_key (\<lambda>r. - m_priority (ms r)) rs"
proof -
  let ?f = "\<lambda>r. - m_priority (ms r)"
  have parts: "is_heap (pq_heap q)" "mset (pq_heap q) = mset (entries ?f 0 rs)"
    "pq_in_flight q = []" "pq_visibility_timeout q = timeout"
    using pq_enqueue_all_parts [OF _ _ assms(3) refl] assms(1)
    by (simp_all add: pq_new_def is_heap_def)
  then have "pq_drain (length rs) now' ms' q = map snd (pop_all heappop (length rs) (pq_heap q))"
    using assms(2) by (intro pq_drain_pop_all) simp_all
  moreover have "mset (pop_all heappop (length rs) (pq_heap q)) = mset (entries ?f 0 rs)"
    using hq.pop_all_mset [OF parts(1), of "length rs"] parts(2)
    by (simp add: entries_def del: size_mset) (metis length_enumerate length_map size_mset order_refl)
  moreover have "sorted (map fst (pop_all heappop (length rs) (pq_heap q)))"
    by (rule hq.pop_all_sorted [OF parts(1)])
  ultimately show ?thesis using sorted_entries_stable by metis
qed

lemma priority_queue_order_witness:
  "\<exists>ms ms' q. pq_enqueue_all 0 (ms, pq_new ''q'' 0 30) [0, 1, 2] = (ms', q)
    \<and> pq_drain 3 1 ms' q = [1, 2, 0]"
proof -
  obtain m :: message where "True" by simp
  let ?ms = "(\<lambda>_. m\<lparr>m_priority := 5\<rparr>)(0 := m\<lparr>m_priority := 1\<rparr>)"
  obtain ms' q where q: "pq_enqueue_all 0 (?ms, pq_new ''q'' 0 30) [0, 1, 2] = (ms', q)"
    by (metis prod.collapse)
  have "pq_drain 3 1 ms' q = [1, 2, 0]"
    using priority_queue_order [OF _ _ q, of 1] by (simp del: pq_drain.simps add: eval_nat_numeral)
  with q show ?thesis by blast
qed

end
