(* ===== verification/Storage.thy ===== *)
theory Storage
  imports Message Logs
begin

section \<open>The write-ahead log\<close>

text \<open>
  \<^verbatim>\<open>storage.py\<close>: the log segments, the segmented log with rotation, retention and compaction, and
  the metadata tables. The log of a \<open>WriteAheadLog\<close> is in memory (\<open>LogSegment.path\<close> is stored
  and never used); the SQLite database is present only with a data directory (\<open>w_db\<close>). The two
  tables are maps keyed by their primary keys: \<open>INSERT OR REPLACE\<close> is a map update. The
  JSON text of a topic configuration is produced and read by the \<^verbatim>\<open>json\<close> library: \<open>dumps\<close> and
  \<open>loads\<close> are parameters.
\<close>

subsection \<open>Segments\<close>

record log_entry =
  e_offset :: int
  e_timestamp :: real
  e_key :: "string option"
  e_value :: "byte list"

record log_segment =
  s_base_offset :: int
  s_max_bytes :: int
  s_entries :: "log_entry list"
  s_size_bytes :: int

definition segment_new :: "int \<Rightarrow> int \<Rightarrow> log_segment" where
  "segment_new base max_bytes =
     \<lparr>s_base_offset = base, s_max_bytes = max_bytes, s_entries = [], s_size_bytes = 0\<rparr>"

definition segment_next_offset :: "log_segment \<Rightarrow> int" where
  "segment_next_offset s =
     (if s_entries s = [] then s_base_offset s else e_offset (last (s_entries s)) + 1)"

definition segment_count :: "log_segment \<Rightarrow> nat" where
  "segment_count s = length (s_entries s)"

definition segment_is_full :: "log_segment \<Rightarrow> bool" where
  "segment_is_full s \<longleftrightarrow> s_size_bytes s \<ge> s_max_bytes s"

definition segment_append ::
    "real \<Rightarrow> string option \<Rightarrow> byte list \<Rightarrow> log_segment \<Rightarrow> log_segment \<times> int" where
  "segment_append now key value s =
     (let offset = segment_next_offset s;
          entry = \<lparr>e_offset = offset, e_timestamp = now, e_key = key, e_value = value\<rparr>
      in (s\<lparr>s_entries := s_entries s @ [entry],
            s_size_bytes := s_size_bytes s + (int (length value) + 64)\<rparr>, offset))"

definition segment_read :: "log_segment \<Rightarrow> int \<Rightarrow> int \<Rightarrow> log_entry list" where
  "segment_read s offset max_entries =
     (if s_entries s = [] then []
      else
        (let i = offset - s_base_offset s;
             start_idx = (if i < 0 then 0 else i)
         in if start_idx \<ge> int (length (s_entries s)) then []
            else py_slice (s_entries s) start_idx
                   (min (start_idx + max_entries) (int (length (s_entries s))))))"

definition segment_read_at :: "log_segment \<Rightarrow> int \<Rightarrow> log_entry option" where
  "segment_read_at s offset =
     (let idx = offset - s_base_offset s
      in if 0 \<le> idx \<and> idx < int (length (s_entries s)) then Some (s_entries s ! nat idx) else None)"

definition entry_bytes :: "log_entry \<Rightarrow> int" where
  "entry_bytes e = int (length (e_value e)) + 64"

definition segment_truncate :: "int \<Rightarrow> log_segment \<Rightarrow> log_segment \<times> int" where
  "segment_truncate offset s =
     (let idx = offset - s_base_offset s
      in if idx \<le> 0 then (s, 0)
         else
           (let removed = take (nat idx) (s_entries s)
            in (s\<lparr>s_entries := drop (nat idx) (s_entries s),
                  s_size_bytes := s_size_bytes s - sum_list (map entry_bytes removed)\<rparr>,
                int (length removed))))"

subsection \<open>The segmented log\<close>

record metadata_db =
  db_offsets :: "string \<times> string \<times> int \<rightharpoonup> int \<times> real"
  db_topics :: "string \<rightharpoonup> string \<times> real"

record wal =
  w_segment_max_bytes :: int
  w_retention_ms :: int
  w_segments :: "log_segment list"
  w_total_appended :: nat
  w_db :: "metadata_db option"

text \<open>
  \<open>db\<close> is what \<open>sqlite3.connect\<close> finds in the data directory (empty tables when it is new), None
  without a data directory.
\<close>

definition wal_new :: "metadata_db option \<Rightarrow> int \<Rightarrow> int \<Rightarrow> wal" where
  "wal_new db segment_max_bytes retention_ms =
     \<lparr>w_segment_max_bytes = segment_max_bytes, w_retention_ms = retention_ms,
      w_segments = [segment_new 0 segment_max_bytes], w_total_appended = 0, w_db = db\<rparr>"

definition active_segment :: "wal \<Rightarrow> log_segment" where
  "active_segment w = last (w_segments w)"

definition wal_append :: "real \<Rightarrow> string option \<Rightarrow> byte list \<Rightarrow> wal \<Rightarrow> wal \<times> int" where
  "wal_append now key value w0 =
     (let w = (if segment_is_full (active_segment w0)
               then w0\<lparr>w_segments := w_segments w0 @
                 [segment_new (segment_next_offset (active_segment w0)) (w_segment_max_bytes w0)]\<rparr>
               else w0);
          (s, offset) = segment_append now key value (active_segment w)
      in (w\<lparr>w_segments := butlast (w_segments w) @ [s],
            w_total_appended := w_total_appended w + 1\<rparr>, offset))"

text \<open>The loop of \<open>read\<close>, with the offset and the number of entries it still wants.\<close>

fun wal_read_loop :: "log_segment list \<Rightarrow> int \<Rightarrow> int \<Rightarrow> log_entry list" where
  "wal_read_loop [] offset remaining = []"
| "wal_read_loop (s # ss) offset remaining =
     (if remaining \<le> 0 then []
      else if segment_next_offset s \<le> offset then wal_read_loop ss offset remaining
      else
        (let entries = segment_read s offset remaining
         in entries @ wal_read_loop ss
              (if entries \<noteq> [] then e_offset (last entries) + 1 else offset)
              (remaining - int (length entries))))"

definition wal_read :: "wal \<Rightarrow> int \<Rightarrow> int \<Rightarrow> log_entry list" where
  "wal_read w offset max_entries = wal_read_loop (w_segments w) offset max_entries"

definition latest_offset :: "wal \<Rightarrow> int" where
  "latest_offset w = segment_next_offset (active_segment w)"

definition wal_earliest_offset :: "wal \<Rightarrow> int" where
  "wal_earliest_offset w =
     (case w_segments w of [] \<Rightarrow> 0 | s # _ \<Rightarrow> s_base_offset s)"

definition total_entries :: "wal \<Rightarrow> nat" where
  "total_entries w = sum_list (map segment_count (w_segments w))"

definition wal_total_bytes :: "wal \<Rightarrow> int" where
  "wal_total_bytes w = sum_list (map s_size_bytes (w_segments w))"

text \<open>\<open>while len(self._segments) > 1\<close>: the first segment goes while its first entry is too old.\<close>

fun retention_loop :: "real \<Rightarrow> log_segment list \<Rightarrow> log_segment list \<times> nat" where
  "retention_loop cutoff (s # t # ss) =
     (case segment_read s (s_base_offset s) 1 of
        e # _ \<Rightarrow>
          if e_timestamp e < cutoff
          then (case retention_loop cutoff (t # ss) of (segs, n) \<Rightarrow> (segs, segment_count s + n))
          else (s # t # ss, 0)
      | [] \<Rightarrow> (s # t # ss, 0))"
| "retention_loop cutoff segs = (segs, 0)"

definition wal_apply_retention :: "real \<Rightarrow> wal \<Rightarrow> wal \<times> nat" where
  "wal_apply_retention now w =
     (if w_retention_ms w \<le> 0 then (w, 0)
      else
        (let cutoff = now - real_of_int (w_retention_ms w) / 1000;
             (segs, removed) = retention_loop cutoff (w_segments w)
         in (w\<lparr>w_segments := segs\<rparr>, removed)))"

text \<open>\<open>clock i\<close> is the \<open>i\<close>-th reading of the clock during \<open>compact\<close>, one per rewritten entry.\<close>

definition wal_all_entries :: "wal \<Rightarrow> log_entry list" where
  "wal_all_entries w = concat (map (\<lambda>s. segment_read s (s_base_offset s) (int (segment_count s)))
     (w_segments w))"

definition rewrite_entries :: "(nat \<Rightarrow> real) \<Rightarrow> log_entry list \<Rightarrow> log_segment \<Rightarrow> log_segment" where
  "rewrite_entries clock es s =
     fold (\<lambda>(i, e) s. fst (segment_append (clock i) (e_key e) (e_value e) s)) (enumerate 0 es) s"

definition wal_compact :: "(nat \<Rightarrow> real) \<Rightarrow> wal \<Rightarrow> wal \<times> int" where
  "wal_compact clock w =
     (let all_entries = wal_all_entries w;
          compacted = compact_entries e_key all_entries;
          base = (case compacted of [] \<Rightarrow> 0 | e # _ \<Rightarrow> e_offset e);
          new_segment = rewrite_entries clock compacted (segment_new base (w_segment_max_bytes w))
      in (w\<lparr>w_segments := [new_segment]\<rparr>,
          int (length all_entries) - int (length compacted)))"

subsection \<open>The metadata tables\<close>

definition save_offset :: "real \<Rightarrow> string \<Rightarrow> string \<Rightarrow> int \<Rightarrow> int \<Rightarrow> wal \<Rightarrow> wal" where
  "save_offset now group_id topic partition_id offset w =
     (case w_db w of
        None \<Rightarrow> w
      | Some d \<Rightarrow> w\<lparr>w_db := Some
          (d\<lparr>db_offsets := (db_offsets d)((group_id, topic, partition_id) \<mapsto> (offset, now))\<rparr>)\<rparr>)"

definition load_offset :: "string \<Rightarrow> string \<Rightarrow> int \<Rightarrow> wal \<Rightarrow> int option" where
  "load_offset group_id topic partition_id w =
     (case w_db w of
        None \<Rightarrow> None
      | Some d \<Rightarrow> map_option fst (db_offsets d (group_id, topic, partition_id)))"

definition save_topic_config ::
    "('c \<Rightarrow> string) \<Rightarrow> real \<Rightarrow> string \<Rightarrow> 'c \<Rightarrow> wal \<Rightarrow> wal" where
  "save_topic_config dumps now name config w =
     (case w_db w of
        None \<Rightarrow> w
      | Some d \<Rightarrow> w\<lparr>w_db := Some (d\<lparr>db_topics := (db_topics d)(name \<mapsto> (dumps config, now))\<rparr>)\<rparr>)"

definition load_topic_configs :: "(string \<Rightarrow> 'c) \<Rightarrow> wal \<Rightarrow> string \<rightharpoonup> 'c" where
  "load_topic_configs loads w =
     (case w_db w of
        None \<Rightarrow> Map.empty
      | Some d \<Rightarrow> (\<lambda>name. map_option (\<lambda>(config, _). loads config) (db_topics d name)))"

definition wal_close :: "wal \<Rightarrow> wal" where
  "wal_close w = w\<lparr>w_db := None\<rparr>"

record wal_info =
  wi_total_entries :: nat
  wi_total_bytes :: int
  wi_segment_count :: nat
  wi_earliest_offset :: int
  wi_latest_offset :: int
  wi_total_appended :: nat
  wi_retention_ms :: int

definition wal_snapshot :: "wal \<Rightarrow> wal_info" where
  "wal_snapshot w =
     \<lparr>wi_total_entries = total_entries w, wi_total_bytes = wal_total_bytes w,
      wi_segment_count = length (w_segments w), wi_earliest_offset = wal_earliest_offset w,
      wi_latest_offset = latest_offset w, wi_total_appended = w_total_appended w,
      wi_retention_ms = w_retention_ms w\<rparr>"

subsection \<open>Consecutive offsets\<close>

fun consec :: "int \<Rightarrow> log_entry list \<Rightarrow> bool" where
  "consec b [] = True"
| "consec b (e # es) = (e_offset e = b \<and> consec (b + 1) es)"

lemma consec_append [simp]:
  "consec b (xs @ ys) = (consec b xs \<and> consec (b + int (length xs)) ys)"
  by (induction xs arbitrary: b) (auto simp: algebra_simps)

lemma consec_nth: "consec b es \<Longrightarrow> i < length es \<Longrightarrow> e_offset (es ! i) = b + int i"
  by (induction es arbitrary: b i) (auto simp: nth_Cons')

lemma consec_last: "consec b es \<Longrightarrow> es \<noteq> [] \<Longrightarrow> e_offset (last es) = b + int (length es) - 1"
  by (cases es rule: rev_cases) auto

lemma consec_drop: "consec b es \<Longrightarrow> k \<le> length es \<Longrightarrow> consec (b + int k) (drop k es)"
  using consec_append [of b "take k es" "drop k es"] by (auto simp: min_def split: if_splits)

lemma consec_take: "consec b es \<Longrightarrow> consec b (take k es)"
  using consec_append [of b "take k es" "drop k es"] by simp

text \<open>The segments follow each other without a gap and count their bytes.\<close>

definition segment_ok :: "log_segment \<Rightarrow> bool" where
  "segment_ok s \<longleftrightarrow> consec (s_base_offset s) (s_entries s)
     \<and> s_size_bytes s = sum_list (map entry_bytes (s_entries s))"

fun linked :: "int \<Rightarrow> log_segment list \<Rightarrow> bool" where
  "linked b [] = True"
| "linked b (s # ss) =
     (s_base_offset s = b \<and> segment_ok s \<and> linked (b + int (length (s_entries s))) ss)"

definition wal_ok :: "wal \<Rightarrow> bool" where
  "wal_ok w \<longleftrightarrow> w_segments w \<noteq> [] \<and> linked (s_base_offset (hd (w_segments w))) (w_segments w)"

definition wal_entries :: "wal \<Rightarrow> log_entry list" where
  "wal_entries w = concat (map s_entries (w_segments w))"

lemma segment_next: "segment_ok s \<Longrightarrow> segment_next_offset s = s_base_offset s + int (length (s_entries s))"
  by (auto simp: segment_ok_def segment_next_offset_def consec_last)

lemma linked_append:
  "linked b (xs @ ys) \<longleftrightarrow> linked b xs \<and> linked (b + int (length (concat (map s_entries xs)))) ys"
  by (induction xs arbitrary: b) (auto simp: algebra_simps)

lemma linked_consec: "linked b segs \<Longrightarrow> consec b (concat (map s_entries segs))"
  by (induction segs arbitrary: b) (auto simp: segment_ok_def)

lemma segment_new_ok [simp]: "segment_ok (segment_new b m)"
  by (simp add: segment_ok_def segment_new_def)

lemma segment_append_ok:
  assumes "segment_ok s" and "segment_append now key value s = (s', off)"
  shows "segment_ok s' \<and> s_base_offset s' = s_base_offset s \<and> s_max_bytes s' = s_max_bytes s
    \<and> off = segment_next_offset s \<and> s_entries s' = s_entries s @
        [\<lparr>e_offset = off, e_timestamp = now, e_key = key, e_value = value\<rparr>]"
  using assms segment_next [OF assms(1)]
  by (auto simp: segment_append_def Let_def segment_ok_def entry_bytes_def)

lemma segment_read_spec:
  assumes "segment_ok s" and "0 \<le> n"
  shows "segment_read s off n = take (nat n) (drop (nat (off - s_base_offset s)) (s_entries s))"
  using assms(2)
  by (auto simp: segment_read_def Let_def slice_simps min_def nat_add_distrib)

lemma wal_read_loop_spec:
  assumes "linked b segs"
  shows "wal_read_loop segs off n = take (nat n) (drop (nat (off - b)) (concat (map s_entries segs)))"
  using assms
proof (induction segs arbitrary: b off n)
  case Nil
  then show ?case by simp
next
  case (Cons s ss)
  let ?es = "s_entries s" and ?rest = "concat (map s_entries ss)"
  have ok: "segment_ok s" "s_base_offset s = b" and linked: "linked (b + int (length ?es)) ss"
    using Cons.prems by simp_all
  note IH = Cons.IH [OF linked]
  have next_off: "segment_next_offset s = b + int (length ?es)" using ok by (simp add: segment_next)
  show ?case
  proof (cases "n \<le> 0 \<or> segment_next_offset s \<le> off \<or> ?es = []")
    case True
    moreover have "nat (off - (b + int (length ?es))) = nat (off - b) - length ?es" by arith
    ultimately show ?thesis using next_off IH [of off n] by (auto simp: segment_read_def)
  next
    case False
    let ?k = "nat (off - b)" and ?got = "segment_read s off n"
    have got: "?got = take (nat n) (drop ?k ?es)" using False ok by (simp add: segment_read_spec)
    have k: "?k < length ?es" using False next_off by (cases ?es) (simp_all, arith?)
    then have ne: "?got \<noteq> []" using False got by simp
    have "consec (b + int ?k) ?got"
      using ok k unfolding got by (intro consec_take consec_drop) (simp_all add: segment_ok_def)
    then have last: "e_offset (last ?got) + 1 = b + int ?k + int (length ?got)"
      using consec_last [OF _ ne] by fastforce
    have pos: "nat (b + int k + int g - (b + int m)) = k + g - m" for k g m by arith
    have "wal_read_loop (s # ss) off n
        = ?got @ wal_read_loop ss (e_offset (last ?got) + 1) (n - int (length ?got))"
      using False ne by (simp add: Let_def)
    then have loop: "wal_read_loop (s # ss) off n
        = ?got @ take (nat (n - int (length ?got))) (drop (?k + length ?got - length ?es) ?rest)"
      by (simp only: last IH pos)
    show ?thesis
    proof (cases "nat n \<le> length ?es - ?k")
      case True
      then have "length ?got = nat n" using got by simp
      then show ?thesis using loop got True k False by simp
    next
      case short: False
      then have "?got = drop ?k ?es" using got by simp
      moreover from this have "nat (n - int (length ?got)) = nat n - (length ?es - ?k)"
        using short False by (simp add: nat_diff_distrib')
      moreover have "take (nat n) (drop ?k ?es) = drop ?k ?es" using short by simp
      ultimately show ?thesis using loop k by simp
    qed
  qed
qed

end
