(* ===== verification/Storage_Log.thy ===== *)
theory Storage_Log
  imports Storage
begin

section \<open>What the write-ahead log promises\<close>

text \<open>
  The segmented log is a refinement of one list of entries with consecutive offsets
  (\<open>wal_entries\<close>): appending, reading across segments, rotation, retention and compaction are
  described on that list. The log interprets \<open>offset_log\<close>. Truncating a segment is the operation
  that does not keep the invariant, and the consequence is stated.
\<close>

lemma wal_ok_parts:
  assumes "wal_ok w"
  obtains ss s where "w_segments w = ss @ [s]" and "linked (wal_earliest_offset w) (ss @ [s])"
    and "segment_ok s"
    and "s_base_offset s = wal_earliest_offset w + int (length (concat (map s_entries ss)))"
proof -
  from assms obtain ss s where segs: "w_segments w = ss @ [s]"
    by (cases "w_segments w" rule: rev_cases) (auto simp: wal_ok_def)
  have "s_base_offset (hd (w_segments w)) = wal_earliest_offset w"
    using segs by (simp add: wal_earliest_offset_def hd_conv_nth split: list.split)
  with assms segs have linked: "linked (wal_earliest_offset w) (ss @ [s])" by (simp add: wal_ok_def)
  then show ?thesis using segs by (intro that [of ss s]) (simp_all add: linked_append)
qed

lemma wal_okI: "segs \<noteq> [] \<Longrightarrow> linked b segs \<Longrightarrow> w_segments w = segs \<Longrightarrow> wal_ok w"
  by (cases segs) (auto simp: wal_ok_def)

lemma wal_earliest_linked: "segs \<noteq> [] \<Longrightarrow> linked b segs \<Longrightarrow> w_segments w = segs \<Longrightarrow>
    wal_earliest_offset w = b"
  by (cases segs) (auto simp: wal_earliest_offset_def)

lemma wal_linked: "wal_ok w \<Longrightarrow> linked (wal_earliest_offset w) (w_segments w)"
  by (erule wal_ok_parts) simp

lemma wal_consec: "wal_ok w \<Longrightarrow> consec (wal_earliest_offset w) (wal_entries w)"
  by (simp add: wal_entries_def wal_linked linked_consec)

lemma wal_latest: "wal_ok w \<Longrightarrow>
    latest_offset w = wal_earliest_offset w + int (length (wal_entries w))"
  by (erule wal_ok_parts)
    (simp add: latest_offset_def active_segment_def segment_next wal_entries_def)

lemma wal_new_ok: "wal_ok (wal_new db m t)"
  by (simp add: wal_ok_def wal_new_def)

lemma wal_append_spec:
  assumes "wal_ok w" and "wal_append now key value w = (w', off)"
  shows "wal_ok w' \<and> off = latest_offset w \<and> latest_offset w' = off + 1
    \<and> wal_earliest_offset w' = wal_earliest_offset w
    \<and> wal_entries w' = wal_entries w @
        [\<lparr>e_offset = off, e_timestamp = now, e_key = key, e_value = value\<rparr>]"
proof -
  let ?entry = "\<lambda>off. \<lparr>e_offset = off, e_timestamp = now, e_key = key, e_value = value\<rparr>"
  from assms(1) obtain ss s where segs: "w_segments w = ss @ [s]"
    and linked: "linked (wal_earliest_offset w) (ss @ [s])" and ok: "segment_ok s"
    and base: "s_base_offset s = wal_earliest_offset w + int (length (concat (map s_entries ss)))"
    by (rule wal_ok_parts)
  have latest: "latest_offset w = segment_next_offset s"
    by (simp add: latest_offset_def active_segment_def segs)
  define prev where "prev = (if segment_is_full s then ss @ [s] else ss)"
  define act where "act = (if segment_is_full s
    then segment_new (segment_next_offset s) (w_segment_max_bytes w) else s)"
  obtain s' where s': "segment_append now key value act = (s', off)"
    and segs': "w_segments w' = prev @ [s']"
    using assms(2) segs unfolding prev_def act_def
    by (auto simp: wal_append_def active_segment_def Let_def butlast_append split: prod.splits if_splits)
  have act_ok: "segment_ok act" and act_next: "segment_next_offset act = segment_next_offset s"
    using ok by (simp_all add: act_def segment_next_offset_def segment_new_def
        segment_ok_def)
  note app = segment_append_ok [OF act_ok s']
  have link: "linked (wal_earliest_offset w) (prev @ [s'])"
    using linked app base ok by (auto simp: prev_def act_def linked_append segment_new_def
        segment_next split: if_splits)
  have entries: "concat (map s_entries prev) @ s_entries act = wal_entries w"
    by (simp add: prev_def act_def wal_entries_def segs segment_new_def)
  have "wal_ok w'" by (rule wal_okI [OF _ link segs']) simp
  moreover have "wal_earliest_offset w' = wal_earliest_offset w"
    by (rule wal_earliest_linked [OF _ link segs']) simp
  moreover have "wal_entries w' = wal_entries w @ [?entry off]"
    using app entries by (simp add: wal_entries_def segs')
  moreover have "off = latest_offset w" using app act_next latest by simp
  moreover from calculation have "latest_offset w' = off + 1"
    using wal_latest [OF assms(1)] by (simp add: wal_latest)
  ultimately show ?thesis by blast
qed

lemma wal_read_list: "wal_ok w \<Longrightarrow>
    wal_read w off n = take (nat n) (drop (nat (off - wal_earliest_offset w)) (wal_entries w))"
  by (simp add: wal_read_def wal_entries_def wal_read_loop_spec wal_linked)

lemma consec_sorted: "consec b es \<Longrightarrow> sorted_wrt (<) (map e_offset es)"
  using consec_nth [of b es] by (simp add: sorted_wrt_iff_nth_less)

interpretation wlog: offset_log wal_ok wal_entries "\<lambda>_. e_offset" latest_offset wal_read
proof unfold_locales
  show "sorted_wrt (<) (map e_offset (wal_entries w))" if "wal_ok w" for w
    using wal_consec [OF that] by (rule consec_sorted)
  show "e_offset e < latest_offset w" if "wal_ok w" "e \<in> set (wal_entries w)" for w e
    using that consec_nth [OF wal_consec [OF that(1)]] by (auto simp: in_set_conv_nth wal_latest)
  show "wal_read w pos n = take (nat n) (filter (\<lambda>e. pos \<le> e_offset e) (wal_entries w))"
    if "wal_ok w" "0 \<le> n" for w n pos
    using filter_consecutive [of "wal_entries w" e_offset, OF consec_nth [OF wal_consec [OF that(1)]]]
    by (simp add: wal_read_list [OF that(1)])
qed

text \<open>Appending to the write-ahead log adds one entry at the end, at the offset \<open>latest_offset\<close>
  announced, whether or not a new segment is opened for it; offsets stay consecutive across
  segments and nothing already written changes.\<close>

theorem wal_append_correct:
  assumes "wal_ok w"
  shows "case wal_append now key value w of (w', off) \<Rightarrow>
    wal_ok w' \<and> off = latest_offset w \<and> latest_offset w' = off + 1
    \<and> wal_earliest_offset w' = wal_earliest_offset w
    \<and> wal_entries w' = wal_entries w @
        [\<lparr>e_offset = off, e_timestamp = now, e_key = key, e_value = value\<rparr>]"
  using wal_append_spec [OF assms] by (auto split: prod.split)

lemma wal_append_correct_witness:
  "wal_entries (fst (wal_append 7 (Some ''k'') [1, 2] (wal_new None 100 0)))
    = [\<lparr>e_offset = 0, e_timestamp = 7, e_key = Some ''k'', e_value = [1, 2]\<rparr>]"
  using wal_append_correct [OF wal_new_ok [of None 100 0], of 7 "Some ''k''" "[1, 2]"]
  by (auto simp: wal_entries_def wal_new_def segment_new_def latest_offset_def active_segment_def
      segment_next_offset_def split: prod.splits)

text \<open>C22. A read across segments returns the first \<open>n\<close> entries at or after the offset, in order; and
  a reader that continues after the last entry it got sees every entry from its position on
  exactly once, whatever the size of its reads and wherever the segments end.\<close>

theorem wal_read_correct:
  assumes "wal_ok w" and "0 < n"
  shows "wal_read w pos n = take (nat n) (filter (\<lambda>e. pos \<le> e_offset e) (wal_entries w))
    \<and> drain (wal_read w) e_offset (Suc (length (wal_entries w))) pos n
        = filter (\<lambda>e. pos \<le> e_offset e) (wal_entries w)"
  using wlog.read_spec [OF assms(1)] wlog.drain_complete [OF assms(1,2)] assms(2)
  by (simp add: less_Suc_eq_le del: drain.simps)

lemma wal_read_correct_witness:
  "\<exists>w. map e_offset (wal_read w 0 1) = [0] \<and> map e_offset (wal_read w 1 5) = [1]"
proof -
  let ?w0 = "wal_new None 50 0"
  let ?w1 = "fst (wal_append 1 None [1] ?w0)" let ?w2 = "fst (wal_append 2 None [2] ?w1)"
  have ok: "wal_ok ?w2" using wal_append_spec wal_new_ok by (metis prod.collapse)
  have es: "map e_offset (wal_entries ?w2) = [0, 1]"
    by (simp add: wal_append_def wal_new_def Let_def segment_new_def active_segment_def
        segment_is_full_def segment_append_def segment_next_offset_def wal_entries_def)
  then obtain a b where ab: "wal_entries ?w2 = [a, b]" "e_offset a = 0" "e_offset b = 1" by auto
  show ?thesis
    using wal_read_correct [OF ok, of 1 0] wal_read_correct [OF ok, of 5 1] ab
    by (intro exI [of _ ?w2]) simp
qed

subsection \<open>Rotation\<close>

definition wal_appends :: "(real \<times> string option \<times> byte list) list \<Rightarrow> wal \<Rightarrow> wal" where
  "wal_appends es w = fold (\<lambda>(now, key, value) w. fst (wal_append now key value w)) es w"

text \<open>Every segment but the last is full, and without its last entry no segment was.\<close>

fun rotated :: "int \<Rightarrow> log_segment list \<Rightarrow> bool" where
  "rotated m [] = True"
| "rotated m (s # ss) =
     (s_max_bytes s = m \<and> (ss \<noteq> [] \<longrightarrow> segment_is_full s)
      \<and> (length (s_entries s) \<le> 1 \<or> sum_list (map entry_bytes (butlast (s_entries s))) < m)
      \<and> rotated m ss)"

lemma rotated_append:
  "rotated m (xs @ [s]) \<longleftrightarrow> (\<forall>x \<in> set xs. segment_is_full x) \<and> rotated m xs \<and> rotated m [s]"
  by (induction xs) auto

lemma rotated_last:
  "rotated m (xs @ [s]) \<Longrightarrow> segment_is_full s \<Longrightarrow> rotated m (xs @ [s, segment_new b m])"
  using rotated_append [of m "xs @ [s]" "segment_new b m"]
  by (simp add: rotated_append segment_new_def)

lemma rotated_step:
  assumes "wal_ok w" and "rotated (w_segment_max_bytes w) (w_segments w)"
    and "wal_append now key value w = (w', off)"
  shows "rotated (w_segment_max_bytes w') (w_segments w')
    \<and> w_segment_max_bytes w' = w_segment_max_bytes w
    \<and> wal_total_bytes w' = wal_total_bytes w + (int (length value) + 64)
    \<and> w_total_appended w' = Suc (w_total_appended w)"
proof -
  from assms(1) obtain ss s where segs: "w_segments w = ss @ [s]" and ok: "segment_ok s"
    by (rule wal_ok_parts)
  show ?thesis
  proof (cases "segment_is_full s")
    case True
    with assms(2) segs have "rotated (w_segment_max_bytes w) (ss @
        [s, segment_new (segment_next_offset s) (w_segment_max_bytes w)])"
      by (simp add: rotated_last)
    then have "rotated (w_segment_max_bytes w) (ss @ [s])" "\<forall>x \<in> set (ss @ [s]). segment_is_full x"
      using rotated_append [of _ "ss @ [s]"] by (simp_all del: rotated.simps)
    with True assms(3) segs show ?thesis
      using rotated_append [of "w_segment_max_bytes w" "ss @ [s]"]
      by (auto simp: wal_append_def active_segment_def Let_def butlast_append segment_append_def
          segment_new_def wal_total_bytes_def)
  next
    case False
    with assms(2,3) segs ok show ?thesis
      by (auto simp: wal_append_def active_segment_def Let_def butlast_append segment_append_def
          rotated_append segment_is_full_def segment_ok_def wal_total_bytes_def)
  qed
qed

lemma wal_appends_inv:
  assumes "w = wal_appends es (wal_new db m t)"
  shows "wal_ok w \<and> w_segment_max_bytes w = m \<and> rotated m (w_segments w)
    \<and> wal_total_bytes w = sum_list (map (\<lambda>(now, key, value). int (length value) + 64) es)
    \<and> w_total_appended w = length es \<and> wal_earliest_offset w = 0
    \<and> map (\<lambda>e. (e_timestamp e, e_key e, e_value e)) (wal_entries w) = es"
  unfolding assms
proof (induction es rule: rev_induct)
  case Nil
  show ?case using wal_new_ok [of db m t]
    by (simp add: wal_appends_def) (simp add: wal_new_def segment_new_def wal_total_bytes_def
        wal_entries_def wal_earliest_offset_def)
next
  case (snoc x es)
  obtain now k v where x: "x = (now, k, v)" by (cases x)
  let ?w = "wal_appends es (wal_new db m t)"
  obtain w' off where w': "wal_append now k v ?w = (w', off)" by (metis prod.collapse)
  then have eq: "wal_appends (es @ [x]) (wal_new db m t) = w'" by (simp add: wal_appends_def x)
  show ?case
    using snoc.IH wal_append_spec [OF _ w'] rotated_step [OF _ _ w'] unfolding eq by (auto simp: x)
qed

lemma rotated_bound:
  assumes "linked b segs" and "rotated m segs" and "0 < m" and "0 < B"
    and "\<forall>e \<in> set (concat (map s_entries segs)). entry_bytes e \<le> B"
  shows "\<forall>s \<in> set segs. s_size_bytes s < m + B"
  using assms
proof (induction segs arbitrary: b)
  case Nil
  then show ?case by simp
next
  case (Cons s segs)
  have size: "s_size_bytes s = sum_list (map entry_bytes (s_entries s))"
    using Cons.prems(1) by (simp add: segment_ok_def)
  have "s_size_bytes s < m + B"
  proof (cases "s_entries s" rule: rev_cases)
    case Nil
    with size Cons.prems show ?thesis by simp
  next
    case (snoc es e)
    with Cons.prems have "entry_bytes e \<le> B" by simp
    moreover have "es = [] \<or> sum_list (map entry_bytes es) < m"
      using Cons.prems(2) snoc by (cases es) simp_all
    ultimately show ?thesis using size snoc Cons.prems(3) by auto
  qed
  with Cons show ?case by auto
qed

text \<open>Rotation: whatever is appended to a new log, exactly those entries are in it, offsets
  counting from 0; every segment but the active one is full, no segment was full before its last
  entry, and so with entries of at most \<open>B\<close> bytes no segment reaches the limit plus \<open>B\<close>.\<close>

theorem wal_rotation:
  assumes "0 < m" and "\<forall>(now, key, value) \<in> set es. int (length value) + 64 \<le> B" and "0 < B"
    and "w = wal_appends es (wal_new db m t)"
  shows "map (\<lambda>e. (e_timestamp e, e_key e, e_value e)) (wal_entries w) = es
    \<and> map e_offset (wal_entries w) = map int [0..<length es]
    \<and> (\<forall>s \<in> set (butlast (w_segments w)). segment_is_full s)
    \<and> (\<forall>s \<in> set (w_segments w). s_size_bytes s < m + B)
    \<and> wal_total_bytes w = sum_list (map (\<lambda>(now, key, value). int (length value) + 64) es)"
proof -
  note inv = wal_appends_inv [OF assms(4)]
  then have "wal_ok w" by simp
  then obtain ss s where segs: "w_segments w = ss @ [s]" by (rule wal_ok_parts)
  have len: "length (wal_entries w) = length es" using inv by fastforce
  have kve: "map (\<lambda>e. (e_timestamp e, e_key e, e_value e)) (wal_entries w) = es"
    using inv by blast
  have "entry_bytes e \<le> B" if "e \<in> set (wal_entries w)" for e
  proof -
    have "(e_timestamp e, e_key e, e_value e) \<in> set es"
      using that unfolding kve [symmetric] by simp
    with assms(2) show ?thesis by (auto simp: entry_bytes_def)
  qed
  then have "\<forall>s \<in> set (w_segments w). s_size_bytes s < m + B"
    using rotated_bound [OF wal_linked, of w m B] inv assms(1,3) by (simp add: wal_entries_def)
  moreover have "map e_offset (wal_entries w) = map int [0..<length es]"
    using wal_consec [of w] inv len
    by (intro nth_equalityI) (simp_all add: consec_nth)
  moreover have "\<forall>s \<in> set (butlast (w_segments w)). segment_is_full s"
    using inv segs by (simp add: rotated_append)
  ultimately show ?thesis using inv by blast
qed

lemma wal_rotation_witness:
  "map e_offset (wal_entries (wal_appends [(0, None, [1]), (1, None, [2]), (2, None, [3])]
      (wal_new None 100 0))) = [0, 1, 2]"
  using wal_rotation [of 100 "[(0, None, [1]), (1, None, [2]), (2, None, [3])]" 65] by simp

subsection \<open>Retention\<close>

abbreviation stale :: "real \<Rightarrow> log_segment \<Rightarrow> bool" where
  "stale cutoff s \<equiv> (case s_entries s of [] \<Rightarrow> False | e # _ \<Rightarrow> e_timestamp e < cutoff)"

lemma segment_read_first:
  "segment_read s (s_base_offset s) 1 = take 1 (s_entries s)"
  by (cases "s_entries s") (simp_all add: segment_read_def slice_simps Let_def)

lemma retention_loop_spec:
  assumes "segs \<noteq> []" and "retention_loop cutoff segs = (segs', n)"
  shows "\<exists>k < length segs. segs' = drop k segs
    \<and> n = length (concat (map s_entries (take k segs)))
    \<and> (\<forall>s \<in> set (take k segs). stale cutoff s)
    \<and> (length segs' = 1 \<or> \<not> stale cutoff (hd segs'))"
  using assms
proof (induction cutoff segs arbitrary: n rule: retention_loop.induct)
  case (1 cutoff s t ss)
  show ?case
  proof (cases "stale cutoff s")
    case True
    then obtain e es where e: "s_entries s = e # es" "e_timestamp e < cutoff"
      by (auto split: list.splits)
    obtain segs n' where rest: "retention_loop cutoff (t # ss) = (segs, n')" by (metis prod.collapse)
    with 1(3) e have n: "n = segment_count s + n'" "segs' = segs"
      by (simp_all add: segment_read_first)
    have "\<exists>k < length (t # ss). segs' = drop k (t # ss)
      \<and> n' = length (concat (map s_entries (take k (t # ss))))
      \<and> (\<forall>s \<in> set (take k (t # ss)). stale cutoff s)
      \<and> (length segs' = 1 \<or> \<not> stale cutoff (hd segs'))"
      using "1.IH" [of e "[]" n'] rest n e by (simp add: segment_read_first)
    then obtain k where k: "k < length (t # ss)" "segs' = drop k (t # ss)"
      "n' = length (concat (map s_entries (take k (t # ss))))"
      "\<forall>s \<in> set (take k (t # ss)). stale cutoff s"
      "length segs' = 1 \<or> \<not> stale cutoff (hd segs')" by blast
    show ?thesis
      using k n True by (intro exI [of _ "Suc k"]) (simp add: segment_count_def)
  next
    case False
    with 1(3) have "segs' = s # t # ss" "n = 0"
      by (auto simp: segment_read_first split: list.splits)
    with False show ?thesis by (intro exI [of _ 0]) simp
  qed
qed auto

text \<open>Retention removes whole segments from the front, each because its first entry is older
  than the cutoff, stops at the first segment whose first entry is not (or that is empty) and never
  removes the active segment; the count is the number of entries removed. What remains is the end
  of the log with its offsets, and the next offset is unchanged. With no retention time nothing
  happens.\<close>

theorem wal_retention_correct:
  assumes "wal_ok w" and "wal_apply_retention now w = (w', n)"
  shows "if w_retention_ms w \<le> 0 then w' = w \<and> n = 0 else
    wal_ok w' \<and> n \<le> length (wal_entries w) \<and> wal_entries w' = drop n (wal_entries w)
    \<and> latest_offset w' = latest_offset w \<and> wal_earliest_offset w' = wal_earliest_offset w + int n
    \<and> (\<exists>k < length (w_segments w). w_segments w' = drop k (w_segments w)
        \<and> (\<forall>s \<in> set (take k (w_segments w)).
             stale (now - real_of_int (w_retention_ms w) / 1000) s)
        \<and> (length (w_segments w') = 1
           \<or> \<not> stale (now - real_of_int (w_retention_ms w) / 1000) (hd (w_segments w'))))"
proof (cases "w_retention_ms w \<le> 0")
  case True
  with assms(2) show ?thesis by (simp add: wal_apply_retention_def)
next
  case False
  let ?cutoff = "now - real_of_int (w_retention_ms w) / 1000" and ?segs = "w_segments w"
  obtain segs where loop: "retention_loop ?cutoff ?segs = (segs, n)" and w': "w' = w\<lparr>w_segments := segs\<rparr>"
    using assms(2) False by (auto simp: wal_apply_retention_def Let_def split: prod.splits)
  have "?segs \<noteq> []" using assms(1) by (simp add: wal_ok_def)
  from retention_loop_spec [OF this loop] obtain k where k: "k < length ?segs"
    "segs = drop k ?segs" "n = length (concat (map s_entries (take k ?segs)))"
    and spec: "\<forall>s \<in> set (take k ?segs). stale ?cutoff s"
    "length segs = 1 \<or> \<not> stale ?cutoff (hd segs)" by blast
  have split: "wal_entries w = concat (map s_entries (take k ?segs)) @ concat (map s_entries segs)"
    unfolding wal_entries_def k(2) by (simp flip: concat_append map_append)
  have link: "linked (wal_earliest_offset w + int n) segs"
    using wal_linked [OF assms(1)] linked_append [of _ "take k ?segs" "drop k ?segs"] k by simp
  have ne: "segs \<noteq> []" using k by simp
  have ok: "wal_ok w'" using ne link by (rule wal_okI) (simp add: w')
  have early: "wal_earliest_offset w' = wal_earliest_offset w + int n"
    using ne link by (rule wal_earliest_linked) (simp add: w')
  have "wal_entries w' = drop n (wal_entries w)" and "n \<le> length (wal_entries w)"
    using split k(3) by (simp_all add: w' wal_entries_def)
  moreover from this have "latest_offset w' = latest_offset w"
    using early by (simp add: wal_latest [OF ok] wal_latest [OF assms(1)])
  moreover have "\<exists>k < length ?segs. w_segments w' = drop k ?segs
      \<and> (\<forall>s \<in> set (take k ?segs). stale ?cutoff s)
      \<and> (length (w_segments w') = 1 \<or> \<not> stale ?cutoff (hd (w_segments w')))"
    using k spec by (intro exI [of _ k]) (simp add: w')
  ultimately show ?thesis using False ok early by (simp only: if_False simp_thms)
qed

lemma wal_retention_correct_witness:
  "\<exists>w w'. wal_apply_retention 3 w = (w', 1) \<and> w_retention_ms w = 1000
    \<and> map e_offset (wal_entries w) = [0, 1] \<and> wal_entries w' = drop 1 (wal_entries w)"
proof -
  let ?w = "wal_appends [(0, None, [1]), (1, None, [2])] (wal_new None 50 1000)"
  obtain w' n where w': "wal_apply_retention 3 ?w = (w', n)" by (metis prod.collapse)
  have n: "n = 1" and ms: "w_retention_ms ?w = 1000" and es: "map e_offset (wal_entries ?w) = [0, 1]"
    using w' by (simp_all add: wal_apply_retention_def wal_appends_def wal_append_def wal_new_def
        Let_def segment_new_def active_segment_def segment_is_full_def segment_append_def
        segment_next_offset_def wal_entries_def segment_read_def slice_simps segment_count_def)
  from wal_retention_correct [OF _ w'] wal_appends_inv [OF refl]
  have "wal_entries w' = drop n (wal_entries ?w)" by (simp add: ms)
  with w' n ms es show ?thesis by (intro exI [of _ ?w] exI [of _ w']) simp
qed

subsection \<open>Compaction\<close>

abbreviation key_value :: "log_entry \<Rightarrow> string option \<times> byte list" where
  "key_value e \<equiv> (e_key e, e_value e)"

lemma rewrite_spec:
  assumes "segment_ok s" and "s' = fold (\<lambda>(i, e) s. fst (segment_append (clock i) (e_key e) (e_value e) s))
      (enumerate i es) s"
  shows "segment_ok s' \<and> s_base_offset s' = s_base_offset s
    \<and> map key_value (s_entries s') = map key_value (s_entries s) @ map key_value es"
  using assms
proof (induction es arbitrary: i s)
  case Nil
  then show ?case by simp
next
  case (Cons e es)
  obtain s1 off where s1: "segment_append (clock i) (e_key e) (e_value e) s = (s1, off)"
    by (metis prod.collapse)
  note app = segment_append_ok [OF Cons.prems(1) s1]
  then show ?case using Cons.IH [of s1 "Suc i"] Cons.prems(2) s1 by simp
qed

lemma wal_all_entries: "wal_ok w \<Longrightarrow> wal_all_entries w = wal_entries w"
proof -
  have all: "linked b segs \<Longrightarrow>
      map (\<lambda>s. segment_read s (s_base_offset s) (int (segment_count s))) segs = map s_entries segs" for b segs
    by (induction segs arbitrary: b) (fastforce simp: segment_read_spec segment_count_def)+
  show "wal_ok w \<Longrightarrow> wal_all_entries w = wal_entries w"
    using all [OF wal_linked] by (simp only: wal_all_entries_def wal_entries_def)
qed

text \<open>Compaction leaves, in one segment and in order, the last entry of each key and every entry
  without a key, and returns how many it dropped. The entries are numbered afresh from the offset
  of the first one kept (0 when there is none), so the next offset becomes that offset plus the
  number of entries kept.\<close>

theorem wal_compact_correct:
  assumes "wal_ok w"
  shows "case wal_compact clock w of (w', n) \<Rightarrow>
    wal_ok w' \<and> length (w_segments w') = 1
    \<and> map key_value (wal_entries w') = map key_value (keep_latest e_key (wal_entries w))
    \<and> n = int (length (wal_entries w)) - int (length (wal_entries w'))
    \<and> wal_earliest_offset w' =
        (case keep_latest e_key (wal_entries w) of [] \<Rightarrow> 0 | e # _ \<Rightarrow> e_offset e)
    \<and> latest_offset w' = wal_earliest_offset w' + int (length (wal_entries w'))"
proof -
  let ?kept = "keep_latest e_key (wal_entries w)"
  let ?base = "case ?kept of [] \<Rightarrow> 0 | e # _ \<Rightarrow> e_offset e"
  let ?seg = "rewrite_entries clock ?kept (segment_new ?base (w_segment_max_bytes w))"
  have seg: "segment_ok ?seg" "s_base_offset ?seg = ?base"
    "map key_value (s_entries ?seg) = map key_value ?kept"
    using rewrite_spec [OF segment_new_ok [of ?base "w_segment_max_bytes w"] refl, of clock 0 ?kept]
    by (simp_all add: rewrite_entries_def segment_new_def)
  from arg_cong [OF this(3), of length]
  have len: "length (s_entries ?seg) = length ?kept" by (simp only: length_map)
  obtain w' n where w': "wal_compact clock w = (w', n)" by (metis prod.collapse)
  then have segs: "w_segments w' = [?seg]" and n: "n = int (length (wal_entries w)) - int (length ?kept)"
    by (auto simp: wal_compact_def Let_def wal_all_entries [OF assms] compact_entries_spec)
  have link: "linked ?base [?seg]" using seg by simp
  have ok: "wal_ok w'" by (rule wal_okI [OF _ link segs]) simp
  have early: "wal_earliest_offset w' = ?base" by (rule wal_earliest_linked [OF _ link segs]) simp
  have es: "wal_entries w' = s_entries ?seg" by (simp add: wal_entries_def segs)
  show ?thesis
    unfolding w' prod.case using ok segs seg(3) n len early wal_latest [OF ok] by (simp add: es)
qed

text \<open>A log with a keyed entry, a keyless one and a second entry for the key.\<close>

definition sample_wal :: wal where
  "sample_wal = wal_appends [(0, None, [1]), (1, Some ''k'', [2]), (2, None, [3]), (3, Some ''k'', [4])]
     (wal_new None 100 0)"

lemma sample_wal_ok: "wal_ok sample_wal"
  using wal_appends_inv [OF sample_wal_def] by simp

lemma sample_wal_entries:
  "wal_entries sample_wal =
    [\<lparr>e_offset = 0, e_timestamp = 0, e_key = None, e_value = [1]\<rparr>,
     \<lparr>e_offset = 1, e_timestamp = 1, e_key = Some ''k'', e_value = [2]\<rparr>,
     \<lparr>e_offset = 2, e_timestamp = 2, e_key = None, e_value = [3]\<rparr>,
     \<lparr>e_offset = 3, e_timestamp = 3, e_key = Some ''k'', e_value = [4]\<rparr>]"
  by (simp add: sample_wal_def wal_appends_def wal_append_def wal_new_def Let_def segment_new_def
      active_segment_def segment_is_full_def segment_append_def segment_next_offset_def
      wal_entries_def)

lemma wal_compact_correct_witness:
  "\<exists>w'. wal_compact (\<lambda>_. 9) sample_wal = (w', 1)
    \<and> map key_value (wal_entries w') = [(None, [1]), (None, [3]), (Some ''k'', [4])]"
proof -
  obtain w' n where w': "wal_compact (\<lambda>_. 9) sample_wal = (w', n)" by (metis prod.collapse)
  with wal_compact_correct [OF sample_wal_ok, of "\<lambda>_. 9"]
  have kv: "map key_value (wal_entries w') = map key_value (keep_latest e_key (wal_entries sample_wal))"
    and n: "n = int (length (wal_entries sample_wal)) - int (length (wal_entries w'))" by simp_all
  have kv': "map key_value (wal_entries w') = [(None, [1]), (None, [3]), (Some ''k'', [4])]"
    unfolding kv by (simp add: sample_wal_entries)
  from arg_cong [OF kv', of length] have "length (wal_entries w') = 3" by simp
  with n have "n = 1" by (simp add: sample_wal_entries)
  with w' kv' show ?thesis by (intro exI [of _ w'] conjI) simp_all
qed

text \<open>The renumbering gives offsets away twice: when compaction drops an entry that comes after the
  first one kept, the next append returns an offset that an entry of the log had before, which a
  consumer may already have committed.\<close>

theorem wal_compaction_reuses_offsets:
  assumes "wal_ok w" and "keep_latest e_key (wal_entries w) = e # es"
    and "wal_compact clock w = (w', n)" and "n > e_offset e - wal_earliest_offset w"
    and "wal_append now key value w' = (w'', off)"
  shows "off < latest_offset w \<and> off \<in> e_offset ` set (wal_entries w)"
proof -
  have c: "wal_ok w'" "n = int (length (wal_entries w)) - int (length (wal_entries w'))"
    "wal_earliest_offset w' = e_offset e"
    "latest_offset w' = wal_earliest_offset w' + int (length (wal_entries w'))"
    using wal_compact_correct [OF assms(1), of clock] assms(2,3) by simp_all
  have off: "off = e_offset e + int (length (wal_entries w'))"
    using wal_append_spec [OF c(1) assms(5)] c by simp
  have consec: "consec (wal_earliest_offset w) (wal_entries w)" by (rule wal_consec [OF assms(1)])
  have "e \<in> set (wal_entries w)"
    using assms(2) subseq_keep_latest [of e_key "wal_entries w"]
    by (auto dest: list_emb_set)
  then have "wal_earliest_offset w \<le> e_offset e"
    using consec_nth [OF consec] by (auto simp: in_set_conv_nth)
  then have i: "nat (off - wal_earliest_offset w) < length (wal_entries w)"
    "wal_earliest_offset w \<le> off" using off c(2) assms(4) by linarith+
  then have "e_offset (wal_entries w ! nat (off - wal_earliest_offset w)) = off"
    using consec_nth [OF consec i(1)] by simp
  then have "off \<in> e_offset ` set (wal_entries w)" using i by (metis image_eqI nth_mem)
  moreover have "off < latest_offset w" using off c(2) assms(4) by (simp add: wal_latest [OF assms(1)])
  ultimately show ?thesis by blast
qed

lemma wal_compaction_reuses_offsets_witness:
  "\<exists>w' w'' off. wal_compact (\<lambda>_. 9) sample_wal = (w', 1) \<and> wal_append 9 None [5] w' = (w'', off)
    \<and> off < latest_offset sample_wal"
proof -
  obtain w' where w': "wal_compact (\<lambda>_. 9) sample_wal = (w', 1)"
    using wal_compact_correct_witness by blast
  obtain w'' off where w'': "wal_append 9 None [5] w' = (w'', off)" by (metis prod.collapse)
  have early: "wal_earliest_offset sample_wal = 0"
    using wal_appends_inv [OF sample_wal_def] by simp
  have "off < latest_offset sample_wal"
    using wal_compaction_reuses_offsets [OF sample_wal_ok _ w' _ w'']
    by (simp add: sample_wal_entries early)
  with w' w'' show ?thesis by blast
qed

subsection \<open>Truncating a segment\<close>

text \<open>Truncating a well-formed segment before an offset inside it removes exactly the entries
  before that offset, counts them and their bytes, but leaves \<open>base_offset\<close>: from then on
  \<open>read_at\<close> never finds an entry under its own offset, it returns the entry that lies as many
  offsets further as were removed.\<close>

theorem segment_truncate_shifts:
  assumes "segment_ok s" and "s_base_offset s < off" and "off < segment_next_offset s"
    and "segment_truncate off s = (s', n)"
  shows "s_entries s' = filter (\<lambda>e. off \<le> e_offset e) (s_entries s) \<and> n = off - s_base_offset s
    \<and> s_size_bytes s' = sum_list (map entry_bytes (s_entries s'))
    \<and> segment_next_offset s' = segment_next_offset s
    \<and> segment_read_at s' (s_base_offset s) \<noteq> None
    \<and> (\<forall>x e. segment_read_at s' x = Some e \<longrightarrow> e_offset e = x + n)"
proof -
  let ?b = "s_base_offset s" and ?es = "s_entries s"
  let ?k = "nat (off - ?b)"
  have consec: "consec ?b ?es" and bytes: "s_size_bytes s = sum_list (map entry_bytes ?es)"
    using assms(1) by (simp_all add: segment_ok_def)
  have k: "?k < length ?es" "0 < ?k"
    using assms(2,3) segment_next [OF assms(1)] by linarith+
  have s': "s_entries s' = drop ?k ?es" "s_base_offset s' = ?b" "n = int ?k"
    "s_size_bytes s' = s_size_bytes s - sum_list (map entry_bytes (take ?k ?es))"
    using assms(2,4) k by (auto simp: segment_truncate_def Let_def)
  have "s_entries s' = filter (\<lambda>e. off \<le> e_offset e) ?es"
    using filter_consecutive [of ?es e_offset ?b off] consec_nth [OF consec] by (simp add: s')
  moreover have "sum_list (map entry_bytes ?es)
      = sum_list (map entry_bytes (take ?k ?es)) + sum_list (map entry_bytes (drop ?k ?es))"
    by (metis append_take_drop_id map_append sum_list_append)
  moreover have "segment_next_offset s' = segment_next_offset s"
    using k by (auto simp: segment_next_offset_def s')
  moreover have "segment_read_at s' ?b \<noteq> None" using k by (simp add: segment_read_at_def s')
  moreover have "e_offset e = x + n" if "segment_read_at s' x = Some e" for x e
  proof -
    from that have x: "0 \<le> x - ?b" "nat (x - ?b) < length (drop ?k ?es)"
      and e: "e = ?es ! (?k + nat (x - ?b))"
      using k by (auto simp: segment_read_at_def Let_def s' split: if_splits)
    with consec_nth [OF consec, of "?k + nat (x - ?b)"] show ?thesis by (simp add: s' e)
  qed
  ultimately show ?thesis using s' bytes assms(2) by simp
qed

lemma segment_truncate_shifts_witness:
  "\<exists>s s'. segment_truncate 1 s = (s', 1)
    \<and> map_option e_offset (segment_read_at s 1) = Some 1
    \<and> map_option e_offset (segment_read_at s' 1) \<noteq> Some 1"
proof -
  let ?e = "\<lambda>i. \<lparr>e_offset = i, e_timestamp = 0, e_key = None, e_value = []\<rparr>"
  let ?s = "\<lparr>s_base_offset = 0, s_max_bytes = 100, s_entries = [?e 0, ?e 1, ?e 2], s_size_bytes = 192\<rparr>"
  have ok: "segment_ok ?s" by (simp add: segment_ok_def entry_bytes_def)
  obtain s' n where s': "segment_truncate 1 ?s = (s', n)" by (metis prod.collapse)
  from segment_truncate_shifts [OF ok _ _ s'] have n: "n = 1"
    and shift: "\<And>x e. segment_read_at s' x = Some e \<Longrightarrow> e_offset e = x + n"
    by (simp_all add: segment_next_offset_def)
  have "map_option e_offset (segment_read_at s' 1) \<noteq> Some 1"
    using shift [of 1] n by (cases "segment_read_at s' 1") auto
  moreover have "map_option e_offset (segment_read_at ?s 1) = Some 1"
    by (simp add: segment_read_at_def)
  ultimately show ?thesis using s' n by blast
qed

subsection \<open>The metadata tables\<close>

text \<open>With a data directory, a saved committed offset or topic configuration is what is loaded
  for its key afterwards, the last write winning, every other key is untouched and the log itself
  too; without one, saving does nothing and loading finds nothing. The configuration goes through
  the JSON library, of which only that \<open>loads\<close> undoes \<open>dumps\<close> is assumed.\<close>

theorem metadata_roundtrip:
  assumes "\<And>c. loads (dumps c) = c"
  shows "load_offset g t p (save_offset now g t p off w) = (if w_db w = None then None else Some off)
    \<and> ((g', t', p') \<noteq> (g, t, p) \<longrightarrow>
        load_offset g' t' p' (save_offset now g t p off w) = load_offset g' t' p' w)
    \<and> load_topic_configs loads (save_topic_config dumps now name c w)
        = (if w_db w = None then Map.empty else (load_topic_configs loads w)(name \<mapsto> c))
    \<and> w_segments (save_offset now g t p off w) = w_segments w
    \<and> w_segments (save_topic_config dumps now name c w) = w_segments w
    \<and> load_offset g t p (wal_close w) = None"
  using assms
  by (auto simp: load_offset_def save_offset_def load_topic_configs_def save_topic_config_def
      wal_close_def fun_eq_iff split: option.splits)

lemma metadata_roundtrip_witness:
  "load_offset ''g'' ''t'' 0 (save_offset 1 ''g'' ''t'' 0 42
      (wal_new (Some \<lparr>db_offsets = Map.empty, db_topics = Map.empty\<rparr>) 100 0)) = Some 42"
  using metadata_roundtrip [of "\<lambda>s :: string. s" "\<lambda>s. s" "''g''" "''t''" 0 1 42
      "wal_new (Some \<lparr>db_offsets = Map.empty, db_topics = Map.empty\<rparr>) 100 0"]
  by (simp add: wal_new_def)

end
