(* ===== verification/Protocol.thy ===== *)
theory Protocol
  imports Message Big_Endian
begin

section \<open>The wire protocol\<close>

text \<open>
  \<^verbatim>\<open>protocol.py\<close>: frames with their 12-byte header (\<^verbatim>\<open>struct\<close> format \<open>!IHHi\<close>, big endian), reading
  frames from a byte stream, and requests and responses whose payload is JSON text. The JSON
  printer and parser (\<open>dumps\<close>, \<open>loads\<close>) are parameters; \<open>loads\<close> gives \<open>Inl ValueError\<close> for
  a JSONDecodeError, which is a ValueError.
\<close>

subsection \<open>API keys and error codes\<close>

datatype api_key =
    PRODUCE | FETCH | LIST_OFFSETS | METADATA | OFFSET_COMMIT | OFFSET_FETCH | CREATE_TOPICS
  | DELETE_TOPICS | HEARTBEAT | JOIN_GROUP | LEAVE_GROUP | SYNC_GROUP | LIST_GROUPS | CREATE_QUEUE
  | ENQUEUE | DEQUEUE | ACK | NACK | METRICS

fun api_code :: "api_key \<Rightarrow> int" where
  "api_code PRODUCE = 0" | "api_code FETCH = 1" | "api_code LIST_OFFSETS = 2"
| "api_code METADATA = 3" | "api_code OFFSET_COMMIT = 4" | "api_code OFFSET_FETCH = 5"
| "api_code CREATE_TOPICS = 6" | "api_code DELETE_TOPICS = 7" | "api_code HEARTBEAT = 8"
| "api_code JOIN_GROUP = 9" | "api_code LEAVE_GROUP = 10" | "api_code SYNC_GROUP = 11"
| "api_code LIST_GROUPS = 12" | "api_code CREATE_QUEUE = 13" | "api_code ENQUEUE = 14"
| "api_code DEQUEUE = 15" | "api_code ACK = 16" | "api_code NACK = 17" | "api_code METRICS = 18"

definition all_api_keys :: "api_key list" where
  "all_api_keys =
     [PRODUCE, FETCH, LIST_OFFSETS, METADATA, OFFSET_COMMIT, OFFSET_FETCH, CREATE_TOPICS,
      DELETE_TOPICS, HEARTBEAT, JOIN_GROUP, LEAVE_GROUP, SYNC_GROUP, LIST_GROUPS, CREATE_QUEUE,
      ENQUEUE, DEQUEUE, ACK, NACK, METRICS]"

text \<open>\<open>ApiKey(n)\<close>: the member with that value, ValueError when there is none.\<close>

definition api_key_of :: "int \<Rightarrow> api_key result" where
  "api_key_of n = (case List.find (\<lambda>k. api_code k = n) all_api_keys of
     Some k \<Rightarrow> Inr k | None \<Rightarrow> Inl ValueError)"

lemma api_code_inj: "api_code k = api_code k' \<Longrightarrow> k = k'"
  by (cases k; cases k') simp_all

lemma api_key_of_code [simp]: "api_key_of (api_code k) = Inr k"
  by (cases k) (simp_all add: api_key_of_def all_api_keys_def)

lemma api_code_range: "0 \<le> api_code k \<and> api_code k < 65536"
  by (cases k) simp_all

text \<open>\<open>IntEnum\<close>: members compare as their integers.\<close>

instantiation api_key :: linorder
begin

definition less_eq_api_key :: "api_key \<Rightarrow> api_key \<Rightarrow> bool" where
  "less_eq_api_key a b \<longleftrightarrow> api_code a \<le> api_code b"

definition less_api_key :: "api_key \<Rightarrow> api_key \<Rightarrow> bool" where
  "less_api_key a b \<longleftrightarrow> api_code a < api_code b"

instance
  by standard (auto simp: less_eq_api_key_def less_api_key_def api_code_inj)

end

datatype error_code =
    NO_ERROR | UNKNOWN | UNKNOWN_TOPIC | INVALID_MESSAGE | UNKNOWN_PARTITION
  | OFFSET_OUT_OF_RANGE | GROUP_NOT_FOUND | QUEUE_FULL | QUEUE_NOT_FOUND | MESSAGE_TOO_LARGE
  | TOPIC_ALREADY_EXISTS | INVALID_REQUEST | BROKER_NOT_AVAILABLE

fun error_number :: "error_code \<Rightarrow> int" where
  "error_number NO_ERROR = 0" | "error_number UNKNOWN = - 1" | "error_number UNKNOWN_TOPIC = 3"
| "error_number INVALID_MESSAGE = 4" | "error_number UNKNOWN_PARTITION = 6"
| "error_number OFFSET_OUT_OF_RANGE = 1" | "error_number GROUP_NOT_FOUND = 15"
| "error_number QUEUE_FULL = 50" | "error_number QUEUE_NOT_FOUND = 51"
| "error_number MESSAGE_TOO_LARGE = 10" | "error_number TOPIC_ALREADY_EXISTS = 36"
| "error_number INVALID_REQUEST = 42" | "error_number BROKER_NOT_AVAILABLE = 8"

definition all_error_codes :: "error_code list" where
  "all_error_codes =
     [NO_ERROR, UNKNOWN, UNKNOWN_TOPIC, INVALID_MESSAGE, UNKNOWN_PARTITION, OFFSET_OUT_OF_RANGE,
      GROUP_NOT_FOUND, QUEUE_FULL, QUEUE_NOT_FOUND, MESSAGE_TOO_LARGE, TOPIC_ALREADY_EXISTS,
      INVALID_REQUEST, BROKER_NOT_AVAILABLE]"

text \<open>
  \<open>ErrorCode(x)\<close> looks the value up by equality, so a boolean or a float equal to a member's
  value finds it too.
\<close>

definition error_code_of :: "json \<Rightarrow> error_code result" where
  "error_code_of j =
     (let hits = (case j of
          JInt n \<Rightarrow> filter (\<lambda>c. error_number c = n) all_error_codes
        | JBool b \<Rightarrow> filter (\<lambda>c. error_number c = (if b then 1 else 0)) all_error_codes
        | JFloat x \<Rightarrow> filter (\<lambda>c. of_int (error_number c) = x) all_error_codes
        | _ \<Rightarrow> [])
      in case hits of [] \<Rightarrow> Inl ValueError | c # _ \<Rightarrow> Inr c)"

lemma error_code_of_number [simp]: "error_code_of (JInt (error_number c)) = Inr c"
  by (cases c) (simp_all add: error_code_of_def all_error_codes_def)

subsection \<open>Frames\<close>

definition HEADER_SIZE :: nat where
  "HEADER_SIZE = 12"

record frame =
  f_api_key :: api_key
  f_api_version :: int
  f_correlation_id :: int
  f_payload :: "byte list"

definition frame_to_bytes :: "frame \<Rightarrow> byte list result" where
  "frame_to_bytes f =
     bind_r (pack_unsigned 4 (int HEADER_SIZE - 4 + int (length (f_payload f)))) (\<lambda>l.
     bind_r (pack_unsigned 2 (api_code (f_api_key f))) (\<lambda>k.
     bind_r (pack_unsigned 2 (f_api_version f)) (\<lambda>v.
     bind_r (pack_i32 (f_correlation_id f)) (\<lambda>c.
       Inr (l @ k @ v @ c @ f_payload f)))))"

definition frame_from_bytes :: "byte list \<Rightarrow> frame result" where
  "frame_from_bytes data =
     (if length data < HEADER_SIZE then Inl ValueError
      else
        (let header = take HEADER_SIZE data; payload = drop HEADER_SIZE data
         in bind_r (api_key_of (int (be_nat (take 2 (drop 4 header))))) (\<lambda>k.
              Inr \<lparr>f_api_key = k, f_api_version = int (be_nat (take 2 (drop 6 header))),
                   f_correlation_id = unpack_i32 (drop 8 header), f_payload = payload\<rparr>)))"

definition read_from_buffer :: "byte list \<Rightarrow> (frame option \<times> byte list) result" where
  "read_from_buffer buffer =
     (if length buffer < 4 then Inr (None, buffer)
      else
        (let total_length = 4 + be_nat (take 4 buffer)
         in if length buffer < total_length then Inr (None, buffer)
            else bind_r (frame_from_bytes (take total_length buffer)) (\<lambda>f.
                   Inr (Some f, drop total_length buffer))))"

subsection \<open>Requests and responses\<close>

record request =
  r_api_key :: api_key
  r_api_version :: int
  r_correlation_id :: int
  r_data :: json

record response =
  p_correlation_id :: int
  p_error_code :: error_code
  p_data :: json

text \<open>\<open>__post_init__\<close>: None becomes the empty dictionary.\<close>

definition data_or_empty :: "json \<Rightarrow> json" where
  "data_or_empty j = (case j of JNull \<Rightarrow> JDict [] | _ \<Rightarrow> j)"

definition request_new :: "api_key \<Rightarrow> int \<Rightarrow> int \<Rightarrow> json \<Rightarrow> request" where
  "request_new k v c data =
     \<lparr>r_api_key = k, r_api_version = v, r_correlation_id = c, r_data = data_or_empty data\<rparr>"

definition response_new :: "int \<Rightarrow> error_code \<Rightarrow> json \<Rightarrow> response" where
  "response_new c e data = \<lparr>p_correlation_id = c, p_error_code = e, p_data = data_or_empty data\<rparr>"

definition request_to_frame :: "(json \<Rightarrow> string) \<Rightarrow> request \<Rightarrow> frame" where
  "request_to_frame dumps r =
     \<lparr>f_api_key = r_api_key r, f_api_version = r_api_version r,
      f_correlation_id = r_correlation_id r, f_payload = utf8_encode (dumps (r_data r))\<rparr>"

definition response_to_frame :: "(json \<Rightarrow> string) \<Rightarrow> api_key \<Rightarrow> response \<Rightarrow> frame" where
  "response_to_frame dumps k r =
     \<lparr>f_api_key = k, f_api_version = 1, f_correlation_id = p_correlation_id r,
      f_payload = utf8_encode (dumps (JDict
        [(''error_code'', JInt (error_number (p_error_code r))), (''data'', p_data r)]))\<rparr>"

definition encode_request :: "(json \<Rightarrow> string) \<Rightarrow> api_key \<Rightarrow> int \<Rightarrow> json \<Rightarrow> int \<Rightarrow> byte list result" where
  "encode_request dumps k c data v = frame_to_bytes (request_to_frame dumps (request_new k v c data))"

definition encode_response ::
    "(json \<Rightarrow> string) \<Rightarrow> int \<Rightarrow> error_code \<Rightarrow> json \<Rightarrow> api_key \<Rightarrow> byte list result" where
  "encode_response dumps c e data k = frame_to_bytes (response_to_frame dumps k (response_new c e data))"

text \<open>\<open>json.loads(frame.payload.decode("utf-8")) if frame.payload else {}\<close>\<close>

definition load_payload :: "(string \<Rightarrow> json result) \<Rightarrow> byte list \<Rightarrow> json result" where
  "load_payload loads payload =
     (if payload = [] then Inr (JDict []) else bind_r (utf8_decode payload) loads)"

definition decode_request :: "(string \<Rightarrow> json result) \<Rightarrow> byte list \<Rightarrow> request result" where
  "decode_request loads data =
     bind_r (frame_from_bytes data) (\<lambda>f.
     bind_r (load_payload loads (f_payload f)) (\<lambda>payload.
       Inr (request_new (f_api_key f) (f_api_version f) (f_correlation_id f) payload)))"

definition decode_response :: "(string \<Rightarrow> json result) \<Rightarrow> byte list \<Rightarrow> response result" where
  "decode_response loads data =
     bind_r (frame_from_bytes data) (\<lambda>f.
     bind_r (load_payload loads (f_payload f)) (\<lambda>payload.
       case payload of
         JDict d \<Rightarrow>
           bind_r (error_code_of (dict_get_default d ''error_code'' (JInt 0))) (\<lambda>e.
             Inr (response_new (f_correlation_id f) e (dict_get_default d ''data'' (JDict []))))
       | _ \<Rightarrow> Inl AttributeError))"

subsection \<open>Frames out and in again\<close>

definition frame_fits :: "frame \<Rightarrow> bool" where
  "frame_fits f \<longleftrightarrow> 8 + int (length (f_payload f)) < 2 ^ 32
     \<and> 0 \<le> f_api_version f \<and> f_api_version f < 2 ^ 16
     \<and> - (2 ^ 31) \<le> f_correlation_id f \<and> f_correlation_id f < 2 ^ 31"

lemma frame_to_bytes_cases:
  "frame_to_bytes f = (if frame_fits f
     then Inr (be_bytes 4 (8 + length (f_payload f)) @ be_bytes 2 (nat (api_code (f_api_key f)))
       @ be_bytes 2 (nat (f_api_version f))
       @ be_bytes 4 (unat (word_of_int (f_correlation_id f) :: 32 word)) @ f_payload f)
     else Inl StructError)"
  using api_code_range [of "f_api_key f"]
  by (auto simp: frame_to_bytes_def frame_fits_def pack_unsigned_def pack_i32_def HEADER_SIZE_def
      nat_add_distrib)

lemma frame_layout:
  assumes "frame_to_bytes f = Inr bs"
  obtains l k v c where "bs = l @ k @ v @ c @ f_payload f" "length l = 4" "length k = 2"
    "length v = 2" "length c = 4" "be_nat l = 8 + length (f_payload f)"
    "int (be_nat k) = api_code (f_api_key f)" "int (be_nat v) = f_api_version f"
    "unpack_i32 c = f_correlation_id f"
proof -
  from assms obtain l k v c where parts:
    "pack_unsigned 4 (int HEADER_SIZE - 4 + int (length (f_payload f))) = Inr l"
    "pack_unsigned 2 (api_code (f_api_key f)) = Inr k" "pack_unsigned 2 (f_api_version f) = Inr v"
    "pack_i32 (f_correlation_id f) = Inr c" "bs = l @ k @ v @ c @ f_payload f"
    by (auto simp: frame_to_bytes_def bind_r_Inr)
  have "int (be_nat l) = int (8 + length (f_payload f))"
    using unpack_pack_unsigned [OF parts(1)] by (simp add: HEADER_SIZE_def)
  then have "be_nat l = 8 + length (f_payload f)" by (simp only: of_nat_eq_iff)
  then show ?thesis
    using parts(5) unpack_pack_unsigned [OF parts(1)] unpack_pack_unsigned [OF parts(2)]
      unpack_pack_unsigned [OF parts(3)] unpack_pack_i32 [OF parts(4)]
    by (intro that [of l k v c]) simp_all
qed

lemma frame_from_to_bytes:
  assumes "frame_to_bytes f = Inr bs"
  shows "frame_from_bytes bs = Inr f"
  using assms
proof (rule frame_layout)
  fix l k v c
  assume *: "bs = l @ k @ v @ c @ f_payload f" "length l = 4" "length k = 2" "length v = 2"
    "length c = 4" "int (be_nat k) = api_code (f_api_key f)" "int (be_nat v) = f_api_version f"
    "unpack_i32 c = f_correlation_id f"
  then have "take 12 bs = l @ k @ v @ c" "drop 12 bs = f_payload f" by simp_all
  with * show ?thesis by (simp add: frame_from_bytes_def HEADER_SIZE_def Let_def)
qed

lemma read_frame_and_more:
  assumes "frame_to_bytes f = Inr bs"
  shows "read_from_buffer (bs @ rest) = Inr (Some f, rest)"
  using assms
proof (rule frame_layout)
  fix l k v c
  assume *: "bs = l @ k @ v @ c @ f_payload f" "length l = 4" "length k = 2" "length v = 2"
    "length c = 4" "be_nat l = 8 + length (f_payload f)"
  then have len: "length bs = 4 + be_nat (take 4 (bs @ rest))" by simp
  with frame_from_to_bytes [OF assms] * show ?thesis
    by (simp add: read_from_buffer_def Let_def flip: len)
qed

lemma frame_length: "frame_to_bytes f = Inr bs \<Longrightarrow> 12 \<le> length bs"
  by (erule frame_layout) simp

text \<open>A frame whose payload, version and correlation id fit their fields is serialised to a
  12-byte header and the payload, and read back from those bytes, alone or followed by anything
  else in a buffer, gives the same frame and leaves the rest; a frame that does not fit is refused
  with struct.error instead of being truncated.\<close>

theorem frame_roundtrip:
  "case frame_to_bytes f of
     Inl e \<Rightarrow> e = StructError \<and> \<not> frame_fits f
   | Inr bs \<Rightarrow> frame_fits f \<and> length bs = HEADER_SIZE + length (f_payload f)
       \<and> frame_from_bytes bs = Inr f \<and> read_from_buffer (bs @ rest) = Inr (Some f, rest)"
proof (cases "frame_fits f")
  case True
  then obtain bs where bs: "frame_to_bytes f = Inr bs" by (simp add: frame_to_bytes_cases)
  moreover have "length bs = HEADER_SIZE + length (f_payload f)"
    using bs by (rule frame_layout) (simp add: HEADER_SIZE_def)
  ultimately show ?thesis
    using True frame_from_to_bytes [OF bs] read_frame_and_more [OF bs] by simp
next
  case False
  then show ?thesis by (simp add: frame_to_bytes_cases)
qed

end
