(* ===== verification/Framing.thy ===== *)
theory Framing
  imports Protocol
begin

section \<open>Frames on a byte stream\<close>

text \<open>
  TCP delivers a byte stream in arbitrary chunks; \<^verbatim>\<open>ClientHandler.handle\<close> in \<^verbatim>\<open>server.py\<close> appends
  each chunk to its buffer and takes complete frames off it until none is left. The locale
  \<open>framing\<close> states what this relies on in the frame reader and proves that the chunks do not
  matter; \<open>read_from_buffer\<close> interprets it. Each successful read consumes at least one byte, so
  the length of the buffer is enough fuel for the \<open>while True\<close> loop.
\<close>

text \<open>
  \<open>_process_buffer\<close>: the frames dispatched, what stays in the buffer, and the exception of a
  malformed frame, which ends the connection.
\<close>

fun parse_all ::
    "('b list \<Rightarrow> ('f option \<times> 'b list) result) \<Rightarrow> nat \<Rightarrow> 'b list \<Rightarrow> 'f list \<times> 'b list \<times> py_error option" where
  "parse_all rd 0 b = ([], b, None)"
| "parse_all rd (Suc n) b =
     (case rd b of
        Inl e \<Rightarrow> ([], b, Some e)
      | Inr (None, r) \<Rightarrow> ([], r, None)
      | Inr (Some f, r) \<Rightarrow> (case parse_all rd n r of (fs, r', e) \<Rightarrow> (f # fs, r', e)))"

definition process_with ::
    "('b list \<Rightarrow> ('f option \<times> 'b list) result) \<Rightarrow> 'b list \<Rightarrow> 'f list \<times> 'b list \<times> py_error option" where
  "process_with rd b = parse_all rd (Suc (length b)) b"

text \<open>The loop of \<open>handle\<close> over the chunks received.\<close>

fun feed_with ::
    "('b list \<Rightarrow> ('f option \<times> 'b list) result) \<Rightarrow> 'b list list \<Rightarrow> 'b list \<Rightarrow> 'f list \<times> 'b list \<times> py_error option" where
  "feed_with rd [] b = ([], b, None)"
| "feed_with rd (c # cs) b =
     (case process_with rd (b @ c) of
        (fs, r, Some e) \<Rightarrow> (fs, r, Some e)
      | (fs, r, None) \<Rightarrow> (case feed_with rd cs r of (gs, r', e) \<Rightarrow> (fs @ gs, r', e)))"

definition process_buffer :: "byte list \<Rightarrow> frame list \<times> byte list \<times> py_error option" where
  "process_buffer b = process_with read_from_buffer b"

definition feed :: "byte list list \<Rightarrow> byte list \<Rightarrow> frame list \<times> byte list \<times> py_error option" where
  "feed cs b = feed_with read_from_buffer cs b"

locale framing =
  fixes rd :: "'b list \<Rightarrow> ('f option \<times> 'b list) result"
    and enc :: "'f \<Rightarrow> 'b list result"
  assumes shrinks: "rd b = Inr (Some f, r) \<Longrightarrow> length r < length b"
    and more: "rd b = Inr (Some f, r) \<Longrightarrow> rd (b @ c) = Inr (Some f, r @ c)"
    and waits: "rd b = Inr (None, r) \<Longrightarrow> r = b"
    and fails: "rd b = Inl e \<Longrightarrow> rd (b @ c) = Inl e"
    and reads: "enc f = Inr bs \<Longrightarrow> rd (bs @ rest) = Inr (Some f, rest)"
begin

lemma fuel: "length b < n \<Longrightarrow> length b < m \<Longrightarrow> parse_all rd n b = parse_all rd m b"
proof (induction n arbitrary: b m)
  case 0
  then show ?case by simp
next
  case (Suc n)
  then obtain k where m: "m = Suc k" by (cases m) auto
  have "parse_all rd n r = parse_all rd k r" if "rd b = Inr (Some f, r)" for f r
    using shrinks [OF that] Suc.prems m by (intro Suc.IH) simp_all
  then show ?case by (auto simp: m split: sum.split option.split)
qed

lemma process_unfold:
  "process_with rd b =
     (case rd b of
        Inl e \<Rightarrow> ([], b, Some e)
      | Inr (None, r) \<Rightarrow> ([], r, None)
      | Inr (Some f, r) \<Rightarrow> (case process_with rd r of (fs, r', e) \<Rightarrow> (f # fs, r', e)))"
proof -
  have "parse_all rd (length b) r = parse_all rd (Suc (length r)) r" if "rd b = Inr (Some f, r)" for f r
    using shrinks [OF that] by (intro fuel) simp_all
  then show ?thesis by (auto simp: process_with_def split: sum.split option.split)
qed

text \<open>Processing a longer buffer: first what the shorter one gave, then the rest.\<close>

lemma process_append:
  "case process_with rd b of (fs, r, e) \<Rightarrow>
     (case e of
        None \<Rightarrow> rd r = Inr (None, r) \<and>
          process_with rd (b @ c) = (case process_with rd (r @ c) of (gs, r', e') \<Rightarrow> (fs @ gs, r', e'))
      | Some x \<Rightarrow> process_with rd (b @ c) = (fs, r @ c, Some x))"
proof (induction b rule: length_induct)
  case (1 b)
  show ?case
  proof (cases "rd b")
    case (Inl e)
    then show ?thesis using fails [OF Inl] by (simp add: process_unfold [of b] process_unfold [of "b @ c"])
  next
    case (Inr x)
    show ?thesis
    proof (cases "fst x")
      case None
      with Inr have b: "rd b = Inr (None, b)" using waits by (metis prod.collapse)
      then show ?thesis by (simp add: process_unfold [of b] split: prod.split)
    next
      case (Some f)
      obtain r where r: "rd b = Inr (Some f, r)" using Inr Some by (metis prod.collapse)
      note IH = "1.IH" [rule_format, OF shrinks [OF r]]
      show ?thesis
        using IH unfolding process_unfold [of b] process_unfold [of "b @ c"] r more [OF r]
        by (auto split: prod.splits option.splits)
    qed
  qed
qed

lemma feed_process:
  assumes "rd b = Inr (None, b)"
  shows "fst (feed_with rd cs b) = fst (process_with rd (b @ concat cs))
    \<and> snd (snd (feed_with rd cs b)) = snd (snd (process_with rd (b @ concat cs)))
    \<and> (snd (snd (feed_with rd cs b)) = None \<longrightarrow>
        feed_with rd cs b = process_with rd (b @ concat cs))"
  using assms
proof (induction cs arbitrary: b)
  case Nil
  then show ?case by (simp add: process_unfold [of b])
next
  case (Cons c cs)
  obtain fs r e where p: "process_with rd (b @ c) = (fs, r, e)" by (metis prod.collapse)
  note app = process_append [of "b @ c" "concat cs", unfolded p prod.case]
  show ?case
  proof (cases e)
    case (Some x)
    with app p show ?thesis by simp
  next
    case None
    with app have "rd r = Inr (None, r)" by simp
    from Cons.IH [OF this] app p None show ?thesis
      by (cases "process_with rd (r @ concat cs)"; cases "feed_with rd cs r") simp
  qed
qed

text \<open>Encoded frames, cut into chunks anywhere, are read back.\<close>

lemma process_encoded:
  assumes "map enc fs = map Inr bss" and "rd tail = Inr (None, tail)"
  shows "process_with rd (concat bss @ tail) = (fs, tail, None)"
  using assms
proof (induction fs arbitrary: bss)
  case Nil
  then show ?case by (simp add: process_unfold [of tail])
next
  case (Cons f fs)
  then obtain bs rest where "bss = bs # rest" "enc f = Inr bs" "map enc fs = map Inr rest"
    by (cases bss) auto
  with Cons show ?case
    using reads [of f bs "concat rest @ tail"]
    by (simp add: process_unfold [of "bs @ concat rest @ tail"])
qed

lemma feed_encoded:
  assumes "map enc fs = map Inr bss" and "rd tail = Inr (None, tail)" and "rd [] = Inr (None, [])"
    and "concat cs = concat bss @ tail"
  shows "feed_with rd cs [] = (fs, tail, None)"
  using feed_process [OF assms(3), of cs] process_encoded [OF assms(1,2)] assms(4) by simp

end

interpretation frames: framing read_from_buffer frame_to_bytes
proof unfold_locales
  fix b c f r
  show "read_from_buffer b = Inr (Some f, r) \<Longrightarrow> length r < length b"
    by (auto simp: read_from_buffer_def Let_def bind_r_Inr split: if_splits)
  show "read_from_buffer b = Inr (Some f, r) \<Longrightarrow> read_from_buffer (b @ c) = Inr (Some f, r @ c)"
    by (auto simp: read_from_buffer_def Let_def bind_r_Inr split: if_splits)
  show "read_from_buffer b = Inr (None, r) \<Longrightarrow> r = b"
    by (auto simp: read_from_buffer_def Let_def bind_r_Inr split: if_splits)
  show "read_from_buffer b = Inl e \<Longrightarrow> read_from_buffer (b @ c) = Inl e" for e
    by (auto simp: read_from_buffer_def Let_def bind_r_def split: if_splits sum.splits)
  show "frame_to_bytes f = Inr bs \<Longrightarrow> read_from_buffer (bs @ rest) = Inr (Some f, rest)" for bs rest
    by (rule read_frame_and_more)
qed

text \<open>However the stream is cut into chunks, a connection dispatches the same frames in the same
  order: the frames and the error (if any) are those of processing all bytes at once. In
  particular frames sent one after the other are received exactly, with an incomplete frame at the
  end kept in the buffer.\<close>

theorem stream_independent_of_chunks:
  "fst (feed cs []) = fst (process_buffer (concat cs))
    \<and> snd (snd (feed cs [])) = snd (snd (process_buffer (concat cs)))
    \<and> (\<forall>fs bss tail. map frame_to_bytes fs = map Inr bss \<and> read_from_buffer tail = Inr (None, tail)
        \<and> concat cs = concat bss @ tail \<longrightarrow> feed cs [] = (fs, tail, None))"
proof -
  have empty: "read_from_buffer [] = Inr (None, [])" by (simp add: read_from_buffer_def)
  from frames.feed_process [OF this, of cs] frames.feed_encoded [OF _ _ this, of _ _ _ cs]
  show ?thesis by (simp add: feed_def process_buffer_def)
qed

lemma stream_independent_of_chunks_witness:
  "\<exists>bs. frame_to_bytes \<lparr>f_api_key = HEARTBEAT, f_api_version = 1, f_correlation_id = 7, f_payload = [1, 2]\<rparr>
        = Inr bs
    \<and> feed [take 5 bs, drop 5 bs @ take 3 bs] []
        = ([\<lparr>f_api_key = HEARTBEAT, f_api_version = 1, f_correlation_id = 7, f_payload = [1, 2]\<rparr>],
           take 3 bs, None)"
proof -
  let ?f = "\<lparr>f_api_key = HEARTBEAT, f_api_version = 1, f_correlation_id = 7, f_payload = [1, 2]\<rparr>"
  obtain bs where bs: "frame_to_bytes ?f = Inr bs"
    by (simp add: frame_to_bytes_cases frame_fits_def)
  have "read_from_buffer (take 3 bs) = Inr (None, take 3 bs)" by (simp add: read_from_buffer_def min_less_iff_disj)
  then have "feed [take 5 bs, drop 5 bs @ take 3 bs] [] = ([?f], take 3 bs, None)"
    using bs by (intro stream_independent_of_chunks
        [THEN conjunct2, THEN conjunct2, rule_format, where bss = "[bs]"]) simp
  with bs show ?thesis by blast
qed

text \<open>What a buffer can give, completely: nothing yet when the length field or the announced bytes
  are not there, an exception (always a ValueError) exactly when the complete frame is shorter than
  its header or its API key is none of the nineteen, and otherwise a frame with its payload, the
  rest of the buffer being kept.\<close>

theorem read_from_buffer_cases:
  "case read_from_buffer b of
     Inr (None, r) \<Rightarrow> r = b \<and> (length b < 4 \<or> length b < 4 + be_nat (take 4 b))
   | Inl e \<Rightarrow> e = ValueError \<and> 4 + be_nat (take 4 b) \<le> length b
       \<and> (be_nat (take 4 b) < 8 \<or> 18 < be_nat (take 2 (drop 4 b)))
   | Inr (Some f, r) \<Rightarrow> 8 \<le> be_nat (take 4 b)
       \<and> api_code (f_api_key f) = int (be_nat (take 2 (drop 4 b)))
       \<and> b = take 12 b @ f_payload f @ r \<and> length (f_payload f) + 8 = be_nat (take 4 b)"
proof -
  let ?n = "4 + be_nat (take 4 b)"
  have find: "(\<exists>k. api_key_of (int x) = Inr k \<and> api_code k = int x)
      \<or> api_key_of (int x) = Inl ValueError \<and> 18 < x" for x
  proof (cases "x \<le> 18")
    case True
    then have "int x \<in> set (map api_code all_api_keys)"
      by (simp add: all_api_keys_def) arith
    then obtain k where "api_code k = int x" by (auto simp only: set_map image_iff)
    then show ?thesis using api_key_of_code [of k] by metis
  next
    case False
    then have "18 < x" by simp
    moreover have "api_code k \<noteq> int x" for k using False by (cases k) simp_all
    then have "List.find (\<lambda>k. api_code k = int x) all_api_keys = None"
      by (simp add: find_None_iff)
    ultimately show ?thesis by (simp add: api_key_of_def)
  qed
  show ?thesis
  proof (cases "length b < 4 \<or> length b < ?n")
    case True
    then show ?thesis by (auto simp: read_from_buffer_def Let_def)
  next
    case full: False
    then have rd: "read_from_buffer b = bind_r (frame_from_bytes (take ?n b)) (\<lambda>f. Inr (Some f, drop ?n b))"
      by (simp add: read_from_buffer_def Let_def)
    show ?thesis
    proof (cases "be_nat (take 4 b) < 8")
      case True
      then show ?thesis using full by (simp add: rd frame_from_bytes_def HEADER_SIZE_def)
    next
      case False
      then have hdr: "take 2 (drop 4 (take 12 (take ?n b))) = take 2 (drop 4 b)"
        using full by (simp add: drop_take min_def)
      have pay: "drop 12 (take ?n b) @ drop ?n b = drop 12 b"
      proof -
        have "12 \<le> length (take ?n b)" using full False by simp
        then have "drop 12 (take ?n b @ drop ?n b) = drop 12 (take ?n b) @ drop ?n b"
          unfolding drop_append by simp
        then show ?thesis by (simp only: append_take_drop_id)
      qed
      have "length (drop 12 (take ?n b)) + 8 = be_nat (take 4 b)" using False full by simp
      with find [of "be_nat (take 2 (drop 4 b))"] full False pay hdr show ?thesis
        by (auto simp: rd frame_from_bytes_def HEADER_SIZE_def Let_def)
    qed
  qed
qed

text \<open>A request encoded for the wire is decoded to the same API key, version, correlation id and
  data, and a response to the same correlation id, error code and data, whenever the numbers fit
  their fields; of the JSON library it is used that it reads back the text it wrote for this very
  value, and that this text is not empty and valid UTF-8.\<close>

theorem request_response_roundtrip:
  assumes "\<And>j. j \<in> {data_or_empty data, JDict [(''error_code'', JInt (error_number e)), (''data'', data_or_empty data)]} \<Longrightarrow>
      loads (dumps j) = Inr j \<and> dumps j \<noteq> [] \<and> utf8_valid (utf8_encode (dumps j))
      \<and> length (dumps j) < 2 ^ 31"
    and "0 \<le> v" and "v < 2 ^ 16" and "- (2 ^ 31) \<le> c" and "c < 2 ^ 31"
  shows "bind_r (encode_request dumps k c data v) (decode_request loads) = Inr (request_new k v c data)
    \<and> bind_r (encode_response dumps c e data k) (decode_response loads) = Inr (response_new c e data)"
proof -
  let ?j = "JDict [(''error_code'', JInt (error_number e)), (''data'', data_or_empty data)]"
  have len: "length (utf8_encode s) = length s" for s by (simp add: utf8_encode_def)
  have idem: "data_or_empty (data_or_empty data) = data_or_empty data"
    by (simp add: data_or_empty_def split: json.split)
  have load: "load_payload loads (utf8_encode (dumps j)) = Inr j"
    if "j \<in> {data_or_empty data, ?j}" for j
    using assms(1) [OF that] utf8_decode_encode [of "dumps j"] len [of "dumps j"]
    by (auto simp: load_payload_def)
  have fits: "frame_fits \<lparr>f_api_key = k, f_api_version = w, f_correlation_id = c,
      f_payload = utf8_encode (dumps j)\<rparr>" if "j \<in> {data_or_empty data, ?j}" "0 \<le> w" "w < 2 ^ 16" for j w
    using assms(1) [OF that(1)] assms(4,5) that(2,3) by (simp add: frame_fits_def len)
  obtain bs where bs: "encode_request dumps k c data v = Inr bs"
    using fits [of "data_or_empty data" v] assms(2,3)
    by (simp add: encode_request_def request_to_frame_def request_new_def frame_to_bytes_cases)
  obtain cs where cs: "encode_response dumps c e data k = Inr cs"
    using fits [of ?j 1]
    by (simp add: encode_response_def response_to_frame_def response_new_def frame_to_bytes_cases)
  have "decode_request loads bs = Inr (request_new k v c data)"
    using frame_from_to_bytes [OF bs [unfolded encode_request_def]] load [of "data_or_empty data"]
    by (simp add: decode_request_def request_to_frame_def request_new_def idem)
  moreover have "decode_response loads cs = Inr (response_new c e data)"
    using frame_from_to_bytes [OF cs [unfolded encode_response_def]] load [of ?j]
    by (simp add: decode_response_def response_to_frame_def response_new_def dict_get_default_def idem)
  ultimately show ?thesis by (simp add: bs cs)
qed

text \<open>A printer and parser for the one value the witness sends.\<close>

lemma request_response_roundtrip_witness:
  "\<exists>dumps loads. bind_r (encode_request dumps PRODUCE 7 (JDict [(''topic'', JStr ''t'')]) 1) (decode_request loads)
    = Inr (request_new PRODUCE 1 7 (JDict [(''topic'', JStr ''t'')]))"
proof -
  let ?d = "JDict [(''topic'', JStr ''t'')]"
  let ?dumps = "\<lambda>j. if j = ?d then ''d'' else ''e''"
    and ?loads = "\<lambda>s :: string. Inr (if s = ''d'' then ?d
       else JDict [(''error_code'', JInt (error_number NO_ERROR)), (''data'', ?d)]) :: json result"
  have "utf8_valid (utf8_encode ''d'')" "utf8_valid (utf8_encode ''e'')" by code_simp+
  then have "bind_r (encode_request ?dumps PRODUCE 7 ?d 1) (decode_request ?loads)
      = Inr (request_new PRODUCE 1 7 ?d)"
    by (intro conjunct1 [OF request_response_roundtrip [of ?d NO_ERROR ?loads ?dumps 1 7 PRODUCE]])
      (auto simp: data_or_empty_def)
  then show ?thesis by blast
qed

end
