(* ===== verification/Ack.thy ===== *)
theory Ack
  imports Queue Delivery
begin

section \<open>Acknowledgement tracking\<close>

text \<open>
  \<^verbatim>\<open>ack.py\<close>: the \<open>AckManager\<close> with its pending messages, attempt counts and deadlines. The
  callback \<open>on_dead_letter\<close> is a parameter: an optional function on a state \<open>'d\<close> of its own, called
  with the message and the reason (the reason's text is kept as the numbers it is built from).
  \<open>AckMode\<close> is an enumeration no operation reads.
\<close>

datatype ack_mode = AT_MOST_ONCE | AT_LEAST_ONCE | EXACTLY_ONCE

record pending_ack =
  pa_message :: mref
  pa_consumer_id :: string
  pa_sent_at :: real
  pa_deadline :: real
  pa_attempts :: int
  pa_max_attempts :: int

record ack_manager =
  a_ack_timeout :: real
  a_max_attempts :: int
  a_pending :: "(string, pending_ack) dict"
  a_total_acked :: nat
  a_total_nacked :: nat
  a_total_dead_lettered :: nat
  a_total_redelivered :: nat

datatype dead_reason = Max_Attempts int int | Ack_Timeout int real

type_synonym 'd dead_letter_handler = "(mref \<Rightarrow> dead_reason \<Rightarrow> 'd \<Rightarrow> 'd) option"

definition ack_manager_new :: "real \<Rightarrow> int \<Rightarrow> ack_manager" where
  "ack_manager_new timeout max_attempts =
     \<lparr>a_ack_timeout = timeout, a_max_attempts = max_attempts, a_pending = [], a_total_acked = 0,
      a_total_nacked = 0, a_total_dead_lettered = 0, a_total_redelivered = 0\<rparr>"

text \<open>\<open>track\<close> reads the clock twice, for \<open>sent_at\<close> and for the deadline.\<close>

definition track ::
    "real \<Rightarrow> real \<Rightarrow> mstore \<Rightarrow> mref \<Rightarrow> string \<Rightarrow> real option \<Rightarrow> ack_manager \<Rightarrow> ack_manager" where
  "track now1 now2 ms r consumer timeout a =
     (let t = effective_timeout timeout (a_ack_timeout a);
          attempts = (case dict_get (a_pending a) (m_id (ms r)) of
                        Some p \<Rightarrow> pa_attempts p + 1 | None \<Rightarrow> 1)
      in a\<lparr>a_pending := dict_set (m_id (ms r))
             \<lparr>pa_message = r, pa_consumer_id = consumer, pa_sent_at = now1,
              pa_deadline = now2 + t, pa_attempts = attempts,
              pa_max_attempts = a_max_attempts a\<rparr> (a_pending a)\<rparr>)"

definition ack_acknowledge :: "string \<Rightarrow> ack_manager \<Rightarrow> ack_manager \<times> bool" where
  "ack_acknowledge mid a =
     (if mid \<in> set (keys (a_pending a))
      then (a\<lparr>a_pending := dict_del mid (a_pending a), a_total_acked := a_total_acked a + 1\<rparr>, True)
      else (a, False))"

definition dead_letter :: "'d dead_letter_handler \<Rightarrow> mref \<Rightarrow> dead_reason \<Rightarrow> 'd \<Rightarrow> 'd" where
  "dead_letter h r reason d = (case h of None \<Rightarrow> d | Some f \<Rightarrow> f r reason d)"

definition negative_acknowledge ::
    "'d dead_letter_handler \<Rightarrow> string \<Rightarrow> ack_manager \<times> 'd \<Rightarrow> (ack_manager \<times> 'd) \<times> mref option" where
  "negative_acknowledge h mid s =
     (case s of (a0, d) \<Rightarrow>
        (case dict_get (a_pending a0) mid of
           None \<Rightarrow> ((a0, d), None)
         | Some p \<Rightarrow>
             (let a = a0\<lparr>a_pending := dict_del mid (a_pending a0),
                         a_total_nacked := a_total_nacked a0 + 1\<rparr>
              in if pa_attempts p \<ge> pa_max_attempts p
                 then ((a\<lparr>a_total_dead_lettered := a_total_dead_lettered a + 1\<rparr>,
                        dead_letter h (pa_message p)
                          (Max_Attempts (pa_max_attempts p) (pa_attempts p)) d), None)
                 else ((a\<lparr>a_total_redelivered := a_total_redelivered a + 1\<rparr>, d),
                       Some (pa_message p)))))"

text \<open>One round of the loop of \<open>check_timeouts\<close>, on the manager, the callback's state and the result.\<close>

definition timeout_one ::
    "'d dead_letter_handler \<Rightarrow> string \<Rightarrow> (ack_manager \<times> 'd) \<times> mref list \<Rightarrow> (ack_manager \<times> 'd) \<times> mref list" where
  "timeout_one h mid s =
     (case s of ((a0, d), timed_out) \<Rightarrow>
        (case dict_get (a_pending a0) mid of
           None \<Rightarrow> s
         | Some p \<Rightarrow>
             (let a = a0\<lparr>a_pending := dict_del mid (a_pending a0)\<rparr>
              in if pa_attempts p \<ge> pa_max_attempts p
                 then ((a\<lparr>a_total_dead_lettered := a_total_dead_lettered a + 1\<rparr>,
                        dead_letter h (pa_message p)
                          (Ack_Timeout (pa_attempts p) (a_ack_timeout a)) d), timed_out)
                 else ((a\<lparr>a_total_redelivered := a_total_redelivered a + 1\<rparr>, d),
                       timed_out @ [pa_message p]))))"

definition check_timeouts ::
    "real \<Rightarrow> 'd dead_letter_handler \<Rightarrow> ack_manager \<times> 'd \<Rightarrow> (ack_manager \<times> 'd) \<times> mref list" where
  "check_timeouts now h s =
     fold (timeout_one h)
       (map fst (filter (\<lambda>(mid, p). now \<ge> pa_deadline p) (a_pending (fst s)))) (s, [])"

definition pending_count :: "ack_manager \<Rightarrow> nat" where
  "pending_count a = length (a_pending a)"

definition get_pending :: "ack_manager \<Rightarrow> string \<Rightarrow> pending_ack option" where
  "get_pending a mid = dict_get (a_pending a) mid"

definition pending_for_consumer :: "ack_manager \<Rightarrow> string \<Rightarrow> pending_ack list" where
  "pending_for_consumer a c = filter (\<lambda>p. pa_consumer_id p = c) (map snd (a_pending a))"

record ack_info =
  ai_pending :: nat
  ai_acked :: nat
  ai_nacked :: nat
  ai_dead_lettered :: nat
  ai_redelivered :: nat
  ai_ack_timeout :: real
  ai_max_attempts :: int

definition ack_snapshot :: "ack_manager \<Rightarrow> ack_info" where
  "ack_snapshot a =
     \<lparr>ai_pending = length (a_pending a), ai_acked = a_total_acked a, ai_nacked = a_total_nacked a,
      ai_dead_lettered = a_total_dead_lettered a, ai_redelivered = a_total_redelivered a,
      ai_ack_timeout = a_ack_timeout a, ai_max_attempts = a_max_attempts a\<rparr>"

subsection \<open>What the manager promises\<close>

text \<open>C31. A negative acknowledgement, on every branch: an unknown id changes nothing; a message with
  attempts left is no longer pending and is handed back once; a message out of attempts is no
  longer pending either, is not handed back, and goes to the dead letter handler exactly once.\<close>

theorem negative_acknowledge_correct:
  "case negative_acknowledge h mid (a, d) of ((a', d'), res) \<Rightarrow>
     (case get_pending a mid of
        None \<Rightarrow> a' = a \<and> d' = d \<and> res = None
      | Some p \<Rightarrow> get_pending a' mid = None
          \<and> a_pending a' = dict_del mid (a_pending a)
          \<and> a_total_nacked a' = a_total_nacked a + 1
          \<and> a_total_redelivered a' + a_total_dead_lettered a'
              = a_total_redelivered a + a_total_dead_lettered a + 1
          \<and> (if pa_attempts p < pa_max_attempts p
             then res = Some (pa_message p) \<and> d' = d \<and> a_total_dead_lettered a' = a_total_dead_lettered a
             else res = None \<and> a_total_redelivered a' = a_total_redelivered a
               \<and> d' = dead_letter h (pa_message p) (Max_Attempts (pa_max_attempts p) (pa_attempts p)) d))"
  by (auto simp: negative_acknowledge_def get_pending_def Let_def split: option.splits prod.splits if_splits)

text \<open>The overdue entries, split by whether attempts are left.\<close>

definition overdue :: "real \<Rightarrow> string \<times> pending_ack \<Rightarrow> bool" where
  "overdue now = (\<lambda>(mid, p). now \<ge> pa_deadline p)"

definition exhausted :: "pending_ack \<Rightarrow> bool" where
  "exhausted p \<longleftrightarrow> pa_attempts p \<ge> pa_max_attempts p"

lemma timeout_fold:
  assumes "wf_dict (a_pending a)" and "wf_dict es" and "set es \<subseteq> set (a_pending a)"
    and "fold (timeout_one h) (keys es) ((a, d), out) = ((a', d'), out')"
  shows "a_pending a' = filter (\<lambda>x. fst x \<notin> set (keys es)) (a_pending a)
    \<and> a_ack_timeout a' = a_ack_timeout a
    \<and> out' = out @ map pa_message (filter (\<lambda>p. \<not> exhausted p) (map snd es))
    \<and> d' = fold (\<lambda>p. dead_letter h (pa_message p) (Ack_Timeout (pa_attempts p) (a_ack_timeout a)))
        (filter exhausted (map snd es)) d
    \<and> a_total_redelivered a' = a_total_redelivered a + length (filter (\<lambda>p. \<not> exhausted p) (map snd es))
    \<and> a_total_dead_lettered a' = a_total_dead_lettered a + length (filter exhausted (map snd es))"
  using assms
proof (induction es arbitrary: a d out)
  case Nil
  then show ?case by simp
next
  case (Cons x es)
  obtain mid p where x: "x = (mid, p)" by (cases x)
  have get: "dict_get (a_pending a) mid = Some p"
    using Cons.prems(1,3) x by (simp add: dict_get_in)
  have mid: "mid \<notin> set (keys es)" and wf: "wf_dict es"
    using Cons.prems(2) x by (simp_all add: wf_dict_def)
  obtain a1 d1 out1 where one: "timeout_one h mid ((a, d), out) = ((a1, d1), out1)"
    by (metis prod.collapse)
  then have a1: "a_pending a1 = dict_del mid (a_pending a)" "a_ack_timeout a1 = a_ack_timeout a"
    by (auto simp: timeout_one_def get Let_def split: if_splits)
  have sub: "set es \<subseteq> set (a_pending a1)"
    using Cons.prems(3) mid unfolding a1 dict_del_filter by auto (metis fst_conv image_eqI)
  have wf1: "wf_dict (a_pending a1)" using Cons.prems(1) by (simp add: a1)
  have rest: "fold (timeout_one h) (keys es) ((a1, d1), out1) = ((a', d'), out')"
    using Cons.prems(4) one x by simp
  have "filter (\<lambda>x. fst x \<notin> set (keys es)) (a_pending a1)
      = filter (\<lambda>y. fst y \<notin> set (keys (x # es))) (a_pending a)"
    unfolding a1 dict_del_filter filter_filter x by (rule filter_cong) auto
  with Cons.IH [OF wf1 wf sub rest] one x a1(2) show ?case
    by (cases "exhausted p") (auto simp: timeout_one_def get Let_def exhausted_def)
qed

text \<open>C32. \<open>check_timeouts\<close> settles exactly the pending messages whose deadline has come: those with
  attempts left are returned, in the order they were tracked, the others go to the dead letter
  handler (taken not to raise) in that order and are not returned, although the docstring speaks of
  messages to be redelivered or dead-lettered; every other message stays pending as it was, and the
  counters say how many took each way.\<close>

theorem check_timeouts_correct:
  assumes "wf_dict (a_pending a)" and "check_timeouts now h (a, d) = ((a', d'), out)"
  shows "a_pending a' = filter (\<lambda>x. \<not> overdue now x) (a_pending a)
    \<and> out = map pa_message (filter (\<lambda>p. \<not> exhausted p) (map snd (filter (overdue now) (a_pending a))))
    \<and> d' = fold (\<lambda>p. dead_letter h (pa_message p) (Ack_Timeout (pa_attempts p) (a_ack_timeout a)))
        (filter exhausted (map snd (filter (overdue now) (a_pending a)))) d
    \<and> a_total_redelivered a' = a_total_redelivered a + length out
    \<and> a_total_dead_lettered a' + length out
        = a_total_dead_lettered a + length (filter (overdue now) (a_pending a))"
proof -
  let ?es = "filter (overdue now) (a_pending a)"
  have dist: "distinct (keys (a_pending a))" using assms(1) by (simp add: wf_dict_def)
  have wf: "wf_dict ?es" using distinct_map_filter_inj [OF dist] by (simp add: wf_dict_def)
  have "fst x \<notin> set (keys ?es) \<longleftrightarrow> \<not> overdue now x" if "x \<in> set (a_pending a)" for x
    using that dist by (auto simp: distinct_map dest: inj_onD)
  then have "filter (\<lambda>x. fst x \<notin> set (keys ?es)) (a_pending a) = filter (\<lambda>x. \<not> overdue now x) (a_pending a)"
    by (rule filter_cong [OF refl])
  moreover have "fold (timeout_one h) (keys ?es) ((a, d), []) = ((a', d'), out)"
    using assms(2) by (simp add: check_timeouts_def overdue_def)
  moreover have "length (filter (\<lambda>p. \<not> exhausted p) (map snd ?es)) + length (filter exhausted (map snd ?es))
      = length ?es"
    by (metis add.commute length_map sum_length_filter_compl)
  ultimately show ?thesis
    using timeout_fold [OF assms(1) wf, of h d "[]" a' d' out] by simp
qed

lemma check_timeouts_correct_witness:
  "\<exists>a. snd (check_timeouts 10 None (a, ())) = [3] \<and> pending_count a = 1"
proof -
  let ?a = "ack_manager_new 5 3
    \<lparr>a_pending := [(''x'', \<lparr>pa_message = 3, pa_consumer_id = ''c'', pa_sent_at = 0, pa_deadline = 5,
       pa_attempts = 1, pa_max_attempts = 3\<rparr>)]\<rparr>"
  obtain a' d' out where c: "check_timeouts 10 None (?a, ()) = ((a', d'), out)" by (metis prod.collapse)
  have "wf_dict (a_pending ?a)" by (simp add: wf_dict_def)
  from check_timeouts_correct [OF this c] have "out = [3]"
    by (simp add: overdue_def exhausted_def)
  with c show ?thesis by (intro exI [of _ ?a]) (simp add: pending_count_def)
qed

subsection \<open>The attempt count\<close>

text \<open>
  A consumer that is given a message, fails and is given it again: \<open>track\<close> and
  \<open>negative_acknowledge\<close> in turn, each round with its own clock readings.
\<close>

fun nack_rounds ::
    "'d dead_letter_handler \<Rightarrow> mstore \<Rightarrow> mref \<Rightarrow> string \<Rightarrow> (real \<times> real) list
      \<Rightarrow> ack_manager \<times> 'd \<Rightarrow> (ack_manager \<times> 'd) \<times> mref option list" where
  "nack_rounds h ms r c [] s = (s, [])"
| "nack_rounds h ms r c ((t1, t2) # ts) (a, d) =
     (let (s, res) = negative_acknowledge h (m_id (ms r)) (track t1 t2 ms r c None a, d);
          (s', rest) = nack_rounds h ms r c ts s
      in (s', res # rest))"

text \<open>Because a negative acknowledgement forgets the entry, the attempts start at 1 again when
  the message is tracked anew: with a maximum of at least 2, a message that is delivered and
  nacked over and over is handed back every time and never dead-lettered, however many rounds.\<close>

theorem nack_never_exhausts:
  assumes "2 \<le> a_max_attempts a" and "get_pending a (m_id (ms r)) = None"
    and "nack_rounds h ms r c ts (a, d) = ((a', d'), results)"
  shows "results = replicate (length ts) (Some r) \<and> d' = d
    \<and> a_total_dead_lettered a' = a_total_dead_lettered a
    \<and> a_total_nacked a' = a_total_nacked a + length ts"
  using assms
proof (induction ts arbitrary: a results)
  case Nil
  then show ?case by simp
next
  case (Cons t ts)
  obtain t1 t2 where t: "t = (t1, t2)" by (cases t)
  let ?b = "track t1 t2 ms r c None a"
  obtain b where one: "negative_acknowledge h (m_id (ms r)) (?b, d) = ((b, d), Some r)"
    and b: "a_max_attempts b = a_max_attempts a" "get_pending b (m_id (ms r)) = None"
      "a_total_dead_lettered b = a_total_dead_lettered a" "a_total_nacked b = a_total_nacked a + 1"
    using Cons.prems(1,2)
    by (auto simp: negative_acknowledge_def track_def get_pending_def Let_def)
  obtain rest where rest: "nack_rounds h ms r c ts (b, d) = ((a', d'), rest)" "results = Some r # rest"
    using Cons.prems(3) one t by (auto simp: Let_def split: prod.splits)
  with Cons.IH [of b rest] Cons.prems(1) b show ?case by simp
qed

lemma nack_never_exhausts_witness:
  "\<exists>ms. snd (nack_rounds None ms 7 ''c'' [(0, 0), (1, 1), (2, 2), (3, 3)] (ack_manager_new 30 3, ()))
    = [Some 7, Some 7, Some 7, Some 7]"
proof -
  obtain ms :: mstore where "True" by simp
  obtain a' d' results where
    n: "nack_rounds None ms 7 ''c'' [(0, 0), (1, 1), (2, 2), (3, 3)] (ack_manager_new 30 3, ())
      = ((a', d'), results)" by (metis prod.collapse)
  have "results = [Some 7, Some 7, Some 7, Some 7]"
    using nack_never_exhausts [OF _ _ n] by (simp add: ack_manager_new_def get_pending_def)
  then show ?thesis using n by (intro exI [of _ ms]) simp
qed

end
