(* ===== verification/Dlq.thy ===== *)
theory Dlq
  imports Message
begin

section \<open>The dead letter queue\<close>

text \<open>
  \<^verbatim>\<open>dlq.py\<close>: entries for failed messages in a bounded deque (\<open>maxlen\<close>: appending to a full one
  drops the oldest entry), with the three headers that tag the message object. \<open>DLQEntry.to_dict\<close>
  is display data.
\<close>

record dlq_entry =
  de_message :: mref
  de_reason :: string
  de_original_topic :: string
  de_attempts :: int
  de_dead_lettered_at :: real
  de_error_details :: "string option"

record dead_letter_queue =
  d_name :: string
  d_max_size :: int
  d_entries :: "dlq_entry list"
  d_total_received :: nat
  d_total_replayed :: nat

definition dlq_new :: "string \<Rightarrow> int \<Rightarrow> dead_letter_queue" where
  "dlq_new name max_size =
     \<lparr>d_name = name, d_max_size = max_size, d_entries = [], d_total_received = 0,
      d_total_replayed = 0\<rparr>"

definition dlq_entry_to_dict :: "mstore \<Rightarrow> dlq_entry \<Rightarrow> (string, json) dict" where
  "dlq_entry_to_dict ms e =
     [(''message'', JDict (to_dict (ms (de_message e)))), (''reason'', JStr (de_reason e)),
      (''original_topic'', JStr (de_original_topic e)), (''attempts'', JInt (de_attempts e)),
      (''dead_lettered_at'', JFloat (de_dead_lettered_at e)),
      (''error_details'', case de_error_details e of None \<Rightarrow> JNull | Some s \<Rightarrow> JStr s)]"

text \<open>\<open>deque(maxlen=max_size if max_size > 0 else None).append\<close>\<close>

definition deque_append :: "int \<Rightarrow> 'a list \<Rightarrow> 'a \<Rightarrow> 'a list" where
  "deque_append max_size xs x =
     (if max_size > 0 \<and> max_size \<le> int (length xs) then tl xs @ [x] else xs @ [x])"

definition set_header :: "string \<Rightarrow> string \<Rightarrow> mref \<Rightarrow> mstore \<Rightarrow> mstore" where
  "set_header k v r ms = ms(r := (ms r)\<lparr>m_headers := headers_set k v (m_headers (ms r))\<rparr>)"

definition remove_header :: "string \<Rightarrow> mref \<Rightarrow> mstore \<Rightarrow> mstore" where
  "remove_header k r ms = ms(r := (ms r)\<lparr>m_headers := snd (headers_remove k (m_headers (ms r)))\<rparr>)"

definition dlq_add ::
    "real \<Rightarrow> mstore \<times> dead_letter_queue \<Rightarrow> mref \<Rightarrow> string \<Rightarrow> int \<Rightarrow> string option
      \<Rightarrow> (mstore \<times> dead_letter_queue) \<times> dlq_entry" where
  "dlq_add now s r reason attempts details =
     (case s of (ms, q) \<Rightarrow>
        (let entry = \<lparr>de_message = r, de_reason = reason, de_original_topic = m_topic (ms r),
                      de_attempts = attempts, de_dead_lettered_at = now, de_error_details = details\<rparr>;
             q' = q\<lparr>d_entries := deque_append (d_max_size q) (d_entries q) entry,
                    d_total_received := d_total_received q + 1\<rparr>;
             ms' = set_header ''x-dlq-attempts'' (py_str_int attempts) r
                    (set_header ''x-dlq-original-topic'' (m_topic (ms r)) r
                      (set_header ''x-dlq-reason'' reason r ms))
         in ((ms', q'), entry)))"

definition dlq_peek :: "int \<Rightarrow> dead_letter_queue \<Rightarrow> dlq_entry list" where
  "dlq_peek n q = py_slice (d_entries q) 0 n"

definition dlq_pop :: "dead_letter_queue \<Rightarrow> dead_letter_queue \<times> dlq_entry option" where
  "dlq_pop q = (case d_entries q of
     [] \<Rightarrow> (q, None) | e # es \<Rightarrow> (q\<lparr>d_entries := es\<rparr>, Some e))"

text \<open>The loop of \<open>replay\<close>, a given number of rounds.\<close>

fun replay_loop :: "nat \<Rightarrow> mstore \<times> dead_letter_queue \<Rightarrow> (mstore \<times> dead_letter_queue) \<times> mref list" where
  "replay_loop 0 s = (s, [])"
| "replay_loop (Suc n) (ms, q) =
     (case d_entries q of
        [] \<Rightarrow> ((ms, q), [])
      | e # es \<Rightarrow>
          (let r = de_message e;
               ms' = remove_header ''x-dlq-attempts'' r (remove_header ''x-dlq-original-topic'' r
                      (remove_header ''x-dlq-reason'' r ms));
               (s, rest) = replay_loop n (ms',
                 q\<lparr>d_entries := es, d_total_replayed := d_total_replayed q + 1\<rparr>)
           in (s, r # rest)))"

definition dlq_replay ::
    "int \<Rightarrow> mstore \<times> dead_letter_queue \<Rightarrow> (mstore \<times> dead_letter_queue) \<times> mref list" where
  "dlq_replay m s =
     (let len = length (d_entries (snd s));
          n = (if m > 0 then nat m else len)
      in replay_loop (min n len) s)"

definition dlq_purge :: "dead_letter_queue \<Rightarrow> dead_letter_queue \<times> nat" where
  "dlq_purge q = (q\<lparr>d_entries := []\<rparr>, length (d_entries q))"

text \<open>\<open>reason in e.reason\<close> is the substring test.\<close>

definition filter_by_reason :: "string \<Rightarrow> dead_letter_queue \<Rightarrow> dlq_entry list" where
  "filter_by_reason reason q = filter (\<lambda>e. sublist reason (de_reason e)) (d_entries q)"

definition filter_by_topic :: "string \<Rightarrow> dead_letter_queue \<Rightarrow> dlq_entry list" where
  "filter_by_topic topic q = filter (\<lambda>e. de_original_topic e = topic) (d_entries q)"

definition dlq_size :: "dead_letter_queue \<Rightarrow> nat" where
  "dlq_size q = length (d_entries q)"

definition oldest_entry_age :: "real \<Rightarrow> dead_letter_queue \<Rightarrow> real" where
  "oldest_entry_age now q = (case d_entries q of [] \<Rightarrow> 0 | e # _ \<Rightarrow> now - de_dead_lettered_at e)"

definition count_into :: "'k \<Rightarrow> ('k, nat) dict \<Rightarrow> ('k, nat) dict" where
  "count_into k d = dict_set k (dict_get_default d k 0 + 1) d"

definition failure_reasons :: "dead_letter_queue \<Rightarrow> (string, nat) dict" where
  "failure_reasons q = fold (\<lambda>e. count_into (de_reason e)) (d_entries q) []"

record dlq_info =
  di_name :: string
  di_size :: nat
  di_max_size :: int
  di_total_received :: nat
  di_total_replayed :: nat
  di_oldest_age :: real
  di_failure_reasons :: "(string, nat) dict"

definition dlq_snapshot :: "real \<Rightarrow> dead_letter_queue \<Rightarrow> dlq_info" where
  "dlq_snapshot now q =
     \<lparr>di_name = d_name q, di_size = length (d_entries q), di_max_size = d_max_size q,
      di_total_received = d_total_received q, di_total_replayed = d_total_replayed q,
      di_oldest_age = oldest_entry_age now q, di_failure_reasons = failure_reasons q\<rparr>"

subsection \<open>Lemmas\<close>

definition keep_last :: "int \<Rightarrow> 'a list \<Rightarrow> 'a list" where
  "keep_last m xs = (if m > 0 then drop (length xs - nat m) xs else xs)"

lemma keep_last_append:
  "deque_append m (keep_last m xs) x = keep_last m (xs @ [x])"
proof (cases "m > 0 \<and> nat m \<le> length xs")
  case True
  moreover have "Suc 0 - nat m = 0" using True by arith
  ultimately have "keep_last m (xs @ [x]) = tl (drop (length xs - nat m) xs) @ [x]"
    by (simp add: keep_last_def Suc_diff_le drop_Suc tl_drop)
  moreover have "m \<le> int (length (drop (length xs - nat m) xs))" using True by simp
  ultimately show ?thesis using True by (simp add: deque_append_def keep_last_def)
next
  case False
  then show ?thesis by (auto simp: deque_append_def keep_last_def)
qed

lemma dict_del_set_new: "k \<notin> set (keys d) \<Longrightarrow> dict_del k (dict_set k v d) = d"
  by (induction d) auto

lemma count_into_get: "dict_get (fold (\<lambda>e. count_into (f e)) xs d) k =
    (if k \<in> f ` set xs \<or> dict_get d k \<noteq> None
     then Some (dict_get_default d k 0 + length (filter (\<lambda>e. f e = k) xs)) else None)"
  by (induction xs arbitrary: d)
    (auto simp: count_into_def dict_get_default_def image_iff split: option.splits)

lemma replay_loop_entries:
  assumes "n \<le> length (d_entries q)" and "replay_loop n (ms, q) = ((ms', q'), out)"
  shows "out = map de_message (take n (d_entries q)) \<and> d_entries q' = drop n (d_entries q)
    \<and> d_total_replayed q' = d_total_replayed q + n \<and> d_max_size q' = d_max_size q
    \<and> d_total_received q' = d_total_received q"
  using assms
proof (induction n arbitrary: ms q out)
  case 0
  then show ?case by simp
next
  case (Suc n)
  then obtain e es where es: "d_entries q = e # es" by (cases "d_entries q") auto
  let ?q = "q\<lparr>d_entries := es, d_total_replayed := d_total_replayed q + 1\<rparr>"
  obtain ms1 rest where rest: "replay_loop n (ms1, ?q) = ((ms', q'), rest)"
    "out = de_message e # rest"
    using Suc.prems(2) es by (auto simp: Let_def split: prod.splits)
  with Suc.IH [OF _ rest(1)] Suc.prems(1) es show ?case by simp
qed

lemma length_keep_last: "0 < m \<Longrightarrow> int (length (keep_last m xs)) \<le> m"
  by (simp add: keep_last_def)

text \<open>The headers \<open>replay\<close> clears.\<close>

definition dlq_tags :: "string list" where
  "dlq_tags = [''x-dlq-reason'', ''x-dlq-original-topic'', ''x-dlq-attempts'']"

definition untag :: "mref \<Rightarrow> mstore \<Rightarrow> mstore" where
  "untag r ms = remove_header ''x-dlq-attempts'' r (remove_header ''x-dlq-original-topic'' r
     (remove_header ''x-dlq-reason'' r ms))"

lemma untag_other: "x \<noteq> r \<Longrightarrow> untag r ms x = ms x"
  by (simp add: untag_def remove_header_def)

lemma untag_headers: "m_headers (untag r ms r) = filter (\<lambda>(k, v). k \<notin> set dlq_tags) (m_headers (ms r))"
  by (simp add: untag_def remove_header_def headers_remove_def dict_del_filter dlq_tags_def)
    (rule filter_cong, auto)

lemma untag_frame: "untag r ms r = (ms r)\<lparr>m_headers := m_headers (untag r ms r)\<rparr>"
  by (simp add: untag_def remove_header_def)

lemma replay_loop_messages:
  assumes "n \<le> length (d_entries q)" and "replay_loop n (ms, q) = ((ms', q'), out)"
  shows "ms' = fold (\<lambda>e. untag (de_message e)) (take n (d_entries q)) ms"
  using assms
proof (induction n arbitrary: ms q out)
  case 0
  then show ?case by simp
next
  case (Suc n)
  then obtain e es where es: "d_entries q = e # es" by (cases "d_entries q") auto
  let ?q = "q\<lparr>d_entries := es, d_total_replayed := d_total_replayed q + 1\<rparr>"
  obtain rest where rest: "replay_loop n (untag (de_message e) ms, ?q) = ((ms', q'), rest)"
    using Suc.prems(2) es by (auto simp: Let_def untag_def split: prod.splits)
  with Suc.IH [OF _ rest] Suc.prems(1) es show ?case by simp
qed

lemma fold_untag_tags:
  "k \<in> set dlq_tags \<Longrightarrow> x \<in> de_message ` set es \<or> dict_get (m_headers (ms x)) k = None \<Longrightarrow>
    dict_get (m_headers (fold (\<lambda>e. untag (de_message e)) es ms x)) k = None"
proof (induction es arbitrary: ms)
  case Nil
  then show ?case by simp
next
  case (Cons e es)
  have "dict_get (m_headers (untag (de_message e) ms x)) k = None"
    if "x = de_message e \<or> dict_get (m_headers (ms x)) k = None"
  proof (cases "x = de_message e")
    case True
    then show ?thesis using Cons.prems(1)
      by (auto simp: untag_headers map_of_eq_None_iff)
  next
    case False
    then show ?thesis using that by (simp add: untag_other)
  qed
  with Cons show ?case by (auto simp: image_iff)
qed

lemma fold_untag_other:
  "x \<notin> de_message ` set es \<Longrightarrow> fold (\<lambda>e. untag (de_message e)) es ms x = ms x"
  by (induction es arbitrary: ms) (auto simp: untag_other)

subsection \<open>What the queue promises\<close>

definition dlq_add_all ::
    "(real \<times> mref \<times> string \<times> int \<times> string option) list \<Rightarrow> mstore \<times> dead_letter_queue
      \<Rightarrow> mstore \<times> dead_letter_queue" where
  "dlq_add_all adds s =
     fold (\<lambda>(now, r, reason, attempts, details) s. fst (dlq_add now s r reason attempts details)) adds s"

text \<open>The queue is bounded and keeps the newest: after any number of failed messages it holds the
  last \<open>max_size\<close> of them in order of arrival (all of them without a bound), and counts every one
  it received.\<close>

theorem dlq_keeps_newest:
  assumes "dlq_add_all adds (ms, dlq_new name m) = (ms', q)"
  shows "map (\<lambda>e. (de_dead_lettered_at e, de_message e, de_reason e, de_attempts e, de_error_details e))
        (d_entries q) = keep_last m adds
    \<and> d_total_received q = length adds \<and> (if 0 < m then int (dlq_size q) \<le> m else dlq_size q = length adds)"
proof -
  let ?f = "\<lambda>e. (de_dead_lettered_at e, de_message e, de_reason e, de_attempts e, de_error_details e)"
  have kept: "map ?f (d_entries q) = keep_last m adds \<and> d_total_received q = length adds \<and> d_max_size q = m"
    using assms
  proof (induction adds arbitrary: ms' q rule: rev_induct)
    case Nil
    then show ?case by (auto simp: dlq_add_all_def dlq_new_def keep_last_def)
  next
    case (snoc x adds)
    obtain now r reason attempts details where x: "x = (now, r, reason, attempts, details)"
      by (metis prod.collapse)
    obtain ms1 q1 where s1: "dlq_add_all adds (ms, dlq_new name m) = (ms1, q1)" by (metis prod.collapse)
    with snoc.prems x have q: "(ms', q) = fst (dlq_add now (ms1, q1) r reason attempts details)"
      by (simp add: dlq_add_all_def)
    have map_da: "map ?f (deque_append k es e) = deque_append k (map ?f es) (?f e)" for k es e
      by (simp add: deque_append_def map_tl)
    show ?case
      using snoc.IH [OF s1] q keep_last_append [of m adds x] x
      by (auto simp: dlq_add_def Let_def map_da)
  qed
  from arg_cong [OF conjunct1 [OF kept], of length]
  have size: "dlq_size q = length (keep_last m adds)" by (simp only: dlq_size_def length_map)
  have "if 0 < m then int (dlq_size q) \<le> m else dlq_size q = length adds"
    unfolding size by (simp add: length_keep_last) (simp add: keep_last_def)
  with kept show ?thesis by (simp only: simp_thms)
qed

lemma dlq_keeps_newest_witness:
  "\<exists>ms ms' q. dlq_add_all [(0, 1, ''a'', 1, None), (1, 2, ''b'', 1, None), (2, 3, ''c'', 1, None)]
      (ms, dlq_new ''dlq'' 2) = (ms', q) \<and> map de_message (d_entries q) = [2, 3]"
proof -
  obtain ms :: mstore where "True" by simp
  obtain ms' q where q: "dlq_add_all [(0, 1, ''a'', 1, None), (1, 2, ''b'', 1, None), (2, 3, ''c'', 1, None)]
      (ms, dlq_new ''dlq'' 2) = (ms', q)" by (metis prod.collapse)
  let ?f = "\<lambda>e. (de_dead_lettered_at e, de_message e, de_reason e, de_attempts e, de_error_details e)"
  have "map ?f (d_entries q) = [(1, 2, ''b'', 1, None), (2, 3, ''c'', 1, None)]"
    using dlq_keeps_newest [OF q] by (simp add: keep_last_def)
  from arg_cong [OF this, of "map (\<lambda>(_, r, _). r)"] have "map de_message (d_entries q) = [2, 3]"
    by (simp add: comp_def)
  with q show ?thesis by (intro exI [of _ ms] exI [of _ ms'] exI [of _ q] conjI)
qed

text \<open>Replaying takes the oldest entries, as many as asked for (all for 0 or less), in order and
  once: their messages are returned without the three dead letter headers, no other message object
  changes, the remaining entries stay in order and the replay counter grows by their number.\<close>

theorem dlq_replay_correct:
  assumes "dlq_replay n (ms, q) = ((ms', q'), out)"
  defines "k \<equiv> (if 0 < n then min (nat n) (dlq_size q) else dlq_size q)"
  shows "out = map de_message (take k (d_entries q)) \<and> d_entries q' = drop k (d_entries q)
    \<and> d_total_replayed q' = d_total_replayed q + k
    \<and> (\<forall>r \<in> set out. \<forall>t \<in> set dlq_tags. dict_get (m_headers (ms' r)) t = None)
    \<and> (\<forall>r. r \<notin> set out \<longrightarrow> ms' r = ms r)"
proof -
  have loop: "replay_loop k (ms, q) = ((ms', q'), out)"
    using assms(1) by (cases "0 < n") (simp_all add: dlq_replay_def k_def dlq_size_def Let_def)
  have k: "k \<le> length (d_entries q)" by (simp add: k_def dlq_size_def)
  note es = replay_loop_entries [OF k loop] and msgs = replay_loop_messages [OF k loop]
  have "dict_get (m_headers (ms' r)) t = None" if "r \<in> set out" "t \<in> set dlq_tags" for r t
    unfolding msgs using that es by (intro fold_untag_tags) simp_all
  moreover have "ms' r = ms r" if "r \<notin> set out" for r
    unfolding msgs using that es by (intro fold_untag_other) simp
  ultimately show ?thesis using es by blast
qed

text \<open>A message without dead letter headers that is dead-lettered into an empty queue and replayed
  comes back exactly as it was, headers and their order included.\<close>

theorem dlq_add_replay_roundtrip:
  assumes "set (keys (m_headers (ms r))) \<inter> set dlq_tags = {}"
  shows "\<exists>q'. dlq_replay 0 (fst (dlq_add now (ms, dlq_new name m) r reason attempts details))
      = ((ms, q'), [r]) \<and> d_entries q' = []"
proof -
  let ?h = "m_headers (ms r)"
  have h: "''x-dlq-reason'' \<notin> set (keys ?h)" "''x-dlq-original-topic'' \<notin> set (keys ?h)"
    "''x-dlq-attempts'' \<notin> set (keys ?h)"
    using assms by (auto simp: dlq_tags_def)
  let ?ms = "fst (fst (dlq_add now (ms, dlq_new name m) r reason attempts details))"
  have "m_headers (?ms r) = ?h @ [(''x-dlq-reason'', reason), (''x-dlq-original-topic'', m_topic (ms r)),
      (''x-dlq-attempts'', py_str_int attempts)]"
    using h by (simp add: dlq_add_def set_header_def headers_set_def dict_set_new Let_def)
  moreover have "filter (\<lambda>(k, v). k \<notin> set dlq_tags) ?h = ?h"
    using assms by (force simp: filter_id_conv)
  ultimately have restored: "m_headers (untag r ?ms r) = ?h"
    unfolding untag_headers by (simp add: dlq_tags_def)
  obtain hs where ms: "?ms = ms(r := (ms r)\<lparr>m_headers := hs\<rparr>)"
    by (simp add: dlq_add_def set_header_def Let_def)
  have "untag r ?ms r = (?ms r)\<lparr>m_headers := ?h\<rparr>"
    using untag_frame [of r ?ms] unfolding restored .
  also have "\<dots> = ms r" unfolding ms by simp
  finally have same: "untag r ?ms r = ms r" .
  have "untag r ?ms x = ms x" if "x \<noteq> r" for x
    unfolding untag_other [OF that] ms using that by simp
  with same have "untag r ?ms x = ms x" for x by (cases "x = r") simp_all
  then have "untag r ?ms = ms" by (rule ext)
  then show ?thesis
    by (simp add: dlq_replay_def dlq_add_def dlq_new_def deque_append_def Let_def untag_def)
qed

lemma dlq_replay_correct_witness:
  "\<exists>ms ms' q'. dlq_replay 1 (ms, dlq_new ''d'' 0
      \<lparr>d_entries := [\<lparr>de_message = 4, de_reason = ''x'', de_original_topic = ''t'', de_attempts = 1,
        de_dead_lettered_at = 0, de_error_details = None\<rparr>]\<rparr>) = ((ms', q'), [4]) \<and> ms' 5 = ms 5"
proof -
  obtain ms :: mstore where "True" by simp
  let ?q = "dlq_new ''d'' 0
      \<lparr>d_entries := [\<lparr>de_message = 4, de_reason = ''x'', de_original_topic = ''t'', de_attempts = 1,
        de_dead_lettered_at = 0, de_error_details = None\<rparr>]\<rparr>"
  obtain ms' q' out where r: "dlq_replay 1 (ms, ?q) = ((ms', q'), out)" by (metis prod.collapse)
  from dlq_replay_correct [OF r] have "out = [4]" and "ms' 5 = ms 5" by (simp_all add: dlq_size_def)
  with r show ?thesis by (intro exI [of _ ms] exI [of _ ms'] exI [of _ q'] conjI) simp_all
qed

lemma dlq_add_replay_roundtrip_witness:
  "\<exists>ms q'. dlq_replay 0 (fst (dlq_add 1 (ms, dlq_new ''d'' 10) 0 ''bad'' 3 None)) = ((ms, q'), [0])"
proof -
  obtain m :: message where "True" by simp
  let ?ms = "\<lambda>_ :: mref. m\<lparr>m_headers := [(''h'', ''1'')]\<rparr>"
  have "set (keys (m_headers (?ms 0))) \<inter> set dlq_tags = {}" by (simp add: dlq_tags_def)
  from dlq_add_replay_roundtrip [OF this] show ?thesis by blast
qed

end
