(* ===== verification/Assignor.thy ===== *)
theory Assignor
  imports Prelude
begin

section \<open>Splitting partitions among members\<close>

text \<open>
  The contract of a partition assignment strategy: \<open>n\<close> shares, together every partition exactly
  once, their sizes differing by at most one. The two computations of \<open>ConsumerGroup\<close> in
  \<^verbatim>\<open>consumer.py\<close>, contiguous ranges and dealing out in turn, interpret it; the consequences are
  proved from the contract alone.
\<close>

text \<open>
  \<open>_assign_range\<close>: the slices its loop hands to the members \<open>i, i + 1, ...\<close> when \<open>idx\<close> partitions
  are taken already.
\<close>

fun range_slices :: "nat \<Rightarrow> nat \<Rightarrow> nat \<Rightarrow> nat \<Rightarrow> nat \<Rightarrow> 'a list \<Rightarrow> 'a list list" where
  "range_slices per remainder 0 i idx xs = []"
| "range_slices per remainder (Suc k) i idx xs =
     (let n = per + (if i < remainder then 1 else 0)
      in take n (drop idx xs) # range_slices per remainder k (i + 1) (idx + n) xs)"

definition range_split :: "nat \<Rightarrow> 'a list \<Rightarrow> 'a list list" where
  "range_split n xs = range_slices (length xs div n) (length xs mod n) n 0 0 xs"

text \<open>\<open>_assign_round_robin\<close>: member \<open>j\<close> gets the partitions at positions \<open>i\<close> with \<open>i % n = j\<close>.\<close>

definition turn_split :: "nat \<Rightarrow> 'a list \<Rightarrow> 'a list list" where
  "turn_split n xs = map (\<lambda>j. map snd (filter (\<lambda>(i, x). i mod n = j) (enumerate 0 xs))) [0..<n]"

lemma distinct_concat_nth:
  "distinct (concat xss) \<Longrightarrow> i < j \<Longrightarrow> j < length xss \<Longrightarrow> set (xss ! i) \<inter> set (xss ! j) = {}"
proof (induction xss arbitrary: i j)
  case (Cons ys xss)
  then obtain j' where j: "j = Suc j'" "j' < length xss" by (cases j) auto
  then have "xss ! j' \<in> set xss" by simp
  then have "set (xss ! j') \<subseteq> set (concat xss)" by auto
  with Cons j show ?case by (cases i) auto
qed simp

locale assignor =
  fixes split :: "nat \<Rightarrow> 'a list \<Rightarrow> 'a list list"
  assumes shares: "0 < n \<Longrightarrow> length (split n xs) = n"
    and everything: "0 < n \<Longrightarrow> mset (concat (split n xs)) = mset xs"
    and balanced: "0 < n \<Longrightarrow> j < n \<Longrightarrow> length (split n xs ! j) \<in> {length xs div n, Suc (length xs div n)}"
begin

lemma share_subset: "0 < n \<Longrightarrow> s \<in> set (split n xs) \<Longrightarrow> set s \<subseteq> set xs"
  using everything [of n xs] by (metis UN_upper set_concat set_mset_mset)

lemma covers: "0 < n \<Longrightarrow> x \<in> set xs \<Longrightarrow> \<exists>j < n. x \<in> set (split n xs ! j)"
proof -
  assume n: "0 < n" and x: "x \<in> set xs"
  then have "x \<in> set (concat (split n xs))" using everything [OF n, of xs] by (metis set_mset_mset)
  then obtain s where "s \<in> set (split n xs)" and "x \<in> set s" by auto
  then show ?thesis using shares [OF n, of xs] by (auto simp: in_set_conv_nth [of s])
qed

text \<open>No partition is in two shares.\<close>

lemma disjoint:
  assumes "0 < n" and "distinct xs" and "i < j" and "j < n"
  shows "set (split n xs ! i) \<inter> set (split n xs ! j) = {}"
proof -
  have "distinct (concat (split n xs))"
    using everything [OF assms(1), of xs] assms(2) by (metis mset_eq_imp_distinct_iff)
  then show ?thesis
    using distinct_concat_nth [of "split n xs" i j] assms(3,4) shares [OF assms(1), of xs] by simp
qed

end

subsection \<open>Ranges\<close>

lemma range_slices_length [simp]: "length (range_slices per rem k i idx xs) = k"
  by (induction k arbitrary: i idx) (simp_all add: Let_def)

lemma range_slices_concat:
  "concat (range_slices per rem k i idx xs) = take (k * per + (min (i + k) rem - min i rem)) (drop idx xs)"
proof (induction k arbitrary: i idx)
  case 0
  then show ?case by simp
next
  case (Suc k)
  let ?n = "per + (if i < rem then 1 else 0)"
  have "concat (range_slices per rem (Suc k) i idx xs)
      = take ?n (drop idx xs) @ take (k * per + (min (Suc i + k) rem - min (Suc i) rem)) (drop (idx + ?n) xs)"
    using Suc [of "Suc i" "idx + ?n"] by (simp add: Let_def)
  also have "\<dots> = take (?n + (k * per + (min (Suc i + k) rem - min (Suc i) rem))) (drop idx xs)"
    by (simp only: take_add drop_drop add.commute)
  also have "?n + (k * per + (min (Suc i + k) rem - min (Suc i) rem))
      = Suc k * per + (min (i + Suc k) rem - min i rem)"
    by auto
  finally show ?case .
qed

lemma range_slices_nth:
  "j < k \<Longrightarrow> range_slices per rem k i idx xs ! j =
    take (per + (if i + j < rem then 1 else 0))
      (drop (idx + j * per + (min (i + j) rem - min i rem)) xs)"
proof (induction k arbitrary: i idx j)
  case 0
  then show ?case by simp
next
  case (Suc k)
  show ?case
  proof (cases j)
    case 0
    then show ?thesis by (simp add: Let_def)
  next
    case (Suc j')
    have "idx + (per + (if i < rem then 1 else 0)) + j' * per + (min (i + 1 + j') rem - min (i + 1) rem)
        = idx + j * per + (min (i + j) rem - min i rem)"
      using Suc by auto
    with Suc.IH [of j' "i + 1" "idx + (per + (if i < rem then 1 else 0))"] Suc Suc.prems show ?thesis
      by (simp add: Let_def)
  qed
qed

lemma range_everything: "0 < n \<Longrightarrow> concat (range_split n xs) = xs"
proof -
  assume "0 < n"
  then have "n * (length xs div n) + (min (0 + n) (length xs mod n) - min 0 (length xs mod n)) = length xs"
    by (simp add: min_absorb2 less_imp_le)
  then show ?thesis by (simp add: range_split_def range_slices_concat)
qed

lemma range_balanced:
  assumes "0 < n" and "j < n"
  shows "length (range_split n xs ! j) = length xs div n + (if j < length xs mod n then 1 else 0)"
proof -
  let ?per = "length xs div n" and ?rem = "length xs mod n"
  have bound: "j * p + min j r + (p + (if j < r then 1 else 0)) \<le> n * p + r" for p r :: nat
  proof -
    have "Suc j * p \<le> n * p" using assms(2) by (intro mult_le_mono1) simp
    moreover have "min j r + (if j < r then 1 else 0) \<le> r" by auto
    ultimately show ?thesis by simp
  qed
  have "j * ?per + min j ?rem + (?per + (if j < ?rem then 1 else 0)) \<le> length xs"
    using bound [of ?per ?rem] by (simp only: mult_div_mod_eq)
  then show ?thesis using assms(2) by (simp add: range_split_def range_slices_nth)
qed

interpretation ranges: assignor range_split
proof unfold_locales
  fix n j :: nat and xs :: "'a list"
  assume n: "0 < n"
  show "length (range_split n xs) = n" by (simp add: range_split_def)
  show "mset (concat (range_split n xs)) = mset xs" by (simp add: range_everything [OF n])
  show "j < n \<Longrightarrow> length (range_split n xs ! j) \<in> {length xs div n, Suc (length xs div n)}"
    by (simp add: range_balanced [OF n])
qed

subsection \<open>Dealing out in turn\<close>

lemma classes_everything:
  "\<forall>x \<in> set e. f x < n \<Longrightarrow> mset (concat (map (\<lambda>j. filter (\<lambda>x. f x = j) e) [0..<n])) = mset e"
proof (induction e)
  case Nil
  then show ?case by (simp add: mset_concat comp_def)
next
  case (Cons a e)
  have one: "sum_list (map (\<lambda>j. if f a = j then {#a#} else {#}) [0..<n]) = {#a#}"
    using Cons.prems by (simp add: sum_list_distinct_conv_sum_set)
  have "mset (concat (map (\<lambda>j. filter (\<lambda>x. f x = j) (a # e)) [0..<n]))
      = sum_list (map (\<lambda>j. (if f a = j then {#a#} else {#}) + mset (filter (\<lambda>x. f x = j) e)) [0..<n])"
    unfolding mset_concat map_map by (intro arg_cong [of _ _ sum_list] map_cong refl) simp
  also have "\<dots> = {#a#} + mset (concat (map (\<lambda>j. filter (\<lambda>x. f x = j) e) [0..<n]))"
    by (simp add: sum_list_addf one mset_concat comp_def)
  finally show ?case using Cons by simp
qed

lemma turn_everything:
  assumes "0 < n"
  shows "mset (concat (turn_split n xs)) = mset xs"
proof -
  have "map (map snd) (map (\<lambda>j. filter (\<lambda>x. fst x mod n = j) (enumerate 0 xs)) [0..<n]) = turn_split n xs"
    by (simp add: turn_split_def case_prod_beta')
  then have "mset (concat (turn_split n xs))
      = mset (map snd (concat (map (\<lambda>j. filter (\<lambda>x. fst x mod n = j) (enumerate 0 xs)) [0..<n])))"
    by (metis map_concat)
  also have "\<dots> = mset xs"
    using classes_everything [of "enumerate 0 xs" "\<lambda>x. fst x mod n" n] assms
    by (simp only: mset_map) (simp flip: mset_map)
  finally show ?thesis .
qed

lemma turn_balanced:
  assumes "j < n"
  shows "length (turn_split n xs ! j) \<in> {length xs div n, Suc (length xs div n)}"
proof -
  have "length (turn_split n xs ! j) = length (filter ((\<lambda>i. i mod n = j) \<circ> fst) (enumerate 0 xs))"
    using assms by (simp add: turn_split_def comp_def case_prod_beta')
  also have "\<dots> = length (filter (\<lambda>i. i mod n = j) (map fst (enumerate 0 xs)))"
    by (simp only: filter_map length_map)
  also have "\<dots> = card {i. i < length xs \<and> i mod n = j}"
    by (simp add: length_filter_conv_card)
      (intro arg_cong [of _ _ card] Collect_cong conj_cong refl, simp)
  also have "\<dots> = card (int ` {i. i < length xs \<and> i mod n = j})"
    by (simp add: card_image)
  also have "int ` {i. i < length xs \<and> i mod n = j} = {i \<in> {0..<0 + int (length xs)}. i mod int n = int j}"
  proof (intro set_eqI iffI)
    fix x assume "x \<in> {i \<in> {0..<0 + int (length xs)}. i mod int n = int j}"
    then have "x = int (nat x)" "nat x < length xs" "nat x mod n = j"
      by (auto simp: nat_mod_distrib [symmetric] nat_less_iff simp flip: of_nat_mod)
        (metis int_nat_eq nat_int of_nat_mod)
    then show "x \<in> int ` {i. i < length xs \<and> i mod n = j}" by blast
  qed (auto simp flip: of_nat_mod)
  finally show ?thesis
    using count_consecutive [of "int j" n 0 "length xs"] assms by simp
qed

interpretation turns: assignor turn_split
  by unfold_locales (simp add: turn_split_def, rule turn_everything, assumption, rule turn_balanced)

end
