(* ===== verification/Consumer.thy ===== *)
theory Consumer
  imports Topic Assignor
begin

section \<open>Consumers and consumer groups\<close>

text \<open>
  \<^verbatim>\<open>consumer.py\<close>. Consumers are shared between their group, the broker's clients and the server, so
  they live in a store \<open>cstore\<close> and groups hold references; partitions are references into
  \<open>pstore\<close>. The configuration object is part of the consumer (each consumer has its own unless the
  caller passes one object twice). Every reading of the clock is an argument.
\<close>

datatype assignment_strategy = RANGE | ROUND_ROBIN | STICKY

record consumer_config =
  group_id :: string
  auto_commit :: bool
  auto_commit_interval :: real
  max_poll_messages :: int
  session_timeout :: real
  assignment :: assignment_strategy

definition default_consumer_config :: consumer_config where
  "default_consumer_config =
     \<lparr>group_id = [], auto_commit = True, auto_commit_interval = 5, max_poll_messages = 100,
      session_timeout = 30, assignment = RANGE\<rparr>"

type_synonym position_key = "string \<times> int"

record consumer =
  c_id :: string
  c_config :: consumer_config
  c_assigned :: "pref list"
  c_offsets :: "(position_key, int) dict"
  c_last_poll :: real
  c_last_commit :: real
  c_total_consumed :: int
  c_active :: bool

type_synonym cref = nat
type_synonym cstore = "cref \<Rightarrow> consumer"

definition consumer_new :: "string \<Rightarrow> consumer_config \<Rightarrow> real \<Rightarrow> real \<Rightarrow> consumer" where
  "consumer_new cid cfg now1 now2 =
     \<lparr>c_id = cid, c_config = cfg, c_assigned = [], c_offsets = [], c_last_poll = now1,
      c_last_commit = now2, c_total_consumed = 0, c_active = True\<rparr>"

definition pkey :: "pstore \<Rightarrow> pref \<Rightarrow> position_key" where
  "pkey ps p = (p_topic (ps p), p_id (ps p))"

subsection \<open>One consumer\<close>

definition start_position :: "pstore \<Rightarrow> string \<Rightarrow> pref \<Rightarrow> (position_key, int) dict \<Rightarrow> (position_key, int) dict" where
  "start_position ps g p offs =
     (if pkey ps p \<notin> set (keys offs) then dict_set (pkey ps p) (get_committed_offset (ps p) g) offs
      else offs)"

definition consumer_assign :: "pstore \<Rightarrow> pref list \<Rightarrow> consumer \<Rightarrow> consumer" where
  "consumer_assign ps refs c =
     c\<lparr>c_assigned := refs,
       c_offsets := fold (start_position ps (group_id (c_config c))) refs (c_offsets c)\<rparr>"

definition consumer_revoke :: "consumer \<Rightarrow> consumer \<times> pref list" where
  "consumer_revoke c = (c\<lparr>c_assigned := []\<rparr>, c_assigned c)"

definition do_commit :: "real \<Rightarrow> pstore \<Rightarrow> consumer \<Rightarrow> (pstore \<times> consumer) \<times> (position_key, int) dict" where
  "do_commit now ps c =
     (let (ps', committed) =
        fold (\<lambda>p (ps, d).
                let offset = dict_get_default (c_offsets c) (pkey ps p) 0
                in (ps(p := commit_offset (group_id (c_config c)) offset (ps p)),
                    dict_set (pkey ps p) offset d))
             (c_assigned c) (ps, [])
      in ((ps', c\<lparr>c_last_commit := now\<rparr>), committed))"

text \<open>One round of the loop of \<open>poll\<close>: the messages so far and the offsets.\<close>

definition poll_one ::
    "mstore \<Rightarrow> pstore \<Rightarrow> int \<Rightarrow> pref \<Rightarrow> mref list \<times> (position_key, int) dict
      \<Rightarrow> mref list \<times> (position_key, int) dict" where
  "poll_one ms ps per_partition p s =
     (case s of (messages, offs) \<Rightarrow>
        (let offset = dict_get_default offs (pkey ps p) 0;
             batch = partition_read ms (ps p) offset per_partition
         in (messages @ batch,
             if batch \<noteq> [] then dict_set (pkey ps p) (m_offset (ms (last batch)) + 1) offs else offs)))"

text \<open>\<open>max_messages or self.config.max_poll_messages\<close>\<close>

definition poll_limit :: "int option \<Rightarrow> consumer \<Rightarrow> int" where
  "poll_limit max_messages c =
     (case max_messages of Some n \<Rightarrow> if n = 0 then max_poll_messages (c_config c) else n
      | None \<Rightarrow> max_poll_messages (c_config c))"

text \<open>The readings: \<open>now1\<close> for the poll, \<open>now2\<close> for the interval, \<open>now3\<close> inside the commit.\<close>

definition consumer_poll ::
    "real \<Rightarrow> real \<Rightarrow> real \<Rightarrow> mstore \<Rightarrow> pstore \<Rightarrow> int option \<Rightarrow> consumer \<Rightarrow> (pstore \<times> consumer) \<times> mref list" where
  "consumer_poll now1 now2 now3 ms ps max_messages c0 =
     (let limit = poll_limit max_messages c0;
          c = c0\<lparr>c_last_poll := now1\<rparr>
      in if c_assigned c = [] then ((ps, c), [])
         else
           (let per_partition = max 1 (limit div int (length (c_assigned c)));
                (messages, offs) = fold (poll_one ms ps per_partition) (c_assigned c) ([], c_offsets c);
                c1 = c\<lparr>c_offsets := offs, c_total_consumed := c_total_consumed c + int (length messages)\<rparr>;
                (ps', c2) = (if auto_commit (c_config c)
                               \<and> now2 - c_last_commit c1 \<ge> auto_commit_interval (c_config c)
                             then fst (do_commit now3 ps c1) else (ps, c1))
            in ((ps', c2), py_slice messages 0 limit)))"

definition consumer_commit ::
    "real \<Rightarrow> pstore \<Rightarrow> consumer \<Rightarrow> (pstore \<times> consumer) \<times> (position_key, int) dict" where
  "consumer_commit now ps c = do_commit now ps c"

definition consumer_seek :: "string \<Rightarrow> int \<Rightarrow> int \<Rightarrow> consumer \<Rightarrow> consumer" where
  "consumer_seek topic pid offset c = c\<lparr>c_offsets := dict_set (topic, pid) offset (c_offsets c)\<rparr>"

definition seek_to_beginning :: "mstore \<Rightarrow> pstore \<Rightarrow> consumer \<Rightarrow> consumer" where
  "seek_to_beginning ms ps c =
     c\<lparr>c_offsets := fold (\<lambda>p. dict_set (pkey ps p) (earliest_offset ms (ps p))) (c_assigned c) (c_offsets c)\<rparr>"

definition seek_to_end :: "pstore \<Rightarrow> consumer \<Rightarrow> consumer" where
  "seek_to_end ps c =
     c\<lparr>c_offsets := fold (\<lambda>p. dict_set (pkey ps p) (current_offset (ps p))) (c_assigned c) (c_offsets c)\<rparr>"

definition position :: "consumer \<Rightarrow> string \<Rightarrow> int \<Rightarrow> int" where
  "position c topic pid = dict_get_default (c_offsets c) (topic, pid) 0"

definition is_alive :: "real \<Rightarrow> consumer \<Rightarrow> bool" where
  "is_alive now c \<longleftrightarrow> c_active c \<and> now - c_last_poll c < session_timeout (c_config c)"

definition consumer_close :: "real \<Rightarrow> pstore \<Rightarrow> consumer \<Rightarrow> pstore \<times> consumer" where
  "consumer_close now ps c =
     (let ((ps', c'), _) = do_commit now ps c in (ps', c'\<lparr>c_active := False\<rparr>))"

text \<open>\<open>f"{topic}-{partition}"\<close>: two partitions can get the same text.\<close>

definition partition_label :: "position_key \<Rightarrow> string" where
  "partition_label k = (case k of (topic, pid) \<Rightarrow> topic @ ''-'' @ py_str_int pid)"

record consumer_info =
  ci_id :: string
  ci_group :: string
  ci_assigned :: "string list"
  ci_offsets :: "(string, int) dict"
  ci_total_consumed :: int
  ci_active :: bool
  ci_last_poll :: real

definition consumer_snapshot :: "pstore \<Rightarrow> consumer \<Rightarrow> consumer_info" where
  "consumer_snapshot ps c =
     \<lparr>ci_id = c_id c, ci_group = group_id (c_config c),
      ci_assigned = map (\<lambda>p. partition_label (pkey ps p)) (c_assigned c),
      ci_offsets = fold (\<lambda>(k, v). dict_set (partition_label k) v) (c_offsets c) [],
      ci_total_consumed = c_total_consumed c, ci_active = c_active c, ci_last_poll = c_last_poll c\<rparr>"

subsection \<open>Groups\<close>

record consumer_group =
  g_id :: string
  g_strategy :: assignment_strategy
  g_members :: "(string, cref) dict"
  g_subscribed :: "(string, pref list) dict"
  g_generation :: nat

definition group_new :: "string \<Rightarrow> assignment_strategy \<Rightarrow> consumer_group" where
  "group_new gid strategy =
     \<lparr>g_id = gid, g_strategy = strategy, g_members = [], g_subscribed = [], g_generation = 0\<rparr>"

definition update_consumer :: "cref \<Rightarrow> (consumer \<Rightarrow> consumer) \<Rightarrow> cstore \<Rightarrow> cstore" where
  "update_consumer x f cs = cs(x := f (cs x))"

text \<open>\<open>_assign_range\<close>: the loop over the members with the running index.\<close>

fun assign_range_loop ::
    "pstore \<Rightarrow> nat \<Rightarrow> nat \<Rightarrow> nat \<Rightarrow> nat \<Rightarrow> cref list \<Rightarrow> pref list \<Rightarrow> cstore \<Rightarrow> cstore" where
  "assign_range_loop ps per remainder i idx [] refs cs = cs"
| "assign_range_loop ps per remainder i idx (x # xs) refs cs =
     (let n = per + (if i < remainder then 1 else 0)
      in assign_range_loop ps per remainder (i + 1) (idx + n) xs refs
           (update_consumer x (consumer_assign ps (take n (drop idx refs))) cs))"

definition assign_range :: "pstore \<Rightarrow> cref list \<Rightarrow> pref list \<Rightarrow> cstore \<Rightarrow> cstore" where
  "assign_range ps members refs cs =
     assign_range_loop ps (length refs div length members) (length refs mod length members) 0 0
       members refs cs"

text \<open>\<open>_assign_round_robin\<close>: lists per consumer id, filled in turn, then assigned.\<close>

definition assign_round_robin :: "pstore \<Rightarrow> cref list \<Rightarrow> pref list \<Rightarrow> cstore \<Rightarrow> cstore" where
  "assign_round_robin ps members refs cs =
     (let start = fold (\<lambda>x. dict_set (c_id (cs x)) []) members [];
          assigned = fold (\<lambda>(i, p) d.
              let cid = c_id (cs (members ! (i mod length members)))
              in dict_set cid (dict_get_default d cid [] @ [p]) d) (enumerate 0 refs) start
      in fold (\<lambda>x cs. update_consumer x
            (consumer_assign ps (dict_get_default assigned (c_id (cs x)) [])) cs) members cs)"

definition all_partitions :: "consumer_group \<Rightarrow> pref list" where
  "all_partitions g = concat (map snd (g_subscribed g))"

definition member_refs :: "consumer_group \<Rightarrow> cref list" where
  "member_refs g = map snd (g_members g)"

definition rebalance :: "pstore \<Rightarrow> cstore \<times> consumer_group \<Rightarrow> cstore \<times> consumer_group" where
  "rebalance ps s =
     (case s of (cs, g) \<Rightarrow>
        (if g_members g = [] then (cs, g)
         else
           (let g' = g\<lparr>g_generation := g_generation g + 1\<rparr>;
                cs1 = fold (\<lambda>x. update_consumer x (\<lambda>c. fst (consumer_revoke c))) (member_refs g) cs;
                refs = all_partitions g
            in if refs = [] then (cs1, g')
               else (case g_strategy g of
                       RANGE \<Rightarrow> assign_range ps (member_refs g) refs cs1
                     | ROUND_ROBIN \<Rightarrow> assign_round_robin ps (member_refs g) refs cs1
                     | STICKY \<Rightarrow> assign_range ps (member_refs g) refs cs1, g'))))"

definition group_join :: "pstore \<Rightarrow> cref \<Rightarrow> cstore \<times> consumer_group \<Rightarrow> cstore \<times> consumer_group" where
  "group_join ps x s =
     (case s of (cs, g) \<Rightarrow>
        (let cs' = update_consumer x (\<lambda>c. c\<lparr>c_config := (c_config c)\<lparr>group_id := g_id g\<rparr>\<rparr>) cs
         in rebalance ps (cs', g\<lparr>g_members := dict_set (c_id (cs' x)) x (g_members g)\<rparr>)))"

definition group_leave ::
    "pstore \<Rightarrow> string \<Rightarrow> cstore \<times> consumer_group \<Rightarrow> (cstore \<times> consumer_group) \<times> cref option" where
  "group_leave ps cid s =
     (case s of (cs, g) \<Rightarrow>
        (case dict_get (g_members g) cid of
           None \<Rightarrow> ((cs, g), None)
         | Some x \<Rightarrow>
             (rebalance ps (update_consumer x (\<lambda>c. fst (consumer_revoke c)) cs,
                g\<lparr>g_members := dict_del cid (g_members g)\<rparr>), Some x)))"

definition group_subscribe ::
    "pstore \<Rightarrow> string \<Rightarrow> pref list \<Rightarrow> cstore \<times> consumer_group \<Rightarrow> cstore \<times> consumer_group" where
  "group_subscribe ps topic refs s =
     (case s of (cs, g) \<Rightarrow> rebalance ps (cs, g\<lparr>g_subscribed := dict_set topic refs (g_subscribed g)\<rparr>))"

definition group_unsubscribe ::
    "pstore \<Rightarrow> string \<Rightarrow> cstore \<times> consumer_group \<Rightarrow> cstore \<times> consumer_group" where
  "group_unsubscribe ps topic s =
     (case s of (cs, g) \<Rightarrow> rebalance ps (cs, g\<lparr>g_subscribed := dict_del topic (g_subscribed g)\<rparr>))"

text \<open>\<open>self._members.pop(cid).revoke()\<close>\<close>

definition drop_member :: "string \<Rightarrow> cstore \<times> consumer_group \<Rightarrow> cstore \<times> consumer_group" where
  "drop_member cid s =
     (case s of (cs, g) \<Rightarrow>
        (case dict_get (g_members g) cid of
           None \<Rightarrow> (cs, g)
         | Some x \<Rightarrow> (update_consumer x (\<lambda>c. fst (consumer_revoke c)) cs,
                      g\<lparr>g_members := dict_del cid (g_members g)\<rparr>)))"

text \<open>\<open>clock cid\<close> is the reading taken for the liveness of that member.\<close>

definition remove_dead_members ::
    "(string \<Rightarrow> real) \<Rightarrow> pstore \<Rightarrow> cstore \<times> consumer_group \<Rightarrow> (cstore \<times> consumer_group) \<times> string list" where
  "remove_dead_members clock ps s =
     (case s of (cs, g) \<Rightarrow>
        (let dead = map fst (filter (\<lambda>(cid, x). \<not> is_alive (clock cid) (cs x)) (g_members g));
             (cs', g') = fold drop_member dead (cs, g)
         in (if dead \<noteq> [] then rebalance ps (cs', g') else (cs', g'), dead)))"

definition group_consumer_lag :: "cstore \<Rightarrow> pstore \<Rightarrow> consumer_group \<Rightarrow> (string, int) dict" where
  "group_consumer_lag cs ps g =
     fold (\<lambda>x. dict_set (c_id (cs x))
                 (sum_list (map (\<lambda>p. consumer_lag (ps p) (g_id g)) (c_assigned (cs x)))))
          (member_refs g) []"

definition group_total_lag :: "cstore \<Rightarrow> pstore \<Rightarrow> consumer_group \<Rightarrow> int" where
  "group_total_lag cs ps g = sum_list (map snd (group_consumer_lag cs ps g))"

end
