(* ===== verification/Consumer_Group.thy ===== *)
theory Consumer_Group
  imports Consumer
begin

section \<open>Partitions in a consumer group\<close>

text \<open>
  Rebalancing gives every member the share its strategy computes; with the contract of \<open>assignor\<close>
  it follows that in every state a group reaches each subscribed partition belongs to exactly one
  member and the members' loads differ by at most one.
\<close>

fun strategy_split :: "assignment_strategy \<Rightarrow> nat \<Rightarrow> 'a list \<Rightarrow> 'a list list" where
  "strategy_split ROUND_ROBIN n xs = turn_split n xs"
| "strategy_split _ n xs = range_split n xs"

interpretation strategy: assignor "strategy_split st" for st
proof unfold_locales
  fix n j :: nat and xs :: "'a list"
  assume n: "0 < n"
  show "length (strategy_split st n xs) = n"
    by (cases st) (simp_all add: n ranges.shares turns.shares)
  show "mset (concat (strategy_split st n xs)) = mset xs"
    by (cases st) (simp_all only: strategy_split.simps ranges.everything [OF n] turns.everything [OF n])
  show "j < n \<Longrightarrow> length (strategy_split st n xs ! j) \<in> {length xs div n, Suc (length xs div n)}"
    by (cases st) (simp_all only: strategy_split.simps ranges.balanced [OF n] turns.balanced [OF n])
qed

definition group_ok :: "cstore \<Rightarrow> consumer_group \<Rightarrow> bool" where
  "group_ok cs g \<longleftrightarrow> wf_dict (g_members g) \<and> (\<forall>(cid, x) \<in> set (g_members g). c_id (cs x) = cid)"

definition shares_of :: "cstore \<Rightarrow> consumer_group \<Rightarrow> pref list list" where
  "shares_of cs g = map (\<lambda>x. c_assigned (cs x)) (member_refs g)"

text \<open>The members have exactly the shares of the strategy.\<close>

definition settled :: "cstore \<Rightarrow> consumer_group \<Rightarrow> bool" where
  "settled cs g \<longleftrightarrow> g_members g = [] \<or>
     shares_of cs g = strategy_split (g_strategy g) (length (g_members g)) (all_partitions g)"

lemma assign_fields [simp]:
  "c_id (consumer_assign ps refs c) = c_id c" "c_assigned (consumer_assign ps refs c) = refs"
  "c_config (consumer_assign ps refs c) = c_config c"
  by (simp_all add: consumer_assign_def)

lemma revoke_fields [simp]:
  "c_id (fst (consumer_revoke c)) = c_id c" "c_assigned (fst (consumer_revoke c)) = []"
  "c_config (fst (consumer_revoke c)) = c_config c"
  "c_offsets (fst (consumer_revoke c)) = c_offsets c"
  by (simp_all add: consumer_revoke_def)

lemma fold_update:
  "distinct xs \<Longrightarrow> fold (\<lambda>x cs. update_consumer x (f (cs x)) cs) xs cs y
     = (if y \<in> set xs then f (cs y) (cs y) else cs y)"
  by (induction xs arbitrary: cs) (auto simp: update_consumer_def)

lemma group_ok_refs:
  assumes "group_ok cs g"
  shows "map (\<lambda>x. c_id (cs x)) (member_refs g) = keys (g_members g)"
    and "distinct (member_refs g)"
    and "distinct (map (\<lambda>x. c_id (cs x)) (member_refs g))"
proof -
  show ids: "map (\<lambda>x. c_id (cs x)) (member_refs g) = keys (g_members g)"
    using assms by (auto simp: group_ok_def member_refs_def)
  then show "distinct (map (\<lambda>x. c_id (cs x)) (member_refs g))"
    using assms by (simp add: group_ok_def wf_dict_def)
  then show "distinct (member_refs g)" by (simp add: distinct_map)
qed

lemma length_member_refs [simp]: "length (member_refs g) = length (g_members g)"
  by (simp add: member_refs_def)

subsection \<open>The two strategies\<close>

lemma assign_range_loop_spec:
  assumes "distinct xs"
  shows "map (\<lambda>x. c_assigned (assign_range_loop ps per r i idx xs refs cs x)) xs
      = range_slices per r (length xs) i idx refs
    \<and> (\<forall>y. y \<notin> set xs \<longrightarrow> assign_range_loop ps per r i idx xs refs cs y = cs y)
    \<and> (\<forall>y. c_id (assign_range_loop ps per r i idx xs refs cs y) = c_id (cs y))"
  using assms
proof (induction xs arbitrary: i idx cs)
  case Nil
  then show ?case by simp
next
  case (Cons x xs)
  let ?n = "per + (if i < r then 1 else 0)"
  let ?cs = "update_consumer x (consumer_assign ps (take ?n (drop idx refs))) cs"
  have step: "assign_range_loop ps per r i idx (x # xs) refs cs
      = assign_range_loop ps per r (i + 1) (idx + ?n) xs refs ?cs"
    by (simp add: Let_def)
  have x: "x \<notin> set xs" and d: "distinct xs" using Cons.prems by simp_all
  note IH = Cons.IH [OF d, of "i + 1" "idx + ?n" ?cs]
  have "assign_range_loop ps per r (i + 1) (idx + ?n) xs refs ?cs x = ?cs x"
    using IH x by blast
  moreover have "?cs x = consumer_assign ps (take ?n (drop idx refs)) (cs x)"
    by (simp add: update_consumer_def)
  moreover have "range_slices per r (length (x # xs)) i idx refs
      = take ?n (drop idx refs) # range_slices per r (length xs) (i + 1) (idx + ?n) refs"
    by (simp add: Let_def)
  moreover have "c_id (?cs y) = c_id (cs y)" for y by (simp add: update_consumer_def)
  moreover have "?cs y = cs y" if "y \<noteq> x" for y using that by (simp add: update_consumer_def)
  ultimately show ?case unfolding step using IH by auto
qed

lemma turn_lists:
  assumes "inj_on f {..<n}" and "0 < n" and "j < n"
    and "d = fold (\<lambda>(i, p) d. dict_set (f (i mod n)) (dict_get_default d (f (i mod n)) [] @ [p]) d)
          (enumerate 0 refs) start"
    and "\<And>j. j < n \<Longrightarrow> dict_get_default start (f j) [] = []"
  shows "dict_get_default d (f j) [] = map snd (filter (\<lambda>(i, x). i mod n = j) (enumerate 0 refs))"
  using assms(3,4)
proof (induction refs arbitrary: d j rule: rev_induct)
  case Nil
  then show ?case using assms(5) by simp
next
  case (snoc p refs)
  let ?g = "\<lambda>(i, p) d. dict_set (f (i mod n)) (dict_get_default d (f (i mod n)) [] @ [p]) d"
  let ?d = "fold ?g (enumerate 0 refs) start" and ?k = "length refs mod n"
  have k: "?k < n" using assms(2) by simp
  have d: "d = dict_set (f ?k) (dict_get_default ?d (f ?k) [] @ [p]) ?d"
    using snoc.prems(2) by (simp add: enumerate_append_eq)
  have "f j = f ?k \<longleftrightarrow> j = ?k" using assms(1) snoc.prems(1) k by (auto simp: inj_on_def)
  then show ?case
    using snoc.IH [OF snoc.prems(1) refl] snoc.IH [OF k refl]
    by (auto simp: d dict_get_default_def enumerate_append_eq)
qed

lemma assign_round_robin_spec:
  assumes "distinct (map (\<lambda>x. c_id (cs x)) xs)" and "xs \<noteq> []"
  shows "map (\<lambda>x. c_assigned (assign_round_robin ps xs refs cs x)) xs = turn_split (length xs) refs
    \<and> (\<forall>y. y \<notin> set xs \<longrightarrow> assign_round_robin ps xs refs cs y = cs y)
    \<and> (\<forall>y. c_id (assign_round_robin ps xs refs cs y) = c_id (cs y))"
proof -
  let ?f = "\<lambda>j. c_id (cs (xs ! j))" and ?n = "length xs"
  let ?start = "fold (\<lambda>x. dict_set (c_id (cs x)) []) xs []"
  let ?d = "fold (\<lambda>(i, p) d. dict_set (?f (i mod ?n)) (dict_get_default d (?f (i mod ?n)) [] @ [p]) d)
      (enumerate 0 refs) ?start"
  have dist: "distinct xs" using assms(1) by (simp add: distinct_map)
  have rr: "assign_round_robin ps xs refs cs = fold (\<lambda>x cs. update_consumer x
      ((\<lambda>c. consumer_assign ps (dict_get_default ?d (c_id c) [])) (cs x)) cs) xs cs"
    by (simp add: assign_round_robin_def Let_def)
  have res: "assign_round_robin ps xs refs cs y
      = (if y \<in> set xs then consumer_assign ps (dict_get_default ?d (c_id (cs y)) []) (cs y) else cs y)" for y
    unfolding rr by (rule fold_update [OF dist])
  have start: "dict_get_default (fold (\<lambda>x. dict_set (c_id (cs x)) []) ys d0) k []
      = (if k \<in> (\<lambda>x. c_id (cs x)) ` set ys then [] else dict_get_default d0 k [])" for ys d0 k
    by (induction ys arbitrary: d0) (auto simp: dict_get_default_def)
  have s: "dict_get_default ?start (?f j) [] = []" for j
    by (simp add: start) (simp add: dict_get_default_def)
  have inj: "inj_on ?f {..<?n}"
    using assms(1) by (auto simp: inj_on_def distinct_conv_nth)
  have "dict_get_default ?d (?f j) [] = turn_split ?n refs ! j" if "j < ?n" for j
    using turn_lists [OF inj _ that refl s, where refs = refs] assms(2) that
    by (simp add: turn_split_def)
  then have "map (\<lambda>x. c_assigned (assign_round_robin ps xs refs cs x)) xs = turn_split ?n refs"
    by (intro nth_equalityI) (simp_all add: res turn_split_def)
  then show ?thesis by (simp add: res)
qed

subsection \<open>Rebalancing\<close>

lemma split_nothing: "strategy_split st n [] = replicate n []"
proof -
  have range: "range_slices per r k i idx [] = replicate k []" for per r k i idx
    by (induction k arbitrary: i idx) (simp_all add: Let_def)
  have "map (\<lambda>_. []) [0..<n] = replicate n []" by (simp add: map_replicate_const)
  then show ?thesis by (cases st) (simp_all add: range_split_def turn_split_def range)
qed

lemma rebalance_settles:
  assumes "group_ok cs g" and "rebalance ps (cs, g) = (cs', g')"
  shows "group_ok cs' g' \<and> settled cs' g' \<and> g_members g' = g_members g \<and> g_subscribed g' = g_subscribed g
    \<and> g_strategy g' = g_strategy g \<and> g_id g' = g_id g
    \<and> (\<forall>y. y \<notin> set (member_refs g) \<longrightarrow> cs' y = cs y) \<and> (\<forall>y. c_id (cs' y) = c_id (cs y))"
proof (cases "g_members g = []")
  case True
  with assms show ?thesis by (simp add: rebalance_def settled_def)
next
  case False
  let ?xs = "member_refs g" and ?refs = "all_partitions g"
  define C where "C = fold (\<lambda>x. update_consumer x (\<lambda>c. fst (consumer_revoke c))) ?xs cs"
  note refs = group_ok_refs [OF assms(1)]
  have ne: "?xs \<noteq> []" using False by (simp add: member_refs_def)
  have cs1: "C y = (if y \<in> set ?xs then fst (consumer_revoke (cs y)) else cs y)" for y
    unfolding C_def using fold_update [OF refs(2), of "\<lambda>_ c. fst (consumer_revoke c)" cs y] .
  then have id1: "c_id (C y) = c_id (cs y)" for y by simp
  have dist1: "distinct (map (\<lambda>x. c_id (C x)) ?xs)" using refs(3) by (simp add: id1)
  have g': "g' = g\<lparr>g_generation := g_generation g + 1\<rparr>" and cs': "cs' = (if ?refs = [] then C else
      (if g_strategy g = ROUND_ROBIN then assign_round_robin ps ?xs ?refs C else assign_range ps ?xs ?refs C))"
    using assms(2) False by (auto simp: rebalance_def Let_def C_def split: assignment_strategy.splits if_splits)
  have range: "map (\<lambda>x. c_assigned (assign_range ps ?xs ?refs C x)) ?xs = range_split (length ?xs) ?refs
      \<and> (\<forall>y. y \<notin> set ?xs \<longrightarrow> assign_range ps ?xs ?refs C y = C y)
      \<and> (\<forall>y. c_id (assign_range ps ?xs ?refs C y) = c_id (C y))"
    using assign_range_loop_spec [OF refs(2)] by (simp add: assign_range_def range_split_def)
  note turn = assign_round_robin_spec [where cs = C, OF dist1 ne, of ps ?refs]
  have "map (\<lambda>x. c_assigned (C x)) ?xs = map (\<lambda>_. []) ?xs"
    by (rule map_cong) (simp_all add: cs1)
  then have "map (\<lambda>x. c_assigned (C x)) ?xs = replicate (length ?xs) []"
    by (simp only: map_replicate_const)
  then have share: "map (\<lambda>x. c_assigned (cs' x)) ?xs = strategy_split (g_strategy g) (length ?xs) ?refs"
    using range turn split_nothing [where 'a = pref, of "g_strategy g" "length ?xs"]
    by (cases "g_strategy g") (auto simp: cs')
  have frame: "\<forall>y. y \<notin> set ?xs \<longrightarrow> cs' y = cs y" and ids: "\<forall>y. c_id (cs' y) = c_id (cs y)"
    using range turn cs1 id1 by (auto simp: cs')
  have "settled cs' g'"
    using share by (simp add: settled_def shares_of_def g' member_refs_def all_partitions_def)
  moreover have "group_ok cs' g'" using assms(1) ids by (simp add: group_ok_def g')
  ultimately show ?thesis using frame ids by (simp add: g')
qed

subsection \<open>The operations of a group\<close>

text \<open>An operation of group \<open>g\<close> keeps its identity, touches no other consumer and renames none.\<close>

definition group_frame :: "cref set \<Rightarrow> cstore \<Rightarrow> consumer_group \<Rightarrow> cstore \<Rightarrow> consumer_group \<Rightarrow> bool" where
  "group_frame xs cs g cs' g' \<longleftrightarrow> g_id g' = g_id g \<and> g_strategy g' = g_strategy g
     \<and> (\<forall>y. y \<notin> xs \<longrightarrow> cs' y = cs y) \<and> (\<forall>y. c_id (cs' y) = c_id (cs y))"

lemma group_frame_refl [simp]: "group_frame xs cs g cs g" by (simp add: group_frame_def)

lemma set_member_refs_set: "set (member_refs (g\<lparr>g_members := dict_set k x (g_members g)\<rparr>)) \<subseteq> insert x (set (member_refs g))"
  using set_dict_set [of k x "g_members g"] by (auto simp: member_refs_def)

lemma set_member_refs_del: "set (member_refs (g\<lparr>g_members := dict_del k (g_members g)\<rparr>)) \<subseteq> set (member_refs g)"
  by (auto simp: member_refs_def dict_del_filter)

lemma member_in_refs: "dict_get (g_members g) cid = Some x \<Longrightarrow> x \<in> set (member_refs g)"
  by (force simp: member_refs_def dest: map_of_SomeD)

lemma rebalance_frame:
  assumes "group_ok cs g" and "rebalance ps (cs, g) = (cs', g')"
  shows "group_frame (set (member_refs g)) cs g cs' g'"
  using rebalance_settles [OF assms] by (simp add: group_frame_def)

lemma group_join_inv:
  assumes "group_ok cs g" and "group_join ps x (cs, g) = (cs', g')"
  shows "group_ok cs' g' \<and> settled cs' g' \<and> g_subscribed g' = g_subscribed g
    \<and> g_members g' = dict_set (c_id (cs x)) x (g_members g)
    \<and> group_frame (insert x (set (member_refs g))) cs g cs' g'"
proof -
  let ?cs = "update_consumer x (\<lambda>c. c\<lparr>c_config := (c_config c)\<lparr>group_id := g_id g\<rparr>\<rparr>) cs"
  let ?g = "g\<lparr>g_members := dict_set (c_id (cs x)) x (g_members g)\<rparr>"
  have id: "c_id (?cs y) = c_id (cs y)" for y by (simp add: update_consumer_def)
  have ok: "group_ok ?cs ?g"
    using assms(1) set_dict_set [of "c_id (cs x)" x "g_members g"] by (auto simp: group_ok_def id)
  have "rebalance ps (?cs, ?g) = (cs', g')"
    using assms(2) by (simp add: group_join_def Let_def id)
  note re = rebalance_settles [OF ok this] and fr = rebalance_frame [OF ok this]
  have "?cs y = cs y" if "y \<noteq> x" for y using that by (simp add: update_consumer_def)
  then have "group_frame (insert x (set (member_refs g))) cs g cs' g'"
    using fr set_member_refs_set [where g = g and k = "c_id (cs x)" and x = x] id by (auto simp: group_frame_def)
  with re show ?thesis by simp
qed

lemma group_ok_del:
  "group_ok cs g \<Longrightarrow> group_ok (update_consumer x (\<lambda>c. fst (consumer_revoke c)) cs)
    (g\<lparr>g_members := dict_del cid (g_members g)\<rparr>)"
  by (auto simp: group_ok_def update_consumer_def dict_del_filter wf_dict_def distinct_map_filter_inj)

lemma group_leave_inv:
  assumes "group_ok cs g" and "settled cs g" and "group_leave ps cid (cs, g) = ((cs', g'), res)"
  shows "group_ok cs' g' \<and> settled cs' g' \<and> g_subscribed g' = g_subscribed g
    \<and> g_members g' = dict_del cid (g_members g)"
proof (cases "dict_get (g_members g) cid")
  case None
  with assms show ?thesis by (simp add: group_leave_def dict_del_absent)
next
  case (Some x)
  with assms(3) have "rebalance ps (update_consumer x (\<lambda>c. fst (consumer_revoke c)) cs,
      g\<lparr>g_members := dict_del cid (g_members g)\<rparr>) = (cs', g')"
    by (simp add: group_leave_def)
  from rebalance_settles [OF group_ok_del [OF assms(1)] this] show ?thesis by simp
qed

lemma group_leave_frame:
  assumes "group_ok cs g" and "group_leave ps cid (cs, g) = ((cs', g'), res)"
  shows "group_frame (set (member_refs g)) cs g cs' g'"
proof (cases "dict_get (g_members g) cid")
  case None
  with assms show ?thesis by (simp add: group_leave_def)
next
  case (Some x)
  let ?cs = "update_consumer x (\<lambda>c. fst (consumer_revoke c)) cs"
  let ?g = "g\<lparr>g_members := dict_del cid (g_members g)\<rparr>"
  have "rebalance ps (?cs, ?g) = (cs', g')" using assms(2) Some by (simp add: group_leave_def)
  note fr = rebalance_frame [OF group_ok_del [OF assms(1)] this]
  have "x \<in> set (member_refs g)" using member_in_refs [OF Some] .
  then have "?cs y = cs y" if "y \<notin> set (member_refs g)" for y using that by (auto simp: update_consumer_def)
  moreover have "c_id (?cs y) = c_id (cs y)" for y by (simp add: update_consumer_def)
  moreover have "set (member_refs ?g) \<subseteq> set (member_refs g)" by (auto simp: member_refs_def dict_del_filter)
  ultimately show ?thesis using fr by (auto simp: group_frame_def)
qed

lemma group_topics_inv:
  assumes "group_ok cs g"
  shows "group_subscribe ps t refs (cs, g) = (cs', g') \<Longrightarrow> group_ok cs' g' \<and> settled cs' g'
      \<and> g_members g' = g_members g \<and> g_subscribed g' = dict_set t refs (g_subscribed g)
      \<and> group_frame (set (member_refs g)) cs g cs' g'"
    and "group_unsubscribe ps t (cs, g) = (cs', g') \<Longrightarrow> group_ok cs' g' \<and> settled cs' g'
      \<and> g_members g' = g_members g \<and> g_subscribed g' = dict_del t (g_subscribed g)
      \<and> group_frame (set (member_refs g)) cs g cs' g'"
proof -
  have ok: "group_ok cs (g\<lparr>g_subscribed := d\<rparr>)" for d using assms by (simp add: group_ok_def)
  have fr: "group_frame xs cs (g\<lparr>g_subscribed := d\<rparr>) cs1 g1 = group_frame xs cs g cs1 g1" for d xs cs1 g1
    by (simp add: group_frame_def)
  have mem: "member_refs (g\<lparr>g_subscribed := d\<rparr>) = member_refs g" for d by (simp add: member_refs_def)
  show "group_subscribe ps t refs (cs, g) = (cs', g') \<Longrightarrow> group_ok cs' g' \<and> settled cs' g'
      \<and> g_members g' = g_members g \<and> g_subscribed g' = dict_set t refs (g_subscribed g)
      \<and> group_frame (set (member_refs g)) cs g cs' g'"
    using rebalance_settles [OF ok] rebalance_frame [OF ok, unfolded mem fr] by (simp add: group_subscribe_def)
  show "group_unsubscribe ps t (cs, g) = (cs', g') \<Longrightarrow> group_ok cs' g' \<and> settled cs' g'
      \<and> g_members g' = g_members g \<and> g_subscribed g' = dict_del t (g_subscribed g)
      \<and> group_frame (set (member_refs g)) cs g cs' g'"
    using rebalance_settles [OF ok] rebalance_frame [OF ok, unfolded mem fr] by (simp add: group_unsubscribe_def)
qed

lemma remove_dead_fold:
  assumes "group_ok cs g"
    and "fold drop_member dead (cs, g) = (cs', g')"
  shows "group_ok cs' g' \<and> g_subscribed g' = g_subscribed g
    \<and> g_members g' = filter (\<lambda>(cid, x). cid \<notin> set dead) (g_members g)
    \<and> group_frame (set (member_refs g)) cs g cs' g'"
  using assms
proof (induction dead arbitrary: cs g)
  case Nil
  then show ?case by (simp add: case_prod_beta')
next
  case (Cons cid dead)
  show ?case
  proof (cases "dict_get (g_members g) cid")
    case None
    then have "filter (\<lambda>(k, x). k \<notin> set (cid # dead)) (g_members g)
        = filter (\<lambda>(k, x). k \<notin> set dead) (g_members g)"
      by (intro filter_cong refl) (force simp: map_of_eq_None_iff)
    with Cons None show ?thesis by (simp add: drop_member_def)
  next
    case (Some x)
    have "filter (\<lambda>(k, x). k \<notin> set dead) (dict_del cid (g_members g))
        = filter (\<lambda>(k, x). k \<notin> set (cid # dead)) (g_members g)"
      unfolding dict_del_filter filter_filter by (intro filter_cong refl) auto
    moreover have "group_frame (set (member_refs g)) cs g cs' g'"
      if "group_frame (set (member_refs (g\<lparr>g_members := dict_del cid (g_members g)\<rparr>)))
        (update_consumer x (\<lambda>c. fst (consumer_revoke c)) cs) (g\<lparr>g_members := dict_del cid (g_members g)\<rparr>) cs' g'"
      using that set_member_refs_del [where g = g and k = cid] member_in_refs [OF Some]
      by (auto simp: group_frame_def update_consumer_def subset_iff split: if_splits)
    ultimately show ?thesis
      using Cons.IH [OF group_ok_del [OF Cons.prems(1)], of x cid] Cons.prems(2) Some
      by (simp add: drop_member_def)
  qed
qed

lemma remove_dead_inv:
  assumes "group_ok cs g" and "settled cs g" and "remove_dead_members clock ps (cs, g) = ((cs', g'), dead)"
  shows "group_ok cs' g' \<and> settled cs' g' \<and> g_subscribed g' = g_subscribed g
    \<and> g_members g' = filter (\<lambda>(cid, x). is_alive (clock cid) (cs x)) (g_members g)
    \<and> group_frame (set (member_refs g)) cs g cs' g'"
proof -
  let ?dead = "map fst (filter (\<lambda>(cid, x). \<not> is_alive (clock cid) (cs x)) (g_members g))"
  obtain cs1 g1 where one: "fold drop_member ?dead (cs, g) = (cs1, g1)"
    by (cases "fold drop_member ?dead (cs, g)")
  note g1 = remove_dead_fold [OF assms(1) one]
  have dist: "distinct (keys (g_members g))" using assms(1) by (simp add: group_ok_def wf_dict_def)
  have "cid \<notin> set ?dead \<longleftrightarrow> is_alive (clock cid) (cs x)" if "(cid, x) \<in> set (g_members g)" for cid x
  proof
    assume "cid \<notin> set ?dead"
    with that show "is_alive (clock cid) (cs x)" by (simp add: image_iff)
  next
    assume alive: "is_alive (clock cid) (cs x)"
    show "cid \<notin> set ?dead"
    proof
      assume "cid \<in> set ?dead"
      then obtain x' where "(cid, x') \<in> set (g_members g)" "\<not> is_alive (clock cid) (cs x')" by auto
      with alive eq_key_imp_eq_value [OF dist that] show False by metis
    qed
  qed
  then have "filter (\<lambda>(cid, x). cid \<notin> set ?dead) (g_members g)
      = filter (\<lambda>(cid, x). is_alive (clock cid) (cs x)) (g_members g)"
    by (intro filter_cong refl) auto
  with g1 have mem: "g_members g1 = filter (\<lambda>(cid, x). is_alive (clock cid) (cs x)) (g_members g)" by simp
  show ?thesis
  proof (cases "?dead = []")
    case True
    then have "cs1 = cs" "g1 = g" "(cs', g') = (cs, g)"
      using one assms(3) by (auto simp: remove_dead_members_def Let_def)
    with assms(1,2) mem show ?thesis by simp
  next
    case False
    then have "rebalance ps (cs1, g1) = (cs', g')"
      using one assms(3) by (simp add: remove_dead_members_def Let_def split: prod.splits)
    then have re: "group_ok cs' g' \<and> settled cs' g' \<and> g_members g' = g_members g1 \<and> g_subscribed g' = g_subscribed g1"
      and fr: "group_frame (set (member_refs g1)) cs1 g1 cs' g'"
      using rebalance_settles rebalance_frame g1 by blast+
    have "set (member_refs g1) \<subseteq> set (member_refs g)" using g1 by (auto simp: member_refs_def)
    with fr g1 have "group_frame (set (member_refs g)) cs g cs' g'"
      by (auto simp: group_frame_def subset_iff)
    with re g1 mem show ?thesis by simp
  qed
qed

subsection \<open>Every run of a group\<close>

text \<open>
  The operations of a group in any order, and work of the consumers in between (\<open>poll\<close>, \<open>commit\<close>,
  \<open>seek\<close>, \<open>close\<close> change neither ids nor assignments). The consumers belong to this group only:
  a consumer object that joins a second group is reassigned by it.
\<close>

inductive group_step :: "cstore \<times> consumer_group \<Rightarrow> cstore \<times> consumer_group \<Rightarrow> bool" where
  join: "group_step s (group_join ps x s)"
| leave: "group_step s (fst (group_leave ps cid s))"
| subscribe: "group_step s (group_subscribe ps t refs s)"
| unsubscribe: "group_step s (group_unsubscribe ps t s)"
| remove_dead: "group_step s (fst (remove_dead_members clock ps s))"
| work: "(\<And>x. c_id (cs' x) = c_id (cs x) \<and> c_assigned (cs' x) = c_assigned (cs x)) \<Longrightarrow>
    group_step (cs, g) (cs', g)"

lemma group_step_inv:
  assumes "group_step s t" and "group_ok (fst s) (snd s)" and "settled (fst s) (snd s)"
  shows "group_ok (fst t) (snd t) \<and> settled (fst t) (snd t)"
  using assms
proof (induction rule: group_step.induct)
  case (join s ps x)
  obtain cs g where s: "s = (cs, g)" by (cases s)
  obtain cs' g' where t: "group_join ps x (cs, g) = (cs', g')" by (cases "group_join ps x (cs, g)")
  show ?case using group_join_inv [OF _ t] join.prems by (simp add: s t)
next
  case (leave s ps cid)
  obtain cs g where s: "s = (cs, g)" by (cases s)
  obtain u res where u: "group_leave ps cid (cs, g) = (u, res)" by (cases "group_leave ps cid (cs, g)")
  obtain cs' g' where t: "u = (cs', g')" by (cases u)
  show ?case using group_leave_inv [of cs g ps cid cs' g' res] leave.prems by (simp add: s t u)
next
  case (subscribe s ps t refs)
  obtain cs g where s: "s = (cs, g)" by (cases s)
  obtain cs' g' where u: "group_subscribe ps t refs (cs, g) = (cs', g')"
    by (cases "group_subscribe ps t refs (cs, g)")
  show ?case using group_topics_inv(1) [OF _ u] subscribe.prems by (simp add: s u)
next
  case (unsubscribe s ps t)
  obtain cs g where s: "s = (cs, g)" by (cases s)
  obtain cs' g' where u: "group_unsubscribe ps t (cs, g) = (cs', g')"
    by (cases "group_unsubscribe ps t (cs, g)")
  show ?case using group_topics_inv(2) [OF _ u] unsubscribe.prems by (simp add: s u)
next
  case (remove_dead s clock ps)
  obtain cs g where s: "s = (cs, g)" by (cases s)
  obtain u dead where u: "remove_dead_members clock ps (cs, g) = (u, dead)"
    by (cases "remove_dead_members clock ps (cs, g)")
  obtain cs' g' where t: "u = (cs', g')" by (cases u)
  show ?case using remove_dead_inv [of cs g clock ps cs' g' dead] remove_dead.prems by (simp add: s t u)
next
  case (work cs' cs g)
  then show ?case by (simp add: group_ok_def settled_def shares_of_def)
qed

lemma group_run_inv:
  "group_step\<^sup>*\<^sup>* (cs0, group_new gid st) t \<Longrightarrow> group_ok (fst t) (snd t) \<and> settled (fst t) (snd t)"
proof (induction rule: rtranclp_induct)
  case base
  then show ?case by (simp add: group_ok_def settled_def group_new_def)
next
  case (step t u)
  then show ?case using group_step_inv by blast
qed

lemma settled_once:
  assumes inv: "group_ok cs g" "settled cs g" and "g_members g \<noteq> []" and "distinct (all_partitions g)"
  shows "mset (concat (map (\<lambda>x. c_assigned (cs x)) (member_refs g))) = mset (all_partitions g)
    \<and> (\<forall>p \<in> set (all_partitions g). \<exists>!x. x \<in> set (member_refs g) \<and> p \<in> set (c_assigned (cs x)))
    \<and> (\<forall>x \<in> set (member_refs g). \<forall>y \<in> set (member_refs g).
         length (c_assigned (cs x)) \<le> Suc (length (c_assigned (cs y))))"
proof -
  let ?xs = "member_refs g" and ?refs = "all_partitions g" and ?n = "length (g_members g)"
  let ?split = "strategy_split (g_strategy g) ?n ?refs"
  have n: "0 < ?n" using assms(3) by simp
  have sh: "map (\<lambda>x. c_assigned (cs x)) ?xs = ?split"
    using inv(2) assms(3) by (simp add: settled_def shares_of_def)
  have nth: "c_assigned (cs (?xs ! j)) = ?split ! j" if "j < ?n" for j
    using arg_cong [OF sh, of "\<lambda>l. l ! j"] that by simp
  have "mset (concat (map (\<lambda>x. c_assigned (cs x)) ?xs)) = mset ?refs"
    unfolding sh by (rule strategy.everything [OF n])
  moreover have "\<exists>!x. x \<in> set ?xs \<and> p \<in> set (c_assigned (cs x))" if p: "p \<in> set ?refs" for p
  proof -
    obtain j where j: "j < ?n" "p \<in> set (?split ! j)" using strategy.covers [OF n p] by blast
    have "y = ?xs ! j" if y: "y \<in> set ?xs" "p \<in> set (c_assigned (cs y))" for y
    proof -
      obtain i where i: "i < ?n" "y = ?xs ! i" using y(1) by (auto simp: in_set_conv_nth)
      then have "p \<in> set (?split ! i)" using y(2) nth by simp
      with j strategy.disjoint [OF n assms(4), of i j] strategy.disjoint [OF n assms(4), of j i] i
      have "i = j" by (cases i j rule: linorder_cases) auto
      with i show ?thesis by simp
    qed
    then show ?thesis using j nth [OF j(1)] by (intro ex1I [of _ "?xs ! j"]) auto
  qed
  moreover
  have "length (c_assigned (cs x)) \<in> {length ?refs div ?n, Suc (length ?refs div ?n)}"
    if x: "x \<in> set ?xs" for x
  proof -
    obtain j where j: "j < ?n" "x = ?xs ! j" using x by (auto simp: in_set_conv_nth)
    have "length (?split ! j) \<in> {length ?refs div ?n, Suc (length ?refs div ?n)}"
      using n j(1) by (rule strategy.balanced)
    then show ?thesis unfolding j(2) nth [OF j(1)] .
  qed
  note len = this
  have "length (c_assigned (cs x)) \<le> Suc (length (c_assigned (cs y)))"
    if "x \<in> set ?xs" "y \<in> set ?xs" for x y
    using len [OF that(1)] len [OF that(2)] by auto
  ultimately show ?thesis by blast
qed

text \<open>C19. In every state a group reaches, by joins, leaves, subscriptions, removal of dead members and
  the work of its consumers, with members present: the members' assignments together are exactly
  the subscribed partitions, each partition (listed once) belongs to exactly one member, and any
  two members' numbers of partitions differ by at most one.\<close>

theorem group_partitions_once:
  assumes "group_step\<^sup>*\<^sup>* (cs0, group_new gid st) (cs, g)" and "g_members g \<noteq> []"
    and "distinct (all_partitions g)"
  shows "mset (concat (map (\<lambda>x. c_assigned (cs x)) (member_refs g))) = mset (all_partitions g)
    \<and> (\<forall>p \<in> set (all_partitions g). \<exists>!x. x \<in> set (member_refs g) \<and> p \<in> set (c_assigned (cs x)))
    \<and> (\<forall>x \<in> set (member_refs g). \<forall>y \<in> set (member_refs g).
         length (c_assigned (cs x)) \<le> Suc (length (c_assigned (cs y))))"
  using group_run_inv [OF assms(1)] settled_once [OF _ _ assms(2,3), of cs] by simp

lemma group_partitions_once_witness:
  "\<exists>cs0 cs g. group_step\<^sup>*\<^sup>* (cs0, group_new ''g'' ROUND_ROBIN) (cs, g)
    \<and> all_partitions g = [5, 6, 7]
    \<and> mset (concat (map (\<lambda>x. c_assigned (cs x)) (member_refs g))) = {#5, 6, 7#}"
proof -
  obtain ps :: pstore where "True" by simp
  let ?cs0 = "(\<lambda>_. consumer_new ''a'' default_consumer_config 0 0)
    (1 := consumer_new ''b'' default_consumer_config 0 0)" and ?g0 = "group_new ''g'' ROUND_ROBIN"
  obtain cs1 g1 where j1: "group_join ps 0 (?cs0, ?g0) = (cs1, g1)" by (cases "group_join ps 0 (?cs0, ?g0)")
  obtain cs2 g2 where j2: "group_join ps 1 (cs1, g1) = (cs2, g2)" by (cases "group_join ps 1 (cs1, g1)")
  obtain cs g where s: "group_subscribe ps ''t'' [5, 6, 7] (cs2, g2) = (cs, g)"
    by (cases "group_subscribe ps ''t'' [5, 6, 7] (cs2, g2)")
  have ok: "group_ok ?cs0 ?g0" by (simp add: group_ok_def group_new_def)
  note i1 = group_join_inv [OF ok j1]
  note i2 = group_join_inv [OF conjunct1 [OF i1] j2]
  note i3 = group_topics_inv(1) [OF conjunct1 [OF i2] s]
  have run: "group_step\<^sup>*\<^sup>* (?cs0, ?g0) (cs, g)"
    using group_step.join [of "(?cs0, ?g0)" ps 0] group_step.join [of "(cs1, g1)" ps 1]
      group_step.subscribe [of "(cs2, g2)" ps "''t''" "[5, 6, 7]"] unfolding j1 j2 s
    by (meson converse_rtranclp_into_rtranclp rtranclp.rtrancl_refl)
  have all: "all_partitions g = [5, 6, 7]"
    using i1 i2 i3 by (simp add: all_partitions_def group_new_def)
  have "g_members g \<noteq> []" using i2 i3 by simp
  from group_partitions_once [OF run this] all run show ?thesis
    by (intro exI [of _ ?cs0] exI [of _ cs] exI [of _ g]) simp
qed

end
