(* ===== verification/Consumer_Poll.thy ===== *)
theory Consumer_Poll
  imports Consumer
begin

section \<open>Polling and committing\<close>

text \<open>
  What one consumer's \<open>poll\<close>, \<open>commit\<close> and \<open>assign\<close> do to its positions and to the committed
  offsets: when polling loses nothing, when it does, and where reading resumes.
\<close>

definition position_of :: "pstore \<Rightarrow> consumer \<Rightarrow> pref \<Rightarrow> int" where
  "position_of ps c p = dict_get_default (c_offsets c) (pkey ps p) 0"

text \<open>The partitions of a consumer have different names or numbers.\<close>

abbreviation keyed :: "pstore \<Rightarrow> pref list \<Rightarrow> bool" where
  "keyed ps refs \<equiv> distinct (map (pkey ps) refs)"

lemma position_of_position: "position c (p_topic (ps p)) (p_id (ps p)) = position_of ps c p"
  by (simp add: position_def position_of_def pkey_def)

lemma partition_read_length: "0 \<le> n \<Longrightarrow> length (partition_read ms p pos n) \<le> nat n"
  by (auto simp: partition_read_def Let_def slice_simps split: list.split)

subsection \<open>Polling\<close>

definition batch_of :: "mstore \<Rightarrow> pstore \<Rightarrow> consumer \<Rightarrow> int \<Rightarrow> pref \<Rightarrow> mref list" where
  "batch_of ms ps c n p = partition_read ms (ps p) (position_of ps c p) n"

definition after_batch :: "mstore \<Rightarrow> int \<Rightarrow> mref list \<Rightarrow> int" where
  "after_batch ms pos batch = (if batch = [] then pos else m_offset (ms (last batch)) + 1)"

lemma poll_fold:
  assumes "keyed ps refs"
  shows "fst (fold (poll_one ms ps n) refs (msgs, offs))
      = msgs @ concat (map (\<lambda>p. partition_read ms (ps p) (dict_get_default offs (pkey ps p) 0) n) refs)
    \<and> (\<forall>k. dict_get_default (snd (fold (poll_one ms ps n) refs (msgs, offs))) k 0 =
        (case List.find (\<lambda>p. pkey ps p = k) refs of
           None \<Rightarrow> dict_get_default offs k 0
         | Some p \<Rightarrow> after_batch ms (dict_get_default offs k 0)
             (partition_read ms (ps p) (dict_get_default offs k 0) n)))"
  using assms
proof (induction refs arbitrary: msgs offs)
  case Nil
  then show ?case by simp
next
  case (Cons p refs)
  let ?pos = "dict_get_default offs (pkey ps p) 0"
  let ?batch = "partition_read ms (ps p) ?pos n"
  define offs' where "offs' = (if ?batch \<noteq> [] then dict_set (pkey ps p) (m_offset (ms (last ?batch)) + 1) offs else offs)"
  have step: "fold (poll_one ms ps n) (p # refs) (msgs, offs) = fold (poll_one ms ps n) refs (msgs @ ?batch, offs')"
    by (simp add: poll_one_def Let_def offs'_def)
  have get: "dict_get_default offs' k 0 = (if k = pkey ps p then after_batch ms ?pos ?batch else dict_get_default offs k 0)" for k
    by (simp add: offs'_def after_batch_def dict_get_default_def)
  have other: "pkey ps q \<noteq> pkey ps p" if "q \<in> set refs" for q
    using Cons.prems that by (auto simp: image_iff)
  have "concat (map (\<lambda>q. partition_read ms (ps q) (dict_get_default offs' (pkey ps q) 0) n) refs)
      = concat (map (\<lambda>q. partition_read ms (ps q) (dict_get_default offs (pkey ps q) 0) n) refs)"
    by (intro arg_cong [of _ _ concat] map_cong refl) (simp add: get other)
  moreover have "List.find (\<lambda>q. pkey ps q = pkey ps p) refs = None"
    using other by (auto simp: find_None_iff)
  ultimately show ?case
    unfolding step using Cons.IH [of "msgs @ ?batch" offs'] Cons.prems
    by (auto simp: get split: option.split)
qed

lemma find_key: "keyed ps refs \<Longrightarrow> p \<in> set refs \<Longrightarrow> List.find (\<lambda>q. pkey ps q = pkey ps p) refs = Some p"
  by (induction refs) (auto simp: image_iff)

lemma poll_fold_at:
  assumes "keyed ps refs" and "p \<in> set refs"
  shows "dict_get_default (snd (fold (poll_one ms ps n) refs (msgs, offs))) (pkey ps p) 0
    = after_batch ms (dict_get_default offs (pkey ps p) 0)
        (partition_read ms (ps p) (dict_get_default offs (pkey ps p) 0) n)"
proof -
  show ?thesis
    by (simp only: find_key [OF assms] poll_fold [OF assms(1), of ms n msgs offs, THEN conjunct2, THEN spec] option.case)
qed

text \<open>Committing changes committed offsets only.\<close>

lemma do_commit_fold:
  "fold (\<lambda>p (ps, d). let offset = dict_get_default offs (pkey ps p) 0
       in (ps(p := commit_offset g offset (ps p)), dict_set (pkey ps p) offset d)) refs (ps, d) = (ps', d') \<Longrightarrow>
    (\<forall>p. ps' p = (if p \<in> set refs then commit_offset g (dict_get_default offs (pkey ps p) 0) (ps p) else ps p))
    \<and> (\<forall>p \<in> set refs. dict_get d' (pkey ps p) = Some (dict_get_default offs (pkey ps p) 0))
    \<and> (\<forall>k. k \<notin> pkey ps ` set refs \<longrightarrow> dict_get d' k = dict_get d k)"
proof (induction refs arbitrary: ps d)
  case Nil
  then show ?case by simp
next
  case (Cons p refs)
  let ?ps = "ps(p := commit_offset g (dict_get_default offs (pkey ps p) 0) (ps p))"
  let ?d = "dict_set (pkey ps p) (dict_get_default offs (pkey ps p) 0) d"
  have key: "pkey ?ps q = pkey ps q" for q by (simp add: pkey_def commit_offset_def)
  have twice: "commit_offset g x (commit_offset g x q) = commit_offset g x q" for x q
    by (simp add: commit_offset_def)
  from Cons.prems have "fold (\<lambda>p (ps, d). let offset = dict_get_default offs (pkey ps p) 0
       in (ps(p := commit_offset g offset (ps p)), dict_set (pkey ps p) offset d)) refs (?ps, ?d) = (ps', d')"
    by (simp add: Let_def del: fun_upd_apply)
  note IH = Cons.IH [OF this, unfolded key]
  have "dict_get d' (pkey ps p) = Some (dict_get_default offs (pkey ps p) 0)"
  proof (cases "pkey ps p \<in> pkey ps ` set refs")
    case True
    then obtain q where "q \<in> set refs" "pkey ps p = pkey ps q" by blast
    with IH show ?thesis by simp
  next
    case False
    then have "dict_get d' (pkey ps p) = dict_get ?d (pkey ps p)"
      using IH [THEN conjunct2, THEN conjunct2, THEN spec] by blast
    then show ?thesis by simp
  qed
  with IH show ?case by (auto simp: twice)
qed

text \<open>Committing records, for the consumer's group, its position in every assigned partition, and
  returns these positions; the committed offsets of other groups, the logs and the partitions of
  others stay as they are.\<close>

theorem commit_correct:
  assumes "consumer_commit now ps c = ((ps', c'), committed)" and "g = group_id (c_config c)"
  shows "(\<forall>p \<in> set (c_assigned c). get_committed_offset (ps' p) g = position_of ps c p
        \<and> dict_get committed (pkey ps p) = Some (position_of ps c p)
        \<and> ps' p = (ps p)\<lparr>p_committed := p_committed (ps' p)\<rparr>)
    \<and> (\<forall>p g'. g' \<noteq> g \<longrightarrow> get_committed_offset (ps' p) g' = get_committed_offset (ps p) g')
    \<and> (\<forall>p. p \<notin> set (c_assigned c) \<longrightarrow> ps' p = ps p)
    \<and> c_offsets c' = c_offsets c"
proof -
  have c': "c' = c\<lparr>c_last_commit := now\<rparr>"
    and f: "fold (\<lambda>p (ps, d). let offset = dict_get_default (c_offsets c) (pkey ps p) 0
       in (ps(p := commit_offset g offset (ps p)), dict_set (pkey ps p) offset d)) (c_assigned c) (ps, [])
      = (ps', committed)"
    using assms by (auto simp: consumer_commit_def do_commit_def split: prod.splits)
  from do_commit_fold [OF f] c' show ?thesis
    by (simp add: position_of_def get_committed_offset_def commit_offset_def dict_get_default_def)
qed

subsection \<open>One poll\<close>

text \<open>What happens to the partitions of a store when only committed offsets change.\<close>

definition only_commits :: "pstore \<Rightarrow> pstore \<Rightarrow> bool" where
  "only_commits ps ps' \<longleftrightarrow> (\<forall>p. ps' p = (ps p)\<lparr>p_committed := p_committed (ps' p)\<rparr>)"

lemma only_commits_refl [simp]: "only_commits ps ps" by (simp add: only_commits_def)

lemma only_commits_same:
  assumes "only_commits ps ps'"
  shows "p_log (ps' p) = p_log (ps p)" "pkey ps' p = pkey ps p"
    "partition_read ms (ps' p) pos n = partition_read ms (ps p) pos n"
    "ordered ms (ps' p) = ordered ms (ps p)" "dense ms (ps' p) = dense ms (ps p)"
proof -
  obtain d where "ps' p = (ps p)\<lparr>p_committed := d\<rparr>" using assms by (auto simp: only_commits_def)
  then show "p_log (ps' p) = p_log (ps p)" "pkey ps' p = pkey ps p"
    "partition_read ms (ps' p) pos n = partition_read ms (ps p) pos n"
    "ordered ms (ps' p) = ordered ms (ps p)" "dense ms (ps' p) = dense ms (ps p)"
    by (simp_all add: pkey_def partition_read_def ordered_def dense_def Let_def split: list.split)
qed

lemma do_commit_effect:
  assumes "do_commit now ps c = ((ps', c'), committed)"
  shows "only_commits ps ps'" "c' = c\<lparr>c_last_commit := now\<rparr>"
proof -
  show "c' = c\<lparr>c_last_commit := now\<rparr>" using assms by (auto simp: do_commit_def split: prod.splits)
  let ?g = "group_id (c_config c)"
  have f: "fold (\<lambda>p (ps, d). let offset = dict_get_default (c_offsets c) (pkey ps p) 0
       in (ps(p := commit_offset ?g offset (ps p)), dict_set (pkey ps p) offset d)) (c_assigned c) (ps, [])
      = (ps', committed)"
    using assms by (auto simp: do_commit_def split: prod.splits)
  show "only_commits ps ps'" using do_commit_fold [OF f] by (simp add: only_commits_def commit_offset_def)
qed

lemma poll_fold_length:
  "1 \<le> n \<Longrightarrow> fold (poll_one ms ps n) refs (msgs, offs) = (msgs', offs') \<Longrightarrow>
    int (length msgs') \<le> int (length msgs) + n * int (length refs)"
proof (induction refs arbitrary: msgs offs)
  case (Cons p refs)
  let ?batch = "partition_read ms (ps p) (dict_get_default offs (pkey ps p) 0) n"
  have "int (length ?batch) \<le> n"
    using partition_read_length [of n ms "ps p" "dict_get_default offs (pkey ps p) 0"] Cons.prems(1) by simp
  moreover obtain offs1 where "poll_one ms ps n p (msgs, offs) = (msgs @ ?batch, offs1)"
    by (simp add: poll_one_def Let_def)
  with Cons.prems(2) have "fold (poll_one ms ps n) refs (msgs @ ?batch, offs1) = (msgs', offs')" by simp
  from Cons.IH [OF Cons.prems(1) this]
  have "int (length msgs') \<le> int (length msgs) + int (length ?batch) + n * int (length refs)" by simp
  ultimately show ?case by (simp add: algebra_simps)
qed simp

text \<open>The general effect of a poll; \<open>fetched\<close> is what the loop read before the cut to the limit.\<close>

lemma poll_effect:
  assumes "consumer_poll now1 now2 now3 ms ps k c = ((ps', c'), out)" and "keyed ps (c_assigned c)"
    and "c_assigned c \<noteq> []" and "n = max 1 (poll_limit k c div int (length (c_assigned c)))"
    and "fetched = concat (map (batch_of ms ps c n) (c_assigned c))"
  shows "out = py_slice fetched 0 (poll_limit k c)" "only_commits ps ps'"
    "p \<in> set (c_assigned c) \<Longrightarrow> position_of ps' c' p = after_batch ms (position_of ps c p) (batch_of ms ps c n p)"
    "c_assigned c' = c_assigned c" "c_config c' = c_config c"
    "c_total_consumed c' = c_total_consumed c + int (length fetched)"
    "int (length fetched) \<le> n * int (length (c_assigned c))"
proof -
  let ?refs = "c_assigned c"
  obtain msgs offs where f: "fold (poll_one ms ps n) ?refs ([], c_offsets c) = (msgs, offs)"
    by (cases "fold (poll_one ms ps n) ?refs ([], c_offsets c)")
  have msgs: "msgs = fetched"
    using poll_fold [OF assms(2), of ms n "[]" "c_offsets c", THEN conjunct1] f assms(5)
    by (simp add: batch_of_def [abs_def] position_of_def)
  have offs: "dict_get_default offs (pkey ps p) 0 = after_batch ms (position_of ps c p) (batch_of ms ps c n p)"
    if "p \<in> set ?refs" for p
    using poll_fold_at [OF assms(2) that, of ms n "[]" "c_offsets c"] f
    by (simp add: batch_of_def position_of_def)
  define c1 where "c1 = c\<lparr>c_last_poll := now1, c_offsets := offs,
    c_total_consumed := c_total_consumed c + int (length msgs)\<rparr>"
  obtain ps2 c2 where two: "(if auto_commit (c_config c) \<and> now2 - c_last_commit c1 \<ge> auto_commit_interval (c_config c)
        then fst (do_commit now3 ps c1) else (ps, c1)) = (ps2, c2)" (is "?r = _") by (cases ?r)
  have res: "ps' = ps2" "c' = c2" "out = py_slice msgs 0 (poll_limit k c)"
    using assms(1,3) f two by (simp_all add: consumer_poll_def Let_def c1_def assms(4) [symmetric] split: if_split_asm)
  have eff: "only_commits ps ps2 \<and> (\<exists>t. c2 = c1\<lparr>c_last_commit := t\<rparr>)"
  proof (cases "auto_commit (c_config c) \<and> now2 - c_last_commit c1 \<ge> auto_commit_interval (c_config c)")
    case True
    obtain com where "do_commit now3 ps c1 = ((ps2, c2), com)"
      using two True by (cases "do_commit now3 ps c1") simp
    from do_commit_effect [OF this] show ?thesis by blast
  next
    case False
    then have "ps2 = ps" "c2 = c1" using two unfolding if_not_P [OF False] by simp_all
    have "c1 = c1\<lparr>c_last_commit := c_last_commit c1\<rparr>" by simp
    then have "\<exists>t. c2 = c1\<lparr>c_last_commit := t\<rparr>" unfolding \<open>c2 = c1\<close> by (rule exI)
    then show ?thesis unfolding \<open>ps2 = ps\<close> by simp
  qed
  then obtain t where c2: "c2 = c1\<lparr>c_last_commit := t\<rparr>" by blast
  show "out = py_slice fetched 0 (poll_limit k c)" using res msgs by simp
  show oc: "only_commits ps ps'" using eff res by simp
  show "c_assigned c' = c_assigned c" "c_config c' = c_config c"
    "c_total_consumed c' = c_total_consumed c + int (length fetched)"
    using res c2 msgs by (simp_all add: c1_def)
  show "position_of ps' c' p = after_batch ms (position_of ps c p) (batch_of ms ps c n p)"
    if "p \<in> set (c_assigned c)"
    using offs [OF that] res c2 only_commits_same(2) [OF oc, of p] by (simp add: c1_def position_of_def)
  show "int (length fetched) \<le> n * int (length (c_assigned c))"
    using poll_fold_length [OF _ f] assms(4) msgs by simp
qed

lemma py_slice_all: "int (length xs) \<le> k \<Longrightarrow> py_slice xs 0 k = xs"
  by (simp add: slice_simps)

lemma max_div_le:
  fixes m k :: int
  assumes "0 < m" "m \<le> k"
  shows "max 1 (k div m) = k div m" "k div m * m \<le> k" "0 < k div m"
proof -
  show "0 < k div m" using assms by (simp add: pos_imp_zdiv_pos_iff)
  then show "max 1 (k div m) = k div m" by simp
  have "k div m * m = k - k mod m" by (simp add: minus_mod_eq_div_mult)
  moreover have "0 \<le> k mod m" using assms by simp
  ultimately show "k div m * m \<le> k" by linarith
qed

text \<open>With at least one message per partition allowed, nothing that was read is cut off.\<close>

lemma poll_within_limit:
  assumes "consumer_poll now1 now2 now3 ms ps k c = ((ps', c'), out)" and "keyed ps (c_assigned c)"
    and "c_assigned c \<noteq> []" and "int (length (c_assigned c)) \<le> poll_limit k c"
    and "n = poll_limit k c div int (length (c_assigned c))"
  shows "out = concat (map (batch_of ms ps c n) (c_assigned c))" "int (length out) \<le> poll_limit k c" "0 < n"
    "only_commits ps ps'"
    "p \<in> set (c_assigned c) \<Longrightarrow> position_of ps' c' p = after_batch ms (position_of ps c p) (batch_of ms ps c n p)"
    "c_assigned c' = c_assigned c" "c_config c' = c_config c"
    "c_total_consumed c' = c_total_consumed c + int (length out)"
proof -
  let ?m = "int (length (c_assigned c))"
  have m: "0 < ?m" using assms(3) by simp
  note arith = max_div_le [OF m assms(4), folded assms(5)]
  define fetched where "fetched = concat (map (batch_of ms ps c n) (c_assigned c))"
  have n: "n = max 1 (poll_limit k c div int (length (c_assigned c)))" using arith(1) assms(5) by simp
  note eff = poll_effect [OF assms(1-3) n fetched_def]
  have len: "int (length fetched) \<le> poll_limit k c" using eff(7) arith(2) by simp
  then have out: "out = fetched" using eff(1) by (simp add: py_slice_all)
  show "out = concat (map (batch_of ms ps c n) (c_assigned c))" using out by (simp add: fetched_def)
  show "int (length out) \<le> poll_limit k c" using len out by simp
  show "0 < n" by (rule arith(3))
  show "only_commits ps ps'" "c_assigned c' = c_assigned c" "c_config c' = c_config c" by (fact eff)+
  show "c_total_consumed c' = c_total_consumed c + int (length out)" using eff(6) out by simp
  show "p \<in> set (c_assigned c) \<Longrightarrow> position_of ps' c' p = after_batch ms (position_of ps c p) (batch_of ms ps c n p)"
    by (rule eff(3))
qed

subsection \<open>A consumer that keeps polling\<close>

text \<open>What a partition still has for a consumer.\<close>

definition unread :: "mstore \<Rightarrow> pstore \<Rightarrow> consumer \<Rightarrow> pref \<Rightarrow> mref list" where
  "unread ms ps c p = filter (\<lambda>r. position_of ps c p \<le> m_offset (ms r)) (p_log (ps p))"

text \<open>One poll per element, which holds the poll's three readings of the clock.\<close>

fun polls :: "mstore \<Rightarrow> int option \<Rightarrow> (real \<times> real \<times> real) list \<Rightarrow> pstore \<times> consumer \<Rightarrow>
    (pstore \<times> consumer) \<times> mref list" where
  "polls ms k [] s = (s, [])"
| "polls ms k ((n1, n2, n3) # ts) s =
     (let (s1, out) = consumer_poll n1 n2 n3 ms (fst s) k (snd s);
          (s2, outs) = polls ms k ts s1
      in (s2, out @ outs))"

text \<open>What polling needs to deliver everything: no two partitions with the same name and number, a limit
  that is not below their number, logs in order and without gaps, no message in two logs.\<close>

definition can_poll :: "mstore \<Rightarrow> pstore \<Rightarrow> int option \<Rightarrow> consumer \<Rightarrow> bool" where
  "can_poll ms ps k c \<longleftrightarrow>
     keyed ps (c_assigned c) \<and> c_assigned c \<noteq> [] \<and> int (length (c_assigned c)) \<le> poll_limit k c
     \<and> (\<forall>p \<in> set (c_assigned c). ordered ms (ps p) \<and> dense ms (ps p))
     \<and> (\<forall>p \<in> set (c_assigned c). \<forall>q \<in> set (c_assigned c).
          p \<noteq> q \<longrightarrow> set (p_log (ps p)) \<inter> set (p_log (ps q)) = {})"

lemma batch_of_unread:
  assumes "ordered ms (ps p)" "dense ms (ps p)" "0 < n"
  shows "batch_of ms ps c n p = take (nat n) (unread ms ps c p)"
    "filter (\<lambda>r. after_batch ms (position_of ps c p) (batch_of ms ps c n p) \<le> m_offset (ms r)) (p_log (ps p))
       = drop (nat n) (unread ms ps c p)"
proof -
  show b: "batch_of ms ps c n p = take (nat n) (unread ms ps c p)"
    using assms by (simp add: batch_of_def unread_def partition_read_spec)
  show "filter (\<lambda>r. after_batch ms (position_of ps c p) (batch_of ms ps c n p) \<le> m_offset (ms r)) (p_log (ps p))
       = drop (nat n) (unread ms ps c p)"
  proof (cases "unread ms ps c p = []")
    case True
    then show ?thesis unfolding b by (simp add: after_batch_def) (simp add: unread_def)
  next
    case False
    have srt: "sorted_wrt (<) (map (\<lambda>r. m_offset (ms r)) (p_log (ps p)))"
      using assms(1) by (simp add: ordered_def)
    show ?thesis
      using plog.rest_after_take [OF srt, where k = "nat n" and pos = "position_of ps c p"] False assms(3)
      unfolding b by (simp add: after_batch_def unread_def)
  qed
qed

lemma filter_concat_one:
  assumes "distinct xs" and "p \<in> set xs" and "\<And>q. q \<in> set xs \<Longrightarrow> set (f q) \<subseteq> L q"
    and "\<And>q. q \<in> set xs \<Longrightarrow> q \<noteq> p \<Longrightarrow> L q \<inter> L p = {}"
  shows "filter (\<lambda>r. r \<in> L p) (concat (map f xs)) = f p"
proof -
  obtain ys zs where xs: "xs = ys @ p # zs" using assms(2) by (auto dest: split_list)
  have none: "filter (\<lambda>r. r \<in> L p) (f q) = []" if "q \<in> set ys \<union> set zs" for q
  proof -
    have "q \<in> set xs" "q \<noteq> p" using that assms(1) xs by auto
    then show ?thesis using assms(3,4) [of q] by (fastforce simp: filter_empty_conv)
  qed
  have "filter (\<lambda>r. r \<in> L p) (f p) = f p" using assms(2) assms(3) [of p] by (auto simp: filter_id_conv)
  moreover have "filter (\<lambda>r. r \<in> L p) (concat (map f ys)) = []"
    "filter (\<lambda>r. r \<in> L p) (concat (map f zs)) = []"
    using none by (auto simp: filter_concat filter_empty_conv)
  ultimately show ?thesis by (simp add: xs)
qed

lemma poll_progress:
  assumes "consumer_poll now1 now2 now3 ms ps k c = ((ps', c'), out)" and "can_poll ms ps k c"
    and "n = poll_limit k c div int (length (c_assigned c))" and "p \<in> set (c_assigned c)"
  shows "can_poll ms ps' k c'" "poll_limit k c' = poll_limit k c" "c_assigned c' = c_assigned c"
    "p_log (ps' p) = p_log (ps p)" "unread ms ps' c' p = drop (nat n) (unread ms ps c p)"
    "filter (\<lambda>r. r \<in> set (p_log (ps p))) out = take (nat n) (unread ms ps c p)"
proof -
  have can: "keyed ps (c_assigned c)" "c_assigned c \<noteq> []" "int (length (c_assigned c)) \<le> poll_limit k c"
    and good: "\<And>p. p \<in> set (c_assigned c) \<Longrightarrow> ordered ms (ps p) \<and> dense ms (ps p)"
    and disj: "\<And>p q. p \<in> set (c_assigned c) \<Longrightarrow> q \<in> set (c_assigned c) \<Longrightarrow> p \<noteq> q \<Longrightarrow>
        set (p_log (ps p)) \<inter> set (p_log (ps q)) = {}"
    using assms(2) by (auto simp: can_poll_def)
  note eff = poll_within_limit [OF assms(1) can assms(3)]
  note same = only_commits_same [OF eff(4)]
  show lim: "poll_limit k c' = poll_limit k c" by (simp add: poll_limit_def eff(7) split: option.split)
  show asg: "c_assigned c' = c_assigned c" by (rule eff(6))
  have "pkey ps' = pkey ps" by (rule ext) (rule same(2))
  then show "can_poll ms ps' k c'" using assms(2) by (simp add: can_poll_def lim asg same)
  show "p_log (ps' p) = p_log (ps p)" by (rule same(1))
  note batch = batch_of_unread [of ms ps _ n c, OF _ _ eff(3)]
  show "unread ms ps' c' p = drop (nat n) (unread ms ps c p)"
    using batch(2) [of p] good [OF assms(4)] eff(5) [OF assms(4)]
    by (simp add: unread_def [of ms ps' c'] same(1))
  have "set (batch_of ms ps c n q) \<subseteq> set (p_log (ps q))" if "q \<in> set (c_assigned c)" for q
    using batch(1) [of q] good [OF that] set_take_subset [of "nat n" "unread ms ps c q"]
    by (auto simp: unread_def)
  then have "filter (\<lambda>r. r \<in> set (p_log (ps p))) out = batch_of ms ps c n p"
    unfolding eff(1) using can(1) assms(4) disj
    by (intro filter_concat_one [where L = "\<lambda>q. set (p_log (ps q))"]) (auto simp: distinct_map)
  then show "filter (\<lambda>r. r \<in> set (p_log (ps p))) out = take (nat n) (unread ms ps c p)"
    using batch(1) [of p] good [OF assms(4)] by simp
qed

lemma polls_progress:
  assumes "polls ms k ts (ps, c) = ((ps', c'), out)" and "can_poll ms ps k c"
    and "n = poll_limit k c div int (length (c_assigned c))" and "p \<in> set (c_assigned c)"
  shows "filter (\<lambda>r. r \<in> set (p_log (ps p))) out = take (length ts * nat n) (unread ms ps c p)
    \<and> unread ms ps' c' p = drop (length ts * nat n) (unread ms ps c p)"
  using assms
proof (induction ts arbitrary: ps c out)
  case Nil
  then show ?case by simp
next
  case (Cons t ts)
  obtain n1 n2 n3 where t: "t = (n1, n2, n3)" by (cases t)
  obtain ps1 c1 out1 where one: "consumer_poll n1 n2 n3 ms ps k c = ((ps1, c1), out1)"
    by (metis surj_pair)
  obtain out2 where two: "polls ms k ts (ps1, c1) = ((ps', c'), out2)" and out: "out = out1 @ out2"
    using Cons.prems(1) by (auto simp: t one split: prod.splits)
  note step = poll_progress [OF one Cons.prems(2-4)]
  have "filter (\<lambda>r. r \<in> set (p_log (ps1 p))) out2 = take (length ts * nat n) (unread ms ps1 c1 p)
      \<and> unread ms ps' c' p = drop (length ts * nat n) (unread ms ps1 c1 p)"
    by (rule Cons.IH [OF two step(1)]) (simp_all add: step(2,3) Cons.prems)
  then show ?case
    by (simp add: out step(4-6) take_add drop_drop add.commute)
qed

text \<open>One poll: a consumer whose limit allows one message per assigned partition gets, partition by
  partition, the messages read from its positions, never more than the limit; each position
  moves behind the last message it got, or stays when there was none; no log changes.\<close>

theorem poll_correct:
  assumes "consumer_poll now1 now2 now3 ms ps k c = ((ps', c'), out)" and "keyed ps (c_assigned c)"
    and "c_assigned c \<noteq> []" and "int (length (c_assigned c)) \<le> poll_limit k c"
    and "n = poll_limit k c div int (length (c_assigned c))"
  shows "out = concat (map (batch_of ms ps c n) (c_assigned c)) \<and> int (length out) \<le> poll_limit k c
    \<and> (\<forall>p \<in> set (c_assigned c). position_of ps' c' p
          = after_batch ms (position_of ps c p) (batch_of ms ps c n p))
    \<and> c_total_consumed c' = c_total_consumed c + int (length out)
    \<and> (\<forall>p. ps' p = (ps p)\<lparr>p_committed := p_committed (ps' p)\<rparr>)"
  using poll_within_limit [OF assms] by (simp add: only_commits_def)

text \<open>C18. A consumer that keeps polling reads everything that is there: when its limit is at least the
  number of its partitions (below that \<open>poll_skips\<close> shows messages lost), its partitions have
  different names or numbers and logs that are ordered, without gaps (no compaction) and without a
  message in common, and nothing is appended while it polls (\<open>can_poll\<close>, one message store and
  partition store for all polls), then, whatever the clock says, after enough polls (as many as the
  limit per partition needs for the unread messages of a partition) the messages delivered from that
  partition are exactly its unread ones, in order and once each, and none is left unread.\<close>

theorem polling_delivers_everything:
  assumes "polls ms k ts (ps, c) = ((ps', c'), out)" and "can_poll ms ps k c"
    and "n = poll_limit k c div int (length (c_assigned c))" and "p \<in> set (c_assigned c)"
    and "length (unread ms ps c p) \<le> length ts * nat n"
  shows "filter (\<lambda>r. r \<in> set (p_log (ps p))) out = unread ms ps c p \<and> unread ms ps' c' p = []"
  using polls_progress [OF assms(1-4)] assms(5) by simp

text \<open>When the limit is below the number of partitions and each has a message to read, one message
  per partition is read and every position moves past it, yet only the first \<open>limit\<close> of them are
  returned: the others are skipped.\<close>

theorem poll_skips:
  assumes "consumer_poll now1 now2 now3 ms ps k c = ((ps', c'), out)" and "keyed ps (c_assigned c)"
    and "0 < poll_limit k c" and "poll_limit k c < int (length (c_assigned c))"
    and "\<forall>p \<in> set (c_assigned c). length (batch_of ms ps c 1 p) = 1"
  shows "out = take (nat (poll_limit k c)) (map (\<lambda>p. hd (batch_of ms ps c 1 p)) (c_assigned c))
    \<and> (\<forall>p \<in> set (c_assigned c). position_of ps' c' p = m_offset (ms (hd (batch_of ms ps c 1 p))) + 1)
    \<and> c_total_consumed c' = c_total_consumed c + int (length (c_assigned c))"
proof -
  have ne: "c_assigned c \<noteq> []" using assms(3,4) by auto
  have n: "1 = max 1 (poll_limit k c div int (length (c_assigned c)))" using assms(3,4) by simp
  define fetched where "fetched = concat (map (batch_of ms ps c 1) (c_assigned c))"
  note eff = poll_effect [OF assms(1,2) ne n fetched_def]
  have one: "batch_of ms ps c 1 p = [hd (batch_of ms ps c 1 p)]" if "p \<in> set (c_assigned c)" for p
    using assms(5) that by (cases "batch_of ms ps c 1 p") auto
  have map_one: "map (batch_of ms ps c 1) (c_assigned c) = map (\<lambda>p. [hd (batch_of ms ps c 1 p)]) (c_assigned c)"
    by (rule map_cong [OF refl one])
  have f: "fetched = map (\<lambda>p. hd (batch_of ms ps c 1 p)) (c_assigned c)"
    unfolding fetched_def map_one by simp
  have "position_of ps' c' p = m_offset (ms (hd (batch_of ms ps c 1 p))) + 1" if p: "p \<in> set (c_assigned c)" for p
    using eff(3) [OF p] one [OF p] by (metis after_batch_def last.simps list.distinct(1))
  then show ?thesis using eff(1,6) assms(3) by (simp add: f slice_simps)
qed

subsection \<open>Assignment and positions\<close>

lemma start_fold:
  "dict_get (fold (start_position ps g) refs offs) k =
     (case dict_get offs k of Some x \<Rightarrow> Some x
      | None \<Rightarrow> (case List.find (\<lambda>p. pkey ps p = k) refs of
                  None \<Rightarrow> None | Some p \<Rightarrow> Some (get_committed_offset (ps p) g)))"
proof (induction refs arbitrary: offs)
  case Nil
  then show ?case by (simp split: option.split)
next
  case (Cons p refs)
  have "dict_get (start_position ps g p offs) j = (case dict_get offs j of Some x \<Rightarrow> Some x
      | None \<Rightarrow> if pkey ps p = j then Some (get_committed_offset (ps p) g) else None)" for j
    unfolding start_position_def in_keys_iff by (cases "pkey ps p = j") (auto split: option.split)
  then show ?case by (simp add: Cons.IH split: option.split)
qed

text \<open>After a partition was taken away and assigned again, its consumer resumes at its own last
  position in it, even when the group has committed a later one meanwhile; only a partition it
  never held starts at the group's committed offset.\<close>

theorem assign_resumes:
  assumes "c' = consumer_assign ps refs (fst (consumer_revoke c))" and "keyed ps refs" and "p \<in> set refs"
  shows "position_of ps c' p =
      (if pkey ps p \<in> set (keys (c_offsets c)) then position_of ps c p
       else get_committed_offset (ps p) (group_id (c_config c)))
    \<and> c_assigned c' = refs"
proof -
  have "List.find (\<lambda>q. pkey ps q = pkey ps p) refs = Some p"
    using assms(2,3) by (rule find_key)
  then show ?thesis
    unfolding assms(1) position_of_def consumer_assign_def consumer_revoke_def in_keys_iff
    by (auto simp: start_fold dict_get_default_def split: option.split)
qed

subsection \<open>Examples\<close>

text \<open>Partitions of topic \<open>t\<close> that hold one message each, and a consumer that has read the first.\<close>

definition sample_store :: pstore where
  "sample_store p = \<lparr>p_topic = ''t'', p_id = int p, p_max_size = 0, p_retention_ms = 0,
     p_log = [10 + p], p_next_offset = 1, p_committed = [(''g'', 1)]\<rparr>"

definition sample_messages :: mstore where
  "sample_messages r = (message_new ''m'' 1 ''t'' [7] None [])\<lparr>m_offset := 0, m_partition := int r - 10\<rparr>"

definition sample_consumer :: "(position_key, int) dict \<Rightarrow> pref list \<Rightarrow> consumer" where
  "sample_consumer offs refs =
     (consumer_new ''c'' (default_consumer_config\<lparr>group_id := ''g''\<rparr>) 0 0)\<lparr>c_assigned := refs, c_offsets := offs\<rparr>"

lemma sample_keyed: "distinct refs \<Longrightarrow> keyed sample_store refs"
  by (simp add: distinct_map inj_on_def pkey_def sample_store_def)

lemma sample_consumer_simps [simp]:
  "c_assigned (sample_consumer offs refs) = refs" "c_offsets (sample_consumer offs refs) = offs"
  "c_config (sample_consumer offs refs) = default_consumer_config\<lparr>group_id := ''g''\<rparr>"
  by (simp_all add: sample_consumer_def consumer_new_def)

lemma sample_batch:
  "1 \<le> n \<Longrightarrow> dict_get_default offs (''t'', int p) 0 = 0 \<Longrightarrow>
    batch_of sample_messages sample_store (sample_consumer offs refs) n p = [10 + p]"
  by (simp add: batch_of_def position_of_def pkey_def partition_read_def sample_store_def
      sample_messages_def message_new_def slice_simps)

theorem commit_correct_witness:
  "\<exists>ps' c' com. consumer_commit 3 sample_store (sample_consumer [((''t'', 1), 7)] [1]) = ((ps', c'), com)
     \<and> get_committed_offset (ps' 1) ''g'' = 7 \<and> ps' 0 = sample_store 0"
proof -
  obtain ps' c' com where
    c: "consumer_commit 3 sample_store (sample_consumer [((''t'', 1), 7)] [1]) = ((ps', c'), com)"
    by (metis surj_pair)
  from commit_correct [OF c, of "''g''"] have "get_committed_offset (ps' 1) ''g'' = 7" "ps' 0 = sample_store 0"
    by (simp_all add: position_of_def dict_get_default_def pkey_def sample_store_def)
  with c show ?thesis by blast
qed

theorem poll_correct_witness:
  "\<exists>ps' c' out. consumer_poll 1 1 1 sample_messages sample_store None (sample_consumer [] [0, 1]) = ((ps', c'), out)
     \<and> out = [10, 11] \<and> position_of ps' c' 1 = 1"
proof -
  obtain ps' c' out where
    p: "consumer_poll 1 1 1 sample_messages sample_store None (sample_consumer [] [0, 1]) = ((ps', c'), out)"
    by (metis surj_pair)
  have "out = [10, 11] \<and> position_of ps' c' 1 = 1"
    using poll_correct [OF p sample_keyed, of 50]
    by (simp add: poll_limit_def default_consumer_config_def sample_batch after_batch_def
        dict_get_default_def) (simp add: sample_messages_def)
  with p show ?thesis by blast
qed

theorem polling_delivers_everything_witness:
  "\<exists>s out. polls sample_messages None [(1, 1, 1)] (sample_store, sample_consumer [] [0, 1]) = (s, out)
     \<and> filter (\<lambda>r. r \<in> {11}) out = [11]"
proof -
  obtain ps' c' out where
    p: "polls sample_messages None [(1, 1, 1)] (sample_store, sample_consumer [] [0, 1]) = ((ps', c'), out)"
    by (metis surj_pair)
  have good: "ordered sample_messages (sample_store q) \<and> dense sample_messages (sample_store q)" for q
    by (simp add: ordered_def dense_def sample_store_def sample_messages_def message_new_def)
  have can: "can_poll sample_messages sample_store None (sample_consumer [] [0, 1])"
    using sample_keyed [of "[0, 1]"] good
    by (simp add: can_poll_def poll_limit_def default_consumer_config_def) (simp add: sample_store_def)
  have u: "unread sample_messages sample_store (sample_consumer [] [0, 1]) 1 = [11]"
    by (simp add: unread_def position_of_def dict_get_default_def sample_store_def sample_messages_def
        message_new_def)
  have "filter (\<lambda>r. r \<in> set (p_log (sample_store 1))) out = [11]"
    using polling_delivers_everything [OF p can refl, of 1] unfolding u
    by (simp add: poll_limit_def default_consumer_config_def)
  then have "filter (\<lambda>r. r \<in> {11}) out = [11]" by (simp add: sample_store_def)
  with p show ?thesis by blast
qed

theorem poll_skips_witness:
  "\<exists>ps' c' out. consumer_poll 1 1 1 sample_messages sample_store (Some 1) (sample_consumer [] [0, 1]) = ((ps', c'), out)
     \<and> out = [10] \<and> position_of ps' c' 1 = 1"
proof -
  obtain ps' c' out where
    p: "consumer_poll 1 1 1 sample_messages sample_store (Some 1) (sample_consumer [] [0, 1]) = ((ps', c'), out)"
    by (metis surj_pair)
  have "out = [10] \<and> position_of ps' c' 1 = 1"
    using poll_skips [OF p sample_keyed]
    by (simp add: poll_limit_def sample_batch dict_get_default_def) (simp add: sample_messages_def)
  with p show ?thesis by blast
qed

theorem assign_resumes_witness:
  "position_of sample_store
     (consumer_assign sample_store [0, 1] (fst (consumer_revoke (sample_consumer [((''t'', 0), 0)] [0])))) 0 = 0
   \<and> get_committed_offset (sample_store 0) ''g'' = 1"
  using assign_resumes [OF refl sample_keyed, of "[0, 1]" 0 "sample_consumer [((''t'', 0), 0)] [0]"]
  by (simp add: pkey_def position_of_def dict_get_default_def get_committed_offset_def) (simp add: sample_store_def)

end
