(* ===== verification/Middleware.thy ===== *)
theory Middleware
  imports Message
begin

section \<open>Middleware\<close>

text \<open>
  \<^verbatim>\<open>middleware.py\<close>: the pipeline and its six middlewares. A middleware works on a message object
  of the store and keeps or drops it. The functions a caller passes (predicate, transformation,
  route) are part of the middleware; they may raise. A pipeline owns its middleware objects:
  none occurs in it twice.
\<close>

datatype middleware =
    LoggingMiddleware (log_level: int) (message_count: nat)
  | FilterMiddleware (predicate: "message \<Rightarrow> bool result") (filtered_count: nat)
  | TransformMiddleware (transform_fn: "mstore \<Rightarrow> mref \<Rightarrow> mstore \<times> mref result") (transformed_count: nat)
  | DeduplicationMiddleware (window_size: int) (seen: "string set") (order: "string list") (duplicate_count: nat)
  | RoutingMiddleware (route_fn: "message \<Rightarrow> string option result") (routed_count: nat)
  | TimestampMiddleware

definition logging_new :: "int \<Rightarrow> middleware" where
  "logging_new level = LoggingMiddleware level 0"

definition filter_new :: "(message \<Rightarrow> bool result) \<Rightarrow> middleware" where
  "filter_new p = FilterMiddleware p 0"

definition transform_new :: "(mstore \<Rightarrow> mref \<Rightarrow> mstore \<times> mref result) \<Rightarrow> middleware" where
  "transform_new f = TransformMiddleware f 0"

definition dedup_new :: "int \<Rightarrow> middleware" where
  "dedup_new w = DeduplicationMiddleware w {} [] 0"

definition routing_new :: "(message \<Rightarrow> string option result) \<Rightarrow> middleware" where
  "routing_new f = RoutingMiddleware f 0"

text \<open>\<open>self.__class__.__name__\<close>\<close>

fun mw_name :: "middleware \<Rightarrow> string" where
  "mw_name (LoggingMiddleware _ _) = ''LoggingMiddleware''"
| "mw_name (FilterMiddleware _ _) = ''FilterMiddleware''"
| "mw_name (TransformMiddleware _ _) = ''TransformMiddleware''"
| "mw_name (DeduplicationMiddleware _ _ _ _) = ''DeduplicationMiddleware''"
| "mw_name (RoutingMiddleware _ _) = ''RoutingMiddleware''"
| "mw_name TimestampMiddleware = ''TimestampMiddleware''"

subsection \<open>The six kinds\<close>

text \<open>The loop \<open>while len(self._order) > self.window_size\<close> with its two deletions.\<close>

fun dedup_trim :: "int \<Rightarrow> string list \<Rightarrow> string set \<Rightarrow> (string list \<times> string set) \<times> unit result" where
  "dedup_trim w [] sn = (if 0 > w then (([], sn), Inl IndexError) else (([], sn), Inr ()))"
| "dedup_trim w (old # rest) sn =
     (if int (length (old # rest)) > w then dedup_trim w rest (sn - {old})
      else ((old # rest, sn), Inr ()))"

type_synonym mw_outcome = "(middleware \<times> mstore) \<times> mref option result"

definition dedup_process ::
    "int \<Rightarrow> string set \<Rightarrow> string list \<Rightarrow> nat \<Rightarrow> mstore \<Rightarrow> mref \<Rightarrow> mw_outcome" where
  "dedup_process w sn ord dups ms r =
     (let mid = m_id (ms r) in
      if mid \<in> sn then ((DeduplicationMiddleware w sn ord (dups + 1), ms), Inr None)
      else
        (let ((ord', sn'), res) = dedup_trim w (ord @ [mid]) (insert mid sn)
         in ((DeduplicationMiddleware w sn' ord' dups, ms), bind_r res (\<lambda>_. Inr (Some r)))))"

definition logging_process :: "int \<Rightarrow> nat \<Rightarrow> mstore \<Rightarrow> mref \<Rightarrow> mw_outcome" where
  "logging_process level n ms r = ((LoggingMiddleware level (n + 1), ms), Inr (Some r))"

definition filter_process :: "(message \<Rightarrow> bool result) \<Rightarrow> nat \<Rightarrow> mstore \<Rightarrow> mref \<Rightarrow> mw_outcome" where
  "filter_process p n ms r =
     (case p (ms r) of
        Inl e \<Rightarrow> ((FilterMiddleware p n, ms), Inl e)
      | Inr matches \<Rightarrow>
          if matches then ((FilterMiddleware p (n + 1), ms), Inr None)
          else ((FilterMiddleware p n, ms), Inr (Some r)))"

definition transform_process ::
    "(mstore \<Rightarrow> mref \<Rightarrow> mstore \<times> mref result) \<Rightarrow> nat \<Rightarrow> mstore \<Rightarrow> mref \<Rightarrow> mw_outcome" where
  "transform_process f n ms r =
     (let (ms', res) = f ms r in ((TransformMiddleware f (n + 1), ms'), bind_r res (\<lambda>r'. Inr (Some r'))))"

definition routing_process :: "(message \<Rightarrow> string option result) \<Rightarrow> nat \<Rightarrow> mstore \<Rightarrow> mref \<Rightarrow> mw_outcome" where
  "routing_process f n ms r =
     (case f (ms r) of
        Inl e \<Rightarrow> ((RoutingMiddleware f n, ms), Inl e)
      | Inr None \<Rightarrow> ((RoutingMiddleware f n, ms), Inr (Some r))
      | Inr (Some target) \<Rightarrow>
          ((RoutingMiddleware f (n + 1), ms(r := (ms r)\<lparr>m_topic := target\<rparr>)), Inr (Some r)))"

text \<open>\<open>now_text\<close> is \<open>str(time.time())\<close>.\<close>

definition timestamp_process :: "string \<Rightarrow> mstore \<Rightarrow> mref \<Rightarrow> mw_outcome" where
  "timestamp_process now_text ms r =
     ((TimestampMiddleware,
       ms(r := (ms r)\<lparr>m_headers := headers_set ''x-processed-at'' now_text (m_headers (ms r))\<rparr>)),
      Inr (Some r))"

text \<open>\<open>mw.process(current)\<close>\<close>

fun mw_process :: "string \<Rightarrow> middleware \<Rightarrow> mstore \<Rightarrow> mref \<Rightarrow> mw_outcome" where
  "mw_process now_text (LoggingMiddleware l n) = logging_process l n"
| "mw_process now_text (FilterMiddleware p n) = filter_process p n"
| "mw_process now_text (TransformMiddleware f n) = transform_process f n"
| "mw_process now_text (DeduplicationMiddleware w sn ord dups) = dedup_process w sn ord dups"
| "mw_process now_text (RoutingMiddleware f n) = routing_process f n"
| "mw_process now_text TimestampMiddleware = timestamp_process now_text"

lemmas process_defs =
  logging_process_def filter_process_def transform_process_def dedup_process_def routing_process_def
  timestamp_process_def

subsection \<open>The pipeline\<close>

type_synonym pipeline = "middleware list"

definition pipeline_add :: "middleware \<Rightarrow> pipeline \<Rightarrow> pipeline" where
  "pipeline_add mw p = p @ [mw]"

fun pipeline_remove :: "string \<Rightarrow> pipeline \<Rightarrow> pipeline \<times> bool" where
  "pipeline_remove name [] = ([], False)"
| "pipeline_remove name (m # p) =
     (if mw_name m = name then (p, True)
      else (let (p', removed) = pipeline_remove name p in (m # p', removed)))"

text \<open>\<open>clock i\<close> is the text of the reading taken by the middleware at position \<open>i\<close>.\<close>

fun pipeline_from ::
    "(nat \<Rightarrow> string) \<Rightarrow> nat \<Rightarrow> pipeline \<Rightarrow> mstore \<Rightarrow> mref \<Rightarrow> (pipeline \<times> mstore) \<times> mref option result" where
  "pipeline_from clock i [] ms r = (([], ms), Inr (Some r))"
| "pipeline_from clock i (m # p) ms r =
     (case mw_process (clock i) m ms r of ((m', ms'), res) \<Rightarrow>
        (case res of
           Inl e \<Rightarrow> ((m' # p, ms'), Inl e)
         | Inr None \<Rightarrow> ((m' # p, ms'), Inr None)
         | Inr (Some r') \<Rightarrow>
             (case pipeline_from clock (i + 1) p ms' r' of ((p', ms''), res') \<Rightarrow>
                ((m' # p', ms''), res'))))"

definition pipeline_process ::
    "(nat \<Rightarrow> string) \<Rightarrow> pipeline \<Rightarrow> mstore \<Rightarrow> mref \<Rightarrow> (pipeline \<times> mstore) \<times> mref option result" where
  "pipeline_process clock p ms r = pipeline_from clock 0 p ms r"

definition middleware_names :: "pipeline \<Rightarrow> string list" where
  "middleware_names p = map mw_name p"

definition pipeline_clear :: "pipeline \<Rightarrow> pipeline" where
  "pipeline_clear p = []"

definition pipeline_len :: "pipeline \<Rightarrow> nat" where
  "pipeline_len p = length p"

subsection \<open>The pipeline as a composition\<close>

lemma pipeline_from_append:
  "pipeline_from clock i (p @ q) ms r =
     (case pipeline_from clock i p ms r of ((p', ms'), res) \<Rightarrow>
        (case res of
           Inl e \<Rightarrow> ((p' @ q, ms'), Inl e)
         | Inr None \<Rightarrow> ((p' @ q, ms'), Inr None)
         | Inr (Some r') \<Rightarrow>
             (case pipeline_from clock (i + length p) q ms' r' of ((q', ms''), res') \<Rightarrow>
                ((p' @ q', ms''), res'))))"
  by (induction p arbitrary: i ms r) (simp_all split: prod.split sum.split option.split)

lemma pipeline_remove_spec:
  "pipeline_remove name p =
     (case List.find (\<lambda>m. mw_name m = name) p of
        None \<Rightarrow> (p, False)
      | Some _ \<Rightarrow> (takeWhile (\<lambda>m. mw_name m \<noteq> name) p @ tl (dropWhile (\<lambda>m. mw_name m \<noteq> name) p), True))"
  by (induction p) (auto split: option.split)

lemma pipeline_length: "pipeline_from clock i p ms r = ((p', ms'), res) \<Longrightarrow> length p' = length p"
  by (induction p arbitrary: i ms r p' ms' res)
    (auto split: prod.splits sum.splits option.splits)

subsection \<open>Deduplication\<close>

text \<open>What the middleware keeps: the accepted ids within the window, once as a set, once in order.\<close>

definition dedup_inv :: "int \<Rightarrow> string set \<Rightarrow> string list \<Rightarrow> bool" where
  "dedup_inv w sn ord \<longleftrightarrow> sn = set ord \<and> distinct ord \<and> int (length ord) \<le> w"

definition last_n :: "nat \<Rightarrow> 'a list \<Rightarrow> 'a list" where
  "last_n n xs = drop (length xs - n) xs"

lemma last_n_snoc: "0 < n \<Longrightarrow> last_n n (xs @ [x]) = last_n (n - 1) xs @ [x]"
  by (simp add: last_n_def)

lemma last_n_last_n: "m \<le> n \<Longrightarrow> last_n m (last_n n xs) = last_n m xs"
proof -
  assume "m \<le> n"
  then have "length xs - n + (length xs - (length xs - n) - m) = length xs - m" by arith
  then show ?thesis by (simp add: last_n_def add.commute)
qed

lemma last_n_last_n_snoc: "last_n n (last_n n xs @ [x]) = last_n n (xs @ [x])"
proof (cases "n = 0")
  case True
  then show ?thesis by (simp add: last_n_def)
next
  case False
  then show ?thesis by (simp add: last_n_snoc last_n_last_n)
qed

lemma set_last_n: "set (last_n n xs) \<subseteq> set xs"
  by (simp add: last_n_def set_drop_subset)

lemma distinct_last_n: "distinct xs \<Longrightarrow> distinct (last_n n xs)"
  by (simp add: last_n_def)

lemma length_last_n: "length (last_n n xs) = min n (length xs)"
  by (simp add: last_n_def)

lemma dedup_trim_spec:
  "0 \<le> w \<Longrightarrow> distinct ord \<Longrightarrow>
     dedup_trim w ord (set ord) = ((last_n (nat w) ord, set (last_n (nat w) ord)), Inr ())"
proof (induction ord)
  case Nil
  then show ?case by (simp add: last_n_def)
next
  case (Cons x xs)
  show ?case
  proof (cases "int (length (x # xs)) > w")
    case True
    have "insert x (set xs) - {x} = set xs" using Cons.prems by auto
    moreover have "length (x # xs) - nat w = Suc (length xs - nat w)" using True by auto
    ultimately show ?thesis using Cons True by (simp add: last_n_def)
  next
    case False
    then have "length (x # xs) - nat w = 0" by simp
    with False show ?thesis by (simp add: last_n_def del: length_Cons)
  qed
qed

lemma dedup_process_step:
  assumes "dedup_inv w sn ord" and "0 \<le> w" and "dedup_process w sn ord d ms r = ((m', ms'), res)"
  shows "ms' = ms"
    and "m_id (ms r) \<in> set ord \<Longrightarrow> res = Inr None \<and> m' = DeduplicationMiddleware w sn ord (d + 1)"
    and "m_id (ms r) \<notin> set ord \<Longrightarrow> res = Inr (Some r)
      \<and> m' = DeduplicationMiddleware w (set (last_n (nat w) (ord @ [m_id (ms r)])))
               (last_n (nat w) (ord @ [m_id (ms r)])) d
      \<and> dedup_inv w (set (last_n (nat w) (ord @ [m_id (ms r)]))) (last_n (nat w) (ord @ [m_id (ms r)]))"
proof -
  note inv = assms(1) [unfolded dedup_inv_def]
  show "ms' = ms" using assms(3) by (auto simp: dedup_process_def Let_def split: if_splits prod.splits)
  show "m_id (ms r) \<in> set ord \<Longrightarrow> res = Inr None \<and> m' = DeduplicationMiddleware w sn ord (d + 1)"
    using assms(3) inv by (simp add: dedup_process_def)
  assume new: "m_id (ms r) \<notin> set ord"
  have trim: "dedup_trim w (ord @ [m_id (ms r)]) (insert (m_id (ms r)) sn)
      = ((last_n (nat w) (ord @ [m_id (ms r)]), set (last_n (nat w) (ord @ [m_id (ms r)]))), Inr ())"
    using dedup_trim_spec [of w "ord @ [m_id (ms r)]"] assms(2) new inv by simp
  have dist: "distinct (last_n k (ord @ [m_id (ms r)]))" for k using inv new by (intro distinct_last_n) simp
  have len: "int (min (nat w) n) \<le> w" for n using assms(2) by linarith
  show "res = Inr (Some r)
      \<and> m' = DeduplicationMiddleware w (set (last_n (nat w) (ord @ [m_id (ms r)])))
               (last_n (nat w) (ord @ [m_id (ms r)])) d
      \<and> dedup_inv w (set (last_n (nat w) (ord @ [m_id (ms r)]))) (last_n (nat w) (ord @ [m_id (ms r)]))"
    using assms(3) new trim dist inv len by (auto simp: dedup_process_def dedup_inv_def length_last_n Let_def)
qed

text \<open>The middleware on a sequence of messages: what it lets through.\<close>

fun mw_run :: "(nat \<Rightarrow> string) \<Rightarrow> middleware \<Rightarrow> mstore \<Rightarrow> mref list \<Rightarrow> middleware \<times> mref option result list" where
  "mw_run clock m ms [] = (m, [])"
| "mw_run clock m ms (r # rs) =
     (case mw_process (clock 0) m ms r of ((m1, ms1), res) \<Rightarrow>
        (case mw_run (\<lambda>i. clock (i + 1)) m1 ms1 rs of (m2, rest) \<Rightarrow> (m2, res # rest)))"

text \<open>Reference: a message passes unless its id is among the last \<open>w\<close> ids that passed.\<close>

fun dedup_reference :: "nat \<Rightarrow> mstore \<Rightarrow> string list \<Rightarrow> mref list \<Rightarrow> mref option result list" where
  "dedup_reference w ms passed [] = []"
| "dedup_reference w ms passed (r # rs) =
     (if m_id (ms r) \<in> set (last_n w passed) then Inr None # dedup_reference w ms passed rs
      else Inr (Some r) # dedup_reference w ms (passed @ [m_id (ms r)]) rs)"

lemma dedup_run:
  assumes "0 \<le> w"
  shows "dedup_inv w (set (last_n (nat w) passed)) (last_n (nat w) passed) \<Longrightarrow>
    mw_run clock (DeduplicationMiddleware w (set (last_n (nat w) passed)) (last_n (nat w) passed) d) ms rs
      = (m', results) \<Longrightarrow> results = dedup_reference (nat w) ms passed rs"
proof (induction rs arbitrary: passed d clock m' results)
  case Nil
  then show ?case by simp
next
  case (Cons r rs)
  let ?ord = "last_n (nat w) passed"
  obtain m1 ms1 res where one: "dedup_process w (set ?ord) ?ord d ms r = ((m1, ms1), res)"
    by (metis surj_pair)
  obtain rest where rest: "mw_run (\<lambda>i. clock (i + 1)) m1 ms1 rs = (m', rest)" and results: "results = res # rest"
    using Cons.prems(2) one by (auto split: prod.splits)
  note step = dedup_process_step [OF Cons.prems(1) assms one]
  show ?case
  proof (cases "m_id (ms r) \<in> set ?ord")
    case True
    note s = step(2) [OF True]
    have "rest = dedup_reference (nat w) ms passed rs"
      by (rule Cons.IH [OF Cons.prems(1)]) (use rest s step(1) in simp)
    with True s results show ?thesis by simp
  next
    case False
    note s = step(3) [OF False, unfolded last_n_last_n_snoc]
    have "rest = dedup_reference (nat w) ms (passed @ [m_id (ms r)]) rs"
      by (rule Cons.IH [OF s [THEN conjunct2, THEN conjunct2]]) (use rest s step(1) in simp)
    with False s results show ?thesis by simp
  qed
qed

text \<open>C33. Deduplication with a window of size \<open>w\<close> is the reference: whatever messages it is given, it
  drops a message exactly when its id is one of the last \<open>w\<close> ids it let through, and never
  raises.\<close>

theorem dedup_correct:
  assumes "0 \<le> w" and "mw_run clock (dedup_new w) ms rs = (m', results)"
  shows "results = dedup_reference (nat w) ms [] rs"
  using dedup_run [OF assms(1), of "[]" clock 0 ms rs m' results] assms
  by (simp add: dedup_new_def last_n_def dedup_inv_def)

theorem dedup_correct_witness:
  "\<exists>m'. mw_run (\<lambda>_. []) (dedup_new 1)
       (\<lambda>r. message_new (if r < 2 then ''a'' else ''b'') 0 ''t'' [] None []) [0, 1, 2, 1]
     = (m', [Inr (Some 0), Inr None, Inr (Some 2), Inr (Some 1)])"
proof -
  let ?ms = "\<lambda>r::mref. message_new (if r < 2 then ''a'' else ''b'') 0 ''t'' [] None []"
  obtain m' results where run: "mw_run (\<lambda>_. []) (dedup_new 1) ?ms [0, 1, 2, 1] = (m', results)"
    by (metis surj_pair)
  have "results = dedup_reference 1 ?ms [] [0, 1, 2, 1]"
    using dedup_correct [OF _ run] by simp
  also have "\<dots> = [Inr (Some 0), Inr None, Inr (Some 2), Inr (Some 1)]"
    by (simp add: last_n_def message_new_def)
  finally show ?thesis using run by blast
qed

end
