(* ===== verification/Producer.thy ===== *)
theory Producer
  imports Message
begin

section \<open>Producers\<close>

text \<open>
  \<^verbatim>\<open>producer.py\<close>: batching, flushing and the accounting of a producer. What a producer publishes
  with (the broker's \<open>publish\<close>, see \<open>Broker\<close>) and its callbacks are functions on the message
  store and a state \<open>'x\<close> of their own, collected in \<open>hooks\<close>; they may raise. A callback does not
  call back into its producer.
\<close>

record record_metadata =
  rm_topic :: string
  rm_partition :: int
  rm_offset :: int
  rm_timestamp :: real
  rm_message_id :: string

record producer_config =
  pc_batch_size :: int
  linger_ms :: int
  max_in_flight :: int
  enable_idempotence :: bool
  acks :: string

definition default_producer_config :: producer_config where
  "default_producer_config =
     \<lparr>pc_batch_size = 16, linger_ms = 100, max_in_flight = 5, enable_idempotence = False, acks = ''leader''\<rparr>"

record producer =
  pr_id :: string
  pr_config :: producer_config
  pr_batch :: "mref list"
  pr_sequence :: int
  pr_sent :: int
  pr_errors :: int
  pr_last_flush :: real
  pr_closed :: bool

record 'x hooks =
  publish_fn :: "(mstore \<times> 'x \<Rightarrow> mref \<Rightarrow> (mstore \<times> 'x) \<times> record_metadata result) option"
  on_success :: "(mstore \<times> 'x \<Rightarrow> record_metadata \<Rightarrow> (mstore \<times> 'x) \<times> unit result) option"
  on_error :: "(mstore \<times> 'x \<Rightarrow> mref \<Rightarrow> py_error \<Rightarrow> (mstore \<times> 'x) \<times> unit result) option"

definition producer_new :: "string \<Rightarrow> producer_config \<Rightarrow> real \<Rightarrow> producer" where
  "producer_new pid cfg now =
     \<lparr>pr_id = pid, pr_config = cfg, pr_batch = [], pr_sequence = 0, pr_sent = 0, pr_errors = 0,
      pr_last_flush = now, pr_closed = False\<rparr>"

subsection \<open>Sending\<close>

type_synonym ('x, 'a) outcome = "((mstore \<times> 'x) \<times> producer) \<times> 'a result"

text \<open>The \<open>except Exception\<close> branch of \<open>_do_send\<close>.\<close>

definition send_failed ::
    "'x hooks \<Rightarrow> mref \<Rightarrow> py_error \<Rightarrow> mstore \<times> 'x \<Rightarrow> producer \<Rightarrow> ('x, record_metadata option) outcome" where
  "send_failed h r e s p =
     (let p' = p\<lparr>pr_errors := pr_errors p + 1\<rparr> in
      case on_error h of
        None \<Rightarrow> ((s, p'), Inr None)
      | Some f \<Rightarrow> (case f s r e of (s', res) \<Rightarrow> ((s', p'), bind_r res (\<lambda>_. Inr None))))"

definition do_send ::
    "'x hooks \<Rightarrow> real \<Rightarrow> mref \<Rightarrow> mstore \<times> 'x \<Rightarrow> producer \<Rightarrow> ('x, record_metadata option) outcome" where
  "do_send h now r s p =
     (case publish_fn h of
        None \<Rightarrow>
          (let m = fst s r in
           ((s, p\<lparr>pr_sent := pr_sent p + 1\<rparr>),
            Inr (Some \<lparr>rm_topic = m_topic m, rm_partition = m_partition m, rm_offset = -1,
                       rm_timestamp = now, rm_message_id = m_id m\<rparr>)))
      | Some publish \<Rightarrow>
          (case publish s r of
             (s1, Inl e) \<Rightarrow> send_failed h r e s1 p
           | (s1, Inr md) \<Rightarrow>
               (let p1 = p\<lparr>pr_sent := pr_sent p + 1\<rparr> in
                case on_success h of
                  None \<Rightarrow> ((s1, p1), Inr (Some md))
                | Some f \<Rightarrow>
                    (case f s1 md of
                       (s2, Inl e) \<Rightarrow> send_failed h r e s2 p1
                     | (s2, Inr _) \<Rightarrow> ((s2, p1), Inr (Some md))))))"

text \<open>The loop of \<open>_flush_batch\<close>; \<open>clock r\<close> is the reading taken for message \<open>r\<close>.\<close>

fun send_all ::
    "'x hooks \<Rightarrow> (mref \<Rightarrow> real) \<Rightarrow> mref list \<Rightarrow> record_metadata option \<Rightarrow> mstore \<times> 'x \<Rightarrow> producer
      \<Rightarrow> ('x, record_metadata option) outcome" where
  "send_all h clock [] prev s p = ((s, p), Inr prev)"
| "send_all h clock (r # rs) prev s p =
     (case do_send h (clock r) r s p of
        ((s1, p1), Inl e) \<Rightarrow> ((s1, p1), Inl e)
      | ((s1, p1), Inr res) \<Rightarrow>
          send_all h clock rs (case res of None \<Rightarrow> prev | Some md \<Rightarrow> Some md) s1 p1)"

definition flush_batch ::
    "'x hooks \<Rightarrow> (mref \<Rightarrow> real) \<Rightarrow> real \<Rightarrow> mstore \<times> 'x \<Rightarrow> producer \<Rightarrow> ('x, record_metadata option) outcome" where
  "flush_batch h clock now s p =
     send_all h clock (pr_batch p) None s (p\<lparr>pr_batch := [], pr_last_flush := now\<rparr>)"

lemma send_failed_batch:
  "send_failed h r e s p = ((s', p'), res) \<Longrightarrow>
     pr_batch p' = pr_batch p \<and> pr_config p' = pr_config p \<and> pr_closed p' = pr_closed p
     \<and> pr_sequence p' = pr_sequence p"
  by (auto simp: send_failed_def Let_def split: option.splits prod.splits)

lemma do_send_batch:
  "do_send h now r s p = ((s', p'), res) \<Longrightarrow>
     pr_batch p' = pr_batch p \<and> pr_config p' = pr_config p \<and> pr_closed p' = pr_closed p
     \<and> pr_sequence p' = pr_sequence p"
  by (auto simp: do_send_def Let_def split: option.splits prod.splits sum.splits dest!: send_failed_batch)

lemma send_all_batch:
  "send_all h clock rs prev s p = ((s', p'), res) \<Longrightarrow>
     pr_batch p' = pr_batch p \<and> pr_config p' = pr_config p \<and> pr_closed p' = pr_closed p
     \<and> pr_sequence p' = pr_sequence p"
  by (induction rs arbitrary: prev s p) (auto split: prod.splits sum.splits dest!: do_send_batch)

lemma flush_batch_empties:
  "flush_batch h clock now s p = ((s', p'), res) \<Longrightarrow>
     pr_batch p' = [] \<and> pr_config p' = pr_config p \<and> pr_closed p' = pr_closed p
     \<and> pr_sequence p' = pr_sequence p"
  by (auto simp: flush_batch_def dest!: send_all_batch)

text \<open>\<open>while self._batch\<close>: it ends because a flush leaves the batch empty.\<close>

function flush_loop ::
    "'x hooks \<Rightarrow> (mref \<Rightarrow> real) \<Rightarrow> real \<Rightarrow> mstore \<times> 'x \<Rightarrow> producer \<Rightarrow> ('x, record_metadata list) outcome" where
  "flush_loop h clock now s p =
     (if pr_batch p = [] then ((s, p), Inr [])
      else
        (case flush_batch h clock now s p of
           ((s1, p1), Inl e) \<Rightarrow> ((s1, p1), Inl e)
         | ((s1, p1), Inr result) \<Rightarrow>
             (case flush_loop h clock now s1 p1 of
                (sp, rest) \<Rightarrow>
                  (sp, bind_r rest (\<lambda>mds. Inr (case result of None \<Rightarrow> mds | Some md \<Rightarrow> md # mds))))))"
  by pat_completeness auto

termination flush_loop
  by (relation "measure (\<lambda>(h, clock, now, s, p). length (pr_batch p))")
    (auto dest!: flush_batch_empties [OF sym] flush_batch_empties)

declare flush_loop.simps [simp del]

definition producer_flush ::
    "'x hooks \<Rightarrow> (mref \<Rightarrow> real) \<Rightarrow> real \<Rightarrow> mstore \<times> 'x \<Rightarrow> producer \<Rightarrow> ('x, record_metadata list) outcome" where
  "producer_flush h clock now s p = flush_loop h clock now s p"

definition producer_close ::
    "'x hooks \<Rightarrow> (mref \<Rightarrow> real) \<Rightarrow> real \<Rightarrow> mstore \<times> 'x \<Rightarrow> producer \<Rightarrow> ('x, unit) outcome" where
  "producer_close h clock now s p =
     (case producer_flush h clock now s p of
        ((s', p'), Inl e) \<Rightarrow> ((s', p'), Inl e)
      | ((s', p'), Inr _) \<Rightarrow> ((s', p'\<lparr>pr_closed := True\<rparr>), Inr ()))"

definition pending_messages :: "producer \<Rightarrow> nat" where
  "pending_messages p = length (pr_batch p)"

text \<open>A payload is bytes or text; the arguments of one \<open>send\<close>.\<close>

datatype payload = Bytes "byte list" | Text string

fun payload_bytes :: "payload \<Rightarrow> byte list" where
  "payload_bytes (Bytes b) = b"
| "payload_bytes (Text t) = utf8_encode t"

record send_args =
  sa_topic :: string
  sa_value :: payload
  sa_key :: "string option"
  sa_headers :: "headers option"
  sa_partition :: int
  sa_priority :: int
  sa_ttl :: int

definition make_message :: "string \<Rightarrow> real \<Rightarrow> producer \<Rightarrow> send_args \<Rightarrow> message" where
  "make_message uid now p a =
     (message_new uid now (sa_topic a) (payload_bytes (sa_value a)) (sa_key a) (headers_new (sa_headers a)))
       \<lparr>m_partition := sa_partition a, m_priority := sa_priority a, m_ttl := sa_ttl a,
        m_producer_id := pr_id p\<rparr>"

text \<open>
  \<open>send\<close> builds the message object at the fresh reference \<open>r\<close> with the generated id \<open>uid\<close>. The
  readings: \<open>now1\<close> for the message, \<open>now2\<close> for the linger check, \<open>now3\<close> for the flush.
\<close>

definition send ::
    "'x hooks \<Rightarrow> (mref \<Rightarrow> real) \<Rightarrow> string \<Rightarrow> real \<Rightarrow> real \<Rightarrow> real \<Rightarrow> mref \<Rightarrow> send_args
      \<Rightarrow> mstore \<times> 'x \<Rightarrow> producer \<Rightarrow> ('x, record_metadata option) outcome" where
  "send h clock uid now1 now2 now3 r a s p =
     (if pr_closed p then ((s, p), Inl RuntimeError)
      else
        (let m0 = make_message uid now1 p a;
             (m, p1) = (if enable_idempotence (pr_config p)
                        then (m0\<lparr>m_sequence_number := pr_sequence p\<rparr>, p\<lparr>pr_sequence := pr_sequence p + 1\<rparr>)
                        else (m0, p));
             s1 = ((fst s)(r := m), snd s)
         in if pc_batch_size (pr_config p1) \<le> 1 then do_send h (clock r) r s1 p1
            else
              (let p2 = p1\<lparr>pr_batch := pr_batch p1 @ [r]\<rparr> in
               if int (length (pr_batch p2)) \<ge> pc_batch_size (pr_config p2) then flush_batch h clock now3 s1 p2
               else if (now2 - pr_last_flush p2) * 1000 \<ge> of_int (linger_ms (pr_config p2))
               then flush_batch h clock now3 s1 p2
               else ((s1, p2), Inr None))))"

record producer_info =
  pri_producer_id :: string
  pri_sent :: int
  pri_errors :: int
  pri_pending :: nat
  pri_idempotent :: bool
  pri_sequence :: int
  pri_closed :: bool

definition producer_snapshot :: "producer \<Rightarrow> producer_info" where
  "producer_snapshot p =
     \<lparr>pri_producer_id = pr_id p, pri_sent = pr_sent p, pri_errors = pr_errors p,
      pri_pending = length (pr_batch p), pri_idempotent = enable_idempotence (pr_config p),
      pri_sequence = pr_sequence p, pri_closed = pr_closed p\<rparr>"

subsection \<open>Nothing sent is lost, doubled or reordered\<close>

text \<open>
  \<open>records trace h\<close>: publishing, successful or not, adds the message to a trace kept in the
  state, callbacks leave the trace alone, and the error callback does not raise.
\<close>

definition records :: "('x \<Rightarrow> mref list) \<Rightarrow> 'x hooks \<Rightarrow> bool" where
  "records trace h \<longleftrightarrow>
     (\<exists>f. publish_fn h = Some f \<and> (\<forall>s r. trace (snd (fst (f s r))) = trace (snd s) @ [r]))
     \<and> (\<forall>f s md. on_success h = Some f \<longrightarrow> trace (snd (fst (f s md))) = trace (snd s))
     \<and> (\<forall>f s r e. on_error h = Some f \<longrightarrow> trace (snd (fst (f s r e))) = trace (snd s) \<and> snd (f s r e) = Inr ())"

lemma recordsE:
  assumes "records trace h"
  obtains f where "publish_fn h = Some f" "\<And>s r. trace (snd (fst (f s r))) = trace (snd s) @ [r]"
  using assms unfolding records_def by blast

lemma recordsD:
  assumes "records trace h"
  shows "on_success h = Some f \<Longrightarrow> trace (snd (fst (f s md))) = trace (snd s)"
    and "on_error h = Some g \<Longrightarrow> trace (snd (fst (g s r e))) = trace (snd s) \<and> snd (g s r e) = Inr ()"
  using assms unfolding records_def by blast+

lemma send_failed_trace:
  assumes "records trace h" and "send_failed h r e s p = ((s', p'), res)"
  shows "trace (snd s') = trace (snd s)" "res = Inr None"
proof -
  have "trace (snd s') = trace (snd s) \<and> res = Inr None"
  proof (cases "on_error h")
    case None
    with assms(2) show ?thesis by (simp add: send_failed_def Let_def)
  next
    case (Some f)
    obtain s1 res1 where f: "f s r e = (s1, res1)" by (cases "f s r e")
    have "trace (snd (fst (f s r e))) = trace (snd s) \<and> snd (f s r e) = Inr ()"
      using recordsD(2) [OF assms(1) Some] .
    with assms(2) Some f show ?thesis by (simp add: send_failed_def Let_def)
  qed
  then show "trace (snd s') = trace (snd s)" "res = Inr None" by simp_all
qed

lemma do_send_trace:
  assumes "records trace h" and "do_send h now r s p = ((s', p'), res)"
  shows "trace (snd s') = trace (snd s) @ [r]" "is_ok res"
proof -
  obtain f where f: "publish_fn h = Some f" "\<And>s r. trace (snd (fst (f s r))) = trace (snd s) @ [r]"
    using assms(1) by (rule recordsE) blast
  obtain s1 res1 where pub: "f s r = (s1, res1)" by (cases "f s r")
  have t1: "trace (snd s1) = trace (snd s) @ [r]" using f(2) [of s r] pub by simp
  have "trace (snd s') = trace (snd s) @ [r] \<and> is_ok res"
  proof (cases res1)
    case (Inl e)
    then have "send_failed h r e s1 p = ((s', p'), res)"
      using assms(2) f(1) pub by (simp add: do_send_def)
    from send_failed_trace [OF assms(1) this] t1 show ?thesis by simp
  next
    case (Inr md)
    show ?thesis
    proof (cases "on_success h")
      case None
      with assms(2) f(1) pub Inr t1 show ?thesis by (auto simp: do_send_def Let_def)
    next
      case (Some g)
      obtain s2 res2 where g: "g s1 md = (s2, res2)" by (cases "g s1 md")
      have "trace (snd (fst (g s1 md))) = trace (snd s1)" by (rule recordsD(1) [OF assms(1) Some])
      then have t2: "trace (snd s2) = trace (snd s) @ [r]" using g t1 by simp
      show ?thesis
      proof (cases res2)
        case (Inl e)
        then have "send_failed h r e s2 (p\<lparr>pr_sent := pr_sent p + 1\<rparr>) = ((s', p'), res)"
          using assms(2) f(1) pub Inr Some g by (simp add: do_send_def Let_def)
        from send_failed_trace [OF assms(1) this] t2 show ?thesis by simp
      next
        case Inr2: (Inr u)
        with assms(2) f(1) pub Inr Some g t2 show ?thesis by (auto simp: do_send_def Let_def)
      qed
    qed
  qed
  then show "trace (snd s') = trace (snd s) @ [r]" "is_ok res" by simp_all
qed

lemma send_all_trace:
  assumes "records trace h" and "send_all h clock rs prev s p = ((s', p'), res)"
  shows "trace (snd s') = trace (snd s) @ rs \<and> is_ok res"
  using assms(2)
proof (induction rs arbitrary: prev s p)
  case Nil
  then show ?case by auto
next
  case (Cons r rs)
  obtain s1 p1 res1 where one: "do_send h (clock r) r s p = ((s1, p1), res1)" by (metis surj_pair)
  note t = do_send_trace [OF assms(1) one]
  obtain md where "res1 = Inr md" using t(2) by (rule is_okE)
  with Cons.prems one have
    "send_all h clock rs (case md of None \<Rightarrow> prev | Some m \<Rightarrow> Some m) s1 p1 = ((s', p'), res)" by simp
  from Cons.IH [OF this] t(1) show ?case by simp
qed

lemma flush_batch_trace:
  assumes "records trace h" and "flush_batch h clock now s p = ((s', p'), res)"
  shows "trace (snd s') = trace (snd s) @ pr_batch p \<and> is_ok res \<and> pr_batch p' = []"
  using send_all_trace [OF assms(1)] assms(2) flush_batch_empties [OF assms(2)]
  by (simp add: flush_batch_def)

lemma producer_flush_trace:
  assumes "records trace h" and "producer_flush h clock now s p = ((s', p'), res)"
  shows "trace (snd s') = trace (snd s) @ pr_batch p \<and> is_ok res \<and> pr_batch p' = []
    \<and> pr_config p' = pr_config p \<and> pr_closed p' = pr_closed p \<and> pr_sequence p' = pr_sequence p"
proof (cases "pr_batch p = []")
  case True
  with assms(2) show ?thesis by (auto simp: producer_flush_def flush_loop.simps)
next
  case False
  obtain s1 p1 res1 where one: "flush_batch h clock now s p = ((s1, p1), res1)" by (metis surj_pair)
  note t = flush_batch_trace [OF assms(1) one] and e = flush_batch_empties [OF one]
  obtain md where res1: "res1 = Inr md" using t by (auto elim: is_okE)
  have "flush_loop h clock now s1 p1 = ((s1, p1), Inr [])" using e by (simp add: flush_loop.simps [of h clock now s1 p1])
  with assms(2) False one res1 have "s' = s1 \<and> p' = p1 \<and> is_ok res"
    by (simp add: producer_flush_def flush_loop.simps [of h clock now s p]) auto
  with t e show ?thesis by simp
qed

text \<open>A caller's sends and flushes, in any order; what each returns is not needed here.\<close>

datatype producer_op = Send string real real real mref send_args | Flush real

fun producer_step ::
    "'x hooks \<Rightarrow> (mref \<Rightarrow> real) \<Rightarrow> producer_op \<Rightarrow> (mstore \<times> 'x) \<times> producer \<Rightarrow> (mstore \<times> 'x) \<times> producer" where
  "producer_step h clock (Send uid n1 n2 n3 r a) (s, p) = fst (send h clock uid n1 n2 n3 r a s p)"
| "producer_step h clock (Flush now) (s, p) = fst (producer_flush h clock now s p)"

fun sent_refs :: "producer_op list \<Rightarrow> mref list" where
  "sent_refs [] = []"
| "sent_refs (Send uid n1 n2 n3 r a # ops) = r # sent_refs ops"
| "sent_refs (Flush now # ops) = sent_refs ops"

text \<open>The bound on the batch.\<close>

definition batch_ok :: "producer \<Rightarrow> bool" where
  "batch_ok p \<longleftrightarrow> pr_batch p = [] \<or> int (length (pr_batch p)) < pc_batch_size (pr_config p)"

lemma send_trace:
  assumes "records trace h" and "send h clock uid n1 n2 n3 r a s p = ((s', p'), res)" and "\<not> pr_closed p"
    and "batch_ok p"
  shows "trace (snd s') @ pr_batch p' = trace (snd s) @ pr_batch p @ [r] \<and> is_ok res
    \<and> batch_ok p' \<and> pr_config p' = pr_config p \<and> \<not> pr_closed p'"
proof -
  define p1 where "p1 = (if enable_idempotence (pr_config p) then p\<lparr>pr_sequence := pr_sequence p + 1\<rparr> else p)"
  define m where "m = (if enable_idempotence (pr_config p)
      then (make_message uid n1 p a)\<lparr>m_sequence_number := pr_sequence p\<rparr> else make_message uid n1 p a)"
  let ?s1 = "((fst s)(r := m), snd s)"
  let ?p2 = "p1\<lparr>pr_batch := pr_batch p1 @ [r]\<rparr>"
  have p1: "pr_batch p1 = pr_batch p" "pr_config p1 = pr_config p" "\<not> pr_closed p1"
    using assms(3) by (simp_all add: p1_def)
  have send: "(if pc_batch_size (pr_config p1) \<le> 1 then do_send h (clock r) r ?s1 p1
      else if int (length (pr_batch ?p2)) \<ge> pc_batch_size (pr_config ?p2) then flush_batch h clock n3 ?s1 ?p2
      else if (n2 - pr_last_flush ?p2) * 1000 \<ge> of_int (linger_ms (pr_config ?p2))
      then flush_batch h clock n3 ?s1 ?p2 else ((?s1, ?p2), Inr None)) = ((s', p'), res)"
    using assms(2,3) unfolding send_def Let_def p1_def m_def
    by (cases "enable_idempotence (pr_config p)") (simp_all cong: if_cong)
  consider
    (one) "pc_batch_size (pr_config p1) \<le> 1" "do_send h (clock r) r ?s1 p1 = ((s', p'), res)"
  | (flush) "flush_batch h clock n3 ?s1 ?p2 = ((s', p'), res)"
  | (wait) "int (length (pr_batch ?p2)) < pc_batch_size (pr_config ?p2)" "((?s1, ?p2), Inr None) = ((s', p'), res)"
  proof (cases "pc_batch_size (pr_config p1) \<le> 1")
    case True
    show ?thesis by (rule that(1) [OF True send [unfolded if_P [OF True]]])
  next
    case large: False
    note send1 = send [unfolded if_not_P [OF large]]
    show ?thesis
    proof (cases "int (length (pr_batch ?p2)) \<ge> pc_batch_size (pr_config ?p2)")
      case True
      show ?thesis by (rule that(2) [OF send1 [unfolded if_P [OF True]]])
    next
      case full: False
      note send2 = send1 [unfolded if_not_P [OF full]]
      show ?thesis
      proof (cases "(n2 - pr_last_flush ?p2) * 1000 \<ge> of_int (linger_ms (pr_config ?p2))")
        case True
        show ?thesis by (rule that(2) [OF send2 [unfolded if_P [OF True]]])
      next
        case False
        have "int (length (pr_batch ?p2)) < pc_batch_size (pr_config ?p2)" using full by linarith
        then show ?thesis by (rule that(3) [OF _ send2 [unfolded if_not_P [OF False]]])
      qed
    qed
  qed
  then show ?thesis
  proof cases
    case one
    have "pr_batch p = []" using assms(4) one(1) p1(2) by (cases "pr_batch p") (auto simp: batch_ok_def)
    with do_send_trace [OF assms(1) one(2)] do_send_batch [OF one(2)] p1 show ?thesis
      by (simp add: batch_ok_def)
  next
    case flush
    with flush_batch_trace [OF assms(1) flush] flush_batch_empties [OF flush] p1 show ?thesis
      by (simp add: batch_ok_def)
  next
    case wait
    with p1 show ?thesis by (auto simp: batch_ok_def)
  qed
qed

lemma producer_run_trace:
  assumes "records trace h"
  shows "fold (producer_step h clock) ops (s, p) = (s', p') \<Longrightarrow> \<not> pr_closed p \<Longrightarrow> batch_ok p \<Longrightarrow>
    trace (snd s') @ pr_batch p' = trace (snd s) @ pr_batch p @ sent_refs ops
    \<and> batch_ok p' \<and> pr_config p' = pr_config p"
proof (induction ops arbitrary: s p)
  case Nil
  then show ?case by simp
next
  case (Cons op ops)
  obtain s1 p1 where step: "producer_step h clock op (s, p) = (s1, p1)" by (metis surj_pair)
  then have rest: "fold (producer_step h clock) ops (s1, p1) = (s', p')" using Cons.prems(1) by simp
  show ?case
  proof (cases op)
    case (Send uid n1 n2 n3 r a)
    obtain res where "send h clock uid n1 n2 n3 r a s p = ((s1, p1), res)"
      using step Send by (cases "send h clock uid n1 n2 n3 r a s p") simp
    note t = send_trace [OF assms this Cons.prems(2,3)]
    with Cons.IH [OF rest] Send show ?thesis by simp
  next
    case (Flush now)
    obtain res where "producer_flush h clock now s p = ((s1, p1), res)"
      using step Flush by (cases "producer_flush h clock now s p") simp
    note t = producer_flush_trace [OF assms this]
    then have "batch_ok p1" "\<not> pr_closed p1" using Cons.prems(2) by (simp_all add: batch_ok_def)
    with Cons.IH [OF rest] t Flush show ?thesis by simp
  qed
qed

text \<open>C23. A producer with a publish function, and an error callback (if any) that does not raise, as an
  exception of it would leave the batch half published (\<open>records\<close>), hands every message it is sent to
  its publish function exactly once and in the order of the sends, whatever the mixture of batching,
  lingering, explicit flushes, failures of the publish function and exceptions of the success
  callback: what was published followed by what still waits is what was sent; fewer messages wait
  than a batch holds; flushing and closing publish the rest and leave the batch empty, and closing
  leaves the producer closed.\<close>

theorem producer_conserves:
  assumes "records trace h" and "fold (producer_step h clock) ops (s, producer_new pid cfg t0) = (s', p')"
    and "producer_close h clock now s' p' = ((s'', p''), res)"
  shows "trace (snd s') @ pr_batch p' = trace (snd s) @ sent_refs ops
    \<and> (pr_batch p' = [] \<or> int (length (pr_batch p')) < pc_batch_size cfg)
    \<and> (case producer_flush h clock now s' p' of ((s1, p1), res1) \<Rightarrow>
          trace (snd s1) = trace (snd s) @ sent_refs ops \<and> is_ok res1 \<and> pr_batch p1 = [])
    \<and> trace (snd s'') = trace (snd s) @ sent_refs ops \<and> res = Inr () \<and> pr_closed p'' \<and> pr_batch p'' = []"
proof -
  have run: "trace (snd s') @ pr_batch p' = trace (snd s) @ sent_refs ops
      \<and> batch_ok p' \<and> pr_config p' = cfg"
    using producer_run_trace [OF assms(1,2)] by (simp add: producer_new_def batch_ok_def [of "producer_new pid cfg t0", unfolded producer_new_def])
  obtain s1 p1 res1 where f: "producer_flush h clock now s' p' = ((s1, p1), res1)" by (metis surj_pair)
  note t = producer_flush_trace [OF assms(1) f]
  obtain mds where "res1 = Inr mds" using t by (auto elim: is_okE)
  then have "s'' = s1 \<and> p'' = p1\<lparr>pr_closed := True\<rparr> \<and> res = Inr ()"
    using assms(3) f by (simp add: producer_close_def)
  with t run f show ?thesis by (auto simp: batch_ok_def)
qed

text \<open>A state that only traces, with a publish function that fails for message 1.\<close>

definition sample_hooks :: "mref list hooks" where
  "sample_hooks =
     \<lparr>publish_fn = Some (\<lambda>(ms, tr) r. ((ms, tr @ [r]), if r = 1 then Inl ValueError
        else Inr \<lparr>rm_topic = [], rm_partition = 0, rm_offset = 0, rm_timestamp = 0, rm_message_id = []\<rparr>)),
      on_success = None, on_error = None\<rparr>"

definition sample_send :: send_args where
  "sample_send = \<lparr>sa_topic = ''t'', sa_value = Text ''x'', sa_key = None, sa_headers = None,
     sa_partition = -1, sa_priority = 0, sa_ttl = 0\<rparr>"

theorem producer_conserves_witness:
  "\<exists>s' p' s'' p''.
     fold (producer_step sample_hooks (\<lambda>_. 0))
       [Send ''a'' 0 0 0 0 sample_send, Send ''b'' 0 0 0 1 sample_send, Send ''c'' 0 0 0 2 sample_send]
       ((\<lambda>_. message_new [] 0 [] [] None [], []), producer_new ''p'' (default_producer_config\<lparr>pc_batch_size := 2\<rparr>) 0)
       = (s', p')
     \<and> producer_close sample_hooks (\<lambda>_. 0) 0 s' p' = ((s'', p''), Inr ())
     \<and> snd s'' = [0, 1, 2] \<and> pr_batch p' = [2] \<and> pr_batch p'' = []"
proof -
  let ?ops = "[Send ''a'' 0 0 0 0 sample_send, Send ''b'' 0 0 0 1 sample_send, Send ''c'' 0 0 0 2 sample_send]"
  let ?s = "(\<lambda>_. message_new [] 0 [] [] None [], []) :: mstore \<times> mref list"
  let ?cfg = "default_producer_config\<lparr>pc_batch_size := 2\<rparr>"
  have rec: "records (\<lambda>x. x) sample_hooks" by (simp add: records_def sample_hooks_def)
  obtain s' p' where run: "fold (producer_step sample_hooks (\<lambda>_. 0)) ?ops (?s, producer_new ''p'' ?cfg 0) = (s', p')"
    by (cases "fold (producer_step sample_hooks (\<lambda>_. 0)) ?ops (?s, producer_new ''p'' ?cfg 0)")
  obtain s'' p'' res where cl: "producer_close sample_hooks (\<lambda>_. 0) 0 s' p' = ((s'', p''), res)"
    by (metis surj_pair)
  have "pr_batch p' = [2]"
    using run by (auto simp: send_def make_message_def sample_send_def producer_new_def default_producer_config_def
        flush_batch_def do_send_def send_failed_def sample_hooks_def Let_def)
  moreover from producer_conserves [OF rec run cl] have "res = Inr ()" "snd s'' = [0, 1, 2]" "pr_batch p'' = []"
    by simp_all
  ultimately show ?thesis using run cl by blast
qed

end
