(* ===== verification/Broker.thy ===== *)
theory Broker
  imports Topic Queue Consumer Middleware Producer
begin

section \<open>The broker\<close>

text \<open>
  \<^verbatim>\<open>broker.py\<close>: the dictionaries of topics, queues, consumer groups and producers, publishing
  through the middleware, subscribing, and maintenance. The record \<open>broker\<close> also holds the stores
  of the partition and consumer objects its parts refer to; the message store is passed along.
  Topics, queues and groups are owned by the broker; a handle that a caller keeps after a deletion
  is outside the model. A producer's callbacks come as an argument where producers act.
\<close>

record broker_config =
  default_partitions :: int
  default_retention_ms :: int
  max_topics :: int
  max_queues :: int
  enable_metrics :: bool

definition default_broker_config :: broker_config where
  "default_broker_config =
     \<lparr>default_partitions = 4, default_retention_ms = 0, max_topics = 0, max_queues = 0, enable_metrics = True\<rparr>"

record broker =
  b_config :: broker_config
  b_topics :: "(string, topic) dict"
  b_queues :: "(string, message_queue) dict"
  b_priority_queues :: "(string, priority_queue) dict"
  b_groups :: "(string, consumer_group) dict"
  b_producers :: "(string, producer) dict"
  b_middleware :: pipeline
  b_running :: bool
  b_started_at :: real
  b_total_in :: int
  b_total_out :: int
  b_ps :: pstore
  b_next :: pref
  b_cs :: cstore

definition broker_new :: "broker_config \<Rightarrow> pstore \<Rightarrow> pref \<Rightarrow> cstore \<Rightarrow> broker" where
  "broker_new cfg ps next cs =
     \<lparr>b_config = cfg, b_topics = [], b_queues = [], b_priority_queues = [], b_groups = [],
      b_producers = [], b_middleware = [], b_running = False, b_started_at = 0, b_total_in = 0,
      b_total_out = 0, b_ps = ps, b_next = next, b_cs = cs\<rparr>"

definition broker_start :: "real \<Rightarrow> broker \<Rightarrow> broker" where
  "broker_start now b = b\<lparr>b_running := True, b_started_at := now\<rparr>"

subsection \<open>Topics\<close>

definition create_topic :: "string \<Rightarrow> topic_config option \<Rightarrow> broker \<Rightarrow> broker \<times> topic result" where
  "create_topic name config b =
     (if name \<in> set (keys (b_topics b)) then (b, Inl ValueError)
      else if max_topics (b_config b) > 0 \<and> int (length (b_topics b)) \<ge> max_topics (b_config b)
      then (b, Inl ValueError)
      else
        (let cfg = (case config of
               Some c \<Rightarrow> c
             | None \<Rightarrow> default_topic_config\<lparr>num_partitions := default_partitions (b_config b),
                                              retention_ms := default_retention_ms (b_config b)\<rparr>);
             (t, ps', next') = topic_new name cfg (b_next b) (b_ps b)
         in (b\<lparr>b_topics := dict_set name t (b_topics b), b_ps := ps', b_next := next'\<rparr>, Inr t)))"

text \<open>A loop over the groups that updates each of them and the consumers.\<close>

fun each_group ::
    "(string \<Rightarrow> cstore \<times> consumer_group \<Rightarrow> (cstore \<times> consumer_group) \<times> 'r) \<Rightarrow> (string, consumer_group) dict
      \<Rightarrow> cstore \<Rightarrow> (cstore \<times> (string, consumer_group) dict) \<times> (string, 'r) dict" where
  "each_group f [] cs = ((cs, []), [])"
| "each_group f ((gid, g) # gs) cs =
     (case f gid (cs, g) of ((cs1, g1), x) \<Rightarrow>
        (case each_group f gs cs1 of ((cs2, gs'), xs) \<Rightarrow> ((cs2, (gid, g1) # gs'), (gid, x) # xs)))"

definition delete_topic :: "string \<Rightarrow> broker \<Rightarrow> broker \<times> bool" where
  "delete_topic name b =
     (case dict_get (b_topics b) name of
        None \<Rightarrow> (b, False)
      | Some _ \<Rightarrow>
          (case each_group (\<lambda>_ s. (group_unsubscribe (b_ps b) name s, ())) (b_groups b) (b_cs b) of
             ((cs', gs'), _) \<Rightarrow>
               (b\<lparr>b_topics := dict_del name (b_topics b), b_groups := gs', b_cs := cs'\<rparr>, True)))"

definition get_topic :: "string \<Rightarrow> broker \<Rightarrow> topic option" where
  "get_topic name b = dict_get (b_topics b) name"

definition list_topics :: "broker \<Rightarrow> string list" where
  "list_topics b = keys (b_topics b)"

definition topic_exists :: "string \<Rightarrow> broker \<Rightarrow> bool" where
  "topic_exists name b = (name \<in> set (keys (b_topics b)))"

subsection \<open>Queues\<close>

datatype any_queue = Fifo message_queue | Prio priority_queue

definition create_queue :: "string \<Rightarrow> int \<Rightarrow> real \<Rightarrow> bool \<Rightarrow> broker \<Rightarrow> broker \<times> any_queue result" where
  "create_queue name max_size timeout priority b =
     (if name \<in> set (keys (b_queues b)) \<or> name \<in> set (keys (b_priority_queues b)) then (b, Inl ValueError)
      else if max_queues (b_config b) > 0
        \<and> int (length (b_queues b)) + int (length (b_priority_queues b)) \<ge> max_queues (b_config b)
      then (b, Inl ValueError)
      else if priority
      then (let q = pq_new name max_size timeout
            in (b\<lparr>b_priority_queues := dict_set name q (b_priority_queues b)\<rparr>, Inr (Prio q)))
      else (let q = queue_new name max_size timeout
            in (b\<lparr>b_queues := dict_set name q (b_queues b)\<rparr>, Inr (Fifo q))))"

definition delete_queue :: "string \<Rightarrow> broker \<Rightarrow> broker \<times> bool" where
  "delete_queue name b =
     (if name \<in> set (keys (b_queues b)) then (b\<lparr>b_queues := dict_del name (b_queues b)\<rparr>, True)
      else if name \<in> set (keys (b_priority_queues b))
      then (b\<lparr>b_priority_queues := dict_del name (b_priority_queues b)\<rparr>, True)
      else (b, False))"

definition get_queue :: "string \<Rightarrow> broker \<Rightarrow> any_queue option" where
  "get_queue name b =
     (case dict_get (b_queues b) name of
        Some q \<Rightarrow> Some (Fifo q)
      | None \<Rightarrow> map_option Prio (dict_get (b_priority_queues b) name))"

definition list_queues :: "broker \<Rightarrow> string list" where
  "list_queues b = keys (b_queues b) @ keys (b_priority_queues b)"

text \<open>What a method of a queue object obtained from the broker changes.\<close>

definition put_queue :: "string \<Rightarrow> any_queue \<Rightarrow> broker \<Rightarrow> broker" where
  "put_queue name q b =
     (case q of
        Fifo fq \<Rightarrow> b\<lparr>b_queues := dict_set name fq (b_queues b)\<rparr>
      | Prio pq \<Rightarrow> b\<lparr>b_priority_queues := dict_set name pq (b_priority_queues b)\<rparr>)"

definition any_enqueue :: "real \<Rightarrow> mstore \<Rightarrow> any_queue \<Rightarrow> mref \<Rightarrow> (mstore \<times> any_queue) \<times> unit result" where
  "any_enqueue now ms q r =
     (case q of
        Fifo fq \<Rightarrow> (case queue_enqueue now ms fq r of ((ms', fq'), res) \<Rightarrow> ((ms', Fifo fq'), res))
      | Prio pq \<Rightarrow> (case pq_enqueue now ms pq r of ((ms', pq'), res) \<Rightarrow> ((ms', Prio pq'), res)))"

definition broker_enqueue :: "real \<Rightarrow> string \<Rightarrow> mref \<Rightarrow> mstore \<times> broker \<Rightarrow> (mstore \<times> broker) \<times> unit result" where
  "broker_enqueue now queue_name r s =
     (case s of (ms, b) \<Rightarrow>
        (case get_queue queue_name b of
           None \<Rightarrow> ((ms, b), Inl ValueError)
         | Some q \<Rightarrow>
             (case any_enqueue now ms q r of
                ((ms', q'), Inl e) \<Rightarrow> ((ms', put_queue queue_name q' b), Inl e)
              | ((ms', q'), Inr _) \<Rightarrow>
                  ((ms', (put_queue queue_name q' b)\<lparr>b_total_in := b_total_in b + 1\<rparr>), Inr ()))))"

subsection \<open>Consumer groups\<close>

definition create_consumer_group :: "string \<Rightarrow> assignment_strategy \<Rightarrow> broker \<Rightarrow> broker \<times> consumer_group" where
  "create_consumer_group gid strategy b =
     (case dict_get (b_groups b) gid of
        Some g \<Rightarrow> (b, g)
      | None \<Rightarrow> (let g = group_new gid strategy in (b\<lparr>b_groups := dict_set gid g (b_groups b)\<rparr>, g)))"

definition get_consumer_group :: "string \<Rightarrow> broker \<Rightarrow> consumer_group option" where
  "get_consumer_group gid b = dict_get (b_groups b) gid"

definition delete_consumer_group :: "string \<Rightarrow> broker \<Rightarrow> broker \<times> bool" where
  "delete_consumer_group gid b =
     (b\<lparr>b_groups := dict_del gid (b_groups b)\<rparr>, dict_get (b_groups b) gid \<noteq> None)"

definition list_consumer_groups :: "broker \<Rightarrow> string list" where
  "list_consumer_groups b = keys (b_groups b)"

text \<open>\<open>self._topics.get(name)\<close>, created with the default configuration when it is missing.\<close>

definition topic_or_create :: "string \<Rightarrow> broker \<Rightarrow> broker \<times> topic result" where
  "topic_or_create name b =
     (case get_topic name b of Some t \<Rightarrow> (b, Inr t) | None \<Rightarrow> create_topic name None b)"

definition broker_subscribe :: "string \<Rightarrow> string \<Rightarrow> cref \<Rightarrow> broker \<Rightarrow> broker \<times> unit result" where
  "broker_subscribe gid topic_name x b =
     (case topic_or_create topic_name b of
        (b1, Inl e) \<Rightarrow> (b1, Inl e)
      | (b1, Inr t) \<Rightarrow>
          (let (b2, g) = create_consumer_group gid RANGE b1;
               (cs1, g1) = group_subscribe (b_ps b2) topic_name (t_partitions t) (b_cs b2, g);
               t' = topic_subscribe gid t;
               (cs2, g2) = group_join (b_ps b2) x (cs1, g1)
           in (b2\<lparr>b_topics := dict_set topic_name t' (b_topics b2),
                  b_groups := dict_set gid g2 (b_groups b2), b_cs := cs2\<rparr>, Inr ())))"

subsection \<open>Publishing\<close>

text \<open>\<open>clock\<close> for the middleware, \<open>now\<close> for the broker timestamp.\<close>

definition broker_publish ::
    "(nat \<Rightarrow> string) \<Rightarrow> real \<Rightarrow> mstore \<times> broker \<Rightarrow> mref \<Rightarrow> (mstore \<times> broker) \<times> record_metadata result" where
  "broker_publish clock now s message =
     (case s of (ms, b) \<Rightarrow>
        (case pipeline_process clock (b_middleware b) ms message of ((p', ms1), processed) \<Rightarrow>
           (let b1 = b\<lparr>b_middleware := p'\<rparr> in
            case processed of
              Inl e \<Rightarrow> ((ms1, b1), Inl e)
            | Inr None \<Rightarrow> ((ms1, b1), Inl ValueError)
            | Inr (Some r) \<Rightarrow>
                (case topic_or_create (m_topic (ms1 r)) b1 of
                   (b2, Inl e) \<Rightarrow> ((ms1, b2), Inl e)
                 | (b2, Inr t) \<Rightarrow>
                     (case topic_publish now ms1 (b_ps b2) t r of ((ms2, ps2, t'), res) \<Rightarrow>
                        (let b3 = b2\<lparr>b_topics := dict_set (m_topic (ms1 r)) t' (b_topics b2), b_ps := ps2\<rparr> in
                         case res of
                           Inl e \<Rightarrow> ((ms2, b3), Inl e)
                         | Inr offset \<Rightarrow>
                             ((ms2, b3\<lparr>b_total_in := b_total_in b3 + 1\<rparr>),
                              Inr \<lparr>rm_topic = m_topic (ms2 r), rm_partition = m_partition (ms2 r),
                                   rm_offset = offset, rm_timestamp = m_broker_timestamp (ms2 r),
                                   rm_message_id = m_id (ms2 r)\<rparr>)))))))"

subsection \<open>Producers\<close>

definition register_producer :: "producer \<Rightarrow> broker \<Rightarrow> broker" where
  "register_producer p b = b\<lparr>b_producers := dict_set (pr_id p) p (b_producers b)\<rparr>"

definition create_producer :: "string \<Rightarrow> producer_config \<Rightarrow> real \<Rightarrow> broker \<Rightarrow> broker \<times> producer" where
  "create_producer pid cfg now b =
     (let p = producer_new pid cfg now in (register_producer p b, p))"

text \<open>The hooks of a producer made by \<open>create_producer\<close>: it publishes through the broker.\<close>

definition broker_hooks :: "(nat \<Rightarrow> string) \<Rightarrow> (mref \<Rightarrow> real) \<Rightarrow> broker hooks" where
  "broker_hooks clock now =
     \<lparr>publish_fn = Some (\<lambda>s r. broker_publish clock (now r) s r), on_success = None, on_error = None\<rparr>"

text \<open>\<open>stop\<close>: every registered producer is closed; an exception of a callback ends the loop.\<close>

fun close_producers ::
    "(string \<Rightarrow> broker hooks) \<Rightarrow> (mref \<Rightarrow> real) \<Rightarrow> real \<Rightarrow> string list \<Rightarrow> mstore \<times> broker
      \<Rightarrow> (mstore \<times> broker) \<times> unit result" where
  "close_producers hooks_of clock now [] s = (s, Inr ())"
| "close_producers hooks_of clock now (pid # pids) s =
     (case dict_get (b_producers (snd s)) pid of
        None \<Rightarrow> close_producers hooks_of clock now pids s
      | Some p \<Rightarrow>
          (case producer_close (hooks_of pid) clock now s p of
             (((ms', b'), p'), res) \<Rightarrow>
               (let s' = (ms', b'\<lparr>b_producers := dict_set pid p' (b_producers b')\<rparr>) in
                case res of
                  Inl e \<Rightarrow> (s', Inl e)
                | Inr _ \<Rightarrow> close_producers hooks_of clock now pids s')))"

definition broker_stop ::
    "(string \<Rightarrow> broker hooks) \<Rightarrow> (mref \<Rightarrow> real) \<Rightarrow> real \<Rightarrow> mstore \<times> broker \<Rightarrow> (mstore \<times> broker) \<times> unit result" where
  "broker_stop hooks_of clock now s =
     close_producers hooks_of clock now (keys (b_producers (snd s))) (fst s, (snd s)\<lparr>b_running := False\<rparr>)"

subsection \<open>Maintenance\<close>

text \<open>The loops over the topics: \<open>f\<close> works on one topic, topics that lost messages are reported.\<close>

definition note_removed :: "string \<Rightarrow> int \<Rightarrow> (string, int) dict \<Rightarrow> (string, int) dict" where
  "note_removed name removed results = (if removed > 0 then dict_set name removed results else results)"

fun each_topic ::
    "(pstore \<Rightarrow> topic \<Rightarrow> pstore \<times> int) \<Rightarrow> (string, topic) dict \<Rightarrow> pstore \<Rightarrow> (string, int) dict
      \<Rightarrow> pstore \<times> (string, int) dict" where
  "each_topic f [] ps results = (ps, results)"
| "each_topic f ((name, t) # ts) ps results =
     (case f ps t of (ps', removed) \<Rightarrow> each_topic f ts ps' (note_removed name removed results))"

definition broker_apply_retention ::
    "(pref \<Rightarrow> real) \<Rightarrow> mstore \<times> broker \<Rightarrow> (mstore \<times> broker) \<times> (string, int) dict" where
  "broker_apply_retention clock s =
     (case s of (ms, b) \<Rightarrow>
        (case each_topic (topic_apply_retention clock ms) (b_topics b) (b_ps b) [] of
           (ps', results) \<Rightarrow> ((ms, b\<lparr>b_ps := ps'\<rparr>), results)))"

definition compact_topics :: "mstore \<times> broker \<Rightarrow> (mstore \<times> broker) \<times> (string, int) dict" where
  "compact_topics s =
     (case s of (ms, b) \<Rightarrow>
        (case each_topic (topic_compact ms) (b_topics b) (b_ps b) [] of
           (ps', results) \<Rightarrow> ((ms, b\<lparr>b_ps := ps'\<rparr>), results)))"

definition remove_dead_consumers ::
    "(string \<Rightarrow> string \<Rightarrow> real) \<Rightarrow> broker \<Rightarrow> broker \<times> (string, string list) dict" where
  "remove_dead_consumers clock b =
     (case each_group (\<lambda>gid. remove_dead_members (clock gid) (b_ps b)) (b_groups b) (b_cs b) of
        ((cs', gs'), dead) \<Rightarrow>
          (b\<lparr>b_groups := gs', b_cs := cs'\<rparr>, filter (\<lambda>(gid, ids). ids \<noteq> []) dead))"

end
