(* ===== verification/Broker_Parts.thy ===== *)
theory Broker_Parts
  imports Broker Consumer_Group
begin

section \<open>The broker's topics and groups\<close>

text \<open>
  What holds of a dictionary of topics and of a dictionary of groups, and how publishing, creation
  and the loops over all groups keep it. \<open>group_sweep\<close> is the contract of an operation that the
  broker runs on every group.
\<close>

subsection \<open>Topics\<close>

definition topics_ok :: "mstore \<Rightarrow> pstore \<Rightarrow> pref \<Rightarrow> (string, topic) dict \<Rightarrow> bool" where
  "topics_ok ms ps nx ts \<longleftrightarrow>
     (\<forall>n t. dict_get ts n = Some t \<longrightarrow> t_name t = n \<and> topic_inv ms ps t \<and> set (t_partitions t) \<subseteq> {..<nx})
     \<and> (\<forall>n1 t1 n2 t2. dict_get ts n1 = Some t1 \<and> dict_get ts n2 = Some t2 \<and> n1 \<noteq> n2 \<longrightarrow>
          set (t_partitions t1) \<inter> set (t_partitions t2) = {})"

lemma topics_okD:
  assumes "topics_ok ms ps nx ts" and "dict_get ts n = Some t"
  shows "t_name t = n" "topic_inv ms ps t" "set (t_partitions t) \<subseteq> {..<nx}"
    and "dict_get ts n' = Some t' \<Longrightarrow> n \<noteq> n' \<Longrightarrow> set (t_partitions t) \<inter> set (t_partitions t') = {}"
  using assms unfolding topics_ok_def by blast+

text \<open>One topic is added or replaced, the others may have moved to new stores.\<close>

lemma topics_ok_insert:
  assumes "topics_ok ms ps nx ts"
    and "\<And>k u. dict_get ts k = Some u \<Longrightarrow> k \<noteq> n \<Longrightarrow> topic_inv ms' ps' u"
    and "t_name t = n" "topic_inv ms' ps' t" "set (t_partitions t) \<subseteq> {..<nx'}" "nx \<le> nx'"
    and "\<And>k u. dict_get ts k = Some u \<Longrightarrow> k \<noteq> n \<Longrightarrow> set (t_partitions t) \<inter> set (t_partitions u) = {}"
  shows "topics_ok ms' ps' nx' (dict_set n t ts)"
proof -
  have get: "dict_get (dict_set n t ts) k = (if k = n then Some t else dict_get ts k)" for k by auto
  have "t_name u = k \<and> topic_inv ms' ps' u \<and> set (t_partitions u) \<subseteq> {..<nx'}"
    if "dict_get ts k = Some u" "k \<noteq> n" for k u
    using topics_okD(1,3) [OF assms(1) that(1)] assms(2) [OF that] assms(6) by auto
  moreover have "set (t_partitions u) \<inter> set (t_partitions v) = {}"
    if "dict_get ts k = Some u" "dict_get ts l = Some v" "k \<noteq> l" for k l u v
    using topics_okD(4) [OF assms(1) that] .
  ultimately show ?thesis
    unfolding topics_ok_def get using assms(3-5,7) by (simp split: if_split) (metis Int_commute)
qed

text \<open>No log of a topic holds the message object.\<close>

definition fresh_all :: "mref \<Rightarrow> pstore \<Rightarrow> (string, topic) dict \<Rightarrow> bool" where
  "fresh_all r ps ts \<longleftrightarrow> (\<forall>n t. dict_get ts n = Some t \<longrightarrow> fresh_for r ps t)"

lemma topic_inv_cong:
  assumes "\<And>p. p \<in> set (t_partitions t) \<Longrightarrow> ps' p = ps p \<and> (\<forall>x \<in> set (p_log (ps p)). ms' x = ms x)"
  shows "topic_inv ms' ps' t = topic_inv ms ps t"
proof -
  have "(p_id (ps' q) = int i \<and> p_topic (ps' q) = t_name t \<and> ordered ms' (ps' q))
      = (p_id (ps q) = int i \<and> p_topic (ps q) = t_name t \<and> ordered ms (ps q))"
    if "i < length (t_partitions t)" "q = t_partitions t ! i" for i q
    using assms [of q] that ordered_cong [of "ps q" ms' ms] by auto
  then show ?thesis unfolding topic_inv_def by metis
qed

lemma topics_ok_frame:
  assumes "topics_ok ms ps nx ts" and "\<And>x. x \<noteq> r \<Longrightarrow> ms' x = ms x" and "fresh_all r ps ts"
  shows "topics_ok ms' ps nx ts"
proof -
  have "topic_inv ms' ps t = topic_inv ms ps t" if "dict_get ts n = Some t" for n t
  proof (rule topic_inv_cong)
    fix p assume "p \<in> set (t_partitions t)"
    then have "r \<notin> set (p_log (ps p))" using assms(3) that by (auto simp: fresh_all_def fresh_for_def)
    then show "ps p = ps p \<and> (\<forall>x \<in> set (p_log (ps p)). ms' x = ms x)" using assms(2) by metis
  qed
  with assms(1) show ?thesis unfolding topics_ok_def by metis
qed

lemma topics_ok_del: "topics_ok ms ps nx ts \<Longrightarrow> topics_ok ms ps nx (dict_del n ts)"
  unfolding topics_ok_def by (auto simp: delete_conv split: if_splits)

lemma topic_publish_only:
  assumes "topic_publish now ms ps t r = ((ms', ps', t'), res)" and "0 \<le> t_round_robin t"
  shows "t_partitions t' = t_partitions t" "t_name t' = t_name t" "t_config t' = t_config t"
    "q \<notin> set (t_partitions t) \<Longrightarrow> ps' q = ps q"
proof -
  from assms have "t_partitions t' = t_partitions t \<and> t_name t' = t_name t \<and> t_config t' = t_config t
      \<and> (q \<notin> set (t_partitions t) \<longrightarrow> ps' q = ps q)"
  proof (cases rule: topic_publish_cases)
    case too_large
    then show ?thesis by simp
  next
    case (unassigned e)
    then show ?thesis using choose_partition_frame by metis
  next
    case (no_partition pid)
    then show ?thesis using choose_partition_frame by metis
  next
    case (append pid p q')
    then have "p \<in> set (t_partitions t)" by simp
    with append show ?thesis using choose_partition_frame [OF append(1)] by auto
  qed
  then show "t_partitions t' = t_partitions t" "t_name t' = t_name t" "t_config t' = t_config t"
    "q \<notin> set (t_partitions t) \<Longrightarrow> ps' q = ps q" by simp_all
qed

lemma topics_ok_set:
  assumes "topics_ok ms ps nx ts" and "dict_get ts n = Some t" and "t_name t' = n"
    and "t_partitions t' = t_partitions t" and "topic_inv ms ps t'"
  shows "topics_ok ms ps nx (dict_set n t' ts)"
  using assms topics_okD [OF assms(1)] topics_okD(4) [OF assms(1,2)]
  by (intro topics_ok_insert [OF assms(1)]) auto

lemma topics_ok_publish:
  assumes ok: "topics_ok ms ps nx ts" and t: "dict_get ts n = Some t" and fresh: "fresh_all r ps ts"
    and pub: "topic_publish now ms ps t r = ((ms', ps', t'), res)"
  shows "topics_ok ms' ps' nx (dict_set n t' ts)" "t_partitions t' = t_partitions t"
proof -
  note T = topics_okD [OF ok t]
  have rr: "0 \<le> t_round_robin t" using T(2) by (simp add: topic_inv_def)
  note only = topic_publish_only [OF pub rr]
  show parts: "t_partitions t' = t_partitions t" by (rule only(1))
  have inv': "topic_inv ms' ps' t'"
    using topic_publish_inv [OF pub T(2)] fresh t by (simp add: fresh_all_def)
  have others: "topic_inv ms' ps' u" if u: "dict_get ts k = Some u" "k \<noteq> n" for k u
  proof -
    have "topic_inv ms' ps' u = topic_inv ms ps u"
    proof (rule topic_inv_cong)
      fix p assume p: "p \<in> set (t_partitions u)"
      have "p \<notin> set (t_partitions t)" using T(4) [OF u(1)] u(2) p by blast
      moreover have "r \<notin> set (p_log (ps p))" using fresh u(1) p by (auto simp: fresh_all_def fresh_for_def)
      ultimately show "ps' p = ps p \<and> (\<forall>x \<in> set (p_log (ps p)). ms' x = ms x)"
        using only(4) topic_publish_frame [OF pub rr] by metis
    qed
    with topics_okD(2) [OF ok u(1)] show ?thesis by simp
  qed
  show "topics_ok ms' ps' nx (dict_set n t' ts)"
    by (rule topics_ok_insert [OF ok others]) (use T inv' only(1,2) in auto)
qed

lemma topics_ok_new:
  assumes ok: "topics_ok ms ps nx ts" and new: "topic_new name cfg nx ps = (t, ps', nx')"
  shows "topics_ok ms ps' nx' (dict_set name t ts)" "nx \<le> nx'" "\<And>x. x < nx \<Longrightarrow> ps' x = ps x"
proof -
  note N = topic_new_inv [OF new]
  show "nx \<le> nx'" "\<And>x. x < nx \<Longrightarrow> ps' x = ps x" using N(3,4) by simp_all
  have name: "t_name t = name" using new by (auto simp: topic_new_def Let_def)
  have old: "topic_inv ms ps' u \<and> set (t_partitions u) \<subseteq> {..<nx'} \<and> set (t_partitions u) \<inter> set (t_partitions t) = {}"
    if "dict_get ts k = Some u" for k u
  proof -
    note U = topics_okD [OF ok that]
    have "topic_inv ms ps' u = topic_inv ms ps u"
      using U(3) N(4) by (intro topic_inv_cong) auto
    with U N(2,3) show ?thesis by (auto simp: subset_iff)
  qed
  have "set (t_partitions t) \<subseteq> {..<nx'}" using N(2) by auto
  then show "topics_ok ms ps' nx' (dict_set name t ts)"
    using old name N(1,3) by (intro topics_ok_insert [OF ok]) (auto simp: Int_commute)
qed

text \<open>Changes of the stores that keep every partition's identity and order.\<close>

lemma topics_ok_map:
  assumes "topics_ok ms ps nx ts"
    and "\<And>n t. dict_get ts n = Some t \<Longrightarrow> topic_inv ms ps t \<Longrightarrow> topic_inv ms ps' t"
  shows "topics_ok ms ps' nx ts"
  using assms unfolding topics_ok_def by blast

subsection \<open>Groups\<close>

definition groups_ok :: "cstore \<Rightarrow> (string, consumer_group) dict \<Rightarrow> bool" where
  "groups_ok cs gs \<longleftrightarrow>
     (\<forall>gid g. dict_get gs gid = Some g \<longrightarrow> g_id g = gid \<and> group_ok cs g \<and> settled cs g)
     \<and> (\<forall>gid1 g1 gid2 g2. dict_get gs gid1 = Some g1 \<and> dict_get gs gid2 = Some g2 \<and> gid1 \<noteq> gid2 \<longrightarrow>
          set (member_refs g1) \<inter> set (member_refs g2) = {})"

lemma groups_okD:
  assumes "groups_ok cs gs" and "dict_get gs gid = Some g"
  shows "g_id g = gid" "group_ok cs g" "settled cs g"
    and "dict_get gs gid' = Some g' \<Longrightarrow> gid \<noteq> gid' \<Longrightarrow> set (member_refs g) \<inter> set (member_refs g') = {}"
  using assms unfolding groups_ok_def by blast+

lemma group_cong:
  assumes "\<And>x. x \<in> set (member_refs g) \<Longrightarrow> c_id (cs' x) = c_id (cs x) \<and> c_assigned (cs' x) = c_assigned (cs x)"
  shows "group_ok cs' g = group_ok cs g" "settled cs' g = settled cs g"
proof -
  have "c_id (cs' x) = c_id (cs x)" if "(cid, x) \<in> set (g_members g)" for cid x
  proof -
    have "x \<in> set (member_refs g)" using that by (force simp: member_refs_def)
    with assms show ?thesis by blast
  qed
  then show "group_ok cs' g = group_ok cs g" unfolding group_ok_def by auto
  have "map (\<lambda>x. c_assigned (cs' x)) (member_refs g) = map (\<lambda>x. c_assigned (cs x)) (member_refs g)"
    using assms by (intro map_cong) auto
  then show "settled cs' g = settled cs g" by (simp only: settled_def shares_of_def)
qed

text \<open>One group is replaced, with consumers changed in it and in no other group.\<close>

lemma groups_ok_set:
  assumes ok: "groups_ok cs gs" and "g_id g' = gid" "group_ok cs' g'" "settled cs' g'"
    and frame: "\<And>y. y \<notin> xs \<Longrightarrow> cs' y = cs y" and sub: "set (member_refs g') \<subseteq> xs"
    and apart: "\<And>gid2 g2. dict_get gs gid2 = Some g2 \<Longrightarrow> gid2 \<noteq> gid \<Longrightarrow> xs \<inter> set (member_refs g2) = {}"
  shows "groups_ok cs' (dict_set gid g' gs)"
proof -
  have other: "group_ok cs' g2 \<and> settled cs' g2 \<and> g_id g2 = gid2 \<and> set (member_refs g') \<inter> set (member_refs g2) = {}"
    if "dict_get gs gid2 = Some g2" "gid2 \<noteq> gid" for gid2 g2
  proof -
    have "cs' y = cs y" if "y \<in> set (member_refs g2)" for y
      using frame apart [OF \<open>dict_get gs gid2 = Some g2\<close> \<open>gid2 \<noteq> gid\<close>] that by blast
    then have "group_ok cs' g2 = group_ok cs g2" "settled cs' g2 = settled cs g2"
      using group_cong [of g2 cs' cs] by simp_all
    with groups_okD [OF ok that(1)] apart [OF that] sub show ?thesis by blast
  qed
  have pair: "set (member_refs g1) \<inter> set (member_refs g2) = {}"
    if "dict_get gs gid1 = Some g1" "dict_get gs gid2 = Some g2" "gid1 \<noteq> gid2" for gid1 g1 gid2 g2
    using groups_okD(4) [OF ok that] .
  have get: "dict_get (dict_set gid g' gs) k = (if k = gid then Some g' else dict_get gs k)" for k by auto
  have "g_id h = k \<and> group_ok cs' h \<and> settled cs' h" if "dict_get (dict_set gid g' gs) k = Some h" for k h
    using that other assms(2-4) unfolding get by (auto split: if_splits)
  moreover have "set (member_refs g1) \<inter> set (member_refs g2) = {}"
    if "dict_get (dict_set gid g' gs) k1 = Some g1" "dict_get (dict_set gid g' gs) k2 = Some g2" "k1 \<noteq> k2"
    for k1 k2 g1 g2
  proof (cases "k1 = gid \<or> k2 = gid")
    case True
    then show ?thesis using that other unfolding get by (metis Int_commute option.inject)
  next
    case False
    then show ?thesis using that pair unfolding get by metis
  qed
  ultimately show ?thesis unfolding groups_ok_def by blast
qed

lemma groups_ok_del: "groups_ok cs gs \<Longrightarrow> groups_ok cs (dict_del gid gs)"
  unfolding groups_ok_def by (auto simp: delete_conv split: if_splits)

locale group_sweep =
  fixes f :: "string \<Rightarrow> cstore \<times> consumer_group \<Rightarrow> (cstore \<times> consumer_group) \<times> 'r"
    and subs :: "(string, pref list) dict \<Rightarrow> (string, pref list) dict"
  assumes sweep: "group_ok cs g \<Longrightarrow> settled cs g \<Longrightarrow> f gid (cs, g) = ((cs', g'), r) \<Longrightarrow>
      group_ok cs' g' \<and> settled cs' g' \<and> g_subscribed g' = subs (g_subscribed g)
      \<and> set (member_refs g') \<subseteq> set (member_refs g) \<and> group_frame (set (member_refs g)) cs g cs' g'"
begin

lemma each_group_ok:
  assumes "each_group f gs cs = ((cs', gs'), xs)" and "wf_dict gs" and "groups_ok cs gs"
  shows "groups_ok cs' gs' \<and> keys gs' = keys gs
    \<and> (\<forall>gid g'. dict_get gs' gid = Some g' \<longrightarrow> (\<exists>g. dict_get gs gid = Some g
          \<and> g_subscribed g' = subs (g_subscribed g) \<and> set (member_refs g') \<subseteq> set (member_refs g)))
    \<and> (\<forall>y. (\<forall>gid g. dict_get gs gid = Some g \<longrightarrow> y \<notin> set (member_refs g)) \<longrightarrow> cs' y = cs y)"
  using assms
proof (induction gs arbitrary: cs cs' gs' xs)
  case Nil
  then show ?case by simp
next
  case (Cons a gs)
  obtain gid g where a: "a = (gid, g)" by (cases a)
  obtain cs1 g1 r where one: "f gid (cs, g) = ((cs1, g1), r)" by (metis surj_pair)
  obtain gs2 xs2 where rest: "each_group f gs cs1 = ((cs', gs2), xs2)" and gs': "gs' = (gid, g1) # gs2"
    using Cons.prems(1) by (auto simp: a one split: prod.splits)
  have wf: "wf_dict gs" and new: "dict_get gs gid = None"
    using Cons.prems(2) by (auto simp: a wf_dict_def map_of_eq_None_iff)
  have get: "dict_get (a # gs) k = Some h \<longleftrightarrow> (if k = gid then h = g else dict_get gs k = Some h)" for k h
    by (auto simp: a)
  have g: "dict_get (a # gs) gid = Some g" by (simp add: a)
  note G = groups_okD [OF Cons.prems(3) g]
  note S = sweep [OF G(2,3) one]
  have apart: "set (member_refs g) \<inter> set (member_refs h) = {}" if "dict_get gs k = Some h" for k h
  proof -
    have "k \<noteq> gid" using that new by auto
    with that have "dict_get (a # gs) k = Some h" by (simp only: get if_False)
    then show ?thesis using G(4) \<open>k \<noteq> gid\<close> by blast
  qed
  have sub: "groups_ok cs gs"
    using Cons.prems(3) new unfolding groups_ok_def get by (metis option.distinct(1))
  have ok1: "groups_ok cs1 gs"
  proof -
    have "group_ok cs1 h = group_ok cs h \<and> settled cs1 h = settled cs h" if "dict_get gs k = Some h" for k h
    proof -
      have "cs1 y = cs y" if "y \<in> set (member_refs h)" for y
        using S apart [OF \<open>dict_get gs k = Some h\<close>] that by (auto simp: group_frame_def)
      then show ?thesis using group_cong [of h cs1 cs] by simp
    qed
    with sub show ?thesis unfolding groups_ok_def by blast
  qed
  note IH = Cons.IH [OF rest wf ok1]
  have keep: "cs' y = cs1 y" if "y \<in> set (member_refs g)" for y
    using IH apart that by blast
  have "group_ok cs' g1 = group_ok cs1 g1" "settled cs' g1 = settled cs1 g1"
    using keep S by (intro group_cong; force)+
  then have g1: "group_ok cs' g1 \<and> settled cs' g1 \<and> g_id g1 = gid" using S G(1) by (simp add: group_frame_def)
  have far: "set (member_refs g1) \<inter> set (member_refs h) = {}" if h: "dict_get gs2 k = Some h" for k h
  proof -
    obtain h0 where "dict_get gs k = Some h0" "set (member_refs h) \<subseteq> set (member_refs h0)" using IH h by blast
    with apart S show ?thesis by blast
  qed
  have new2: "dict_get gs2 gid = None" using IH new by (metis in_keys_iff)
  have get': "dict_get gs' k = Some h \<longleftrightarrow> (if k = gid then h = g1 else dict_get gs2 k = Some h)" for k h
    by (auto simp: gs')
  have "groups_ok cs' gs'"
    unfolding groups_ok_def get' using IH g1 far by (auto simp: groups_ok_def Int_commute split: if_splits)
  moreover have "keys gs' = keys (a # gs)" using IH by (simp add: gs' a)
  moreover have "\<exists>h. dict_get (a # gs) k = Some h \<and> g_subscribed g' = subs (g_subscribed h)
      \<and> set (member_refs g') \<subseteq> set (member_refs h)" if "dict_get gs' k = Some g'" for k g'
    using that IH S unfolding get get' by (auto split: if_splits)
  moreover have "cs' y = cs y" if "\<forall>k h. dict_get (a # gs) k = Some h \<longrightarrow> y \<notin> set (member_refs h)" for y
  proof -
    have "y \<notin> set (member_refs g)" using that g by blast
    then have "cs1 y = cs y" using S by (simp add: group_frame_def)
    moreover have "dict_get gs k = Some h \<Longrightarrow> y \<notin> set (member_refs h)" for k h
      using that new unfolding get by (metis option.distinct(1))
    ultimately show ?thesis using IH by metis
  qed
  ultimately show ?case by blast
qed

end

interpretation unsubscribing: group_sweep "\<lambda>gid s. (group_unsubscribe ps name s, ())" "dict_del name" for ps name
proof unfold_locales
  fix cs g gid cs' g' and r :: unit
  assume "group_ok cs g" "(group_unsubscribe ps name (cs, g), ()) = ((cs', g'), r)"
  then show "group_ok cs' g' \<and> settled cs' g' \<and> g_subscribed g' = dict_del name (g_subscribed g)
      \<and> set (member_refs g') \<subseteq> set (member_refs g) \<and> group_frame (set (member_refs g)) cs g cs' g'"
    using group_topics_inv(2) [of cs g ps name cs' g'] by (simp add: member_refs_def)
qed

interpretation removing: group_sweep "\<lambda>gid. remove_dead_members (clock gid) ps" "\<lambda>d. d" for clock ps
proof unfold_locales
  fix cs g gid cs' g' and r :: "string list"
  assume "group_ok cs g" "settled cs g" "remove_dead_members (clock gid) ps (cs, g) = ((cs', g'), r)"
  note inv = remove_dead_inv [OF this]
  moreover have "set (member_refs g') \<subseteq> set (member_refs g)" using inv by (auto simp: member_refs_def)
  ultimately show "group_ok cs' g' \<and> settled cs' g' \<and> g_subscribed g' = g_subscribed g
      \<and> set (member_refs g') \<subseteq> set (member_refs g) \<and> group_frame (set (member_refs g)) cs g cs' g'"
    by simp
qed

end
