(* ===== verification/Broker_Inv.thy ===== *)
theory Broker_Inv
  imports Broker_Parts
begin

section \<open>The broker's invariant\<close>

text \<open>
  Every operation of the broker keeps \<open>broker_inv\<close>: topics own disjoint sets of ordered partitions,
  groups are settled and share no member, every subscription is to the partitions of a topic that
  exists, names are unique and the limits hold.
\<close>

definition subs_ok :: "(string, topic) dict \<Rightarrow> (string, consumer_group) dict \<Rightarrow> bool" where
  "subs_ok ts gs \<longleftrightarrow>
     (\<forall>gid g. dict_get gs gid = Some g \<longrightarrow> wf_dict (g_subscribed g)
        \<and> (\<forall>tn refs. dict_get (g_subscribed g) tn = Some refs \<longrightarrow>
              (\<exists>t. dict_get ts tn = Some t \<and> refs = t_partitions t)))"

definition names_ok :: "broker \<Rightarrow> bool" where
  "names_ok b \<longleftrightarrow>
     wf_dict (b_topics b) \<and> wf_dict (b_queues b) \<and> wf_dict (b_priority_queues b) \<and> wf_dict (b_groups b)
     \<and> set (keys (b_queues b)) \<inter> set (keys (b_priority_queues b)) = {}
     \<and> (max_topics (b_config b) > 0 \<longrightarrow> int (length (b_topics b)) \<le> max_topics (b_config b))
     \<and> (max_queues (b_config b) > 0 \<longrightarrow>
          int (length (b_queues b)) + int (length (b_priority_queues b)) \<le> max_queues (b_config b))"

definition broker_inv :: "mstore \<Rightarrow> broker \<Rightarrow> bool" where
  "broker_inv ms b \<longleftrightarrow>
     topics_ok ms (b_ps b) (b_next b) (b_topics b) \<and> groups_ok (b_cs b) (b_groups b)
     \<and> subs_ok (b_topics b) (b_groups b) \<and> names_ok b"

abbreviation fresh_in :: "mref \<Rightarrow> broker \<Rightarrow> bool" where
  "fresh_in r b \<equiv> fresh_all r (b_ps b) (b_topics b)"

lemma broker_invD:
  assumes "broker_inv ms b"
  shows "topics_ok ms (b_ps b) (b_next b) (b_topics b)" "groups_ok (b_cs b) (b_groups b)"
    "subs_ok (b_topics b) (b_groups b)" "names_ok b"
  using assms by (simp_all add: broker_inv_def)

lemma names_ok_only:
  "names_ok b \<Longrightarrow> b_config b' = b_config b \<Longrightarrow> keys (b_topics b') = keys (b_topics b) \<Longrightarrow>
    b_queues b' = b_queues b \<Longrightarrow> b_priority_queues b' = b_priority_queues b \<Longrightarrow>
    wf_dict (b_groups b') \<Longrightarrow> names_ok b'"
  unfolding names_ok_def wf_dict_def by (metis length_map)

lemma length_dict_set: "length (dict_set k v d) = (if k \<in> set (keys d) then length d else Suc (length d))"
  using arg_cong [OF keys_dict_set [of k v d], of length] by (simp only: length_map length_append split: if_split) auto

lemma length_dict_del: "length (dict_del k d) \<le> length d"
  by (simp add: dict_del_filter)

lemma keys_dict_del: "set (keys (dict_del k d)) \<subseteq> set (keys d)"
  by (auto simp: dict_del_filter)

lemma get_Some_key: "dict_get d k = Some v \<Longrightarrow> k \<in> set (keys d)"
  unfolding in_keys_iff by simp

lemma keys_dict_replace: "dict_get d k = Some v \<Longrightarrow> keys (dict_set k v' d) = keys d"
  using get_Some_key [of d k v] by (simp only: keys_dict_set if_True)

lemma length_dict_replace: "dict_get d k = Some v \<Longrightarrow> length (dict_set k v' d) = length d"
  using arg_cong [OF keys_dict_replace [of d k v v'], of length] by (simp only: length_map)

lemma dict_set_fresh:
  assumes "k \<notin> set (keys d)"
  shows "length (dict_set k v d) = Suc (length d)" "set (keys (dict_set k v d)) = insert k (set (keys d))"
  unfolding dict_set_new [OF assms] by simp_all

lemma subs_okD: "subs_ok ts gs \<Longrightarrow> dict_get gs gid = Some g \<Longrightarrow> wf_dict (g_subscribed g)"
  "subs_ok ts gs \<Longrightarrow> dict_get gs gid = Some g \<Longrightarrow> dict_get (g_subscribed g) tn = Some refs \<Longrightarrow>
    \<exists>t. dict_get ts tn = Some t \<and> refs = t_partitions t"
  unfolding subs_ok_def by blast+

lemma subs_ok_topics:
  assumes "subs_ok ts gs"
    and "\<And>tn t. dict_get ts tn = Some t \<Longrightarrow> \<exists>t'. dict_get ts' tn = Some t' \<and> t_partitions t' = t_partitions t"
  shows "subs_ok ts' gs"
  using assms unfolding subs_ok_def by metis

lemma fresh_all_new:
  assumes "fresh_all r ps ts" and "topic_new name cfg nx ps = (t, ps', nx')" and "topics_ok ms ps nx ts"
  shows "fresh_all r ps' (dict_set name t ts)"
proof -
  note N = topic_new_inv [OF assms(2)]
  have "fresh_for r ps' u" if u: "dict_get ts k = Some u" for k u
  proof -
    have "ps' p = ps p" if "p \<in> set (t_partitions u)" for p
      using topics_okD(3) [OF assms(3) u] that N(4) by blast
    then show ?thesis using assms(1) u by (auto simp: fresh_all_def fresh_for_def)
  qed
  moreover have "fresh_for r ps' t" using N(5) by (auto simp: fresh_for_def)
  ultimately show ?thesis by (auto simp: fresh_all_def split: if_splits)
qed

subsection \<open>Creating topics\<close>

text \<open>What looking up or creating the topic \<open>name\<close> leaves behind.\<close>

definition topic_made :: "broker \<Rightarrow> string \<Rightarrow> broker \<Rightarrow> topic result \<Rightarrow> bool" where
  "topic_made b name b' res \<longleftrightarrow>
     b_groups b' = b_groups b \<and> b_cs b' = b_cs b \<and> b_middleware b' = b_middleware b
     \<and> b_total_in b' = b_total_in b \<and> b_config b' = b_config b
     \<and> (\<forall>r. fresh_in r b \<longrightarrow> fresh_in r b')
     \<and> (\<forall>p < b_next b. b_ps b' p = b_ps b p) \<and> b_next b \<le> b_next b'
     \<and> (case res of Inl e \<Rightarrow> b' = b \<and> e = ValueError
        | Inr t \<Rightarrow> dict_get (b_topics b') name = Some t
            \<and> (dict_get (b_topics b) name = Some t \<and> b' = b
               \<or> dict_get (b_topics b) name = None \<and> b_topics b' = dict_set name t (b_topics b)
                 \<and> (\<forall>p \<in> set (t_partitions t). b_next b \<le> p \<and> p_log (b_ps b' p) = [])))"

lemma create_topic_inv:
  assumes inv: "broker_inv ms b" and create: "create_topic name cfg b = (b', res)"
  shows "broker_inv ms b' \<and> topic_made b name b' res"
proof (cases "name \<in> set (keys (b_topics b))
    \<or> max_topics (b_config b) > 0 \<and> int (length (b_topics b)) \<ge> max_topics (b_config b)")
  case True
  then have "b' = b \<and> res = Inl ValueError" using create unfolding create_topic_def by (auto split: if_splits)
  with inv show ?thesis by (simp add: topic_made_def)
next
  case False
  note I = broker_invD [OF inv]
  define c where "c = (case cfg of Some c \<Rightarrow> c
     | None \<Rightarrow> default_topic_config\<lparr>num_partitions := default_partitions (b_config b),
                                      retention_ms := default_retention_ms (b_config b)\<rparr>)"
  obtain t ps' nx' where new: "topic_new name c (b_next b) (b_ps b) = (t, ps', nx')" by (metis surj_pair)
  have b': "b' = b\<lparr>b_topics := dict_set name t (b_topics b), b_ps := ps', b_next := nx'\<rparr>" and res: "res = Inr t"
    using create False new unfolding create_topic_def c_def [symmetric] by (auto simp: Let_def)
  note T = topics_ok_new [OF I(1) new] and N = topic_new_inv [OF new]
  have none: "dict_get (b_topics b) name = None" using False unfolding in_keys_iff by blast
  have "subs_ok (dict_set name t (b_topics b)) (b_groups b)"
    by (rule subs_ok_topics [OF I(3)]) (use none in auto)
  moreover have "length (dict_set name t (b_topics b)) = Suc (length (b_topics b))"
    using False by (simp only: length_dict_set) auto
  then have "names_ok b'" using I(4) False by (auto simp: names_ok_def b')
  ultimately have "broker_inv ms b'" using T(1) I(2) by (simp add: broker_inv_def b')
  moreover have "fresh_in r b \<Longrightarrow> fresh_in r b'" for r using fresh_all_new [OF _ new I(1)] by (simp add: b')
  ultimately show ?thesis using T(2,3) N(2,5) none by (auto simp: topic_made_def b' res)
qed

lemma topic_or_create_inv:
  assumes inv: "broker_inv ms b" and create: "topic_or_create name b = (b', res)"
  shows "broker_inv ms b' \<and> topic_made b name b' res"
  using create create_topic_inv [OF inv, of name None b' res] inv
  by (auto simp: topic_or_create_def get_topic_def topic_made_def split: option.splits)

subsection \<open>Publishing\<close>

text \<open>
  The middleware leaves the messages in the logs alone and hands on one that no log holds; a
  pipeline without transformations does so with a new message.
\<close>

definition well_behaved :: "(nat \<Rightarrow> string) \<Rightarrow> mstore \<Rightarrow> broker \<Rightarrow> mref \<Rightarrow> bool" where
  "well_behaved clock ms b r \<longleftrightarrow>
     (case pipeline_process clock (b_middleware b) ms r of ((p', ms1), res) \<Rightarrow>
        (\<forall>x. \<not> fresh_in x b \<longrightarrow> ms1 x = ms x) \<and> (\<forall>r'. res = Inr (Some r') \<longrightarrow> fresh_in r' b))"

fun transforms :: "middleware \<Rightarrow> bool" where
  "transforms (TransformMiddleware _ _) = True"
| "transforms _ = False"

lemma mw_in_place:
  "mw_process now m ms r = ((m', ms'), res) \<Longrightarrow> \<not> transforms m \<Longrightarrow>
    (\<forall>x. x \<noteq> r \<longrightarrow> ms' x = ms x) \<and> (\<forall>r'. res = Inr (Some r') \<longrightarrow> r' = r)"
  by (cases m) (auto simp: process_defs Let_def bind_r_def split: sum.splits bool.splits option.splits prod.splits if_splits)

lemma pipeline_in_place:
  "pipeline_from clock i p ms r = ((p', ms'), res) \<Longrightarrow> list_all (\<lambda>m. \<not> transforms m) p \<Longrightarrow>
    (\<forall>x. x \<noteq> r \<longrightarrow> ms' x = ms x) \<and> (\<forall>r'. res = Inr (Some r') \<longrightarrow> r' = r)"
proof (induction p arbitrary: i ms p' ms' res)
  case Nil
  then show ?case by auto
next
  case (Cons m p)
  obtain m1 ms1 res1 where one: "mw_process (clock i) m ms r = ((m1, ms1), res1)" by (metis surj_pair)
  have m: "(\<forall>x. x \<noteq> r \<longrightarrow> ms1 x = ms x) \<and> (\<forall>r'. res1 = Inr (Some r') \<longrightarrow> r' = r)"
    using mw_in_place [OF one] Cons.prems(2) by simp
  show ?case
  proof (cases "\<exists>r'. res1 = Inr (Some r')")
    case True
    with m have res1: "res1 = Inr (Some r)" by auto
    obtain p2 ms2 res2 where rest: "pipeline_from clock (i + 1) p ms1 r = ((p2, ms2), res2)" by (metis surj_pair)
    have "ms' = ms2" "res = res2" using Cons.prems(1) one rest res1 by simp_all
    with Cons.IH [OF rest] Cons.prems(2) m show ?thesis by simp
  next
    case False
    then have "ms' = ms1" "res = res1"
      using Cons.prems(1) one by (auto split: sum.splits option.splits)
    with m show ?thesis by simp
  qed
qed

lemma well_behaved_in_place:
  assumes "fresh_in r b" and "list_all (\<lambda>m. \<not> transforms m) (b_middleware b)"
  shows "well_behaved clock ms b r"
proof -
  obtain p' ms1 res where p: "pipeline_from clock 0 (b_middleware b) ms r = ((p', ms1), res)"
    by (metis surj_pair)
  from pipeline_in_place [OF p assms(2)] assms(1) show ?thesis
    by (auto simp: well_behaved_def pipeline_process_def p)
qed

lemma topics_ok_logged:
  assumes "topics_ok ms ps nx ts" and "\<And>x. \<not> fresh_all x ps ts \<Longrightarrow> ms' x = ms x"
  shows "topics_ok ms' ps nx ts"
proof -
  have "topic_inv ms' ps t = topic_inv ms ps t" if "dict_get ts n = Some t" for n t
    using that assms(2) by (intro topic_inv_cong) (auto simp: fresh_all_def fresh_for_def)
  with assms(1) show ?thesis unfolding topics_ok_def by metis
qed

lemma broker_inv_logged:
  "broker_inv ms b \<Longrightarrow> (\<And>x. \<not> fresh_in x b \<Longrightarrow> ms' x = ms x) \<Longrightarrow> broker_inv ms' b"
  using topics_ok_logged by (auto simp: broker_inv_def)

text \<open>The ways a publish can end; \<open>r\<close> is what the middleware handed on.\<close>

lemma broker_publish_cases [consumes 1, case_names dropped no_topic published]:
  assumes "broker_publish clock now (ms, b) m = ((ms', b'), res)"
  obtains
    (dropped) p' e processed where "pipeline_process clock (b_middleware b) ms m = ((p', ms'), processed)"
      "\<forall>r. processed \<noteq> Inr (Some r)" "b' = b\<lparr>b_middleware := p'\<rparr>" "res = Inl e"
      "processed = Inr None \<Longrightarrow> e = ValueError"
  | (no_topic) p' r e where "pipeline_process clock (b_middleware b) ms m = ((p', ms'), Inr (Some r))"
      "topic_or_create (m_topic (ms' r)) (b\<lparr>b_middleware := p'\<rparr>) = (b', Inl e)" "res = Inl e"
  | (published) p' ms1 r b2 t ps2 t' pres
    where "pipeline_process clock (b_middleware b) ms m = ((p', ms1), Inr (Some r))"
      "topic_or_create (m_topic (ms1 r)) (b\<lparr>b_middleware := p'\<rparr>) = (b2, Inr t)"
      "topic_publish now ms1 (b_ps b2) t r = ((ms', ps2, t'), pres)"
      "b' = b2\<lparr>b_topics := dict_set (m_topic (ms1 r)) t' (b_topics b2), b_ps := ps2,
               b_total_in := b_total_in b2 + (if is_ok pres then 1 else 0)\<rparr>"
      "res = bind_r pres (\<lambda>offset. Inr \<lparr>rm_topic = m_topic (ms' r), rm_partition = m_partition (ms' r),
               rm_offset = offset, rm_timestamp = m_broker_timestamp (ms' r), rm_message_id = m_id (ms' r)\<rparr>)"
proof -
  obtain p' ms1 processed where p: "pipeline_process clock (b_middleware b) ms m = ((p', ms1), processed)"
    by (metis surj_pair)
  consider (raise) e where "processed = Inl e" | (drop) "processed = Inr None" | (keep) r where "processed = Inr (Some r)"
    by (metis option.exhaust sum.exhaust)
  then show ?thesis
  proof cases
    case (raise e)
    with assms p show ?thesis by (intro that(1) [of p' processed e]) (auto simp: broker_publish_def)
  next
    case drop
    with assms p show ?thesis by (intro that(1) [of p' processed ValueError]) (auto simp: broker_publish_def)
  next
    case r: (keep r)
    obtain b2 tr where two: "topic_or_create (m_topic (ms1 r)) (b\<lparr>b_middleware := p'\<rparr>) = (b2, tr)"
      by (metis surj_pair)
    show ?thesis
    proof (cases tr)
      case (Inl e)
      with assms p r two show ?thesis by (intro that(2)) (auto simp: broker_publish_def)
    next
      case (Inr t)
      obtain ms2 ps2 t' pres where three: "topic_publish now ms1 (b_ps b2) t r = ((ms2, ps2, t'), pres)"
        by (metis surj_pair)
      have "ms' = ms2" using assms p r two Inr three
        by (auto simp: broker_publish_def Let_def split: sum.splits)
      with assms p r two Inr three show ?thesis
        by (intro that(3) [of p' ms1 r b2 t ps2 t' pres])
          (auto simp: broker_publish_def Let_def is_ok_def split: sum.splits)
    qed
  qed
qed

lemma publish_inv:
  assumes pub: "broker_publish clock now (ms, b) m = ((ms', b'), res)" and inv: "broker_inv ms b"
    and wb: "well_behaved clock ms b m"
  shows "broker_inv ms' b'"
proof -
  have kept: "broker_inv ms1 (b\<lparr>b_middleware := p'\<rparr>)"
    if "pipeline_process clock (b_middleware b) ms m = ((p', ms1), x)" for p' ms1 x
  proof -
    have "broker_inv ms1 b" using wb that by (intro broker_inv_logged [OF inv]) (auto simp: well_behaved_def)
    then show ?thesis by (simp add: broker_inv_def names_ok_def)
  qed
  from pub show ?thesis
  proof (cases rule: broker_publish_cases)
    case (dropped p' e processed)
    with kept show ?thesis by simp
  next
    case (no_topic p' r e)
    from topic_or_create_inv [OF kept [OF no_topic(1)] no_topic(2)] show ?thesis by simp
  next
    case (published p' ms1 r b2 t ps2 t' pres)
    note made = topic_or_create_inv [OF kept [OF published(1)] published(2)]
    note I = broker_invD [OF made [THEN conjunct1]]
    have t: "dict_get (b_topics b2) (m_topic (ms1 r)) = Some t" using made by (simp add: topic_made_def)
    have "fresh_in r b" using wb published(1) by (simp add: well_behaved_def)
    then have fresh: "fresh_in r b2" using made by (simp add: topic_made_def)
    note T = topics_ok_publish [OF I(1) t fresh published(3)]
    have "subs_ok (dict_set (m_topic (ms1 r)) t' (b_topics b2)) (b_groups b2)"
      by (rule subs_ok_topics [OF I(3)]) (use T(2) t in auto)
    moreover have "names_ok b'"
      by (rule names_ok_only [OF I(4)]) (use I(4) keys_dict_replace [OF t] in \<open>auto simp: published(4) names_ok_def\<close>)
    ultimately show ?thesis using T(1) I(2) by (simp add: broker_inv_def published(4))
  qed
qed

end
