(* ===== verification/Broker_Run.thy ===== *)
theory Broker_Run
  imports Broker_Inv Consumer_Poll
begin

section \<open>Runs of the broker\<close>

text \<open>
  The remaining operations keep the broker's invariant; \<open>broker_step\<close> collects all of them, and the
  properties of whole runs follow: names and limits, who gets a published message, and where.
\<close>

subsection \<open>Subscribing\<close>

lemma create_group_inv:
  assumes inv: "broker_inv ms b" and "create_consumer_group gid st b = (b', g)"
  shows "broker_inv ms b'" "dict_get (b_groups b') gid = Some g" "b_topics b' = b_topics b"
    "b_ps b' = b_ps b" "b_cs b' = b_cs b" "b_next b' = b_next b"
    "dict_get (b_groups b) gid = Some g \<and> b' = b \<or> g = group_new gid st \<and> b_groups b' = dict_set gid g (b_groups b)"
proof -
  note I = broker_invD [OF inv]
  have "(dict_get (b_groups b) gid = Some g \<and> b' = b)
      \<or> (dict_get (b_groups b) gid = None \<and> g = group_new gid st \<and> b' = b\<lparr>b_groups := dict_set gid g (b_groups b)\<rparr>)"
    using assms(2) by (auto simp: create_consumer_group_def Let_def split: option.splits)
  then have "broker_inv ms b' \<and> dict_get (b_groups b') gid = Some g \<and> b_topics b' = b_topics b
      \<and> b_ps b' = b_ps b \<and> b_cs b' = b_cs b \<and> b_next b' = b_next b
      \<and> (dict_get (b_groups b) gid = Some g \<and> b' = b \<or> g = group_new gid st \<and> b_groups b' = dict_set gid g (b_groups b))"
  proof (elim disjE conjE)
    assume "dict_get (b_groups b) gid = Some g" "b' = b"
    with inv show ?thesis by simp
  next
    assume new: "g = group_new gid st" "b' = b\<lparr>b_groups := dict_set gid g (b_groups b)\<rparr>"
    have "groups_ok (b_cs b) (dict_set gid g (b_groups b))"
      by (rule groups_ok_set [OF I(2), where xs = "{}"])
        (simp_all add: new(1) group_new_def group_ok_def settled_def member_refs_def)
    moreover have "subs_ok (b_topics b) (dict_set gid g (b_groups b))"
      using I(3) by (auto simp: subs_ok_def new(1) group_new_def split: if_splits)
    moreover have "names_ok b'" by (rule names_ok_only [OF I(4)]) (use I(4) in \<open>auto simp: new names_ok_def\<close>)
    ultimately show ?thesis using I(1) by (simp add: broker_inv_def new(2)) (simp add: new(1))
  qed
  then show "broker_inv ms b'" "dict_get (b_groups b') gid = Some g" "b_topics b' = b_topics b"
    "b_ps b' = b_ps b" "b_cs b' = b_cs b" "b_next b' = b_next b"
    "dict_get (b_groups b) gid = Some g \<and> b' = b \<or> g = group_new gid st \<and> b_groups b' = dict_set gid g (b_groups b)"
    by blast+
qed

text \<open>The consumer is in no other group.\<close>

definition joinable :: "string \<Rightarrow> cref \<Rightarrow> broker \<Rightarrow> bool" where
  "joinable gid x b \<longleftrightarrow> (\<forall>k g. dict_get (b_groups b) k = Some g \<and> k \<noteq> gid \<longrightarrow> x \<notin> set (member_refs g))"

lemma subscribe_inv:
  assumes inv: "broker_inv ms b" and sub: "broker_subscribe gid tn x b = (b', res)" and x: "joinable gid x b"
  shows "broker_inv ms b' \<and> (res = Inr () \<longrightarrow> (\<exists>g refs. dict_get (b_groups b') gid = Some g
      \<and> dict_get (g_subscribed g) tn = Some refs \<and> x \<in> set (member_refs g)))"
proof -
  obtain b1 tr where one: "topic_or_create tn b = (b1, tr)" by (metis surj_pair)
  note made = topic_or_create_inv [OF inv one]
  show ?thesis
  proof (cases tr)
    case (Inl e)
    with sub one made show ?thesis by (auto simp: broker_subscribe_def)
  next
    case (Inr t)
    obtain b2 g where two: "create_consumer_group gid RANGE b1 = (b2, g)" by (metis surj_pair)
    note C = create_group_inv [OF made [THEN conjunct1] two]
    note I = broker_invD [OF C(1)] and M = made [THEN conjunct2, unfolded topic_made_def Inr sum.case]
    obtain cs1 g1 where three: "group_subscribe (b_ps b2) tn (t_partitions t) (b_cs b2, g) = (cs1, g1)"
      by (metis surj_pair)
    obtain cs2 g2 where four: "group_join (b_ps b2) x (cs1, g1) = (cs2, g2)" by (metis surj_pair)
    have b': "b' = b2\<lparr>b_topics := dict_set tn (topic_subscribe gid t) (b_topics b2),
                  b_groups := dict_set gid g2 (b_groups b2), b_cs := cs2\<rparr>" "res = Inr ()"
      using sub one Inr two three four by (simp_all add: broker_subscribe_def Let_def)
    note G = groups_okD [OF I(2) C(2)]
    note S = group_topics_inv(1) [OF G(2) three]
    then have "group_ok cs1 g1" by simp
    note J = group_join_inv [OF this four]
    have t: "dict_get (b_topics b2) tn = Some t" using M C(3) by simp
    let ?xs = "insert x (set (member_refs g))"
    have apart: "?xs \<inter> set (member_refs h) = {}" if "dict_get (b_groups b2) k = Some h" "k \<noteq> gid" for k h
    proof -
      have "dict_get (b_groups b) k = Some h" using that C(7) M by auto
      then have "x \<notin> set (member_refs h)" using x that(2) by (auto simp: joinable_def)
      with G(4) [OF that(1)] that(2) show ?thesis by blast
    qed
    have mem: "set (member_refs g1) = set (member_refs g)" using S by (simp add: member_refs_def)
    have x_in: "x \<in> set (member_refs g2)" and sub2: "set (member_refs g2) \<subseteq> ?xs"
    proof -
      have g2: "g_members g2 = dict_set (c_id (cs1 x)) x (g_members g)" using J S by simp
      show "x \<in> set (member_refs g2)" by (rule member_in_refs [of _ "c_id (cs1 x)"]) (simp add: g2)
      show "set (member_refs g2) \<subseteq> ?xs"
        using set_dict_set [of "c_id (cs1 x)" x "g_members g"] by (auto simp: member_refs_def g2)
    qed
    have "groups_ok cs2 (dict_set gid g2 (b_groups b2))"
      by (rule groups_ok_set [OF I(2), where xs = ?xs])
        (use J S G mem apart sub2 in \<open>auto simp: group_frame_def\<close>)
    moreover have "subs_ok (dict_set tn (topic_subscribe gid t) (b_topics b2)) (dict_set gid g2 (b_groups b2))"
      unfolding subs_ok_def
    proof (intro allI impI)
      fix k h assume h: "dict_get (dict_set gid g2 (b_groups b2)) k = Some h"
      have subs: "g_subscribed g2 = dict_set tn (t_partitions t) (g_subscribed g)" using J S by simp
      have old: "\<exists>u'. dict_get (dict_set tn (topic_subscribe gid t) (b_topics b2)) m = Some u' \<and> refs = t_partitions u'"
        if "dict_get (b_topics b2) m = Some u" "refs = t_partitions u" for m u refs
        using that t by (cases "m = tn") (auto simp: topic_subscribe_def)
      show "wf_dict (g_subscribed h) \<and> (\<forall>m refs. dict_get (g_subscribed h) m = Some refs \<longrightarrow>
          (\<exists>u. dict_get (dict_set tn (topic_subscribe gid t) (b_topics b2)) m = Some u \<and> refs = t_partitions u))"
      proof (cases "k = gid")
        case True
        then have "h = g2" using h by simp
        have "\<exists>u. dict_get (dict_set tn (topic_subscribe gid t) (b_topics b2)) m = Some u \<and> refs = t_partitions u"
          if m: "dict_get (g_subscribed g2) m = Some refs" for m refs
        proof (cases "m = tn")
          case True
          with m have "refs = t_partitions t" by (simp add: subs)
          with old [OF t] True show ?thesis by blast
        next
          case False
          with m have "dict_get (g_subscribed g) m = Some refs" by (simp add: subs)
          from subs_okD(2) [OF I(3) C(2) this] old show ?thesis by blast
        qed
        then show ?thesis using subs_okD(1) [OF I(3) C(2)] subs \<open>h = g2\<close> by simp
      next
        case False
        then have "dict_get (b_groups b2) k = Some h" using h by simp
        from subs_okD(1) [OF I(3) this] subs_okD(2) [OF I(3) this] old show ?thesis by blast
      qed
    qed
    moreover have "topics_ok ms (b_ps b2) (b_next b2) (dict_set tn (topic_subscribe gid t) (b_topics b2))"
      using topics_okD(1,2) [OF I(1) t]
      by (intro topics_ok_set [OF I(1) t]) (simp_all add: topic_subscribe_def topic_inv_def)
    moreover have "names_ok b'"
      by (rule names_ok_only [OF I(4)])
        (use I(4) keys_dict_replace [OF t] in \<open>auto simp: b'(1) names_ok_def\<close>)
    ultimately have "broker_inv ms b'" by (simp add: broker_inv_def b'(1))
    moreover have "dict_get (b_groups b') gid = Some g2" "dict_get (g_subscribed g2) tn = Some (t_partitions t)"
      using J S by (simp_all add: b'(1))
    ultimately show ?thesis using x_in by blast
  qed
qed

subsection \<open>Deleting\<close>

lemma delete_topic_inv:
  assumes inv: "broker_inv ms b" and del: "delete_topic name b = (b', res)"
  shows "broker_inv ms b'" "dict_get (b_topics b') name = None"
    "dict_get (b_groups b') gid = Some g \<Longrightarrow> dict_get (g_subscribed g) name = None"
proof -
  note I = broker_invD [OF inv]
  have "broker_inv ms b' \<and> dict_get (b_topics b') name = None"
  proof (cases "dict_get (b_topics b) name")
    case None
    with inv del show ?thesis by (simp add: delete_topic_def)
  next
    case (Some t)
    obtain cs' gs' xs where each: "each_group (\<lambda>gid s. (group_unsubscribe (b_ps b) name s, ())) (b_groups b) (b_cs b)
        = ((cs', gs'), xs)" by (metis surj_pair)
    have b': "b' = b\<lparr>b_topics := dict_del name (b_topics b), b_groups := gs', b_cs := cs'\<rparr>"
      using del Some each by (simp add: delete_topic_def)
    have wf: "wf_dict (b_groups b)" "wf_dict (b_topics b)" using I(4) by (simp_all add: names_ok_def)
    note E = unsubscribing.each_group_ok [OF each wf(1) I(2)]
    have get: "dict_get (dict_del name d) k = (if k = name then None else dict_get d k)" for d :: "(string, 'v) dict" and k
      by (simp add: delete_conv)
    have "subs_ok (dict_del name (b_topics b)) gs'"
      unfolding subs_ok_def
    proof (intro allI impI)
      fix gid g' assume "dict_get gs' gid = Some g'"
      then obtain g where g: "dict_get (b_groups b) gid = Some g" "g_subscribed g' = dict_del name (g_subscribed g)"
        using E by blast
      show "wf_dict (g_subscribed g') \<and> (\<forall>tn refs. dict_get (g_subscribed g') tn = Some refs \<longrightarrow>
              (\<exists>t. dict_get (dict_del name (b_topics b)) tn = Some t \<and> refs = t_partitions t))"
        using subs_okD(1) [OF I(3) g(1)] subs_okD(2) [OF I(3) g(1)] unfolding g(2) get by auto
    qed
    moreover have "names_ok b'"
    proof -
      have "wf_dict gs'" using E wf(1) by (simp add: wf_dict_def)
      moreover have "length (dict_del name (b_topics b)) \<le> length (b_topics b)" by (rule length_dict_del)
      ultimately show ?thesis using I(4) wf by (auto simp: names_ok_def b')
    qed
    ultimately have "broker_inv ms b'"
      using topics_ok_del [OF I(1)] E by (simp add: broker_inv_def b')
    then show ?thesis by (simp add: b' get)
  qed
  then show inv': "broker_inv ms b'" and none: "dict_get (b_topics b') name = None" by simp_all
  show "dict_get (g_subscribed g) name = None" if "dict_get (b_groups b') gid = Some g"
    using subs_okD(2) [OF broker_invD(3) [OF inv'] that, of name] none
    by (cases "dict_get (g_subscribed g) name") auto
qed

lemma delete_group_inv:
  assumes "broker_inv ms b"
  shows "broker_inv ms (fst (delete_consumer_group gid b))"
proof -
  note I = broker_invD [OF assms]
  have "subs_ok (b_topics b) (dict_del gid (b_groups b))"
    using I(3) unfolding subs_ok_def by (auto simp: delete_conv split: if_splits)
  with I groups_ok_del [OF I(2)] show ?thesis
    by (simp add: delete_consumer_group_def broker_inv_def names_ok_def)
qed

subsection \<open>Queues\<close>

lemma create_queue_inv:
  assumes inv: "broker_inv ms b" and create: "create_queue name k t prio b = (b', res)"
  shows "broker_inv ms b' \<and> (case res of Inl e \<Rightarrow> b' = b \<and> e = ValueError
    | Inr q \<Rightarrow> get_queue name b = None \<and> get_queue name b' = Some q)"
proof -
  note I = broker_invD(4) [OF inv, unfolded names_ok_def]
  have none: "name \<notin> set (keys d) \<longleftrightarrow> dict_get d name = None" for d :: "(string, 'v) dict"
    unfolding in_keys_iff by simp
  show ?thesis
  proof (cases "name \<in> set (keys (b_queues b)) \<or> name \<in> set (keys (b_priority_queues b))
      \<or> max_queues (b_config b) > 0
        \<and> int (length (b_queues b)) + int (length (b_priority_queues b)) \<ge> max_queues (b_config b)")
    case True
    then have "b' = b \<and> res = Inl ValueError" using create unfolding create_queue_def by (auto split: if_splits)
    with inv show ?thesis by simp
  next
    case False
    then have new: "name \<notin> set (keys (b_queues b))" "name \<notin> set (keys (b_priority_queues b))"
      and room: "max_queues (b_config b) > 0 \<Longrightarrow>
        int (length (b_queues b)) + int (length (b_priority_queues b)) < max_queues (b_config b)" by auto
    have get: "get_queue name b = None" using new unfolding none by (simp add: get_queue_def)
    show ?thesis
    proof (cases prio)
      case True
      let ?q = "pq_new name k t"
      have b': "b' = b\<lparr>b_priority_queues := dict_set name ?q (b_priority_queues b)\<rparr>" "res = Inr (Prio ?q)"
        using create False True unfolding create_queue_def by (auto simp: Let_def)
      have "names_ok b'" using I new room dict_set_fresh [OF new(2), of ?q] by (auto simp: names_ok_def b'(1))
      then have "broker_inv ms b'" using inv by (simp add: broker_inv_def b'(1))
      with get b' new show ?thesis unfolding none by (simp add: get_queue_def)
    next
      case prio: False
      let ?q = "queue_new name k t"
      have b': "b' = b\<lparr>b_queues := dict_set name ?q (b_queues b)\<rparr>" "res = Inr (Fifo ?q)"
        using create False prio unfolding create_queue_def by (auto simp: Let_def)
      have "names_ok b'" using I new room dict_set_fresh [OF new(1), of ?q] by (auto simp: names_ok_def b'(1))
      then have "broker_inv ms b'" using inv by (simp add: broker_inv_def b'(1))
      with get b' show ?thesis by (simp add: get_queue_def)
    qed
  qed
qed

lemma delete_queue_inv:
  assumes "broker_inv ms b"
  shows "broker_inv ms (fst (delete_queue name b))"
proof -
  note I = broker_invD(4) [OF assms, unfolded names_ok_def]
  let ?q = "dict_del name (b_queues b)" and ?p = "dict_del name (b_priority_queues b)"
  have len: "length ?q \<le> length (b_queues b)" "length ?p \<le> length (b_priority_queues b)"
    by (rule length_dict_del)+
  have "set (keys ?q) \<inter> set (keys (b_priority_queues b)) = {}" "set (keys (b_queues b)) \<inter> set (keys ?p) = {}"
    using I keys_dict_del [of name "b_queues b"] keys_dict_del [of name "b_priority_queues b"] by blast+
  moreover have "max_queues (b_config b) > 0 \<longrightarrow>
      int (length ?q) + int (length (b_priority_queues b)) \<le> max_queues (b_config b)
      \<and> int (length (b_queues b)) + int (length ?p) \<le> max_queues (b_config b)"
    using I len by linarith
  ultimately have "names_ok (b\<lparr>b_queues := ?q\<rparr>)" "names_ok (b\<lparr>b_priority_queues := ?p\<rparr>)"
    using I unfolding names_ok_def by simp_all
  with assms show ?thesis by (simp add: delete_queue_def broker_inv_def)
qed

lemma put_queue_inv:
  assumes "broker_inv ms b" and "get_queue name b = Some q0" and "(\<exists>f. q0 = Fifo f) = (\<exists>f. q = Fifo f)"
  shows "broker_inv ms (put_queue name q b)"
proof (cases q)
  case (Fifo fq)
  then obtain f where "dict_get (b_queues b) name = Some f"
    using assms(2,3) by (auto simp: get_queue_def split: option.splits)
  from keys_dict_replace [OF this, of fq] length_dict_replace [OF this, of fq] assms(1) show ?thesis
    by (auto simp: put_queue_def Fifo broker_inv_def names_ok_def wf_dict_def)
next
  case (Prio pq)
  then obtain f where "dict_get (b_priority_queues b) name = Some f"
    using assms(2,3) by (cases q0) (auto simp: get_queue_def split: option.splits)
  from keys_dict_replace [OF this, of pq] length_dict_replace [OF this, of pq] assms(1) show ?thesis
    by (auto simp: put_queue_def Prio broker_inv_def names_ok_def wf_dict_def)
qed

subsection \<open>Maintenance and the consumers' work\<close>

text \<open>Changes that keep each partition's identity and order and add nothing to a log.\<close>

definition shrinks :: "mstore \<Rightarrow> pstore \<Rightarrow> pstore \<Rightarrow> bool" where
  "shrinks ms ps ps' \<longleftrightarrow>
     (\<forall>p. p_id (ps' p) = p_id (ps p) \<and> p_topic (ps' p) = p_topic (ps p)
        \<and> set (p_log (ps' p)) \<subseteq> set (p_log (ps p)) \<and> (ordered ms (ps p) \<longrightarrow> ordered ms (ps' p)))"

lemma shrinks_refl: "shrinks ms ps ps" by (simp add: shrinks_def)

lemma shrinks_trans: "shrinks ms ps ps1 \<Longrightarrow> shrinks ms ps1 ps2 \<Longrightarrow> shrinks ms ps ps2"
  unfolding shrinks_def by (metis order_trans)

lemma shrinks_topic_inv: "shrinks ms ps ps' \<Longrightarrow> topic_inv ms ps t \<Longrightarrow> topic_inv ms ps' t"
  by (simp add: shrinks_def topic_inv_def)

lemma shrinks_inv: "shrinks ms (b_ps b) ps' \<Longrightarrow> broker_inv ms b \<Longrightarrow> broker_inv ms (b\<lparr>b_ps := ps'\<rparr>)"
  using topics_ok_map [of ms "b_ps b" "b_next b" "b_topics b" ps'] shrinks_topic_inv
  by (auto simp: broker_inv_def names_ok_def)

lemma each_partition_shrinks:
  assumes "\<And>p q. p_id (fst (f p q)) = p_id q \<and> p_topic (fst (f p q)) = p_topic q
      \<and> set (p_log (fst (f p q))) \<subseteq> set (p_log q) \<and> (ordered ms q \<longrightarrow> ordered ms (fst (f p q)))"
  shows "shrinks ms ps (fst (each_partition f refs ps))"
proof (induction refs arbitrary: ps)
  case Nil
  then show ?case by (simp add: shrinks_refl)
next
  case (Cons p refs)
  have "shrinks ms ps (ps(p := fst (f p (ps p))))" using assms by (simp add: shrinks_def)
  with Cons.IH have "shrinks ms ps (fst (each_partition f refs (ps(p := fst (f p (ps p))))))"
    by (rule shrinks_trans [rotated])
  then show ?case by (simp add: case_prod_beta Let_def)
qed

lemma retention_shrinks: "shrinks ms ps (fst (topic_apply_retention clock ms ps t))"
  unfolding topic_apply_retention_def
  by (intro each_partition_shrinks conjI impI ordered_retention)
    (auto simp: partition_apply_retention_def Let_def)

lemma compact_shrinks: "shrinks ms ps (fst (topic_compact ms ps t))"
proof (cases "compaction_enabled (t_config t)")
  case True
  have "shrinks ms ps (fst (each_partition (\<lambda>p q. partition_compact ms q) (t_partitions t) ps))"
  proof (rule each_partition_shrinks)
    fix p :: pref and q
    show "p_id (fst (partition_compact ms q)) = p_id q \<and> p_topic (fst (partition_compact ms q)) = p_topic q
      \<and> set (p_log (fst (partition_compact ms q))) \<subseteq> set (p_log q)
      \<and> (ordered ms q \<longrightarrow> ordered ms (fst (partition_compact ms q)))"
      using set_keep_latest [of "\<lambda>r. m_key (ms r)" "p_log q"] ordered_compact [of ms q]
      by (auto simp: partition_compact_def Let_def compact_entries_spec)
  qed
  then show ?thesis using True by (simp add: topic_compact_def)
next
  case False
  then show ?thesis by (simp add: topic_compact_def shrinks_refl)
qed

lemma each_topic_shrinks:
  assumes "\<And>ps t. shrinks ms ps (fst (f ps t))"
  shows "shrinks ms ps (fst (each_topic f ts ps results))"
proof (induction ts arbitrary: ps results)
  case Nil
  then show ?case by (simp add: shrinks_refl)
next
  case (Cons a ts)
  obtain name t where a: "a = (name, t)" by (cases a)
  obtain ps1 k where one: "f ps t = (ps1, k)" by (cases "f ps t")
  have "shrinks ms ps ps1" using assms [of ps t] one by simp
  then show ?case
    using Cons.IH [of ps1 "note_removed name k results"] shrinks_trans by (simp add: a one)
qed

lemma maintenance_inv:
  assumes "broker_inv ms b"
  shows "broker_apply_retention clock (ms, b) = ((ms', b'), res) \<Longrightarrow> ms' = ms \<and> broker_inv ms b'"
    and "compact_topics (ms, b) = ((ms', b'), res) \<Longrightarrow> ms' = ms \<and> broker_inv ms b'"
  using assms
    shrinks_inv [OF each_topic_shrinks [of ms "topic_apply_retention clock ms" "b_ps b" "b_topics b" "[]", OF retention_shrinks]]
    shrinks_inv [OF each_topic_shrinks [of ms "topic_compact ms" "b_ps b" "b_topics b" "[]", OF compact_shrinks]]
  by (auto simp: broker_apply_retention_def compact_topics_def split: prod.splits)

lemma remove_dead_consumers_inv:
  assumes inv: "broker_inv ms b" and rm: "remove_dead_consumers clock b = (b', dead)"
  shows "broker_inv ms b'"
proof -
  note I = broker_invD [OF inv]
  obtain cs' gs' xs where each: "each_group (\<lambda>gid. remove_dead_members (clock gid) (b_ps b)) (b_groups b) (b_cs b)
      = ((cs', gs'), xs)" by (metis surj_pair)
  have b': "b' = b\<lparr>b_groups := gs', b_cs := cs'\<rparr>"
    using rm each by (simp add: remove_dead_consumers_def)
  have wf: "wf_dict (b_groups b)" using I(4) by (simp add: names_ok_def)
  note E = removing.each_group_ok [OF each wf I(2)]
  have "subs_ok (b_topics b) gs'"
    unfolding subs_ok_def using E subs_okD [OF I(3)] by (metis (no_types, lifting))
  moreover have "wf_dict gs'" using E wf by (simp add: wf_dict_def)
  ultimately show ?thesis using I E by (simp add: broker_inv_def b' names_ok_def)
qed

lemma only_commits_shrinks: "only_commits ps ps' \<Longrightarrow> shrinks ms ps ps'"
  unfolding shrinks_def
proof
  fix p assume "only_commits ps ps'"
  then obtain d where "ps' p = (ps p)\<lparr>p_committed := d\<rparr>" by (auto simp: only_commits_def)
  then show "p_id (ps' p) = p_id (ps p) \<and> p_topic (ps' p) = p_topic (ps p)
      \<and> set (p_log (ps' p)) \<subseteq> set (p_log (ps p)) \<and> (ordered ms (ps p) \<longrightarrow> ordered ms (ps' p))"
    by (simp add: ordered_def)
qed

text \<open>What a consumer's own methods change: positions and committed offsets.\<close>

definition consumer_work :: "broker \<Rightarrow> broker \<Rightarrow> bool" where
  "consumer_work b b' \<longleftrightarrow>
     (\<exists>ps' cs'. b' = b\<lparr>b_ps := ps', b_cs := cs'\<rparr> \<and> only_commits (b_ps b) ps'
        \<and> (\<forall>x. c_id (cs' x) = c_id (b_cs b x) \<and> c_assigned (cs' x) = c_assigned (b_cs b x)))"

lemma do_commit_consumer:
  "do_commit now ps c = ((ps', c'), d) \<Longrightarrow> only_commits ps ps' \<and> c_id c' = c_id c \<and> c_assigned c' = c_assigned c"
  using do_commit_effect [of now ps c ps' c' d] by simp

lemma maybe_commit_consumer:
  assumes "(if P then fst (do_commit now ps c) else (ps, c)) = (ps', c')"
  shows "only_commits ps ps' \<and> c_id c' = c_id c \<and> c_assigned c' = c_assigned c"
proof (cases P)
  case True
  then obtain d where "do_commit now ps c = ((ps', c'), d)"
    using assms by (cases "do_commit now ps c") simp
  then show ?thesis by (rule do_commit_consumer)
next
  case False
  then show ?thesis using assms by auto
qed

lemma poll_consumer:
  assumes "consumer_poll n1 n2 n3 ms ps k c = ((ps', c'), out)"
  shows "only_commits ps ps' \<and> c_id c' = c_id c \<and> c_assigned c' = c_assigned c"
proof (cases "c_assigned c = []")
  case True
  then show ?thesis using assms by (auto simp: consumer_poll_def)
next
  case False
  let ?n = "max 1 (poll_limit k c div int (length (c_assigned c)))"
  obtain msgs offs where f: "fold (poll_one ms ps ?n) (c_assigned c) ([], c_offsets c) = (msgs, offs)"
    by (cases "fold (poll_one ms ps ?n) (c_assigned c) ([], c_offsets c)")
  define c1 where "c1 = c\<lparr>c_last_poll := n1, c_offsets := offs,
    c_total_consumed := c_total_consumed c + int (length msgs)\<rparr>"
  obtain ps2 c2 where two: "(if auto_commit (c_config c) \<and> n2 - c_last_commit c1 \<ge> auto_commit_interval (c_config c)
        then fst (do_commit n3 ps c1) else (ps, c1)) = (ps2, c2)" (is "?r = _") by (cases ?r)
  have "ps' = ps2 \<and> c' = c2"
    using assms False f two by (simp add: consumer_poll_def Let_def c1_def split: if_split_asm)
  moreover have "c_id c1 = c_id c" "c_assigned c1 = c_assigned c" by (simp_all add: c1_def)
  ultimately show ?thesis using maybe_commit_consumer [OF two] by simp
qed

lemma consumer_work_inv:
  assumes "broker_inv ms b" and "consumer_work b b'"
  shows "broker_inv ms b'"
proof -
  obtain ps' cs' where b': "b' = b\<lparr>b_ps := ps', b_cs := cs'\<rparr>" and ps: "only_commits (b_ps b) ps'"
    and cs: "\<And>x. c_id (cs' x) = c_id (b_cs b x) \<and> c_assigned (cs' x) = c_assigned (b_cs b x)"
    using assms(2) unfolding consumer_work_def by blast
  have "broker_inv ms (b\<lparr>b_ps := ps'\<rparr>)" by (rule shrinks_inv [OF only_commits_shrinks [OF ps] assms(1)])
  moreover have "groups_ok cs' (b_groups b)"
    using broker_invD(2) [OF assms(1)] group_cong [where cs' = cs' and cs = "b_cs b"] cs
    unfolding groups_ok_def by blast
  ultimately show ?thesis by (simp add: broker_inv_def b' names_ok_def)
qed

lemma leave_group_inv:
  assumes inv: "broker_inv ms b" and g: "dict_get (b_groups b) gid = Some g"
    and leave: "group_leave (b_ps b) cid (b_cs b, g) = ((cs', g'), res)"
  shows "broker_inv ms (b\<lparr>b_groups := dict_set gid g' (b_groups b), b_cs := cs'\<rparr>)"
    and "set (member_refs g') \<subseteq> set (member_refs g)"
proof -
  note I = broker_invD [OF inv]
  note G = groups_okD [OF I(2) g]
  note L = group_leave_inv [OF G(2,3) leave] and F = group_leave_frame [OF G(2) leave]
  show sub: "set (member_refs g') \<subseteq> set (member_refs g)" using L by (auto simp: member_refs_def dict_del_filter)
  have "groups_ok cs' (dict_set gid g' (b_groups b))"
    by (rule groups_ok_set [OF I(2), where xs = "set (member_refs g)"])
      (use L F G(1) G(4) sub in \<open>auto simp: group_frame_def\<close>)
  moreover have "subs_ok (b_topics b) (dict_set gid g' (b_groups b))"
    using I(3) L g unfolding subs_ok_def by (auto split: if_splits)
  moreover have "names_ok (b\<lparr>b_groups := dict_set gid g' (b_groups b), b_cs := cs'\<rparr>)"
    by (rule names_ok_only [OF I(4)]) (use I(4) in \<open>auto simp: names_ok_def\<close>)
  ultimately show "broker_inv ms (b\<lparr>b_groups := dict_set gid g' (b_groups b), b_cs := cs'\<rparr>)"
    using I(1) by (simp add: broker_inv_def)
qed

text \<open>A consumer object that no group has as a member.\<close>

definition outsider :: "cref \<Rightarrow> broker \<Rightarrow> bool" where
  "outsider x b \<longleftrightarrow> (\<forall>gid g. dict_get (b_groups b) gid = Some g \<longrightarrow> x \<notin> set (member_refs g))"

lemma outsiderD: "outsider x b \<Longrightarrow> dict_get (b_groups b) gid = Some g \<Longrightarrow> x \<notin> set (member_refs g)"
  by (simp add: outsider_def)

lemma new_consumer_inv:
  assumes inv: "broker_inv ms b" and "outsider x b"
  shows "broker_inv ms (b\<lparr>b_cs := (b_cs b)(x := c)\<rparr>)"
proof -
  note I = broker_invD [OF inv]
  have "group_ok ((b_cs b)(x := c)) g = group_ok (b_cs b) g \<and> settled ((b_cs b)(x := c)) g = settled (b_cs b) g"
    if "dict_get (b_groups b) gid = Some g" for gid g
  proof -
    have "x \<notin> set (member_refs g)" using outsiderD [OF assms(2) that] .
    then have same: "c_id (((b_cs b)(x := c)) y) = c_id (b_cs b y)
        \<and> c_assigned (((b_cs b)(x := c)) y) = c_assigned (b_cs b y)" if "y \<in> set (member_refs g)" for y
      using that by auto
    show ?thesis by (intro conjI group_cong same)
  qed
  then have "groups_ok ((b_cs b)(x := c)) (b_groups b)" using I(2) unfolding groups_ok_def by blast
  with I show ?thesis by (simp add: broker_inv_def names_ok_def)
qed

subsection \<open>Steps\<close>

text \<open>
  All operations, in any order, with any clock. A message that is published or enqueued is in no
  log yet; a consumer joins one group at a time. Work on a queue (\<open>dequeue\<close> and the like) and of a
  consumer happens between the broker's own operations.
\<close>

inductive broker_step :: "mstore \<times> broker \<Rightarrow> mstore \<times> broker \<Rightarrow> bool" where
  start: "broker_step (ms, b) (ms, broker_start now b)"
| add_topic: "create_topic name cfg b = (b', res1) \<Longrightarrow> broker_step (ms, b) (ms, b')"
| del_topic: "delete_topic name b = (b', res2) \<Longrightarrow> broker_step (ms, b) (ms, b')"
| add_queue: "create_queue name k t prio b = (b', res3) \<Longrightarrow> broker_step (ms, b) (ms, b')"
| del_queue: "broker_step (ms, b) (ms, fst (delete_queue name b))"
| queue_work: "get_queue name b = Some q0 \<Longrightarrow> (\<exists>f. q0 = Fifo f) = (\<exists>f. q = Fifo f) \<Longrightarrow>
    broker_step (ms, b) (ms, put_queue name q b)"
| add_group: "create_consumer_group gid st b = (b', g) \<Longrightarrow> broker_step (ms, b) (ms, b')"
| del_group: "broker_step (ms, b) (ms, fst (delete_consumer_group gid b))"
| new_message: "fresh_in r b \<Longrightarrow> broker_step (ms, b) (ms(r := m), b)"
| publish: "well_behaved clock ms b r \<Longrightarrow> broker_publish clock now (ms, b) r = (s', res4) \<Longrightarrow>
    broker_step (ms, b) s'"
| enqueue: "fresh_in r b \<Longrightarrow> broker_enqueue now name r (ms, b) = (s', res5) \<Longrightarrow> broker_step (ms, b) s'"
| subscribe: "joinable gid x b \<Longrightarrow> broker_subscribe gid tn x b = (b', res6) \<Longrightarrow> broker_step (ms, b) (ms, b')"
| producer: "broker_step (ms, b) (ms, register_producer p b)"
| middleware: "broker_step (ms, b) (ms, b\<lparr>b_middleware := mws\<rparr>)"
| retention: "broker_apply_retention now_at (ms, b) = (s', res7) \<Longrightarrow> broker_step (ms, b) s'"
| compaction: "compact_topics (ms, b) = (s', res8) \<Longrightarrow> broker_step (ms, b) s'"
| remove_dead: "remove_dead_consumers alive_at b = (b', res9) \<Longrightarrow> broker_step (ms, b) (ms, b')"
| leave: "dict_get (b_groups b) gid = Some g \<Longrightarrow> group_leave (b_ps b) cid (b_cs b, g) = ((cs', g'), res10) \<Longrightarrow>
    broker_step (ms, b) (ms, b\<lparr>b_groups := dict_set gid g' (b_groups b), b_cs := cs'\<rparr>)"
| new_consumer: "outsider x b \<Longrightarrow> broker_step (ms, b) (ms, b\<lparr>b_cs := (b_cs b)(x := c)\<rparr>)"
| work: "consumer_work b b' \<Longrightarrow> broker_step (ms, b) (ms, b')"

lemma any_enqueue_frame:
  "any_enqueue now ms q r = ((ms', q'), res) \<Longrightarrow>
     (\<exists>f. q' = Fifo f) = (\<exists>f. q = Fifo f) \<and> (\<forall>x. x \<noteq> r \<longrightarrow> ms' x = ms x)"
  by (auto simp: any_enqueue_def queue_enqueue_def pq_enqueue_def Let_def split: any_queue.splits prod.splits if_splits)

lemma enqueue_inv:
  assumes inv: "broker_inv ms b" and fresh: "fresh_in r b"
    and enq: "broker_enqueue now name r (ms, b) = ((ms', b'), res)"
  shows "broker_inv ms' b'"
proof (cases "get_queue name b")
  case None
  with enq inv show ?thesis by (simp add: broker_enqueue_def)
next
  case (Some q)
  obtain ms1 q1 res1 where one: "any_enqueue now ms q r = ((ms1, q1), res1)" by (metis surj_pair)
  note fr = any_enqueue_frame [OF one]
  have "broker_inv ms1 b" using fresh fr by (intro broker_inv_logged [OF inv]) metis
  then have q: "broker_inv ms1 (put_queue name q1 b)"
    using put_queue_inv [OF _ Some] fr by metis
  have "broker_inv ms (c\<lparr>b_total_in := n\<rparr>) = broker_inv ms c" for ms c n
    by (simp add: broker_inv_def names_ok_def)
  with enq Some one q show ?thesis by (auto simp: broker_enqueue_def split: sum.splits)
qed

lemma broker_step_inv: "broker_step s s' \<Longrightarrow> broker_inv (fst s) (snd s) \<Longrightarrow> broker_inv (fst s') (snd s')"
proof (induction rule: broker_step.induct)
  case (add_topic name cfg b b' res1 ms)
  then show ?case using create_topic_inv by simp
next
  case (del_topic name b b' res2 ms)
  then show ?case using delete_topic_inv(1) by simp
next
  case (add_queue name k t prio b b' res3 ms)
  then show ?case using create_queue_inv by simp
next
  case (del_queue ms b name)
  then show ?case using delete_queue_inv by simp
next
  case (queue_work name b q0 q ms)
  then show ?case using put_queue_inv by simp
next
  case (add_group gid st b b' g ms)
  then show ?case using create_group_inv(1) by simp
next
  case (del_group ms b gid)
  then show ?case using delete_group_inv by simp
next
  case (new_message r b ms m)
  have "broker_inv (ms(r := m)) b"
    by (rule broker_inv_logged [of ms]) (use new_message in \<open>auto simp: fun_upd_def\<close>)
  then show ?case by (simp only: fst_conv snd_conv)
next
  case (publish clock ms b r now s' res4)
  then show ?case using publish_inv [of clock now ms b r "fst s'" "snd s'" res4] by simp
next
  case (enqueue r b now name ms s' res5)
  then show ?case using enqueue_inv [of ms b r now name "fst s'" "snd s'" res5] by simp
next
  case (subscribe gid x b tn b' res6 ms)
  then show ?case using subscribe_inv by simp
next
  case (retention now_at ms b s' res7)
  then show ?case using maintenance_inv(1) [of ms b now_at "fst s'" "snd s'" res7] by auto
next
  case (compaction ms b s' res8)
  then show ?case using maintenance_inv(2) [of ms b "fst s'" "snd s'" res8] by auto
next
  case (remove_dead alive_at b b' res9 ms)
  then show ?case using remove_dead_consumers_inv by simp
next
  case (leave b gid g cid cs' g' res10 ms)
  then show ?case using leave_group_inv(1) by simp
next
  case (new_consumer x b ms c)
  then show ?case using new_consumer_inv by simp
next
  case (work b b' ms)
  then show ?case using consumer_work_inv by simp
qed (simp_all add: broker_inv_def names_ok_def broker_start_def register_producer_def)

lemma broker_new_inv: "broker_inv ms (broker_new cfg ps nx cs)"
  by (simp add: broker_inv_def broker_new_def topics_ok_def groups_ok_def subs_ok_def names_ok_def)

lemma broker_run_inv:
  "broker_step\<^sup>*\<^sup>* s s' \<Longrightarrow> broker_inv (fst s) (snd s) \<Longrightarrow> broker_inv (fst s') (snd s')"
  by (induction rule: rtranclp_induct) (auto dest: broker_step_inv)

end
