(* ===== verification/Server.thy ===== *)
theory Server
  imports Framing Broker
begin

section \<open>The TCP server\<close>

text \<open>
  \<^verbatim>\<open>server.py\<close>: one client connection, from the bytes received to the frames sent. Each handler of
  \<open>ClientHandler\<close> ends by sending exactly one response; its model returns what it sends (\<open>reply\<close>) and
  \<open>dispatch\<close> sends it. \<open>server\<close> is what the connections share: the broker, with the objects it
  refers to. The JSON library and the broker's display snapshot are parameters (\<open>codec\<close>), and
  the generated ids, the readings of the clock, the error texts and whether the socket takes the
  response come with each frame (\<open>env\<close>). Requests are modelled with the types that the code expects;
  where Python would carry on with a value of another type, the model stops with \<open>IllTyped\<close>.
\<close>

record server =
  s_ms :: mstore
  s_next :: mref
  s_broker :: broker
  s_next_consumer :: cref

record codec =
  dumps :: "json \<Rightarrow> string"
  loads :: "string \<Rightarrow> json result"
  broker_snapshot :: "mstore \<Rightarrow> broker \<Rightarrow> json"

record env =
  e_id :: string
  e_now :: "nat \<Rightarrow> real"
  e_clock :: "nat \<Rightarrow> string"
  e_text :: string
  e_write :: bool

datatype reply = Reply json | Failure error_code

subsection \<open>Reading requests\<close>

text \<open>\<open>data.get(key, default)\<close>; a payload that is no object has no \<open>get\<close>.\<close>

definition as_object :: "json \<Rightarrow> (string, json) dict result" where
  "as_object j = (case j of JDict d \<Rightarrow> Inr d | _ \<Rightarrow> Inl AttributeError)"

abbreviation field :: "(string, json) dict \<Rightarrow> string \<Rightarrow> json \<Rightarrow> json" where
  "field \<equiv> dict_get_default"

fun truthy :: "json \<Rightarrow> bool" where
  "truthy JNull = False"
| "truthy (JBool b) = b"
| "truthy (JInt i) = (i \<noteq> 0)"
| "truthy (JFloat x) = (x \<noteq> 0)"
| "truthy (JStr s) = (s \<noteq> [])"
| "truthy (JList js) = (js \<noteq> [])"
| "truthy (JDict d) = (d \<noteq> [])"

text \<open>\<open>value.encode("utf-8")\<close>: only a string has \<open>encode\<close>.\<close>

definition encoded :: "json \<Rightarrow> byte list result" where
  "encoded j = (case j of JStr s \<Rightarrow> Inr (utf8_encode s) | _ \<Rightarrow> Inl AttributeError)"

text \<open>Looking a JSON value up in a dictionary with string keys: lists and objects are not hashable.\<close>

definition lookup_key :: "(string \<Rightarrow> 'a option) \<Rightarrow> json \<Rightarrow> 'a option result" where
  "lookup_key get j =
     (case j of
        JStr s \<Rightarrow> Inr (get s)
      | JList _ \<Rightarrow> Inl TypeError
      | JDict _ \<Rightarrow> Inl TypeError
      | _ \<Rightarrow> Inr None)"

definition as_headers :: "json \<Rightarrow> headers result" where
  "as_headers j = (case j of JDict kvs \<Rightarrow> as_str_items kvs | _ \<Rightarrow> Inl IllTyped)"

text \<open>A new message object.\<close>

definition new_message :: "message \<Rightarrow> server \<Rightarrow> server \<times> mref" where
  "new_message m s = (s\<lparr>s_ms := (s_ms s)(s_next s := m), s_next := s_next s + 1\<rparr>, s_next s)"

subsection \<open>Topics\<close>

definition handle_produce :: "env \<Rightarrow> json \<Rightarrow> server \<Rightarrow> server \<times> reply result" where
  "handle_produce e data s =
     (case as_object data of Inl x \<Rightarrow> (s, Inl x) | Inr d \<Rightarrow>
        (let topic = field d ''topic'' (JStr []) in
         if \<not> truthy topic then (s, Inr (Failure INVALID_REQUEST))
         else
           (case bind_r (encoded (field d ''value'' (JStr []))) (\<lambda>val.
                 bind_r (as_str topic) (\<lambda>tn.
                 bind_r (as_str_opt (field d ''key'' JNull)) (\<lambda>key.
                 bind_r (as_headers (field d ''headers'' (JDict []))) (\<lambda>hdrs.
                 Inr (message_new (e_id e) (e_now e 0) tn val key hdrs))))) of
              Inl x \<Rightarrow> (s, Inl x)
            | Inr m \<Rightarrow>
                (case new_message m s of (s1, r) \<Rightarrow>
                   (case broker_publish (e_clock e) (e_now e 1) (s_ms s1, s_broker s1) r of ((ms', b'), res) \<Rightarrow>
                      (s1\<lparr>s_ms := ms', s_broker := b'\<rparr>,
                       case res of
                         Inr md \<Rightarrow> Inr (Reply (JDict [(''topic'', JStr (rm_topic md)),
                             (''partition'', JInt (rm_partition md)), (''offset'', JInt (rm_offset md)),
                             (''message_id'', JStr (rm_message_id md))]))
                       | Inl x \<Rightarrow> if x = ValueError then Inr (Failure UNKNOWN_TOPIC) else Inl x))))))"

definition handle_fetch :: "json \<Rightarrow> server \<Rightarrow> server \<times> reply result" where
  "handle_fetch data s =
     (s, bind_r (as_object data) (\<lambda>d.
         bind_r (lookup_key (\<lambda>n. get_topic n (s_broker s)) (field d ''topic'' (JStr []))) (\<lambda>found.
         case found of
           None \<Rightarrow> Inr (Failure UNKNOWN_TOPIC)
         | Some t \<Rightarrow>
             bind_r (as_int (field d ''partition'' (JInt 0))) (\<lambda>pid.
             case get_partition t pid of
               Inl x \<Rightarrow> Inr (Failure UNKNOWN_PARTITION)
             | Inr p \<Rightarrow>
                 bind_r (as_int (field d ''offset'' (JInt 0))) (\<lambda>offset.
                 bind_r (as_int (field d ''max_messages'' (JInt 100))) (\<lambda>limit.
                 (let messages = partition_read (s_ms s) (b_ps (s_broker s) p) offset limit
                  in Inr (Reply (JDict
                       [(''messages'', JList (map (\<lambda>r. JDict (to_dict (s_ms s r))) messages)),
                        (''count'', JInt (int (length messages)))])))))))))"

definition handle_metadata :: "server \<Rightarrow> server \<times> reply result" where
  "handle_metadata s =
     (let b = s_broker s;
          info = fold (\<lambda>name d.
            case get_topic name b of
              Some t \<Rightarrow> dict_set name (JDict
                 [(''partitions'', JInt (int (length (t_partitions t)))),
                  (''messages'', JInt (int (total_messages (b_ps b) t)))]) d
            | None \<Rightarrow> d) (list_topics b) []
      in (s, Inr (Reply (JDict [(''topics'', JDict info), (''queues'', JList (map JStr (list_queues b)))]))))"

definition handle_create_topics :: "json \<Rightarrow> server \<Rightarrow> server \<times> reply result" where
  "handle_create_topics data s =
     (case as_object data of Inl x \<Rightarrow> (s, Inl x) | Inr d \<Rightarrow>
        (let name = field d ''name'' (JStr []) in
         if \<not> truthy name then (s, Inr (Failure INVALID_REQUEST))
         else
           (case bind_r (as_str name) (\<lambda>n.
                 bind_r (as_int (field d ''partitions'' (JInt 4))) (\<lambda>k. Inr (n, k))) of
              Inl x \<Rightarrow> (s, Inl x)
            | Inr (n, k) \<Rightarrow>
                (case create_topic n (Some (default_topic_config\<lparr>num_partitions := k\<rparr>)) (s_broker s) of
                   (b', Inl _) \<Rightarrow> (s\<lparr>s_broker := b'\<rparr>, Inr (Failure TOPIC_ALREADY_EXISTS))
                 | (b', Inr _) \<Rightarrow>
                     (s\<lparr>s_broker := b'\<rparr>, Inr (Reply (JDict [(''name'', JStr n), (''created'', JBool True)])))))))"

definition handle_delete_topics :: "json \<Rightarrow> server \<Rightarrow> server \<times> reply result" where
  "handle_delete_topics data s =
     (case bind_r (as_object data) (\<lambda>d.
           bind_r (lookup_key Some (field d ''name'' (JStr []))) (\<lambda>n. Inr (field d ''name'' (JStr []), n))) of
        Inl x \<Rightarrow> (s, Inl x)
      | Inr (name, n) \<Rightarrow>
          (case (case n of None \<Rightarrow> (s_broker s, False) | Some k \<Rightarrow> delete_topic k (s_broker s)) of
             (b', deleted) \<Rightarrow>
               (s\<lparr>s_broker := b'\<rparr>, Inr (Reply (JDict [(''name'', name), (''deleted'', JBool deleted)])))))"

subsection \<open>Groups\<close>

text \<open>These handlers also have the connection's own consumer, \<open>self._consumer\<close>.\<close>

type_synonym seat = "cref option"

definition handle_list_groups :: "server \<Rightarrow> server \<times> reply result" where
  "handle_list_groups s =
     (s, Inr (Reply (JDict [(''groups'', JList (map JStr (list_consumer_groups (s_broker s))))])))"

text \<open>\<open>Consumer(consumer_id=...)\<close>: no id or an empty one is replaced by twelve characters of a UUID.\<close>

definition chosen_id :: "env \<Rightarrow> json \<Rightarrow> string result" where
  "chosen_id e j = (if truthy j then as_str j else Inr (take 12 (e_id e)))"

definition labels_of :: "pstore \<Rightarrow> consumer \<Rightarrow> json list" where
  "labels_of ps c = map (\<lambda>p. JStr (partition_label (pkey ps p))) (c_assigned c)"

definition new_consumer :: "consumer \<Rightarrow> server \<Rightarrow> server \<times> cref" where
  "new_consumer c s =
     (let b = s_broker s; x = s_next_consumer s
      in (s\<lparr>s_broker := b\<lparr>b_cs := (b_cs b)(x := c)\<rparr>, s_next_consumer := x + 1\<rparr>, x))"

definition handle_join_group :: "env \<Rightarrow> json \<Rightarrow> server \<times> seat \<Rightarrow> (server \<times> seat) \<times> reply result" where
  "handle_join_group e data st =
     (case st of (s, seat) \<Rightarrow>
        (case bind_r (as_object data) (\<lambda>d.
              bind_r (chosen_id e (field d ''consumer_id'' JNull)) (\<lambda>cid.
              bind_r (as_str (field d ''group_id'' (JStr []))) (\<lambda>gid.
              bind_r (as_str (field d ''topic'' (JStr []))) (\<lambda>tn. Inr (cid, gid, tn))))) of
           Inl x \<Rightarrow> (st, Inl x)
         | Inr (cid, gid, tn) \<Rightarrow>
             (case new_consumer (consumer_new cid default_consumer_config (e_now e 0) (e_now e 1)) s of (s1, x) \<Rightarrow>
                (case broker_subscribe gid tn x (s_broker s1) of
                   (b', Inl err) \<Rightarrow>
                     ((s1\<lparr>s_broker := b'\<rparr>, seat),
                      if err = ValueError then Inr (Failure GROUP_NOT_FOUND) else Inl err)
                 | (b', Inr _) \<Rightarrow>
                     ((s1\<lparr>s_broker := b'\<rparr>, Some x),
                      Inr (Reply (JDict [(''group_id'', JStr gid), (''consumer_id'', JStr (c_id (b_cs b' x))),
                        (''assigned_partitions'', JList (labels_of (b_ps b') (b_cs b' x)))])))))))"

text \<open>\<open>group.leave(cid)\<close> on the broker's group \<open>g\<close>.\<close>

definition leave_in :: "consumer_group \<Rightarrow> string \<Rightarrow> string \<Rightarrow> broker \<Rightarrow> broker" where
  "leave_in g gid cid b =
     (case group_leave (b_ps b) cid (b_cs b, g) of ((cs', g'), _) \<Rightarrow>
        b\<lparr>b_groups := dict_set gid g' (b_groups b), b_cs := cs'\<rparr>)"

definition handle_leave_group :: "json \<Rightarrow> server \<times> seat \<Rightarrow> (server \<times> seat) \<times> reply result" where
  "handle_leave_group data st =
     (case st of (s, seat) \<Rightarrow>
        (case bind_r (as_object data) (\<lambda>d.
              lookup_key (\<lambda>gid. map_option (\<lambda>g. (gid, g)) (get_consumer_group gid (s_broker s)))
                (field d ''group_id'' (JStr []))) of
           Inl x \<Rightarrow> (st, Inl x)
         | Inr found \<Rightarrow>
             (case (found, seat) of
                (Some (gid, g), Some x) \<Rightarrow>
                  (s\<lparr>s_broker := leave_in g gid (c_id (b_cs (s_broker s) x)) (s_broker s)\<rparr>, None)
              | _ \<Rightarrow> st,
              Inr (Reply (JDict [(''left'', JBool True)])))))"

definition handle_offset_commit :: "env \<Rightarrow> server \<times> seat \<Rightarrow> (server \<times> seat) \<times> reply result" where
  "handle_offset_commit e st =
     (case st of
        (s, None) \<Rightarrow> (st, Inr (Failure GROUP_NOT_FOUND))
      | (s, Some x) \<Rightarrow>
          (case consumer_commit (e_now e 0) (b_ps (s_broker s)) (b_cs (s_broker s) x) of
             ((ps', c'), committed) \<Rightarrow>
               ((s\<lparr>s_broker := (s_broker s)\<lparr>b_ps := ps', b_cs := (b_cs (s_broker s))(x := c')\<rparr>\<rparr>, Some x),
                Inr (Reply (JDict [(''offsets'',
                  JDict (fold (\<lambda>(k, v). dict_set (partition_label k) (JInt v)) committed []))])))))"

definition handle_offset_fetch :: "server \<times> seat \<Rightarrow> (server \<times> seat) \<times> reply result" where
  "handle_offset_fetch st =
     (case st of
        (s, None) \<Rightarrow> (st, Inr (Failure GROUP_NOT_FOUND))
      | (s, Some x) \<Rightarrow>
          (let b = s_broker s; c = b_cs b x
           in (st, Inr (Reply (JDict [(''offsets'',
                JDict (fold (\<lambda>p. dict_set (partition_label (pkey (b_ps b) p))
                               (JInt (position c (p_topic (b_ps b p)) (p_id (b_ps b p))))) (c_assigned c) []))])))))"

definition handle_heartbeat :: "server \<Rightarrow> server \<times> reply result" where
  "handle_heartbeat s = (s, Inr (Reply (JDict [(''status'', JStr ''alive'')])))"

subsection \<open>Queues\<close>

definition handle_create_queue :: "json \<Rightarrow> server \<Rightarrow> server \<times> reply result" where
  "handle_create_queue data s =
     (case bind_r (as_object data) (\<lambda>d.
           bind_r (as_str (field d ''name'' (JStr []))) (\<lambda>name.
           bind_r (as_int (field d ''max_size'' (JInt 0))) (\<lambda>max_size.
           Inr (name, max_size, truthy (field d ''priority'' (JBool False)))))) of
        Inl x \<Rightarrow> (s, Inl x)
      | Inr (name, max_size, priority) \<Rightarrow>
          (case create_queue name max_size 30 priority (s_broker s) of
             (b', Inl _) \<Rightarrow> (s\<lparr>s_broker := b'\<rparr>, Inr (Failure INVALID_REQUEST))
           | (b', Inr _) \<Rightarrow>
               (s\<lparr>s_broker := b'\<rparr>, Inr (Reply (JDict [(''name'', JStr name), (''created'', JBool True)])))))"

definition handle_enqueue :: "env \<Rightarrow> json \<Rightarrow> server \<Rightarrow> server \<times> reply result" where
  "handle_enqueue e data s =
     (case bind_r (as_object data) (\<lambda>d.
           bind_r (encoded (field d ''value'' (JStr []))) (\<lambda>val.
           bind_r (as_str (field d ''queue'' (JStr []))) (\<lambda>name.
           bind_r (as_str_opt (field d ''key'' JNull)) (\<lambda>key.
           bind_r (as_int (field d ''priority'' (JInt 0))) (\<lambda>prio.
           Inr (name, (message_new (e_id e) (e_now e 0) name val key [])\<lparr>m_priority := prio\<rparr>)))))) of
        Inl x \<Rightarrow> (s, Inl x)
      | Inr (name, m) \<Rightarrow>
          (case new_message m s of (s1, r) \<Rightarrow>
             (case broker_enqueue (e_now e 1) name r (s_ms s1, s_broker s1) of ((ms', b'), res) \<Rightarrow>
                (s1\<lparr>s_ms := ms', s_broker := b'\<rparr>,
                 case res of
                   Inr _ \<Rightarrow> Inr (Reply (JDict [(''enqueued'', JBool True)]))
                 | Inl x \<Rightarrow> if x = ValueError then Inr (Failure QUEUE_NOT_FOUND) else Inl x))))"

text \<open>\<open>len(q)\<close>, which is also what \<open>if not q\<close> tests.\<close>

definition any_depth :: "any_queue \<Rightarrow> nat" where
  "any_depth q = (case q of Fifo fq \<Rightarrow> queue_depth fq | Prio pq \<Rightarrow> pq_depth pq)"

definition any_dequeue ::
    "real \<Rightarrow> real \<Rightarrow> mstore \<Rightarrow> real option \<Rightarrow> any_queue \<Rightarrow> any_queue \<times> mref option" where
  "any_dequeue now1 now2 ms timeout q =
     (case q of
        Fifo fq \<Rightarrow> (case queue_dequeue now1 now2 ms timeout fq of (fq', r) \<Rightarrow> (Fifo fq', r))
      | Prio pq \<Rightarrow> (case pq_dequeue now1 now2 ms timeout pq of (pq', r) \<Rightarrow> (Prio pq', r)))"

definition any_acknowledge :: "string \<Rightarrow> any_queue \<Rightarrow> any_queue \<times> bool" where
  "any_acknowledge mid q =
     (case q of
        Fifo fq \<Rightarrow> (case queue_acknowledge mid fq of (fq', ok) \<Rightarrow> (Fifo fq', ok))
      | Prio pq \<Rightarrow> (case pq_acknowledge mid pq of (pq', ok) \<Rightarrow> (Prio pq', ok)))"

text \<open>\<open>self.broker.get_queue(name)\<close> followed by the test \<open>if q\<close>: an empty queue counts as none.\<close>

definition usable_queue :: "(string, json) dict \<Rightarrow> broker \<Rightarrow> (string \<times> any_queue) option result" where
  "usable_queue d b =
     bind_r (lookup_key (\<lambda>n. map_option (\<lambda>q. (n, q)) (get_queue n b)) (field d ''queue'' (JStr []))) (\<lambda>found.
     Inr (case found of
            Some (n, q) \<Rightarrow> if any_depth q = 0 then None else Some (n, q)
          | None \<Rightarrow> None))"

definition handle_dequeue :: "env \<Rightarrow> json \<Rightarrow> server \<Rightarrow> server \<times> reply result" where
  "handle_dequeue e data s =
     (case bind_r (as_object data) (\<lambda>d. usable_queue d (s_broker s)) of
        Inl x \<Rightarrow> (s, Inl x)
      | Inr None \<Rightarrow> (s, Inr (Failure QUEUE_NOT_FOUND))
      | Inr (Some (name, q)) \<Rightarrow>
          (case any_dequeue (e_now e 0) (e_now e 1) (s_ms s) None q of (q', msg) \<Rightarrow>
             (s\<lparr>s_broker := put_queue name q' (s_broker s)\<rparr>,
              Inr (Reply (JDict [(''message'',
                case msg of Some r \<Rightarrow> JDict (to_dict (s_ms s r)) | None \<Rightarrow> JNull)])))))"

definition handle_ack :: "json \<Rightarrow> server \<Rightarrow> server \<times> reply result" where
  "handle_ack data s =
     (case bind_r (as_object data) (\<lambda>d.
           bind_r (usable_queue d (s_broker s)) (\<lambda>found. Inr (field d ''message_id'' (JStr []), found))) of
        Inl x \<Rightarrow> (s, Inl x)
      | Inr (_, None) \<Rightarrow> (s, Inr (Failure QUEUE_NOT_FOUND))
      | Inr (mid, Some (name, q)) \<Rightarrow>
          (case lookup_key Some mid of
             Inl x \<Rightarrow> (s, Inl x)
           | Inr None \<Rightarrow> (s, Inr (Reply (JDict [(''acknowledged'', JBool False)])))
           | Inr (Some i) \<Rightarrow>
               (case any_acknowledge i q of (q', acked) \<Rightarrow>
                  (s\<lparr>s_broker := put_queue name q' (s_broker s)\<rparr>,
                   Inr (Reply (JDict [(''acknowledged'', JBool acked)]))))))"

definition handle_metrics :: "codec \<Rightarrow> server \<Rightarrow> server \<times> reply result" where
  "handle_metrics cd s = (s, Inr (Reply (broker_snapshot cd (s_ms s) (s_broker s))))"

subsection \<open>One connection\<close>

record client =
  cl_seat :: seat
  cl_buffer :: "byte list"
  cl_active :: bool
  cl_sent :: "byte list list"

definition client_new :: client where
  "client_new = \<lparr>cl_seat = None, cl_buffer = [], cl_active = True, cl_sent = []\<rparr>"

text \<open>The handlers that do not use the connection's consumer.\<close>

definition seated :: "(server \<Rightarrow> server \<times> reply result) \<Rightarrow> server \<times> seat \<Rightarrow> (server \<times> seat) \<times> reply result" where
  "seated f st = (case f (fst st) of (s', r) \<Rightarrow> ((s', snd st), r))"

text \<open>The table of handlers; \<open>None\<close> for the keys it does not have.\<close>

fun handler_for ::
    "codec \<Rightarrow> env \<Rightarrow> json \<Rightarrow> api_key \<Rightarrow> (server \<times> seat \<Rightarrow> (server \<times> seat) \<times> reply result) option" where
  "handler_for cd e data PRODUCE = Some (seated (handle_produce e data))"
| "handler_for cd e data FETCH = Some (seated (handle_fetch data))"
| "handler_for cd e data METADATA = Some (seated handle_metadata)"
| "handler_for cd e data CREATE_TOPICS = Some (seated (handle_create_topics data))"
| "handler_for cd e data DELETE_TOPICS = Some (seated (handle_delete_topics data))"
| "handler_for cd e data LIST_GROUPS = Some (seated handle_list_groups)"
| "handler_for cd e data JOIN_GROUP = Some (handle_join_group e data)"
| "handler_for cd e data LEAVE_GROUP = Some (handle_leave_group data)"
| "handler_for cd e data OFFSET_COMMIT = Some (handle_offset_commit e)"
| "handler_for cd e data OFFSET_FETCH = Some handle_offset_fetch"
| "handler_for cd e data HEARTBEAT = Some (seated handle_heartbeat)"
| "handler_for cd e data CREATE_QUEUE = Some (seated (handle_create_queue data))"
| "handler_for cd e data ENQUEUE = Some (seated (handle_enqueue e data))"
| "handler_for cd e data DEQUEUE = Some (seated (handle_dequeue e data))"
| "handler_for cd e data ACK = Some (seated (handle_ack data))"
| "handler_for cd e data METRICS = Some (seated (handle_metrics cd))"
| "handler_for cd e data _ = None"

text \<open>\<open>_send_response\<close> and \<open>_send_error\<close>.\<close>

definition send_response ::
    "codec \<Rightarrow> env \<Rightarrow> frame \<Rightarrow> error_code \<Rightarrow> json \<Rightarrow> client \<Rightarrow> client \<times> unit result" where
  "send_response cd e f code data c =
     (case frame_to_bytes (response_to_frame (dumps cd) (f_api_key f)
             (response_new (f_correlation_id f) code data)) of
        Inl x \<Rightarrow> (c, Inl x)
      | Inr bs \<Rightarrow> (if e_write e then c\<lparr>cl_sent := cl_sent c @ [bs]\<rparr> else c\<lparr>cl_active := False\<rparr>, Inr ()))"

definition send_error :: "codec \<Rightarrow> env \<Rightarrow> frame \<Rightarrow> error_code \<Rightarrow> client \<Rightarrow> client \<times> unit result" where
  "send_error cd e f code c = send_response cd e f code (JDict [(''error'', JStr (e_text e))]) c"

definition send_reply :: "codec \<Rightarrow> env \<Rightarrow> frame \<Rightarrow> reply \<Rightarrow> client \<Rightarrow> client \<times> unit result" where
  "send_reply cd e f r c =
     (case r of Reply data \<Rightarrow> send_response cd e f NO_ERROR data c | Failure code \<Rightarrow> send_error cd e f code c)"

text \<open>
  Of the exceptions of reading the payload, \<open>JSONDecodeError\<close> (the \<open>ValueError\<close> of \<open>loads\<close>) and
  \<open>UnicodeDecodeError\<close> are answered; others, and all exceptions of the handlers, escape.
\<close>

definition dispatch ::
    "codec \<Rightarrow> env \<Rightarrow> frame \<Rightarrow> server \<times> client \<Rightarrow> (server \<times> client) \<times> unit result" where
  "dispatch cd e f st =
     (case st of (s, c) \<Rightarrow>
        (case load_payload (loads cd) (f_payload f) of
           Inl x \<Rightarrow>
             if x = ValueError \<or> x = UnicodeDecodeError
             then (case send_error cd e f INVALID_REQUEST c of (c', res) \<Rightarrow> ((s, c'), res))
             else (st, Inl x)
         | Inr payload \<Rightarrow>
             (case handler_for cd e payload (f_api_key f) of
                None \<Rightarrow> (case send_error cd e f INVALID_REQUEST c of (c', res) \<Rightarrow> ((s, c'), res))
              | Some h \<Rightarrow>
                  (case h (s, cl_seat c) of
                     ((s', seat), Inl x) \<Rightarrow> ((s', c\<lparr>cl_seat := seat\<rparr>), Inl x)
                   | ((s', seat), Inr r) \<Rightarrow>
                       (case send_reply cd e f r (c\<lparr>cl_seat := seat\<rparr>) of (c', res) \<Rightarrow> ((s', c'), res))))))"

text \<open>
  \<open>_process_buffer\<close>: frame number \<open>i\<close> of the connection is served in \<open>envs i\<close>. Each frame takes bytes
  off the buffer, so its length is enough fuel.
\<close>

fun serve_buffer_loop ::
    "codec \<Rightarrow> (nat \<Rightarrow> env) \<Rightarrow> nat \<Rightarrow> nat \<Rightarrow> server \<times> client \<Rightarrow> ((server \<times> client) \<times> nat) \<times> unit result" where
  "serve_buffer_loop cd envs 0 i st = ((st, i), Inr ())"
| "serve_buffer_loop cd envs (Suc n) i st =
     (case st of (s, c) \<Rightarrow>
        (case read_from_buffer (cl_buffer c) of
           Inl x \<Rightarrow> ((st, i), Inl x)
         | Inr (None, rest) \<Rightarrow> (((s, c\<lparr>cl_buffer := rest\<rparr>), i), Inr ())
         | Inr (Some f, rest) \<Rightarrow>
             (case dispatch cd (envs i) f (s, c\<lparr>cl_buffer := rest\<rparr>) of
                (st', Inl x) \<Rightarrow> ((st', i + 1), Inl x)
              | (st', Inr _) \<Rightarrow> serve_buffer_loop cd envs n (i + 1) st')))"

definition serve_buffer ::
    "codec \<Rightarrow> (nat \<Rightarrow> env) \<Rightarrow> nat \<Rightarrow> server \<times> client \<Rightarrow> ((server \<times> client) \<times> nat) \<times> unit result" where
  "serve_buffer cd envs i st = serve_buffer_loop cd envs (Suc (length (cl_buffer (snd st)))) i st"

text \<open>
  The loop of \<open>handle\<close> while the server runs: the chunks that \<open>recv\<close> returns, up to the end of the
  stream or an error of the socket. An exception is logged and ends the loop.
\<close>

fun receive_loop ::
    "codec \<Rightarrow> (nat \<Rightarrow> env) \<Rightarrow> byte list list \<Rightarrow> nat \<Rightarrow> server \<times> client \<Rightarrow> (server \<times> client) \<times> nat" where
  "receive_loop cd envs [] i st = (st, i)"
| "receive_loop cd envs (data # rest) i st =
     (case st of (s, c) \<Rightarrow>
        if \<not> cl_active c \<or> data = [] then (st, i)
        else
          (case serve_buffer cd envs i (s, c\<lparr>cl_buffer := cl_buffer c @ data\<rparr>) of
             ((st', i'), Inl _) \<Rightarrow> (st', i')
           | ((st', i'), Inr _) \<Rightarrow> receive_loop cd envs rest i' st'))"

text \<open>\<open>_cleanup\<close>: the connection's consumer is closed; it stays in its group.\<close>

definition cleanup :: "real \<Rightarrow> server \<times> client \<Rightarrow> server" where
  "cleanup now st =
     (case st of (s, c) \<Rightarrow>
        (case cl_seat c of
           None \<Rightarrow> s
         | Some x \<Rightarrow>
             (let b = s_broker s in
              case consumer_close now (b_ps b) (b_cs b x) of
                (ps', c') \<Rightarrow> s\<lparr>s_broker := b\<lparr>b_ps := ps', b_cs := (b_cs b)(x := c')\<rparr>\<rparr>)))"

definition handle :: "codec \<Rightarrow> (nat \<Rightarrow> env) \<Rightarrow> real \<Rightarrow> byte list list \<Rightarrow> server \<times> client \<Rightarrow> server \<times> byte list list" where
  "handle cd envs now chunks st =
     (case receive_loop cd envs chunks 0 st of ((s, c), _) \<Rightarrow> (cleanup now (s, c), cl_sent c))"

subsection \<open>Connections\<close>

text \<open>The bookkeeping of \<open>BrokerServer\<close>: the handlers, by a number for each connection.\<close>

record listener =
  max_connections :: int
  ls_handlers :: "nat list"
  ls_running :: bool

definition accept_connection :: "nat \<Rightarrow> listener \<Rightarrow> listener \<times> bool" where
  "accept_connection i l =
     (if int (length (ls_handlers l)) \<ge> max_connections l then (l, False)
      else (l\<lparr>ls_handlers := ls_handlers l @ [i]\<rparr>, True))"

definition remove_handler :: "nat \<Rightarrow> listener \<Rightarrow> listener" where
  "remove_handler i l =
     (if i \<in> set (ls_handlers l) then l\<lparr>ls_handlers := remove1 i (ls_handlers l)\<rparr> else l)"

definition connection_count :: "listener \<Rightarrow> nat" where
  "connection_count l = length (ls_handlers l)"

end
