(* ===== verification/Broker_Ops.thy ===== *)
theory Broker_Ops
  imports Server Broker_Run
begin

section \<open>The operations of the broker, by name\<close>

text \<open>
  \<open>broker_step\<close> says what may happen to a broker: it leaves open what a queue object or a consumer
  object does between two operations, which is enough for invariants. To say that a front end does
  exactly what it was asked for, the operations are named here with their arguments: \<open>perform\<close> is what
  each does, \<open>allowed\<close> the condition under which it is used (objects are new where they have to be, a
  consumer joins one group), and every allowed operation is a run of \<open>broker_step\<close>. Acknowledging,
  purging and committing are written out; the others are the functions of the components.
\<close>

datatype broker_op =
    Op_Start real
  | Op_Create_Topic string "topic_config option"
  | Op_Delete_Topic string
  | Op_Create_Queue string int real bool
  | Op_Delete_Queue string
  | Op_Dequeue string real real
  | Op_Acknowledge string string
  | Op_Purge string
  | Op_Create_Group string assignment_strategy
  | Op_Delete_Group string
  | Op_New_Message mref message
  | Op_Publish "nat \<Rightarrow> string" real mref
  | Op_Enqueue real string mref
  | Op_New_Consumer cref consumer
  | Op_Subscribe string string cref
  | Op_Leave string string
  | Op_Seek_First cref
  | Op_Poll cref real real real int
  | Op_Commit cref real
  | Op_Close cref real
  | Op_Retention "pref \<Rightarrow> real"
  | Op_Compaction
  | Op_Remove_Dead "string \<Rightarrow> string \<Rightarrow> real"

subsection \<open>What they do\<close>

text \<open>A method of the queue with this name; nothing happens when there is none.\<close>

definition on_named_queue :: "string \<Rightarrow> (any_queue \<Rightarrow> any_queue) \<Rightarrow> broker \<Rightarrow> broker" where
  "on_named_queue name f b = (case get_queue name b of Some q \<Rightarrow> put_queue name (f q) b | None \<Rightarrow> b)"

text \<open>An acknowledged message is no longer in flight; all else stays (but for a counter).\<close>

definition acknowledged :: "string \<Rightarrow> any_queue \<Rightarrow> any_queue" where
  "acknowledged mid q =
     (case q of
        Fifo f \<Rightarrow>
          (case dict_get (q_in_flight f) mid of
             None \<Rightarrow> Fifo f
           | Some _ \<Rightarrow> Fifo (f\<lparr>q_in_flight := dict_del mid (q_in_flight f), q_total_acked := q_total_acked f + 1\<rparr>))
      | Prio p \<Rightarrow> Prio (p\<lparr>pq_in_flight := dict_del mid (pq_in_flight p)\<rparr>))"

text \<open>Purging empties what waits, not what is in flight, of a queue without priorities.\<close>

definition purged :: "any_queue \<Rightarrow> any_queue" where
  "purged q = (case q of Fifo f \<Rightarrow> Fifo (f\<lparr>q_queue := []\<rparr>) | Prio p \<Rightarrow> Prio p)"

text \<open>The offsets a consumer commits: for each of its partitions, its position.\<close>

definition committed :: "pstore \<Rightarrow> consumer \<Rightarrow> pstore" where
  "committed ps c p =
     (if p \<in> set (c_assigned c)
      then commit_offset (group_id (c_config c)) (position c (p_topic (ps p)) (p_id (ps p))) (ps p)
      else ps p)"

definition on_consumer :: "cref \<Rightarrow> pstore \<Rightarrow> consumer \<Rightarrow> broker \<Rightarrow> broker" where
  "on_consumer x ps c b = b\<lparr>b_ps := ps, b_cs := (b_cs b)(x := c)\<rparr>"

fun perform :: "broker_op \<Rightarrow> mstore \<times> broker \<Rightarrow> mstore \<times> broker" where
  "perform (Op_Start now) (ms, b) = (ms, broker_start now b)"
| "perform (Op_Create_Topic name cfg) (ms, b) = (ms, fst (create_topic name cfg b))"
| "perform (Op_Delete_Topic name) (ms, b) = (ms, fst (delete_topic name b))"
| "perform (Op_Create_Queue name k t prio) (ms, b) = (ms, fst (create_queue name k t prio b))"
| "perform (Op_Delete_Queue name) (ms, b) = (ms, fst (delete_queue name b))"
| "perform (Op_Dequeue name t1 t2) (ms, b) = (ms, on_named_queue name (\<lambda>q. fst (any_dequeue t1 t2 ms None q)) b)"
| "perform (Op_Acknowledge name mid) (ms, b) = (ms, on_named_queue name (acknowledged mid) b)"
| "perform (Op_Purge name) (ms, b) = (ms, on_named_queue name purged b)"
| "perform (Op_Create_Group gid st) (ms, b) = (ms, fst (create_consumer_group gid st b))"
| "perform (Op_Delete_Group gid) (ms, b) = (ms, fst (delete_consumer_group gid b))"
| "perform (Op_New_Message r m) (ms, b) = (ms(r := m), b)"
| "perform (Op_Publish clock now r) (ms, b) = fst (broker_publish clock now (ms, b) r)"
| "perform (Op_Enqueue now name r) (ms, b) = fst (broker_enqueue now name r (ms, b))"
| "perform (Op_New_Consumer x c) (ms, b) = (ms, b\<lparr>b_cs := (b_cs b)(x := c)\<rparr>)"
| "perform (Op_Subscribe gid tn x) (ms, b) = (ms, fst (broker_subscribe gid tn x b))"
| "perform (Op_Leave gid cid) (ms, b) =
     (ms, case get_consumer_group gid b of Some g \<Rightarrow> leave_in g gid cid b | None \<Rightarrow> b)"
| "perform (Op_Seek_First x) (ms, b) = (ms, on_consumer x (b_ps b) (seek_to_beginning ms (b_ps b) (b_cs b x)) b)"
| "perform (Op_Poll x t1 t2 t3 k) (ms, b) =
     (case fst (consumer_poll t1 t2 t3 ms (b_ps b) (Some k) (b_cs b x)) of (ps, c) \<Rightarrow> (ms, on_consumer x ps c b))"
| "perform (Op_Commit x now) (ms, b) =
     (ms, on_consumer x (committed (b_ps b) (b_cs b x)) ((b_cs b x)\<lparr>c_last_commit := now\<rparr>) b)"
| "perform (Op_Close x now) (ms, b) =
     (ms, on_consumer x (committed (b_ps b) (b_cs b x)) ((b_cs b x)\<lparr>c_last_commit := now, c_active := False\<rparr>) b)"
| "perform (Op_Retention clock) s = fst (broker_apply_retention clock s)"
| "perform Op_Compaction s = fst (compact_topics s)"
| "perform (Op_Remove_Dead clock) (ms, b) = (ms, fst (remove_dead_consumers clock b))"

fun allowed :: "broker_op \<Rightarrow> mstore \<times> broker \<Rightarrow> bool" where
  "allowed (Op_New_Message r m) s = fresh_in r (snd s)"
| "allowed (Op_Publish clock now r) s = well_behaved clock (fst s) (snd s) r"
| "allowed (Op_Enqueue now name r) s = fresh_in r (snd s)"
| "allowed (Op_New_Consumer x c) s = outsider x (snd s)"
| "allowed (Op_Subscribe gid tn x) s = joinable gid x (snd s)"
| "allowed _ _ = True"

text \<open>Several operations, one after the other.\<close>

fun perform_all :: "broker_op list \<Rightarrow> mstore \<times> broker \<Rightarrow> mstore \<times> broker" where
  "perform_all [] s = s"
| "perform_all (x # xs) s = perform_all xs (perform x s)"

fun all_allowed :: "broker_op list \<Rightarrow> mstore \<times> broker \<Rightarrow> bool" where
  "all_allowed [] s = True"
| "all_allowed (x # xs) s = (allowed x s \<and> all_allowed xs (perform x s))"

lemma perform_all_append [simp]: "perform_all (xs @ ys) s = perform_all ys (perform_all xs s)"
  by (induction xs arbitrary: s) simp_all

lemma all_allowed_append [simp]:
  "all_allowed (xs @ ys) s \<longleftrightarrow> all_allowed xs s \<and> all_allowed ys (perform_all xs s)"
  by (induction xs arbitrary: s) simp_all

subsection \<open>They are the operations of the components\<close>

lemma commit_is_committed:
  assumes "do_commit now ps c = ((ps', c'), d)"
  shows "ps' = committed ps c" "c' = c\<lparr>c_last_commit := now\<rparr>"
proof -
  show "c' = c\<lparr>c_last_commit := now\<rparr>" by (rule do_commit_effect(2) [OF assms])
  have f: "fold (\<lambda>p (ps, d). let offset = dict_get_default (c_offsets c) (pkey ps p) 0
       in (ps(p := commit_offset (group_id (c_config c)) offset (ps p)), dict_set (pkey ps p) offset d))
       (c_assigned c) (ps, []) = (ps', d)"
    using assms by (auto simp: do_commit_def split: prod.splits)
  show "ps' = committed ps c"
    by (rule ext) (use do_commit_fold [OF f] in \<open>simp add: committed_def position_def pkey_def\<close>)
qed

lemma close_is_committed:
  "consumer_close now ps c = (committed ps c, c\<lparr>c_last_commit := now, c_active := False\<rparr>)"
proof -
  obtain ps' c' d where cm: "do_commit now ps c = ((ps', c'), d)" by (metis surj_pair)
  from commit_is_committed [OF cm] cm show ?thesis by (simp add: consumer_close_def)
qed

lemma acknowledge_is_acknowledged: "fst (any_acknowledge mid q) = acknowledged mid q"
proof (cases q)
  case (Fifo f)
  then show ?thesis
    unfolding any_acknowledge_def acknowledged_def queue_acknowledge_def in_keys_iff
    by (simp split: option.split)
next
  case (Prio p)
  have "mid \<notin> set (keys (pq_in_flight p)) \<Longrightarrow> dict_del mid (pq_in_flight p) = pq_in_flight p"
    by (auto simp: dict_del_filter filter_id_conv image_iff)
  with Prio show ?thesis by (simp add: any_acknowledge_def acknowledged_def pq_acknowledge_def)
qed

lemma dequeue_kind: "(\<exists>f. q = Fifo f) = (\<exists>f. fst (any_dequeue t1 t2 ms t q) = Fifo f)"
  by (auto simp: any_dequeue_def split: any_queue.splits prod.splits)

lemma acknowledged_kind: "(\<exists>f. q = Fifo f) = (\<exists>f. acknowledged mid q = Fifo f)"
  by (auto simp: acknowledged_def split: any_queue.splits option.splits)

lemma purged_kind: "(\<exists>f. q = Fifo f) = (\<exists>f. purged q = Fifo f)"
  by (auto simp: purged_def split: any_queue.splits)

subsection \<open>Each is a step of the broker\<close>

lemma on_named_queue_step:
  assumes "\<And>q. (\<exists>f. q = Fifo f) = (\<exists>f. g q = Fifo f)"
  shows "broker_step\<^sup>*\<^sup>* (ms, b) (ms, on_named_queue name g b)"
proof (cases "get_queue name b")
  case None
  then show ?thesis by (simp add: on_named_queue_def)
next
  case (Some q)
  from broker_step.queue_work [OF Some assms] show ?thesis by (simp add: on_named_queue_def Some r_into_rtranclp)
qed

lemma on_consumer_step:
  assumes "only_commits (b_ps b) ps" and "c_id c = c_id (b_cs b x)" and "c_assigned c = c_assigned (b_cs b x)"
  shows "broker_step\<^sup>*\<^sup>* (ms, b) (ms, on_consumer x ps c b)"
proof -
  have "consumer_work b (on_consumer x ps c b)"
    unfolding consumer_work_def on_consumer_def using assms
    by (intro exI [of _ ps] exI [of _ "(b_cs b)(x := c)"]) simp
  then show ?thesis by (intro r_into_rtranclp broker_step.work)
qed

lemma committed_only: "only_commits ps (committed ps c)"
  by (auto simp: only_commits_def committed_def commit_offset_def)

lemma leave_step: "broker_step\<^sup>*\<^sup>* (ms, b) (perform (Op_Leave gid cid) (ms, b))"
proof (cases "dict_get (b_groups b) gid")
  case None
  then show ?thesis by (simp add: get_consumer_group_def)
next
  case (Some g)
  obtain cs' g' out where lv: "group_leave (b_ps b) cid (b_cs b, g) = ((cs', g'), out)" by (metis surj_pair)
  from broker_step.leave [OF Some lv] show ?thesis
    by (simp add: get_consumer_group_def Some leave_in_def lv r_into_rtranclp)
qed

lemma perform_run: "allowed x (ms, b) \<Longrightarrow> broker_step\<^sup>*\<^sup>* (ms, b) (perform x (ms, b))"
proof (cases x)
  case (Op_Poll y t1 t2 t3 k)
  obtain ps' c' out where p: "consumer_poll t1 t2 t3 ms (b_ps b) (Some k) (b_cs b y) = ((ps', c'), out)"
    by (metis surj_pair)
  from poll_consumer [OF p] show ?thesis by (simp add: Op_Poll p on_consumer_step)
next
  case (Op_Leave gid cid)
  then show ?thesis using leave_step by simp
next
  case (Op_Seek_First y)
  have "only_commits (b_ps b) (b_ps b)" by (simp add: only_commits_def)
  then show ?thesis by (simp add: Op_Seek_First on_consumer_step seek_to_beginning_def)
qed (auto simp: on_named_queue_step [OF dequeue_kind] on_named_queue_step [OF acknowledged_kind] on_named_queue_step [OF purged_kind]
      on_consumer_step committed_only intro!: r_into_rtranclp intro: broker_step.intros prod.collapse [symmetric])

lemma perform_all_run: "all_allowed xs s \<Longrightarrow> broker_step\<^sup>*\<^sup>* s (perform_all xs s)"
proof (induction xs arbitrary: s)
  case (Cons x xs)
  have "broker_step\<^sup>*\<^sup>* s (perform x s)" using perform_run [of x "fst s" "snd s"] Cons.prems by simp
  moreover have "broker_step\<^sup>*\<^sup>* (perform x s) (perform_all xs (perform x s))" using Cons by simp
  ultimately show ?case by (simp add: rtranclp_trans)
qed simp

end
