(* ===== verification/Broker_Props.thy ===== *)
theory Broker_Props
  imports Broker_Run
begin

section \<open>What the broker guarantees\<close>

text \<open>
  The broker's properties over whole runs: unique names, limits and live subscriptions; what a
  publish does on each branch; that a published message belongs to exactly one member of each
  subscribed group, and that this member can read it.
\<close>

subsection \<open>Reachable states\<close>

text \<open>C4. In every state a new broker reaches, by any sequence of its operations: no two topics, queues
  (of both kinds together) or groups have the same name; the configured limits on topics and
  queues hold; every topic satisfies its invariant and no two topics share a partition; every
  group is settled, no consumer is a member of two groups, and every subscription of a group is
  to the partitions of a topic that exists under that name. That a caller has a consumer object
  join one group at a time (\<open>joinable\<close>) and publishes a message once (\<open>well_behaved\<close>, \<open>fresh_in\<close>) are
  conditions of the steps, which the code does not check.\<close>

theorem broker_invariant:
  assumes "broker_step\<^sup>*\<^sup>* (ms0, broker_new cfg ps nx cs) (ms, b)"
  shows "distinct (list_topics b) \<and> distinct (list_queues b) \<and> distinct (list_consumer_groups b)
    \<and> (max_topics (b_config b) > 0 \<longrightarrow> int (length (list_topics b)) \<le> max_topics (b_config b))
    \<and> (max_queues (b_config b) > 0 \<longrightarrow> int (length (list_queues b)) \<le> max_queues (b_config b))
    \<and> (\<forall>n t. get_topic n b = Some t \<longrightarrow> t_name t = n \<and> topic_inv ms (b_ps b) t)
    \<and> (\<forall>n1 t1 n2 t2. get_topic n1 b = Some t1 \<and> get_topic n2 b = Some t2 \<and> n1 \<noteq> n2 \<longrightarrow>
          set (t_partitions t1) \<inter> set (t_partitions t2) = {})
    \<and> (\<forall>gid g. get_consumer_group gid b = Some g \<longrightarrow> g_id g = gid \<and> settled (b_cs b) g
          \<and> (\<forall>tn refs. dict_get (g_subscribed g) tn = Some refs \<longrightarrow>
                (\<exists>t. get_topic tn b = Some t \<and> refs = t_partitions t)))
    \<and> (\<forall>gid1 g1 gid2 g2. get_consumer_group gid1 b = Some g1 \<and> get_consumer_group gid2 b = Some g2
          \<and> gid1 \<noteq> gid2 \<longrightarrow> set (member_refs g1) \<inter> set (member_refs g2) = {})"
proof -
  have inv: "broker_inv ms b" using broker_run_inv [OF assms] broker_new_inv by simp
  note I = broker_invD [OF inv]
  have "distinct (list_topics b) \<and> distinct (list_queues b) \<and> distinct (list_consumer_groups b)
    \<and> (max_topics (b_config b) > 0 \<longrightarrow> int (length (list_topics b)) \<le> max_topics (b_config b))
    \<and> (max_queues (b_config b) > 0 \<longrightarrow> int (length (list_queues b)) \<le> max_queues (b_config b))"
    using I(4) unfolding names_ok_def wf_dict_def
    by (auto simp: list_topics_def list_queues_def list_consumer_groups_def)
  moreover have "\<forall>n t. get_topic n b = Some t \<longrightarrow> t_name t = n \<and> topic_inv ms (b_ps b) t"
    "\<forall>n1 t1 n2 t2. get_topic n1 b = Some t1 \<and> get_topic n2 b = Some t2 \<and> n1 \<noteq> n2 \<longrightarrow>
          set (t_partitions t1) \<inter> set (t_partitions t2) = {}"
    using I(1) unfolding topics_ok_def get_topic_def by blast+
  moreover have "\<forall>gid g. get_consumer_group gid b = Some g \<longrightarrow> g_id g = gid \<and> settled (b_cs b) g
          \<and> (\<forall>tn refs. dict_get (g_subscribed g) tn = Some refs \<longrightarrow>
                (\<exists>t. get_topic tn b = Some t \<and> refs = t_partitions t))"
    "\<forall>gid1 g1 gid2 g2. get_consumer_group gid1 b = Some g1 \<and> get_consumer_group gid2 b = Some g2
          \<and> gid1 \<noteq> gid2 \<longrightarrow> set (member_refs g1) \<inter> set (member_refs g2) = {}"
    using I(2,3) unfolding groups_ok_def subs_ok_def get_topic_def get_consumer_group_def by blast+
  ultimately show ?thesis by blast
qed

subsection \<open>Publishing\<close>

text \<open>The log that a publish extends.\<close>

definition topic_log :: "broker \<Rightarrow> string \<Rightarrow> int \<Rightarrow> mref list" where
  "topic_log b tn pid =
     (case get_topic tn b of None \<Rightarrow> [] | Some t \<Rightarrow> p_log (b_ps b (t_partitions t ! nat pid)))"

lemma publish_result:
  assumes pub: "broker_publish clock now (ms, b) m = ((ms', b'), res)" and inv: "broker_inv ms b"
    and wb: "well_behaved clock ms b m"
  shows "case res of
      Inl e \<Rightarrow> b_total_in b' = b_total_in b \<and> (\<forall>p < b_next b. p_log (b_ps b' p) = p_log (b_ps b p))
    | Inr md \<Rightarrow> b_total_in b' = b_total_in b + 1
        \<and> (\<exists>r t p. snd (pipeline_process clock (b_middleware b) ms m) = Inr (Some r)
             \<and> get_topic (rm_topic md) b' = Some t \<and> rm_topic md = m_topic (ms' r)
             \<and> 0 \<le> rm_partition md \<and> rm_partition md < int (length (t_partitions t))
             \<and> p = t_partitions t ! nat (rm_partition md)
             \<and> p_log (b_ps b' p) = topic_log b (rm_topic md) (rm_partition md) @ [r]
             \<and> m_partition (ms' r) = rm_partition md \<and> m_offset (ms' r) = rm_offset md
             \<and> (\<forall>q < b_next b. q \<noteq> p \<longrightarrow> p_log (b_ps b' q) = p_log (b_ps b q)))"
  using pub
proof (cases rule: broker_publish_cases)
  case (dropped p' e processed)
  then show ?thesis by simp
next
  case (no_topic p' r e)
  let ?b1 = "b\<lparr>b_middleware := p'\<rparr>"
  have "b' = ?b1" using no_topic(2)
    by (auto simp: topic_or_create_def create_topic_def Let_def split: option.splits if_splits prod.splits)
  with no_topic(3) show ?thesis by simp
next
  case (published p' ms1 r b2 t ps2 t' pres)
  let ?b1 = "b\<lparr>b_middleware := p'\<rparr>"
  have inv1: "broker_inv ms1 ?b1"
  proof -
    have "broker_inv ms1 b" using wb published(1) by (intro broker_inv_logged [OF inv]) (auto simp: well_behaved_def)
    then show ?thesis by (simp add: broker_inv_def names_ok_def)
  qed
  note made = topic_or_create_inv [OF inv1 published(2)]
  note M = made [THEN conjunct2, unfolded topic_made_def sum.case] and I = broker_invD [OF made [THEN conjunct1]]
  have t: "dict_get (b_topics b2) (m_topic (ms1 r)) = Some t" using M by simp
  note T = topics_okD [OF I(1) t]
  have rr: "0 \<le> t_round_robin t" using T(2) by (simp add: topic_inv_def)
  have old: "p_log (b_ps b2 q) = p_log (b_ps b q)" if "q < b_next b" for q using M that by simp
  from published(3) rr show ?thesis
  proof (cases rule: topic_publish_cases)
    case (append pid p q)
    show ?thesis
    proof (cases pres)
      case (Inl e)
      have "q = b_ps b2 p" using partition_append_err append(5) Inl by blast
      with append(6) have "ps2 = b_ps b2" by simp
      with published(4,5) M old Inl show ?thesis by simp
    next
      case (Inr off)
      note ok = partition_append_ok [OF append(5) [unfolded Inr]]
      have pidp: "p_id (b_ps b2 p) = pid"
        using topic_inv_id [OF T(2), of "nat pid"] append(2-4) by (simp add: nat_less_iff)
      have name: "m_topic (ms' r) = m_topic (ms1 r)" using ok T(1) by (simp add: stamp_def)
      have part: "m_partition (ms' r) = pid" "m_offset (ms' r) = off" using ok pidp by simp_all
      have t': "t_partitions t' = t_partitions t" using choose_partition_frame [OF append(1)] by simp
      have p_in: "p \<in> set (t_partitions t)" using append(2-4) by simp
      have log: "p_log (b_ps b2 p) = topic_log b (m_topic (ms1 r)) pid"
      proof (cases "dict_get (b_topics b) (m_topic (ms1 r))")
        case None
        then show ?thesis using M p_in by (simp add: topic_log_def get_topic_def)
      next
        case (Some u)
        then have "u = t" "b_ps b2 = b_ps b" using M by auto
        then show ?thesis using Some append(4) by (simp add: topic_log_def get_topic_def)
      qed
      have res: "res = Inr \<lparr>rm_topic = m_topic (ms' r), rm_partition = pid, rm_offset = off,
          rm_timestamp = m_broker_timestamp (ms' r), rm_message_id = m_id (ms' r)\<rparr>"
        using published(5) Inr part by simp
      have b': "b_total_in b' = b_total_in b + 1" "get_topic (m_topic (ms1 r)) b' = Some t'"
        "b_ps b' = (b_ps b2)(p := q)"
        using published(4) Inr M append(6) by (simp_all add: get_topic_def)
      show ?thesis
        unfolding res sum.case
        by (rule conjI [OF b'(1)], rule exI [of _ r], rule exI [of _ t'], rule exI [of _ p])
          (use b' name part t' append(2-4) published(1) old log ok(3) in simp)
    qed
  qed (use published(4,5) M old in simp_all)
qed

text \<open>C9. Publishing through the broker, middleware included. On success the message that the
  middleware handed on is the new last entry of exactly one log, of a partition of the topic the
  message then names (a missing topic having been created); the metadata name this topic,
  partition and offset, no other log changes and the counter goes up by one. On failure no log
  and no counter changes; a message that the middleware drops is a ValueError. The broker's
  invariant is kept either way.\<close>

theorem broker_publish_correct:
  assumes "broker_publish clock now (ms, b) m = ((ms', b'), res)" and "broker_inv ms b"
    and "well_behaved clock ms b m"
  shows "(case res of
      Inl e \<Rightarrow> b_total_in b' = b_total_in b \<and> (\<forall>p < b_next b. p_log (b_ps b' p) = p_log (b_ps b p))
    | Inr md \<Rightarrow> b_total_in b' = b_total_in b + 1
        \<and> (\<exists>r t p. snd (pipeline_process clock (b_middleware b) ms m) = Inr (Some r)
             \<and> get_topic (rm_topic md) b' = Some t \<and> rm_topic md = m_topic (ms' r)
             \<and> 0 \<le> rm_partition md \<and> rm_partition md < int (length (t_partitions t))
             \<and> p = t_partitions t ! nat (rm_partition md)
             \<and> p_log (b_ps b' p) = topic_log b (rm_topic md) (rm_partition md) @ [r]
             \<and> m_partition (ms' r) = rm_partition md \<and> m_offset (ms' r) = rm_offset md
             \<and> (\<forall>q < b_next b. q \<noteq> p \<longrightarrow> p_log (b_ps b' q) = p_log (b_ps b q))))
    \<and> (snd (pipeline_process clock (b_middleware b) ms m) = Inr None \<longrightarrow> res = Inl ValueError)
    \<and> broker_inv ms' b'"
proof -
  have "res = Inl ValueError" if "snd (pipeline_process clock (b_middleware b) ms m) = Inr None"
    using assms(1) that by (cases rule: broker_publish_cases) auto
  with publish_result [OF assms] publish_inv [OF assms] show ?thesis by blast
qed

subsection \<open>From publisher to consumer\<close>

lemma distinct_values:
  assumes "distinct (keys d)" and "\<And>n xs. (n, xs) \<in> set d \<Longrightarrow> distinct xs"
    and "\<And>n1 xs n2 ys. (n1, xs) \<in> set d \<Longrightarrow> (n2, ys) \<in> set d \<Longrightarrow> n1 \<noteq> n2 \<Longrightarrow> set xs \<inter> set ys = {}"
  shows "distinct (concat (map snd d))"
  using assms
proof (induction d)
  case Nil
  then show ?case by simp
next
  case (Cons a d)
  obtain n xs where a: "a = (n, xs)" by (cases a)
  have IH: "distinct (concat (map snd d))"
  proof (rule Cons.IH)
    show "distinct (keys d)" using Cons.prems(1) by simp
    show "distinct ys" if "(k, ys) \<in> set d" for k ys
      by (rule Cons.prems(2) [of k]) (simp add: that)
    show "set ys \<inter> set zs = {}" if "(k, ys) \<in> set d" "(l, zs) \<in> set d" "k \<noteq> l" for k l ys zs
      by (rule Cons.prems(3) [of k _ l]) (simp_all add: that)
  qed
  have "set xs \<inter> set ys = {}" if "(k, ys) \<in> set d" for k ys
  proof -
    have "k \<in> set (keys d)" using that by force
    then have "n \<noteq> k" using Cons.prems(1) by (auto simp: a)
    then show ?thesis by (intro Cons.prems(3) [of n xs k ys]) (simp_all add: a that)
  qed
  then have "set xs \<inter> set (concat (map snd d)) = {}" by fastforce
  moreover have "distinct xs" by (rule Cons.prems(2) [of n]) (simp add: a)
  ultimately show ?case using IH by (simp add: a)
qed

lemma distinct_parts:
  assumes "topics_ok ms ps nx ts"
    and "\<And>tn refs. dict_get d tn = Some refs \<Longrightarrow> \<exists>t. dict_get ts tn = Some t \<and> refs = t_partitions t"
    and "wf_dict d"
  shows "distinct (concat (map snd d))"
proof -
  have ex: "\<exists>t. dict_get ts n = Some t \<and> refs = t_partitions t" if "(n, refs) \<in> set d" for n refs
    by (rule assms(2)) (simp add: dict_get_in [OF assms(3)] that)
  have one: "distinct refs" if m: "(n, refs) \<in> set d" for n refs
    using ex [OF m] topics_okD(2) [OF assms(1)] by (auto simp: topic_inv_def)
  have two: "set refs1 \<inter> set refs2 = {}"
    if m: "(n1, refs1) \<in> set d" "(n2, refs2) \<in> set d" "n1 \<noteq> n2" for n1 n2 refs1 refs2
  proof -
    obtain t1 where t1: "dict_get ts n1 = Some t1" "refs1 = t_partitions t1" using ex [OF m(1)] by auto
    obtain t2 where t2: "dict_get ts n2 = Some t2" "refs2 = t_partitions t2" using ex [OF m(2)] by auto
    show ?thesis unfolding t1(2) t2(2) by (rule topics_okD(4) [OF assms(1) t1(1) t2(1) m(3)])
  qed
  have "distinct (keys d)" using assms(3) by (simp add: wf_dict_def)
  then show ?thesis using one two by (rule distinct_values)
qed

lemma all_partitions_distinct:
  assumes "broker_inv ms b" and "dict_get (b_groups b) gid = Some g"
  shows "distinct (all_partitions g)"
proof -
  note I = broker_invD [OF assms(1)]
  have "distinct (concat (map snd (g_subscribed g)))"
    by (rule distinct_parts [OF I(1) subs_okD(2) [OF I(3) assms(2)] subs_okD(1) [OF I(3) assms(2)]])
  then show ?thesis by (simp add: all_partitions_def)
qed

text \<open>C5. A published message belongs to one consumer of each subscribed group: after a successful
  publish, in any reachable state, to a topic that a group with members subscribes to, exactly one
  member of the group holds the partition whose log the message extended, and the message waits
  there behind that partition's previous entries. The steps have the conditions of \<open>broker_invariant\<close>.\<close>

theorem publish_reaches_one_member:
  assumes "broker_step\<^sup>*\<^sup>* (ms0, broker_new cfg ps nx cs) (ms, b)" and "well_behaved clock ms b m"
    and "broker_publish clock now (ms, b) m = ((ms', b'), Inr md)"
    and "get_consumer_group gid b' = Some g" and "g_members g \<noteq> []"
    and "dict_get (g_subscribed g) (rm_topic md) \<noteq> None"
  shows "\<exists>t p r. get_topic (rm_topic md) b' = Some t \<and> p = t_partitions t ! nat (rm_partition md)
    \<and> snd (pipeline_process clock (b_middleware b) ms m) = Inr (Some r)
    \<and> p_log (b_ps b' p) = topic_log b (rm_topic md) (rm_partition md) @ [r]
    \<and> (\<exists>!x. x \<in> set (member_refs g) \<and> p \<in> set (c_assigned (b_cs b' x)))"
proof -
  have inv: "broker_inv ms b" using broker_run_inv [OF assms(1)] broker_new_inv by simp
  note inv' = publish_inv [OF assms(3) inv assms(2)]
  obtain r t p where res: "snd (pipeline_process clock (b_middleware b) ms m) = Inr (Some r)"
      "get_topic (rm_topic md) b' = Some t" "0 \<le> rm_partition md"
      "rm_partition md < int (length (t_partitions t))" "p = t_partitions t ! nat (rm_partition md)"
      "p_log (b_ps b' p) = topic_log b (rm_topic md) (rm_partition md) @ [r]"
    using publish_result [OF assms(3) inv assms(2)] by auto
  have g: "dict_get (b_groups b') gid = Some g" using assms(4) by (simp add: get_consumer_group_def)
  obtain refs where refs: "dict_get (g_subscribed g) (rm_topic md) = Some refs" using assms(6) by blast
  have "refs = t_partitions t"
    using subs_okD(2) [OF broker_invD(3) [OF inv'] g refs] res(2) by (auto simp: get_topic_def)
  then have "p \<in> set refs" using res(3-5) by simp
  then have "p \<in> set (all_partitions g)"
    using map_of_SomeD [OF refs] by (force simp: all_partitions_def)
  moreover note settled_once [OF groups_okD(2,3) [OF broker_invD(2) [OF inv'] g] assms(5) all_partitions_distinct [OF inv' g]]
  ultimately have "\<exists>!x. x \<in> set (member_refs g) \<and> p \<in> set (c_assigned (b_cs b' x))" by blast
  with res show ?thesis by blast
qed

subsection \<open>Examples\<close>

definition sample_broker :: broker where
  "sample_broker =
     broker_new (default_broker_config\<lparr>default_partitions := 2\<rparr>) sample_ps 0
       (\<lambda>_. consumer_new ''c'' default_consumer_config 0 0)"

definition sample_subscribed :: broker where
  "sample_subscribed = fst (broker_subscribe ''g'' ''t'' 0 sample_broker)"

lemma sample_run: "broker_step\<^sup>*\<^sup>* (sample_ms, sample_broker) (sample_ms, sample_subscribed)"
proof -
  obtain b res where sub: "broker_subscribe ''g'' ''t'' 0 sample_broker = (b, res)" by (metis surj_pair)
  have "joinable ''g'' 0 sample_broker" by (simp add: joinable_def sample_broker_def broker_new_def)
  from broker_step.subscribe [OF this sub] show ?thesis by (simp add: sample_subscribed_def sub r_into_rtranclp)
qed

lemma sample_topics:
  "b_topics sample_subscribed = [(''t'', \<lparr>t_name = ''t'', t_config = default_topic_config\<lparr>num_partitions := 2\<rparr>,
      t_partitions = [0, 1], t_round_robin = 0, t_subscribers = {''g''}\<rparr>)]"
  "b_middleware sample_subscribed = []" "b_next sample_subscribed = 2"
  "b_ps sample_subscribed 0 = partition_new ''t'' 0 0 0" "b_ps sample_subscribed 1 = partition_new ''t'' 1 0 0"
  "\<exists>g. b_groups sample_subscribed = [(''g'', g)] \<and> g_subscribed g = [(''t'', [0, 1])] \<and> g_members g = [(''c'', 0)]"
  by (simp_all add: sample_subscribed_def sample_broker_def broker_new_def broker_subscribe_def topic_or_create_def
      get_topic_def create_topic_def default_broker_config_def default_topic_config_def topic_new_def Let_def
      create_consumer_group_def group_new_def group_subscribe_def rebalance_def group_join_def all_partitions_def
      member_refs_def update_consumer_def consumer_new_def topic_subscribe_def upt_rec numeral_eq_Suc case_prod_beta)

lemma sample_publish:
  "\<exists>ms' b' md. broker_publish (\<lambda>_. []) 5 (sample_ms, sample_subscribed) 9 = ((ms', b'), Inr md)
     \<and> rm_topic md = ''t'' \<and> rm_partition md = 0 \<and> b_groups b' = b_groups sample_subscribed"
proof -
  have m: "m_topic (sample_ms 9) = ''t''" "m_partition (sample_ms 9) = -1" "m_key (sample_ms 9) = None"
    by (simp_all add: sample_ms_def message_new_def)
  show ?thesis
    by (simp add: broker_publish_def pipeline_process_def sample_topics topic_or_create_def get_topic_def m
        topic_publish_def choose_partition_def assign_partition_def default_topic_config_def py_nth_def
        partition_append_def partition_new_def Let_def stamp_def)
qed

lemma sample_well_behaved: "well_behaved (\<lambda>_. []) sample_ms sample_subscribed 9"
  by (simp add: well_behaved_def pipeline_process_def sample_topics sample_topics(5) [unfolded One_nat_def] fresh_all_def fresh_for_def partition_new_def)

theorem broker_invariant_witness:
  "distinct (list_topics sample_subscribed) \<and> list_topics sample_subscribed = [''t'']"
  using broker_invariant [OF sample_run [unfolded sample_broker_def]] by (simp add: list_topics_def sample_topics)

theorem broker_publish_correct_witness:
  "\<exists>ms' b' md. broker_publish (\<lambda>_. []) 5 (sample_ms, sample_subscribed) 9 = ((ms', b'), Inr md)
     \<and> b_total_in b' = b_total_in sample_subscribed + 1 \<and> m_topic (ms' 9) = ''t''"
proof -
  obtain ms' b' md where p: "broker_publish (\<lambda>_. []) 5 (sample_ms, sample_subscribed) 9 = ((ms', b'), Inr md)"
    and md: "rm_topic md = ''t''" using sample_publish by blast
  have "broker_inv sample_ms sample_subscribed"
    using broker_run_inv [OF sample_run] by (simp add: sample_broker_def broker_new_inv)
  from broker_publish_correct [OF p this sample_well_behaved]
  have "b_total_in b' = b_total_in sample_subscribed + 1" "m_topic (ms' 9) = ''t''"
    by (auto simp: md pipeline_process_def sample_topics)
  with p show ?thesis by blast
qed

theorem publish_reaches_one_member_witness:
  "\<exists>ms' b' md g. broker_publish (\<lambda>_. []) 5 (sample_ms, sample_subscribed) 9 = ((ms', b'), Inr md)
     \<and> get_consumer_group ''g'' b' = Some g
     \<and> (\<exists>p. p_log (b_ps b' p) = [9] \<and> (\<exists>!x. x \<in> set (member_refs g) \<and> p \<in> set (c_assigned (b_cs b' x))))"
proof -
  obtain ms' b' md where p: "broker_publish (\<lambda>_. []) 5 (sample_ms, sample_subscribed) 9 = ((ms', b'), Inr md)"
    and md: "rm_topic md = ''t''" "rm_partition md = 0" and gs: "b_groups b' = b_groups sample_subscribed"
    using sample_publish by blast
  obtain g where g: "b_groups sample_subscribed = [(''g'', g)]" "g_subscribed g = [(''t'', [0, 1])]"
      "g_members g = [(''c'', 0)]" using sample_topics(6) by blast
  have get: "get_consumer_group ''g'' b' = Some g" by (simp add: get_consumer_group_def gs g(1))
  have "\<exists>q. p_log (b_ps b' q) = [9] \<and> (\<exists>!x. x \<in> set (member_refs g) \<and> q \<in> set (c_assigned (b_cs b' x)))"
    using publish_reaches_one_member [OF sample_run [unfolded sample_broker_def] sample_well_behaved p get] g(2,3)
    by (auto simp: md topic_log_def get_topic_def sample_topics partition_new_def pipeline_process_def)
  with p get show ?thesis by blast
qed

end
