(* ===== verification/Utils.thy ===== *)
theory Utils
  imports Prelude
begin

section \<open>Utilities\<close>

text \<open>
  \<^verbatim>\<open>utils.py\<close> apart from the hashes (\<open>Hashing\<close>): retrying a function, the stopwatch, and numbers and
  durations as text. Floats are reals; dividing by 1024 is exact for them too. The clock readings are
  arguments. Strings are their UTF-8 bytes.
\<close>

subsection \<open>Retrying\<close>

definition clamp :: "real \<Rightarrow> real \<Rightarrow> real \<Rightarrow> real" where
  "clamp val minimum maximum = max minimum (min maximum val)"

text \<open>
  \<open>fn\<close> works on a state \<open>s\<close>. The result has the delays slept and what is returned: nothing when the
  loop runs out, which it does only when there are no attempts.
\<close>

fun retry_loop ::
    "nat \<Rightarrow> nat \<Rightarrow> real \<Rightarrow> ('s \<Rightarrow> 's \<times> 'a result) \<Rightarrow> 's \<Rightarrow> ('s \<times> real list) \<times> 'a option result" where
  "retry_loop 0 attempt base fn s = ((s, []), Inr None)"
| "retry_loop (Suc k) attempt base fn s =
     (case fn s of
        (s', Inr v) \<Rightarrow> ((s', []), Inr (Some v))
      | (s', Inl e) \<Rightarrow>
          if k = 0 then ((s', []), Inl e)
          else
            (case retry_loop k (attempt + 1) base fn s' of ((s'', delays), res) \<Rightarrow>
               ((s'', base * 2 ^ attempt # delays), res)))"

definition retry_with_backoff ::
    "('s \<Rightarrow> 's \<times> 'a result) \<Rightarrow> int \<Rightarrow> real \<Rightarrow> 's \<Rightarrow> ('s \<times> real list) \<times> 'a option result" where
  "retry_with_backoff fn max_attempts base s = retry_loop (nat max_attempts) 0 base fn s"

subsection \<open>The stopwatch\<close>

record stopwatch =
  sw_start :: real
  sw_elapsed :: real
  sw_running :: bool

definition stopwatch_new :: stopwatch where
  "stopwatch_new = \<lparr>sw_start = 0, sw_elapsed = 0, sw_running = False\<rparr>"

definition stopwatch_start :: "real \<Rightarrow> stopwatch \<Rightarrow> stopwatch" where
  "stopwatch_start now w = w\<lparr>sw_start := now, sw_running := True\<rparr>"

definition stopwatch_stop :: "real \<Rightarrow> stopwatch \<Rightarrow> stopwatch \<times> real" where
  "stopwatch_stop now w =
     (let w' = (if sw_running w then w\<lparr>sw_elapsed := now - sw_start w, sw_running := False\<rparr> else w)
      in (w', sw_elapsed w'))"

definition stopwatch_elapsed :: "real \<Rightarrow> stopwatch \<Rightarrow> real" where
  "stopwatch_elapsed now w = (if sw_running w then now - sw_start w else sw_elapsed w)"

definition elapsed_ms :: "real \<Rightarrow> stopwatch \<Rightarrow> real" where
  "elapsed_ms now w = stopwatch_elapsed now w * 1000"

subsection \<open>Numbers as text\<close>

text \<open>\<open>f"{x:.kf}"\<close>: to the nearest multiple of \<open>10\<^sup>-\<^sup>k\<close>, ties to even.\<close>

definition round_half_even :: "real \<Rightarrow> int" where
  "round_half_even x =
     (let n = \<lfloor>x\<rfloor>; d = x - of_int n
      in if d < 1 / 2 then n else if d > 1 / 2 then n + 1 else if even n then n else n + 1)"

text \<open>\<open>round(x, k)\<close>\<close>

definition py_round :: "real \<Rightarrow> nat \<Rightarrow> real" where
  "py_round x k = of_int (round_half_even (x * 10 ^ k)) / 10 ^ k"

definition zero_fill :: "nat \<Rightarrow> string \<Rightarrow> string" where
  "zero_fill k s = replicate (k - length s) (CHR ''0'') @ s"

definition fixed :: "nat \<Rightarrow> real \<Rightarrow> string" where
  "fixed k x =
     (let n = round_half_even (\<bar>x\<bar> * 10 ^ k)
      in (if x < 0 then ''-'' else []) @ py_str_int (n div 10 ^ k)
         @ (if k = 0 then [] else ''.'' @ zero_fill k (py_str_int (n mod 10 ^ k))))"

fun format_units :: "string list \<Rightarrow> real \<Rightarrow> string" where
  "format_units [] n = fixed 1 n @ '' PB''"
| "format_units (u # us) n = (if \<bar>n\<bar> < 1024 then fixed 1 n @ '' '' @ u else format_units us (n / 1024))"

definition format_bytes :: "int \<Rightarrow> string" where
  "format_bytes n = format_units [''B'', ''KB'', ''MB'', ''GB'', ''TB''] (of_int n)"

definition format_rate :: "real \<Rightarrow> string" where
  "format_rate x =
     (if x \<ge> 1000000 then fixed 1 (x / 1000000) @ ''M/s''
      else if x \<ge> 1000 then fixed 1 (x / 1000) @ ''K/s''
      else fixed 1 x @ ''/s'')"

definition micro_sign :: string where
  "micro_sign = map char_of [194 :: nat, 181]"

definition format_duration :: "real \<Rightarrow> string" where
  "format_duration s =
     (if s < 1 / 1000 then fixed 0 (s * 1000000) @ micro_sign @ ''s''
      else if s < 1 then fixed 1 (s * 1000) @ ''ms''
      else if s < 60 then fixed 1 s @ ''s''
      else if s < 3600 then
        (let minutes = \<lfloor>s / 60\<rfloor>; secs = \<lfloor>s - 60 * of_int \<lfloor>s / 60\<rfloor>\<rfloor>
         in py_str_int minutes @ ''m '' @ py_str_int secs @ ''s'')
      else
        (let hours = \<lfloor>s / 3600\<rfloor>; minutes = \<lfloor>(s - 3600 * of_int \<lfloor>s / 3600\<rfloor>) / 60\<rfloor>
         in py_str_int hours @ ''h '' @ py_str_int minutes @ ''m''))"

text \<open>\<open>f"#{offset:,}"\<close>: a comma between groups of three digits, from the right.\<close>

fun group_digits :: "string \<Rightarrow> string" where
  "group_digits (a # b # c # d # r) = a # b # c # CHR '','' # group_digits (d # r)"
| "group_digits s = s"

definition with_commas :: "int \<Rightarrow> string" where
  "with_commas i = (if i < 0 then ''-'' else []) @ rev (group_digits (rev (py_str_int \<bar>i\<bar>)))"

definition format_offset :: "int \<Rightarrow> string" where
  "format_offset i = ''#'' @ with_commas i"

subsection \<open>What they do\<close>

text \<open>The state after \<open>k\<close> calls.\<close>

definition after :: "('s \<Rightarrow> 's \<times> 'a result) \<Rightarrow> nat \<Rightarrow> 's \<Rightarrow> 's" where
  "after fn k s = ((\<lambda>s. fst (fn s)) ^^ k) s"

lemma after_Suc: "after fn (Suc k) s = after fn k (fst (fn s))"
  using funpow_swap1 [of "\<lambda>s. fst (fn s)" k s] by (simp add: after_def)

lemma retry_loop_spec:
  "0 < n \<Longrightarrow> \<exists>k < n. \<exists>res. retry_loop n attempt base fn s
      = ((after fn (Suc k) s, map (\<lambda>i. base * 2 ^ i) [attempt..<attempt + k]), res)
    \<and> (\<forall>j < k. \<not> is_ok (snd (fn (after fn j s))))
    \<and> (case snd (fn (after fn k s)) of Inr v \<Rightarrow> res = Inr (Some v) | Inl e \<Rightarrow> k = n - 1 \<and> res = Inl e)"
proof (induction n arbitrary: attempt s)
  case (Suc n)
  obtain s' r where f: "fn s = (s', r)" by (metis surj_pair)
  have one: "after fn (Suc 0) s = s'" "after fn 0 s = s" by (simp_all add: after_def f)
  show ?case
  proof (cases r)
    case (Inr v)
    then show ?thesis by (intro exI [of _ 0]) (simp add: f one)
  next
    case (Inl e)
    show ?thesis
    proof (cases "n = 0")
      case True
      then show ?thesis using Inl by (intro exI [of _ 0]) (simp add: f one)
    next
      case False
      then obtain k res where k: "k < n" "retry_loop n (attempt + 1) base fn s'
          = ((after fn (Suc k) s', map (\<lambda>i. base * 2 ^ i) [attempt + 1..<attempt + 1 + k]), res)"
        "\<forall>j < k. \<not> is_ok (snd (fn (after fn j s')))"
        "case snd (fn (after fn k s')) of Inr v \<Rightarrow> res = Inr (Some v) | Inl e \<Rightarrow> k = n - 1 \<and> res = Inl e"
        using Suc.IH [of "attempt + 1" s'] by blast
      have up: "after fn (Suc j) s = after fn j s'" for j by (simp add: after_Suc f)
      have "\<not> is_ok (snd (fn (after fn j s)))" if "j < Suc k" for j
        using that k(3) Inl by (cases j) (simp_all add: up f one)
      moreover have "map (\<lambda>i. base * 2 ^ i) [attempt..<attempt + Suc k]
          = base * 2 ^ attempt # map (\<lambda>i. base * 2 ^ i) [attempt + 1..<attempt + 1 + k]"
        by (simp add: upt_conv_Cons)
      ultimately show ?thesis
        using k(1,2,4) Inl False by (intro exI [of _ "Suc k"]) (auto simp: f up split: sum.splits)
    qed
  qed
qed simp

text \<open>\<open>retry_with_backoff\<close> calls the function until it first succeeds and returns this value, or as
  often as allowed and raises the last exception; between the calls it sleeps \<open>base\<close>, twice that, four
  times that and so on. With no attempts allowed the function is never called and \<open>None\<close> returned.\<close>

theorem retry_with_backoff_correct:
  "if max_attempts \<le> 0 then retry_with_backoff fn max_attempts base s = ((s, []), Inr None)
   else \<exists>k < nat max_attempts. \<exists>res. retry_with_backoff fn max_attempts base s
      = ((after fn (Suc k) s, map (\<lambda>i. base * 2 ^ i) [0..<k]), res)
    \<and> list_all (\<lambda>j. \<not> is_ok (snd (fn (after fn j s)))) [0..<k]
    \<and> (case snd (fn (after fn k s)) of
         Inr v \<Rightarrow> res = Inr (Some v)
       | Inl e \<Rightarrow> k = nat max_attempts - 1 \<and> res = Inl e)"
proof (cases "max_attempts \<le> 0")
  case False
  then obtain k res where "k < nat max_attempts" "retry_loop (nat max_attempts) 0 base fn s
      = ((after fn (Suc k) s, map (\<lambda>i. base * 2 ^ i) [0..<k]), res)"
    "\<forall>j < k. \<not> is_ok (snd (fn (after fn j s)))"
    "case snd (fn (after fn k s)) of Inr v \<Rightarrow> res = Inr (Some v) | Inl e \<Rightarrow> k = nat max_attempts - 1 \<and> res = Inl e"
    using retry_loop_spec [of "nat max_attempts" 0 base fn s] by auto
  with False show ?thesis
    by (auto simp: retry_with_backoff_def list_all_iff intro!: exI [of _ k])
qed (simp add: retry_with_backoff_def)

lemma group_digits_digits: "CHR '','' \<notin> set s \<Longrightarrow> filter (\<lambda>c. c \<noteq> CHR '','') (group_digits s) = s"
  by (induction s rule: group_digits.induct) auto

lemma decimal_digits: "set (decimal n) \<subseteq> set ''0123456789''"
proof (induction n rule: decimal.induct)
  case (1 n)
  have digit: "char_of (48 + k) \<in> set ''0123456789''" if "k < 10" for k :: nat
  proof -
    from that have "k \<in> set [0..<10]" by simp
    moreover have "list_all (\<lambda>k :: nat. char_of (48 + k) \<in> set ''0123456789'') [0..<10]" by code_simp
    ultimately show ?thesis by (auto simp: list_all_iff)
  qed
  show ?case
  proof (cases "n < 10")
    case True
    then show ?thesis using digit [of n] by (subst decimal.simps) simp
  next
    case False
    then show ?thesis using 1 digit [of "n mod 10"] by (subst decimal.simps) simp
  qed
qed

text \<open>Without the commas an offset is its number again.\<close>

lemma format_offset_digits: "filter (\<lambda>c. c \<noteq> CHR '','') (format_offset i) = CHR ''#'' # py_str_int i"
proof -
  have "CHR '','' \<notin> set (decimal n)" for n using decimal_digits [of n] by auto
  then have "CHR '','' \<notin> set (rev (py_str_int \<bar>i\<bar>))" by (simp add: py_str_int_def)
  from group_digits_digits [OF this] show ?thesis
    by (simp add: format_offset_def with_commas_def py_str_int_def flip: rev_filter)
qed

lemma stopwatch_measures:
  "stopwatch_stop t2 (stopwatch_start t1 w) = (w\<lparr>sw_start := t1, sw_elapsed := t2 - t1, sw_running := False\<rparr>, t2 - t1)"
  "stopwatch_elapsed t2 (stopwatch_start t1 w) = t2 - t1"
  by (simp_all add: stopwatch_stop_def stopwatch_start_def stopwatch_elapsed_def Let_def)

lemma clamp_bounds:
  "minimum \<le> maximum \<Longrightarrow> minimum \<le> clamp v minimum maximum \<and> clamp v minimum maximum \<le> maximum"
  by (simp add: clamp_def)

end
