(* ===== verification/Backpressure.thy ===== *)
theory Backpressure
  imports Utils
begin

section \<open>Backpressure\<close>

text \<open>
  \<^verbatim>\<open>backpressure.py\<close>: the token bucket with its waiting loop, and the manager that combines a depth
  limit with one bucket per producer. Token counts and times are real numbers; each reading of the
  monotonic clock is an argument.
\<close>

subsection \<open>The token bucket\<close>

record rate_limiter =
  rl_rate :: real
  rl_burst :: int
  rl_tokens :: real
  rl_last_refill :: real
  rl_allowed :: int
  rl_rejected :: int

text \<open>\<open>int(x)\<close> cuts towards zero.\<close>

definition py_int :: "real \<Rightarrow> int" where
  "py_int x = (if 0 \<le> x then \<lfloor>x\<rfloor> else \<lceil>x\<rceil>)"

definition limiter_new :: "real \<Rightarrow> int \<Rightarrow> real \<Rightarrow> rate_limiter" where
  "limiter_new rate burst now =
     (let b = (if burst > 0 then burst else py_int rate)
      in \<lparr>rl_rate = rate, rl_burst = b, rl_tokens = of_int b, rl_last_refill = now, rl_allowed = 0,
          rl_rejected = 0\<rparr>)"

definition refill :: "real \<Rightarrow> rate_limiter \<Rightarrow> rate_limiter" where
  "refill now l =
     (let elapsed = now - rl_last_refill l
      in l\<lparr>rl_tokens := min (of_int (rl_burst l)) (rl_tokens l + elapsed * rl_rate l), rl_last_refill := now\<rparr>)"

definition acquire :: "real \<Rightarrow> int \<Rightarrow> rate_limiter \<Rightarrow> rate_limiter \<times> bool" where
  "acquire now tokens l0 =
     (let l = refill now l0 in
      if rl_tokens l \<ge> of_int tokens
      then (l\<lparr>rl_tokens := rl_tokens l - of_int tokens, rl_allowed := rl_allowed l + 1\<rparr>, True)
      else (l\<lparr>rl_rejected := rl_rejected l + 1\<rparr>, False))"

definition available_tokens :: "real \<Rightarrow> rate_limiter \<Rightarrow> rate_limiter \<times> real" where
  "available_tokens now l = (let l' = refill now l in (l', rl_tokens l'))"

definition sleep_time :: "int \<Rightarrow> rate_limiter \<Rightarrow> real" where
  "sleep_time tokens l = min (of_int tokens / max (rl_rate l) (1 / 1000)) (1 / 10)"

text \<open>
  The loop of \<open>wait\<close>: reading \<open>i\<close> of the clock for the loop's test, reading \<open>i + 1\<close> for the refill.
  \<open>None\<close> means that the fuel ran out while the loop was still running; sleeping for a negative time
  raises.
\<close>

fun wait_loop ::
    "nat \<Rightarrow> (nat \<Rightarrow> real) \<Rightarrow> nat \<Rightarrow> real \<Rightarrow> int \<Rightarrow> rate_limiter \<Rightarrow> rate_limiter \<times> bool result option" where
  "wait_loop 0 clock i deadline tokens l = (l, None)"
| "wait_loop (Suc fuel) clock i deadline tokens l =
     (if clock i < deadline
      then (case acquire (clock (i + 1)) tokens l of
              (l', acquired) \<Rightarrow>
                if acquired then (l', Some (Inr True))
                else if sleep_time tokens l' < 0 then (l', Some (Inl ValueError))
                else wait_loop fuel clock (i + 2) deadline tokens l')
      else (l, Some (Inr False)))"

definition wait_for ::
    "nat \<Rightarrow> (nat \<Rightarrow> real) \<Rightarrow> int \<Rightarrow> real \<Rightarrow> rate_limiter \<Rightarrow> rate_limiter \<times> bool result option" where
  "wait_for fuel clock tokens timeout l = wait_loop fuel clock 1 (clock 0 + timeout) tokens l"

subsection \<open>The manager\<close>

record backpressure_config =
  max_queue_depth :: int
  producer_rate_limit :: real
  slow_consumer_threshold :: int
  enable_throttling :: bool

definition default_backpressure_config :: backpressure_config where
  "default_backpressure_config =
     \<lparr>max_queue_depth = 100000, producer_rate_limit = 10000, slow_consumer_threshold = 1000,
      enable_throttling = True\<rparr>"

record backpressure_manager =
  bm_config :: backpressure_config
  bm_limiters :: "(string, rate_limiter) dict"
  bm_depths :: "(string, int) dict"
  bm_throttled :: int
  bm_rejected :: int

definition manager_new :: "backpressure_config \<Rightarrow> backpressure_manager" where
  "manager_new cfg = \<lparr>bm_config = cfg, bm_limiters = [], bm_depths = [], bm_throttled = 0, bm_rejected = 0\<rparr>"

definition get_producer_limiter :: "real \<Rightarrow> string \<Rightarrow> backpressure_manager \<Rightarrow> backpressure_manager \<times> rate_limiter" where
  "get_producer_limiter now pid m =
     (case dict_get (bm_limiters m) pid of
        Some l \<Rightarrow> (m, l)
      | None \<Rightarrow>
          (let rate = producer_rate_limit (bm_config m);
               l = limiter_new rate (py_int (rate * 2)) now
           in (m\<lparr>bm_limiters := dict_set pid l (bm_limiters m)\<rparr>, l)))"

text \<open>What the reason texts say.\<close>

datatype publish_reason =
    ThrottlingDisabled
  | DepthExceeded string int int
  | RateLimited string real
  | Allowed

text \<open>\<open>now1\<close> for a new limiter, \<open>now2\<close> for its refill.\<close>

definition check_publish_allowed ::
    "real \<Rightarrow> real \<Rightarrow> string \<Rightarrow> string \<Rightarrow> int \<Rightarrow> backpressure_manager
      \<Rightarrow> backpressure_manager \<times> bool \<times> publish_reason" where
  "check_publish_allowed now1 now2 pid topic current_depth m =
     (if \<not> enable_throttling (bm_config m) then (m, True, ThrottlingDisabled)
      else if current_depth \<ge> max_queue_depth (bm_config m)
      then (m\<lparr>bm_rejected := bm_rejected m + 1\<rparr>, False,
            DepthExceeded topic current_depth (max_queue_depth (bm_config m)))
      else
        (let (m1, l) = get_producer_limiter now1 pid m;
             (l', ok) = acquire now2 1 l;
             m2 = m1\<lparr>bm_limiters := dict_set pid l' (bm_limiters m1)\<rparr>
         in if \<not> ok then (m2\<lparr>bm_throttled := bm_throttled m2 + 1\<rparr>, False,
                          RateLimited pid (producer_rate_limit (bm_config m)))
            else (m2, True, Allowed)))"

definition update_topic_depth :: "string \<Rightarrow> int \<Rightarrow> backpressure_manager \<Rightarrow> backpressure_manager" where
  "update_topic_depth topic depth m = m\<lparr>bm_depths := dict_set topic depth (bm_depths m)\<rparr>"

definition is_topic_at_capacity :: "string \<Rightarrow> backpressure_manager \<Rightarrow> bool" where
  "is_topic_at_capacity topic m \<longleftrightarrow> dict_get_default (bm_depths m) topic 0 \<ge> max_queue_depth (bm_config m)"

definition detect_slow_consumers :: "(string, int) dict \<Rightarrow> backpressure_manager \<Rightarrow> string list" where
  "detect_slow_consumers lags m =
     map fst (filter (\<lambda>(cid, lag). lag \<ge> slow_consumer_threshold (bm_config m)) lags)"

definition remove_producer :: "string \<Rightarrow> backpressure_manager \<Rightarrow> backpressure_manager" where
  "remove_producer pid m = m\<lparr>bm_limiters := dict_del pid (bm_limiters m)\<rparr>"

subsection \<open>Snapshots\<close>

text \<open>Taking a snapshot refills the bucket; the tokens are rounded.\<close>

record limiter_info =
  li_rate :: real
  li_burst :: int
  li_available_tokens :: real
  li_total_allowed :: int
  li_total_rejected :: int

definition limiter_snapshot :: "real \<Rightarrow> rate_limiter \<Rightarrow> rate_limiter \<times> limiter_info" where
  "limiter_snapshot now l0 =
     (let l = refill now l0
      in (l, \<lparr>li_rate = rl_rate l, li_burst = rl_burst l, li_available_tokens = py_round (rl_tokens l) 2,
              li_total_allowed = rl_allowed l, li_total_rejected = rl_rejected l\<rparr>))"

record backpressure_info =
  bpi_config :: backpressure_config
  bpi_producer_limiters :: "(string, limiter_info) dict"
  bpi_topic_depths :: "(string, int) dict"
  bpi_total_throttled :: int
  bpi_total_rejected :: int

definition backpressure_snapshot ::
    "(string \<Rightarrow> real) \<Rightarrow> backpressure_manager \<Rightarrow> backpressure_manager \<times> backpressure_info" where
  "backpressure_snapshot clock m =
     (m\<lparr>bm_limiters := map (\<lambda>(pid, l). (pid, fst (limiter_snapshot (clock pid) l))) (bm_limiters m)\<rparr>,
      \<lparr>bpi_config = bm_config m,
       bpi_producer_limiters = map (\<lambda>(pid, l). (pid, snd (limiter_snapshot (clock pid) l))) (bm_limiters m),
       bpi_topic_depths = bm_depths m, bpi_total_throttled = bm_throttled m, bpi_total_rejected = bm_rejected m\<rparr>)"

subsection \<open>The rate is kept\<close>

text \<open>A run: requests with the reading of the clock and the tokens they ask for; what was granted.\<close>

fun granted :: "(real \<times> int) list \<Rightarrow> rate_limiter \<Rightarrow> rate_limiter \<times> int" where
  "granted [] l = (l, 0)"
| "granted ((now, k) # reqs) l =
     (let (l', ok) = acquire now k l; (l'', n) = granted reqs l'
      in (l'', (if ok then k else 0) + n))"

lemma acquire_fields [simp]:
  "rl_rate (fst (acquire now k l)) = rl_rate l" "rl_burst (fst (acquire now k l)) = rl_burst l"
  "rl_last_refill (fst (acquire now k l)) = now"
  by (simp_all add: acquire_def refill_def Let_def)

definition limiter_ok :: "rate_limiter \<Rightarrow> bool" where
  "limiter_ok l \<longleftrightarrow> 0 \<le> rl_rate l \<and> 0 \<le> rl_tokens l \<and> rl_tokens l \<le> of_int (rl_burst l)"

lemma acquire_budget:
  assumes "acquire now k l = (l', ok)" and "0 \<le> k" and "limiter_ok l" and "rl_last_refill l \<le> now"
  shows "(if ok then of_int k else 0) + rl_tokens l' \<le> rl_tokens l + (now - rl_last_refill l) * rl_rate l"
    and "limiter_ok l'"
proof -
  have "0 \<le> (now - rl_last_refill l) * rl_rate l" using assms(3,4) by (simp add: limiter_ok_def)
  with assms show "(if ok then of_int k else 0) + rl_tokens l' \<le> rl_tokens l + (now - rl_last_refill l) * rl_rate l"
    and "limiter_ok l'"
    by (auto simp: acquire_def refill_def Let_def limiter_ok_def split: if_splits)
qed

lemma granted_budget:
  assumes "limiter_ok l" and "sorted (rl_last_refill l # map fst reqs)" and "\<forall>(t, k) \<in> set reqs. 0 \<le> k"
    and "granted reqs l = (l', n)"
  shows "of_int n + rl_tokens l' \<le> rl_tokens l + (rl_last_refill l' - rl_last_refill l) * rl_rate l
    \<and> limiter_ok l' \<and> rl_rate l' = rl_rate l \<and> rl_burst l' = rl_burst l
    \<and> rl_last_refill l' = last (rl_last_refill l # map fst reqs)"
  using assms
proof (induction reqs arbitrary: l l' n)
  case Nil
  then show ?case by simp
next
  case (Cons a reqs)
  obtain now k where a: "a = (now, k)" by (cases a)
  obtain l1 ok where one: "acquire now k l = (l1, ok)" by (cases "acquire now k l")
  obtain l2 rest where two: "granted reqs l1 = (l2, rest)" by (cases "granted reqs l1")
  have f: "rl_rate l1 = rl_rate l" "rl_last_refill l1 = now" "rl_burst l1 = rl_burst l"
    using acquire_fields [of now k l] one by simp_all
  have n: "n = (if ok then k else 0) + rest" "l' = l2" using Cons.prems(4) by (simp_all add: a one two)
  have "0 \<le> k" "rl_last_refill l \<le> now" using Cons.prems(2,3) by (simp_all add: a)
  note b = acquire_budget [OF one this(1) Cons.prems(1) this(2)]
  have IH: "of_int rest + rl_tokens l2 \<le> rl_tokens l1 + (rl_last_refill l2 - rl_last_refill l1) * rl_rate l1
    \<and> limiter_ok l2 \<and> rl_rate l2 = rl_rate l1 \<and> rl_burst l2 = rl_burst l1
    \<and> rl_last_refill l2 = last (rl_last_refill l1 # map fst reqs)"
    by (rule Cons.IH [OF b(2) _ _ two]) (use Cons.prems f in \<open>auto simp: a\<close>)
  with b(1) f show ?case by (auto simp: n a algebra_simps split: if_splits)
qed

text \<open>C36. Whatever a new rate limiter is asked, over any time (with a clock that does not run
  backwards), it grants at most its burst plus the rate times the time passed.\<close>

theorem rate_is_kept:
  assumes "granted reqs (limiter_new rate burst t0) = (l', n)" and "0 \<le> rate"
    and "sorted (t0 # map fst reqs)" and "\<forall>(t, k) \<in> set reqs. 0 \<le> k"
  shows "of_int n \<le> of_int (rl_burst l') + (last (t0 # map fst reqs) - t0) * rate
    \<and> rl_burst l' = (if burst > 0 then burst else \<lfloor>rate\<rfloor>)"
proof -
  let ?l = "limiter_new rate burst t0"
  have f: "rl_last_refill ?l = t0" "rl_rate ?l = rate" "rl_tokens ?l = of_int (rl_burst ?l)"
    "rl_burst ?l = (if burst > 0 then burst else \<lfloor>rate\<rfloor>)"
    using assms(2) by (simp_all add: limiter_new_def Let_def py_int_def)
  have "limiter_ok ?l" using assms(2) f by (simp add: limiter_ok_def)
  moreover have "sorted (rl_last_refill ?l # map fst reqs)" unfolding f(1) by (rule assms(3))
  ultimately have "of_int n + rl_tokens l' \<le> rl_tokens ?l + (rl_last_refill l' - rl_last_refill ?l) * rl_rate ?l
    \<and> limiter_ok l' \<and> rl_rate l' = rl_rate ?l \<and> rl_burst l' = rl_burst ?l
    \<and> rl_last_refill l' = last (rl_last_refill ?l # map fst reqs)"
    using assms(1,4) by (intro granted_budget)
  then show ?thesis unfolding f by (auto simp: limiter_ok_def f)
qed

theorem rate_is_kept_witness:
  "\<exists>l'. granted [(0, 1), (0, 1), (0, 1), (1, 1)] (limiter_new 1 2 0) = (l', 3)
     \<and> (3::real) \<le> of_int (rl_burst l') + 1"
proof -
  obtain l' n where g: "granted [(0, 1), (0, 1), (0, 1), (1, 1)] (limiter_new 1 2 0) = (l', n)"
    by (metis surj_pair)
  have "n = 3" using g by (simp add: acquire_def refill_def Let_def limiter_new_def)
  with rate_is_kept [OF g] g show ?thesis by auto
qed

subsection \<open>Waiting ends\<close>

lemma acquire_too_much:
  assumes "limiter_ok l" and "rl_last_refill l \<le> now" and "rl_burst l < k"
  shows "snd (acquire now k l) = False"
  using assms by (auto simp: acquire_def refill_def Let_def limiter_ok_def)

lemma acquire_sleep [simp]: "sleep_time k (fst (acquire now j l)) = sleep_time k l"
  by (simp add: sleep_time_def)

lemma sleep_positive: "0 < k \<Longrightarrow> 0 < sleep_time k l"
  by (simp add: sleep_time_def)

lemma wait_loop_ends:
  assumes "0 < k" and "\<And>i. clock i + sleep_time k l \<le> clock (i + 2)"
    and "deadline - clock i \<le> real m * sleep_time k l"
  shows "\<exists>ok. snd (wait_loop (Suc m) clock i deadline k l) = Some (Inr ok)"
  using assms(2,3)
proof (induction m arbitrary: i l)
  case 0
  then show ?case by (intro exI [of _ False]) simp
next
  case (Suc m)
  obtain l' ok where one: "acquire (clock (i + 1)) k l = (l', ok)" by (cases "acquire (clock (i + 1)) k l")
  have st: "sleep_time k l' = sleep_time k l"
    using acquire_sleep [of k "clock (i + 1)" k l] unfolding one by simp
  show ?case
  proof (cases "clock i < deadline \<and> \<not> ok")
    case True
    have "deadline - clock (i + 2) \<le> real m * sleep_time k l'"
      using Suc.prems(1) [of i] Suc.prems(2) by (simp add: algebra_simps st)
    then have "\<exists>ok. snd (wait_loop (Suc m) clock (i + 2) deadline k l') = Some (Inr ok)"
      using Suc.prems(1) by (intro Suc.IH) (simp_all add: st)
    moreover have "\<not> sleep_time k l' < 0" using sleep_positive [OF assms(1), of l'] by simp
    ultimately show ?thesis using one True by simp
  next
    case False
    then show ?thesis using one by auto
  qed
qed

lemma wait_loop_too_much:
  assumes "0 < k" and "\<And>i. clock i \<le> clock (i + 1)"
    and "limiter_ok l" and "rl_burst l < k" and "rl_last_refill l \<le> clock i"
  shows "snd (wait_loop fuel clock i deadline k l) \<noteq> Some (Inr True)"
  using assms(3-5)
proof (induction fuel arbitrary: i l)
  case 0
  then show ?case by simp
next
  case (Suc fuel)
  obtain l' ok where one: "acquire (clock (i + 1)) k l = (l', ok)" by (cases "acquire (clock (i + 1)) k l")
  have le: "rl_last_refill l \<le> clock (i + 1)" using Suc.prems(3) assms(2) [of i] by simp
  have "ok = False" using acquire_too_much [OF Suc.prems(1) le Suc.prems(2)] one by simp
  moreover have "limiter_ok l'" using acquire_budget(2) [OF one _ Suc.prems(1) le] assms(1) by simp
  moreover have "rl_burst l' < k" "rl_last_refill l' \<le> clock (i + 2)"
    using acquire_fields(2) [of "clock (i + 1)" k l] acquire_fields(3) [of "clock (i + 1)" k l]
      one Suc.prems(2) assms(2) [of "i + 1"] by (simp_all del: acquire_fields)
  ultimately show ?case using Suc.IH [of l' "i + 2"] one by simp
qed

text \<open>The limiter after \<open>n\<close> attempts of a wait whose next reading of the clock is number \<open>i\<close>.\<close>

fun tries :: "(nat \<Rightarrow> real) \<Rightarrow> nat \<Rightarrow> int \<Rightarrow> nat \<Rightarrow> rate_limiter \<Rightarrow> rate_limiter" where
  "tries clock i k 0 l = l"
| "tries clock i k (Suc n) l = tries clock (i + 2) k n (fst (acquire (clock (i + 1)) k l))"

text \<open>A wait that returned made \<open>n\<close> attempts in vain before the deadline, then one with success before it or
  none after it.\<close>

lemma wait_loop_exact:
  "wait_loop fuel clock i d k l = (l', Some (Inr ok)) \<Longrightarrow>
    \<exists>n. (\<forall>j < n. clock (i + 2 * j) < d \<and> \<not> snd (acquire (clock (i + 2 * j + 1)) k (tries clock i k j l)))
      \<and> (if ok then clock (i + 2 * n) < d \<and> acquire (clock (i + 2 * n + 1)) k (tries clock i k n l) = (l', True)
         else d \<le> clock (i + 2 * n) \<and> l' = tries clock i k n l)"
proof (induction fuel arbitrary: i l)
  case (Suc fuel)
  obtain l1 ok1 where one: "acquire (clock (i + 1)) k l = (l1, ok1)" by (cases "acquire (clock (i + 1)) k l")
  show ?case
  proof (cases "clock i < d \<and> \<not> ok1")
    case True
    then have "wait_loop fuel clock (i + 2) d k l1 = (l', Some (Inr ok))"
      using Suc.prems one by (simp split: if_split_asm)
    from Suc.IH [OF this] obtain n where
      n: "\<forall>j < n. clock (i + 2 + 2 * j) < d \<and> \<not> snd (acquire (clock (i + 2 + 2 * j + 1)) k (tries clock (i + 2) k j l1))"
      and last_try: "if ok then clock (i + 2 + 2 * n) < d
            \<and> acquire (clock (i + 2 + 2 * n + 1)) k (tries clock (i + 2) k n l1) = (l', True)
         else d \<le> clock (i + 2 + 2 * n) \<and> l' = tries clock (i + 2) k n l1"
      by blast
    have shift: "i + 2 * Suc j = i + 2 + 2 * j" for j by simp
    have "clock (i + 2 * j) < d \<and> \<not> snd (acquire (clock (i + 2 * j + 1)) k (tries clock i k j l))" if "j < Suc n" for j
    proof (cases j)
      case 0
      then show ?thesis using True one by simp
    next
      case (Suc j')
      with that n one show ?thesis by (simp only: shift tries.simps fst_conv) simp
    qed
    then have "\<forall>j < Suc n. clock (i + 2 * j) < d \<and> \<not> snd (acquire (clock (i + 2 * j + 1)) k (tries clock i k j l))"
      by blast
    with last_try one show ?thesis by (intro exI [of _ "Suc n"]) (simp only: shift tries.simps fst_conv simp_thms)
  next
    case False
    with Suc.prems one show ?thesis by (intro exI [of _ 0]) (auto split: if_split_asm)
  qed
qed simp

text \<open>C37. Waiting for tokens returns, with a result that says what happened: when each sleep lasts as
  long as it asks for, fuel that covers the timeout in sleeps is enough and no exception is raised. With
  \<open>clock 0 + timeout\<close> for the deadline, the wait made some number of attempts in vain, each begun before
  the deadline, and then either an attempt begun before the deadline got the tokens and the answer is
  true, or the clock has reached the deadline and the answer is false: it neither gives up earlier nor
  tries later. A request above the burst is refused at the deadline rather than waiting for ever.\<close>

theorem wait_returns:
  assumes "0 < k" and "\<forall>i. clock i \<le> clock (i + 1)" and "\<forall>i. clock i + sleep_time k l \<le> clock (i + 2)"
    and "timeout \<le> real m * sleep_time k l" and "limiter_ok l" and "rl_last_refill l \<le> clock 0"
  shows "\<exists>l' ok n. wait_for (Suc m) clock k timeout l = (l', Some (Inr ok))
    \<and> (\<forall>j < n. clock (2 * j + 1) < clock 0 + timeout \<and> \<not> snd (acquire (clock (2 * j + 2)) k (tries clock 1 k j l)))
    \<and> (if ok then clock (2 * n + 1) < clock 0 + timeout \<and> acquire (clock (2 * n + 2)) k (tries clock 1 k n l) = (l', True)
       else clock 0 + timeout \<le> clock (2 * n + 1) \<and> l' = tries clock 1 k n l)
    \<and> (rl_burst l < k \<longrightarrow> \<not> ok)"
proof -
  have "clock 0 \<le> clock 1" using assms(2) [THEN spec, of 0] by simp
  then have "clock 0 + timeout - clock 1 \<le> real m * sleep_time k l" "rl_last_refill l \<le> clock 1"
    using assms(4,6) by simp_all
  then obtain ok where ok: "snd (wait_loop (Suc m) clock 1 (clock 0 + timeout) k l) = Some (Inr ok)"
    using wait_loop_ends [of k clock l "clock 0 + timeout" 1 m] assms(1,3) by blast
  then obtain l' where w: "wait_loop (Suc m) clock 1 (clock 0 + timeout) k l = (l', Some (Inr ok))"
    by (metis prod.collapse)
  have "\<not> ok" if "rl_burst l < k"
  proof -
    have "snd (wait_loop (Suc m) clock 1 (clock 0 + timeout) k l) \<noteq> Some (Inr True)"
      by (rule wait_loop_too_much) (use assms(1,2,5) that \<open>rl_last_refill l \<le> clock 1\<close> in simp_all)
    then show ?thesis using ok by (cases ok) simp_all
  qed
  moreover obtain n where
    "\<forall>j < n. clock (1 + 2 * j) < clock 0 + timeout \<and> \<not> snd (acquire (clock (1 + 2 * j + 1)) k (tries clock 1 k j l))"
    "if ok then clock (1 + 2 * n) < clock 0 + timeout \<and> acquire (clock (1 + 2 * n + 1)) k (tries clock 1 k n l) = (l', True)
     else clock 0 + timeout \<le> clock (1 + 2 * n) \<and> l' = tries clock 1 k n l"
    using wait_loop_exact [OF w] by blast
  moreover have "1 + 2 * j = 2 * j + 1" "1 + 2 * j + 1 = 2 * j + 2" for j :: nat by simp_all
  ultimately show ?thesis
    unfolding wait_for_def w
    by (intro exI [of _ l'] exI [of _ ok] exI [of _ n] conjI impI refl) (simp_all only: simp_thms)
qed

text \<open>An empty bucket of rate 1 and a timeout of 0.35: attempts at 0.2 and 0.4, and an end at 0.5.\<close>

theorem wait_returns_witness:
  "\<exists>l' n. wait_for 5 (\<lambda>i. real i / 10) 1 (35 / 100) ((limiter_new 1 1 0)\<lparr>rl_tokens := 0\<rparr>) = (l', Some (Inr False))
    \<and> rl_rejected l' = 2 \<and> 35 / 100 \<le> real (2 * n + 1) / 10 \<and> (\<forall>j < n. real (2 * j + 1) / 10 < 35 / 100)"
proof -
  let ?l = "(limiter_new 1 1 0)\<lparr>rl_tokens := 0\<rparr>" and ?clock = "\<lambda>i. real i / 10"
  have sleep: "sleep_time 1 ?l = 1 / 10" by (simp add: sleep_time_def limiter_new_def)
  have "limiter_ok ?l" by (simp add: limiter_ok_def limiter_new_def)
  then obtain l' ok n where w: "wait_for (Suc 4) ?clock 1 (35 / 100) ?l = (l', Some (Inr ok))"
    and tried: "\<forall>j < n. ?clock (2 * j + 1) < ?clock 0 + 35 / 100"
    and over: "if ok then ?clock (2 * n + 1) < ?clock 0 + 35 / 100
        \<and> acquire (?clock (2 * n + 2)) 1 (tries ?clock 1 1 n ?l) = (l', True)
      else ?clock 0 + 35 / 100 \<le> ?clock (2 * n + 1) \<and> l' = tries ?clock 1 1 n ?l"
    using wait_returns [of 1 ?clock ?l "35 / 100" 4] unfolding sleep by (auto simp: limiter_new_def)
  have five: "5 = Suc (Suc (Suc (Suc (Suc 0))))" by simp
  have "\<not> ok \<and> rl_rejected l' = 2"
    using w by (simp add: wait_for_def numeral_eq_Suc acquire_def refill_def limiter_new_def sleep_time_def Let_def)
      auto
  with w tried over show ?thesis by (intro exI [of _ l'] exI [of _ n]) (simp add: numeral_eq_Suc)
qed

end
