(* ===== verification/Retry.thy ===== *)
theory Retry
  imports Message
begin

section \<open>Retry policies\<close>

text \<open>
  \<^verbatim>\<open>retry.py\<close>: whether to retry, and after which delay. Delays are real numbers; the random factor
  of each attempt is an argument.
\<close>

datatype retry_strategy = FIXED | EXPONENTIAL | EXPONENTIAL_JITTER

record retry_policy =
  rp_max_attempts :: int
  rp_initial_delay :: real
  rp_max_delay :: real
  rp_multiplier :: real
  rp_strategy :: retry_strategy
  rp_jitter :: real

definition default_retry_policy :: retry_policy where
  "default_retry_policy =
     \<lparr>rp_max_attempts = 3, rp_initial_delay = 1, rp_max_delay = 60, rp_multiplier = 2,
      rp_strategy = EXPONENTIAL_JITTER, rp_jitter = 1 / 2\<rparr>"

text \<open>What the reason texts say.\<close>

datatype retry_reason = MaxAttemptsExceeded int | RetryAfter int int real

record retry_result =
  should_retry_again :: bool
  delay_seconds :: real
  rr_attempt :: int
  rr_max_attempts :: int
  rr_reason :: retry_reason

text \<open>\<open>x ** n\<close>\<close>

definition py_pow :: "real \<Rightarrow> int \<Rightarrow> real result" where
  "py_pow x n = (if x = 0 \<and> n < 0 then Inl ZeroDivisionError else Inr (x powi n))"

text \<open>\<open>u\<close> is what \<open>random.uniform(-jitter_range, jitter_range)\<close> returns.\<close>

definition calculate_delay :: "retry_policy \<Rightarrow> real \<Rightarrow> int \<Rightarrow> real result" where
  "calculate_delay p u attempt =
     (case rp_strategy p of
        FIXED \<Rightarrow> Inr (min (rp_initial_delay p) (rp_max_delay p))
      | EXPONENTIAL \<Rightarrow>
          bind_r (py_pow (rp_multiplier p) (attempt - 1)) (\<lambda>f.
          Inr (min (rp_initial_delay p * f) (rp_max_delay p)))
      | EXPONENTIAL_JITTER \<Rightarrow>
          bind_r (py_pow (rp_multiplier p) (attempt - 1)) (\<lambda>f.
          (let base_delay = min (rp_initial_delay p * f) (rp_max_delay p)
           in Inr (max 0 (base_delay * (1 + u))))))"

definition should_retry :: "retry_policy \<Rightarrow> real \<Rightarrow> int \<Rightarrow> retry_result result" where
  "should_retry p u attempt =
     (if attempt \<ge> rp_max_attempts p
      then Inr \<lparr>should_retry_again = False, delay_seconds = 0, rr_attempt = attempt,
                rr_max_attempts = rp_max_attempts p, rr_reason = MaxAttemptsExceeded (rp_max_attempts p)\<rparr>
      else bind_r (calculate_delay p u attempt) (\<lambda>delay.
           Inr \<lparr>should_retry_again = True, delay_seconds = delay, rr_attempt = attempt,
                rr_max_attempts = rp_max_attempts p,
                rr_reason = RetryAfter attempt (rp_max_attempts p) delay\<rparr>))"

text \<open>\<open>us\<close> gives the random number of each attempt.\<close>

fun collect_delays :: "retry_policy \<Rightarrow> (int \<Rightarrow> real) \<Rightarrow> int list \<Rightarrow> real list result" where
  "collect_delays p us [] = Inr []"
| "collect_delays p us (attempt # rest) =
     bind_r (should_retry p (us attempt) attempt) (\<lambda>result.
     bind_r (collect_delays p us rest) (\<lambda>delays.
     Inr (if should_retry_again result then delay_seconds result # delays else delays)))"

definition delays_for_all_attempts :: "retry_policy \<Rightarrow> (int \<Rightarrow> real) \<Rightarrow> real list result" where
  "delays_for_all_attempts p us = collect_delays p us [1..rp_max_attempts p]"

fun sum_max_delays :: "retry_policy \<Rightarrow> int list \<Rightarrow> real \<Rightarrow> real result" where
  "sum_max_delays p [] acc = Inr acc"
| "sum_max_delays p (attempt # rest) acc =
     (case rp_strategy p of
        FIXED \<Rightarrow> sum_max_delays p rest (acc + min (rp_initial_delay p) (rp_max_delay p))
      | _ \<Rightarrow> bind_r (py_pow (rp_multiplier p) (attempt - 1)) (\<lambda>f.
             sum_max_delays p rest (acc + min (rp_initial_delay p * f) (rp_max_delay p))))"

definition total_max_delay :: "retry_policy \<Rightarrow> real result" where
  "total_max_delay p = sum_max_delays p [1..rp_max_attempts p - 1] 0"

definition strategy_value :: "retry_strategy \<Rightarrow> string" where
  "strategy_value s = (case s of FIXED \<Rightarrow> ''fixed'' | EXPONENTIAL \<Rightarrow> ''exponential'' | EXPONENTIAL_JITTER \<Rightarrow> ''exponential_jitter'')"

definition retry_to_dict :: "retry_policy \<Rightarrow> (string, json) dict result" where
  "retry_to_dict p =
     bind_r (total_max_delay p) (\<lambda>delay.
       Inr [(''max_attempts'', JInt (rp_max_attempts p)), (''initial_delay'', JFloat (rp_initial_delay p)),
            (''max_delay'', JFloat (rp_max_delay p)), (''backoff_multiplier'', JFloat (rp_multiplier p)),
            (''strategy'', JStr (strategy_value (rp_strategy p))), (''jitter_range'', JFloat (rp_jitter p)),
            (''total_max_delay'', JFloat delay)])"

definition no_retry :: retry_policy where
  "no_retry = default_retry_policy\<lparr>rp_max_attempts := 1\<rparr>"

definition aggressive :: retry_policy where
  "aggressive =
     \<lparr>rp_max_attempts = 10, rp_initial_delay = 1 / 10, rp_max_delay = 5, rp_multiplier = 3 / 2,
      rp_strategy = EXPONENTIAL_JITTER, rp_jitter = 1 / 2\<rparr>"

definition conservative :: retry_policy where
  "conservative =
     \<lparr>rp_max_attempts = 3, rp_initial_delay = 5, rp_max_delay = 120, rp_multiplier = 3,
      rp_strategy = EXPONENTIAL, rp_jitter = 1 / 2\<rparr>"

subsection \<open>Bounds\<close>

text \<open>The delay before jitter.\<close>

definition base_delay :: "retry_policy \<Rightarrow> int \<Rightarrow> real" where
  "base_delay p attempt =
     (if rp_strategy p = FIXED then min (rp_initial_delay p) (rp_max_delay p)
      else min (rp_initial_delay p * rp_multiplier p powi (attempt - 1)) (rp_max_delay p))"

definition sane :: "retry_policy \<Rightarrow> bool" where
  "sane p \<longleftrightarrow> 0 \<le> rp_initial_delay p \<and> 0 \<le> rp_max_delay p \<and> 0 \<le> rp_multiplier p
     \<and> 0 \<le> rp_jitter p \<and> rp_jitter p \<le> 1"

lemma base_delay_bounds: "sane p \<Longrightarrow> 0 \<le> base_delay p k \<and> base_delay p k \<le> rp_max_delay p"
  by (simp add: base_delay_def sane_def)

lemma calculate_delay_ok:
  assumes "1 \<le> k"
  shows "calculate_delay p u k
    = Inr (if rp_strategy p = EXPONENTIAL_JITTER then max 0 (base_delay p k * (1 + u)) else base_delay p k)"
  using assms
  by (cases "rp_strategy p") (simp_all add: calculate_delay_def py_pow_def base_delay_def)

lemma collect_delays_ok:
  assumes "\<forall>k \<in> set ks. 1 \<le> k"
  shows "collect_delays p us ks = Inr (map (\<lambda>k. if rp_strategy p = EXPONENTIAL_JITTER
      then max 0 (base_delay p k * (1 + us k)) else base_delay p k) (filter (\<lambda>k. k < rp_max_attempts p) ks))"
  using assms by (induction ks) (auto simp: should_retry_def calculate_delay_ok)

lemma sum_max_delays_ok:
  assumes "\<forall>k \<in> set ks. 1 \<le> k"
  shows "sum_max_delays p ks acc = Inr (acc + sum_list (map (base_delay p) ks))"
  using assms
  by (induction ks arbitrary: acc) (auto simp: py_pow_def base_delay_def split: retry_strategy.split)

lemma attempts_below: "filter (\<lambda>k. k < n) [1..n] = [1..n - 1]"
proof (cases "1 \<le> n")
  case True
  then have "[1..n] = [1..n - 1] @ [n]" using upto_rec2 [of 1 n] by simp
  then show ?thesis by (simp add: filter_id_conv)
next
  case False
  then show ?thesis by simp
qed

lemma jittered_le:
  assumes "0 \<le> b" "-j \<le> u" "u \<le> j" "j \<le> (1::real)"
  shows "max 0 (b * (1 + u)) \<le> (1 + j) * b"
proof -
  have "b * (1 + u) \<le> b * (1 + j)" using assms by (intro mult_left_mono) simp_all
  moreover have "0 \<le> (1 + j) * b" using assms by simp
  ultimately show ?thesis by (simp add: mult.commute)
qed

text \<open>The delays of a sane policy: there is one for each attempt but the last, every one lies
  between 0 and the maximum delay, stretched by the jitter at most, and together they are exactly
  the announced total without jitter, at most the total stretched by the jitter with it.\<close>

theorem retry_delays_bounded:
  assumes "sane p" and "\<forall>k. - rp_jitter p \<le> us k \<and> us k \<le> rp_jitter p"
  shows "\<exists>delays acc. delays_for_all_attempts p us = Inr delays \<and> total_max_delay p = Inr acc
    \<and> length delays = nat (rp_max_attempts p - 1)
    \<and> list_all (\<lambda>d. 0 \<le> d \<and> d \<le> (1 + rp_jitter p) * rp_max_delay p) delays
    \<and> (if rp_strategy p = EXPONENTIAL_JITTER then sum_list delays \<le> (1 + rp_jitter p) * acc
       else sum_list delays = acc)"
proof -
  let ?ks = "[1..rp_max_attempts p - 1]"
  define f where "f k = (if rp_strategy p = EXPONENTIAL_JITTER
      then max 0 (base_delay p k * (1 + us k)) else base_delay p k)" for k
  have d: "delays_for_all_attempts p us = Inr (map f ?ks)"
    by (simp add: delays_for_all_attempts_def collect_delays_ok attempts_below f_def [abs_def])
  have t: "total_max_delay p = Inr (sum_list (map (base_delay p) ?ks))"
    by (simp add: total_max_delay_def sum_max_delays_ok)
  have j: "0 \<le> rp_jitter p" "rp_jitter p \<le> 1" using assms(1) by (simp_all add: sane_def)
  have le: "f k \<le> (1 + rp_jitter p) * base_delay p k" "0 \<le> f k" for k
  proof -
    have b: "0 \<le> base_delay p k" using base_delay_bounds [OF assms(1)] by simp
    then have "base_delay p k \<le> (1 + rp_jitter p) * base_delay p k" using j by (simp add: algebra_simps)
    then show "f k \<le> (1 + rp_jitter p) * base_delay p k"
      using jittered_le [OF b, of "rp_jitter p" "us k"] assms(2) j by (simp only: f_def split: if_split) simp
    show "0 \<le> f k" using b by (simp add: f_def)
  qed
  have max: "f k \<le> (1 + rp_jitter p) * rp_max_delay p" for k
  proof -
    have "(1 + rp_jitter p) * base_delay p k \<le> (1 + rp_jitter p) * rp_max_delay p"
      using base_delay_bounds [OF assms(1)] j by (intro mult_left_mono) simp_all
    with le(1) [of k] show ?thesis by linarith
  qed
  have "sum_list (map f ?ks) \<le> sum_list (map (\<lambda>k. (1 + rp_jitter p) * base_delay p k) ?ks)"
    using le(1) by (rule sum_list_mono)
  then have "sum_list (map f ?ks) \<le> (1 + rp_jitter p) * sum_list (map (base_delay p) ?ks)"
    by (simp add: sum_list_const_mult)
  moreover have "rp_strategy p \<noteq> EXPONENTIAL_JITTER \<Longrightarrow> sum_list (map f ?ks) = sum_list (map (base_delay p) ?ks)"
    by (intro arg_cong [of _ _ sum_list] map_cong refl) (simp add: f_def)
  ultimately show ?thesis
    unfolding d t using le(2) max by (intro exI conjI refl) (auto simp: list_all_iff)
qed

theorem retry_delays_bounded_witness:
  "\<exists>acc. total_max_delay aggressive = Inr acc \<and> delays_for_all_attempts aggressive (\<lambda>_. 0) \<noteq> Inl ValueError"
  using retry_delays_bounded [of aggressive "\<lambda>_. 0"] by (auto simp: sane_def aggressive_def)

text \<open>The announced worst case is not one: with the jitter at its upper end the delays add up to
  more than \<open>total_max_delay\<close>, and a single delay exceeds the policy's maximum.\<close>

theorem jitter_exceeds_maximum:
  "total_max_delay (default_retry_policy\<lparr>rp_max_delay := 1\<rparr>) = Inr 2
   \<and> delays_for_all_attempts (default_retry_policy\<lparr>rp_max_delay := 1\<rparr>) (\<lambda>_. 1 / 2) = Inr [3 / 2, 3 / 2]"
  by (simp add: total_max_delay_def delays_for_all_attempts_def default_retry_policy_def upto_rec1
      py_pow_def should_retry_def calculate_delay_def)

end
