(* ===== verification/Serializer.thy ===== *)
theory Serializer
  imports Big_Endian
begin

section \<open>The binary serializer\<close>

text \<open>
  \<^verbatim>\<open>serializer.py\<close>, \<open>BinarySerializer\<close>: the tagged format and its two recursive functions. The depth
  argument is the number of nested calls Python still allows: \<open>RecursionError\<close> when it is used up.
  A float is its 64 bits. Dictionary keys are compared the way Python compares keys, numbers of
  different types by value.
\<close>

datatype py_value =
    PNone
  | PBool bool
  | PInt int
  | PFloat "64 word"
  | PStr string
  | PBytes "byte list"
  | PList "py_value list"
  | PTuple "py_value list"
  | PDict "(py_value \<times> py_value) list"
  | POther

definition TAG_NONE :: nat where "TAG_NONE = 0"
definition TAG_BOOL :: nat where "TAG_BOOL = 1"
definition TAG_INT :: nat where "TAG_INT = 2"
definition TAG_FLOAT :: nat where "TAG_FLOAT = 3"
definition TAG_STR :: nat where "TAG_STR = 4"
definition TAG_BYTES :: nat where "TAG_BYTES = 5"
definition TAG_LIST :: nat where "TAG_LIST = 6"
definition TAG_DICT :: nat where "TAG_DICT = 7"

lemmas tag_defs = TAG_NONE_def TAG_BOOL_def TAG_INT_def TAG_FLOAT_def TAG_STR_def TAG_BYTES_def TAG_LIST_def TAG_DICT_def

subsection \<open>Packing\<close>

definition tag_byte :: "nat \<Rightarrow> byte list" where
  "tag_byte t = [word_of_nat t]"

text \<open>\<open>struct.pack("!BI", tag, n)\<close>\<close>

definition pack_sized :: "nat \<Rightarrow> nat \<Rightarrow> byte list result" where
  "pack_sized t n = bind_r (pack_unsigned 4 (int n)) (\<lambda>bs. Inr (tag_byte t @ bs))"

text \<open>\<open>struct.pack("!q", x)\<close> and the reverse\<close>

definition pack_i64 :: "int \<Rightarrow> byte list result" where
  "pack_i64 x = (if - (2 ^ 63) \<le> x \<and> x < 2 ^ 63
     then Inr (be_bytes 8 (unat (word_of_int x :: 64 word))) else Inl StructError)"

definition unpack_i64 :: "byte list \<Rightarrow> int" where
  "unpack_i64 bs = sint (word_of_nat (be_nat bs) :: 64 word)"

function (sequential) pack_value :: "nat \<Rightarrow> py_value \<Rightarrow> byte list result"
and pack_items :: "nat \<Rightarrow> py_value list \<Rightarrow> byte list result"
and pack_entries :: "nat \<Rightarrow> (py_value \<times> py_value) list \<Rightarrow> byte list result" where
  "pack_value 0 v = Inl RecursionError"
| "pack_value (Suc d) v =
     (case v of
        PNone \<Rightarrow> Inr (tag_byte TAG_NONE)
      | PBool b \<Rightarrow> Inr (tag_byte TAG_BOOL @ [if b then 1 else 0])
      | PInt x \<Rightarrow> bind_r (pack_i64 x) (\<lambda>bs. Inr (tag_byte TAG_INT @ bs))
      | PFloat w \<Rightarrow> Inr (tag_byte TAG_FLOAT @ be_bytes 8 (unat w))
      | PStr s \<Rightarrow> (let encoded = utf8_encode s in
                 bind_r (pack_sized TAG_STR (length encoded)) (\<lambda>h. Inr (h @ encoded)))
      | PBytes b \<Rightarrow> bind_r (pack_sized TAG_BYTES (length b)) (\<lambda>h. Inr (h @ b))
      | PList vs \<Rightarrow> bind_r (pack_sized TAG_LIST (length vs)) (\<lambda>h.
                   bind_r (pack_items d vs) (\<lambda>parts. Inr (h @ parts)))
      | PTuple vs \<Rightarrow> bind_r (pack_sized TAG_LIST (length vs)) (\<lambda>h.
                    bind_r (pack_items d vs) (\<lambda>parts. Inr (h @ parts)))
      | PDict es \<Rightarrow> bind_r (pack_sized TAG_DICT (length es)) (\<lambda>h.
                   bind_r (pack_entries d es) (\<lambda>parts. Inr (h @ parts)))
      | POther \<Rightarrow> Inl TypeError)"
| "pack_items d [] = Inr []"
| "pack_items d (v # vs) =
     bind_r (pack_value d v) (\<lambda>a. bind_r (pack_items d vs) (\<lambda>b. Inr (a @ b)))"
| "pack_entries d [] = Inr []"
| "pack_entries d ((k, v) # es) =
     bind_r (pack_value d k) (\<lambda>a. bind_r (pack_value d v) (\<lambda>b.
     bind_r (pack_entries d es) (\<lambda>c. Inr (a @ b @ c))))"
  by pat_completeness auto

termination
  by (relation "measures [\<lambda>x. case x of Inl (d, _) \<Rightarrow> d | Inr (Inl (d, _)) \<Rightarrow> d | Inr (Inr (d, _)) \<Rightarrow> d,
      \<lambda>x. case x of Inl _ \<Rightarrow> 0 | Inr (Inl (_, vs)) \<Rightarrow> Suc (length vs) | Inr (Inr (_, es)) \<Rightarrow> Suc (length es)]")
    auto

definition serialize :: "nat \<Rightarrow> py_value \<Rightarrow> byte list result" where
  "serialize depth v = pack_value depth v"

subsection \<open>Dictionary keys\<close>

text \<open>The number a double stands for; \<open>None\<close> for infinities and NaN.\<close>

definition f64_value :: "64 word \<Rightarrow> real option" where
  "f64_value w =
     (let e = unat w div 2 ^ 52 mod 2 ^ 11; m = unat w mod 2 ^ 52;
          s = (if unat w div 2 ^ 63 = 1 then - 1 else 1)
      in if e = 2 ^ 11 - 1 then None
         else if e = 0 then Some (s * real m / 2 ^ 1074)
         else Some (s * real (2 ^ 52 + m) * 2 ^ e / 2 ^ 1075))"

definition is_nan :: "64 word \<Rightarrow> bool" where
  "is_nan w \<longleftrightarrow> unat w div 2 ^ 52 mod 2 ^ 11 = 2 ^ 11 - 1 \<and> unat w mod 2 ^ 52 \<noteq> 0"

fun num_value :: "py_value \<Rightarrow> real option" where
  "num_value (PBool b) = Some (if b then 1 else 0)"
| "num_value (PInt x) = Some (of_int x)"
| "num_value (PFloat w) = f64_value w"
| "num_value _ = None"

definition same_key :: "py_value \<Rightarrow> py_value \<Rightarrow> bool" where
  "same_key a b =
     (case (num_value a, num_value b) of
        (Some x, Some y) \<Rightarrow> x = y
      | (None, None) \<Rightarrow> a = b \<and> (case a of PFloat w \<Rightarrow> \<not> is_nan w | _ \<Rightarrow> True)
      | _ \<Rightarrow> False)"

fun hashable :: "py_value \<Rightarrow> bool" where
  "hashable (PList _) = False"
| "hashable (PDict _) = False"
| "hashable (PTuple vs) = list_all hashable vs"
| "hashable _ = True"

text \<open>\<open>result[key] = val\<close>: an equal key keeps its place and its first form.\<close>

fun put_entry :: "py_value \<Rightarrow> py_value \<Rightarrow> (py_value \<times> py_value) list \<Rightarrow> (py_value \<times> py_value) list" where
  "put_entry k v [] = [(k, v)]"
| "put_entry k v ((k', v') # es) = (if same_key k' k then (k', v) # es else (k', v') # put_entry k v es)"

definition set_item ::
    "py_value \<Rightarrow> py_value \<Rightarrow> (py_value \<times> py_value) list \<Rightarrow> (py_value \<times> py_value) list result" where
  "set_item k v es = (if hashable k then Inr (put_entry k v es) else Inl TypeError)"

subsection \<open>Unpacking\<close>

text \<open>\<open>struct.unpack_from\<close> needs all its bytes; a slice takes what there is.\<close>

definition read_field :: "nat \<Rightarrow> byte list \<Rightarrow> nat \<Rightarrow> byte list result" where
  "read_field n data offset =
     (if offset + n \<le> length data then Inr (take n (drop offset data)) else Inl StructError)"

definition slice_from :: "nat \<Rightarrow> byte list \<Rightarrow> nat \<Rightarrow> byte list" where
  "slice_from n data offset = take n (drop offset data)"

function (sequential) unpack_value :: "nat \<Rightarrow> byte list \<Rightarrow> nat \<Rightarrow> (py_value \<times> nat) result"
and unpack_items :: "nat \<Rightarrow> nat \<Rightarrow> byte list \<Rightarrow> nat \<Rightarrow> (py_value list \<times> nat) result"
and unpack_entries :: "nat \<Rightarrow> nat \<Rightarrow> byte list \<Rightarrow> nat \<Rightarrow> (py_value \<times> py_value) list
      \<Rightarrow> ((py_value \<times> py_value) list \<times> nat) result" where
  "unpack_value 0 data offset = Inl RecursionError"
| "unpack_value (Suc d) data offset0 =
     bind_r (read_field 1 data offset0) (\<lambda>t.
     (let tag = be_nat t; offset = offset0 + 1 in
      if tag = TAG_NONE then Inr (PNone, offset)
      else if tag = TAG_BOOL then
        bind_r (read_field 1 data offset) (\<lambda>b. Inr (PBool (be_nat b \<noteq> 0), offset + 1))
      else if tag = TAG_INT then
        bind_r (read_field 8 data offset) (\<lambda>b. Inr (PInt (unpack_i64 b), offset + 8))
      else if tag = TAG_FLOAT then
        bind_r (read_field 8 data offset) (\<lambda>b. Inr (PFloat (word_of_nat (be_nat b)), offset + 8))
      else if tag = TAG_STR then
        bind_r (read_field 4 data offset) (\<lambda>n.
        bind_r (utf8_decode (slice_from (be_nat n) data (offset + 4))) (\<lambda>s.
        Inr (PStr s, offset + 4 + be_nat n)))
      else if tag = TAG_BYTES then
        bind_r (read_field 4 data offset) (\<lambda>n.
        Inr (PBytes (slice_from (be_nat n) data (offset + 4)), offset + 4 + be_nat n))
      else if tag = TAG_LIST then
        bind_r (read_field 4 data offset) (\<lambda>n.
        bind_r (unpack_items d (be_nat n) data (offset + 4)) (\<lambda>(items, stop). Inr (PList items, stop)))
      else if tag = TAG_DICT then
        bind_r (read_field 4 data offset) (\<lambda>n.
        bind_r (unpack_entries d (be_nat n) data (offset + 4) []) (\<lambda>(es, stop). Inr (PDict es, stop)))
      else Inl ValueError))"
| "unpack_items d 0 data offset = Inr ([], offset)"
| "unpack_items d (Suc n) data offset =
     bind_r (unpack_value d data offset) (\<lambda>(v, offset1).
     bind_r (unpack_items d n data offset1) (\<lambda>(vs, stop). Inr (v # vs, stop)))"
| "unpack_entries d 0 data offset result = Inr (result, offset)"
| "unpack_entries d (Suc n) data offset result =
     bind_r (unpack_value d data offset) (\<lambda>(k, offset1).
     bind_r (unpack_value d data offset1) (\<lambda>(v, offset2).
     bind_r (set_item k v result) (\<lambda>result'.
     unpack_entries d n data offset2 result')))"
  by pat_completeness auto

termination
  by (relation "measures [\<lambda>x. case x of Inl (d, _) \<Rightarrow> d | Inr (Inl (d, _)) \<Rightarrow> d | Inr (Inr (d, _)) \<Rightarrow> d,
      \<lambda>x. case x of Inl _ \<Rightarrow> 0 | Inr (Inl (_, n, _)) \<Rightarrow> Suc n | Inr (Inr (_, n, _)) \<Rightarrow> Suc n]")
    auto

definition deserialize :: "nat \<Rightarrow> byte list \<Rightarrow> py_value result" where
  "deserialize depth data = bind_r (unpack_value depth data 0) (\<lambda>(v, _). Inr v)"

subsection \<open>Round trip\<close>

text \<open>A value as it comes back: tuples are read as lists.\<close>

fun as_lists :: "py_value \<Rightarrow> py_value" and lists_items :: "py_value list \<Rightarrow> py_value list"
and lists_entries :: "(py_value \<times> py_value) list \<Rightarrow> (py_value \<times> py_value) list" where
  "as_lists (PList vs) = PList (lists_items vs)"
| "as_lists (PTuple vs) = PList (lists_items vs)"
| "as_lists (PDict es) = PDict (lists_entries es)"
| "as_lists v = v"
| "lists_items [] = []"
| "lists_items (v # vs) = as_lists v # lists_items vs"
| "lists_entries [] = []"
| "lists_entries ((k, v) # es) = (k, as_lists v) # lists_entries es"

text \<open>A key that is no container, a text that is valid UTF-8, and no two equal keys.\<close>

fun scalar :: "py_value \<Rightarrow> bool" where
  "scalar (PList _) = False" | "scalar (PTuple _) = False" | "scalar (PDict _) = False" | "scalar _ = True"

function (sequential) storable :: "py_value \<Rightarrow> bool" and storable_items :: "py_value list \<Rightarrow> bool"
and storable_entries :: "(py_value \<times> py_value) list \<Rightarrow> bool" where
  "storable (PStr s) = utf8_valid (utf8_encode s)"
| "storable (PList vs) = storable_items vs"
| "storable (PTuple vs) = storable_items vs"
| "storable (PDict es) = storable_entries es"
| "storable _ = True"
| "storable_items [] = True"
| "storable_items (v # vs) = (storable v \<and> storable_items vs)"
| "storable_entries [] = True"
| "storable_entries ((k, v) # es) =
     (scalar k \<and> storable k \<and> storable v \<and> storable_entries es \<and> list_all (\<lambda>(k', _). \<not> same_key k k') es)"
  by pat_completeness auto

termination
  by (relation "measure (case_sum size (case_sum (size_list size) (size_list (size_prod size size))))") auto

definition holds_at :: "byte list \<Rightarrow> nat \<Rightarrow> byte list \<Rightarrow> bool" where
  "holds_at data offset bs \<longleftrightarrow> offset + length bs \<le> length data \<and> take (length bs) (drop offset data) = bs"

lemma holds_at_append:
  "holds_at data offset (a @ b) \<longleftrightarrow> holds_at data offset a \<and> holds_at data (offset + length a) b"
  by (auto simp: holds_at_def take_add add.commute)

lemma holds_at_whole: "holds_at bs 0 bs"
  by (simp add: holds_at_def)

lemma read_field_at: "holds_at data offset bs \<Longrightarrow> n = length bs \<Longrightarrow> read_field n data offset = Inr bs"
  by (simp add: holds_at_def read_field_def)

lemma slice_from_at: "holds_at data offset bs \<Longrightarrow> n = length bs \<Longrightarrow> slice_from n data offset = bs"
  by (simp add: holds_at_def slice_from_def)

lemma be_nat_one [simp]: "be_nat [b] = unat b"
  by (simp add: be_nat_def)

lemma tag_byte_nat: "t < 256 \<Longrightarrow> be_nat (tag_byte t) = t"
  by (simp add: tag_byte_def unat_of_nat take_bit_eq_mod)

lemma length_tag_byte [simp]: "length (tag_byte t) = 1"
  by (simp add: tag_byte_def)

lemma pack_sized_ok:
  "pack_sized t n = Inr h \<Longrightarrow> \<exists>bs. h = tag_byte t @ bs \<and> length bs = 4 \<and> be_nat bs = n"
  using unpack_pack_unsigned [of 4 "int n"] by (auto simp: pack_sized_def bind_r_def split: sum.splits)

lemma unpack_pack_i64: "pack_i64 x = Inr bs \<Longrightarrow> unpack_i64 bs = x \<and> length bs = 8"
proof -
  assume "pack_i64 x = Inr bs"
  then have x: "- (2 ^ 63) \<le> x" "x < 2 ^ 63" and bs: "bs = be_bytes 8 (unat (word_of_int x :: 64 word))"
    by (auto simp: pack_i64_def split: if_splits)
  have "unat (word_of_int x :: 64 word) < 2 ^ 64"
    using unsigned_less [of "word_of_int x :: 64 word"] by simp
  then have "be_nat bs = unat (word_of_int x :: 64 word)" by (simp add: bs be_nat_bytes)
  then have "unpack_i64 bs = sint (word_of_int x :: 64 word)" by (simp add: unpack_i64_def)
  also have "\<dots> = x" using x by (simp add: sint_sbintrunc' signed_take_bit_int_eq_self)
  finally show ?thesis by (simp add: bs)
qed

lemma float_bytes: "word_of_nat (be_nat (be_bytes 8 (unat w))) = (w :: 64 word)"
proof -
  have "unat w < 2 ^ 64" using unsigned_less [of w] by simp
  then have "be_nat (be_bytes 8 (unat w)) = unat w" by (simp add: be_nat_bytes)
  then show ?thesis by simp
qed

lemma put_entry_new: "list_all (\<lambda>(k', _). \<not> same_key k' k) es \<Longrightarrow> put_entry k v es = es @ [(k, v)]"
  by (induction es) auto

lemma scalar_hashable: "scalar k \<Longrightarrow> hashable k" "scalar k \<Longrightarrow> as_lists k = k"
  by (cases k; simp)+

lemma same_key_sym: "same_key a b = same_key b a"
  by (auto simp: same_key_def split: option.split py_value.splits)

lemma unpack_pack:
  "pack_value d v = Inr bs \<Longrightarrow> storable v \<Longrightarrow> holds_at data offset bs \<Longrightarrow>
     unpack_value d data offset = Inr (as_lists v, offset + length bs)"
  "pack_items d vs = Inr bs \<Longrightarrow> storable_items vs \<Longrightarrow> holds_at data offset bs \<Longrightarrow>
     unpack_items d (length vs) data offset = Inr (lists_items vs, offset + length bs)"
  "pack_entries d es = Inr bs \<Longrightarrow> storable_entries es \<Longrightarrow> holds_at data offset bs \<Longrightarrow>
     list_all (\<lambda>(k, _). list_all (\<lambda>(k', _). \<not> same_key k' k) acc) es \<Longrightarrow>
     unpack_entries d (length es) data offset acc = Inr (acc @ lists_entries es, offset + length bs)"
proof (induction d v and d vs and d es arbitrary: bs offset and bs offset and bs offset acc
    rule: pack_value_pack_items_pack_entries.induct)
  case (1 v)
  then show ?case by simp
next
  case (2 d v)
  note prems = "2.prems"
  have sized: "\<exists>n rest. bs = tag_byte t @ n @ rest \<and> length n = 4 \<and> be_nat n = len \<and> r = Inr rest"
    if "bind_r (pack_sized t len) (\<lambda>h. bind_r r (\<lambda>parts. Inr (h @ parts))) = Inr bs" for t len r
    using that pack_sized_ok [of t len] by (auto simp: bind_r_def split: sum.splits)
  show ?case
  proof (cases v)
    case PNone
    then show ?thesis using prems
      by (auto simp: read_field_at tag_byte_nat tag_defs)
  next
    case (PBool b)
    then show ?thesis using prems
      by (auto simp: holds_at_append read_field_at tag_byte_nat tag_defs)
  next
    case (PInt x)
    then obtain xs where "pack_i64 x = Inr xs" "bs = tag_byte TAG_INT @ xs"
      using prems(1) by (auto simp: bind_r_def split: sum.splits)
    then show ?thesis using prems PInt unpack_pack_i64 [of x xs]
      by (auto simp: holds_at_append read_field_at tag_byte_nat tag_defs)
  next
    case (PFloat w)
    then show ?thesis using prems
      by (auto simp: holds_at_append read_field_at tag_byte_nat tag_defs float_bytes)
  next
    case (PStr s)
    have "bind_r (pack_sized TAG_STR (length (utf8_encode s))) (\<lambda>h. bind_r (Inr (utf8_encode s)) (\<lambda>parts. Inr (h @ parts)))
        = Inr bs" using prems(1) PStr by (simp add: Let_def)
    from sized [OF this] obtain n where "bs = tag_byte TAG_STR @ n @ utf8_encode s" "length n = 4"
      "be_nat n = length (utf8_encode s)" by auto
    then show ?thesis using prems PStr
      by (auto simp: holds_at_append read_field_at slice_from_at tag_byte_nat tag_defs utf8_decode_encode add.assoc)
  next
    case (PBytes b)
    have "bind_r (pack_sized TAG_BYTES (length b)) (\<lambda>h. bind_r (Inr b) (\<lambda>parts. Inr (h @ parts)))
        = Inr bs" using prems(1) PBytes by simp
    from sized [OF this] obtain n where "bs = tag_byte TAG_BYTES @ n @ b" "length n = 4"
      "be_nat n = length b" by auto
    then show ?thesis using prems PBytes
      by (auto simp: holds_at_append read_field_at slice_from_at tag_byte_nat tag_defs add.assoc)
  next
    case (PList vs)
    have "bind_r (pack_sized TAG_LIST (length vs)) (\<lambda>h. bind_r (pack_items d vs) (\<lambda>parts. Inr (h @ parts)))
        = Inr bs" using prems(1) PList by simp
    from sized [OF this] obtain n rest where "bs = tag_byte TAG_LIST @ n @ rest" "length n = 4"
      "be_nat n = length vs" "pack_items d vs = Inr rest" by auto
    then show ?thesis using prems PList "2.IH"(1) [OF PList]
      by (auto simp: holds_at_append read_field_at tag_byte_nat tag_defs add.assoc)
  next
    case (PTuple vs)
    have "bind_r (pack_sized TAG_LIST (length vs)) (\<lambda>h. bind_r (pack_items d vs) (\<lambda>parts. Inr (h @ parts)))
        = Inr bs" using prems(1) PTuple by simp
    from sized [OF this] obtain n rest where "bs = tag_byte TAG_LIST @ n @ rest" "length n = 4"
      "be_nat n = length vs" "pack_items d vs = Inr rest" by auto
    then show ?thesis using prems PTuple "2.IH"(2) [OF PTuple]
      by (auto simp: holds_at_append read_field_at tag_byte_nat tag_defs add.assoc)
  next
    case (PDict es)
    have "bind_r (pack_sized TAG_DICT (length es)) (\<lambda>h. bind_r (pack_entries d es) (\<lambda>parts. Inr (h @ parts)))
        = Inr bs" using prems(1) PDict by simp
    from sized [OF this] obtain n rest where r: "bs = tag_byte TAG_DICT @ n @ rest" "length n = 4"
      "be_nat n = length es" "pack_entries d es = Inr rest" by auto
    have "list_all (\<lambda>(k, _). list_all (\<lambda>(k', _). \<not> same_key k' k) ([] :: (py_value \<times> py_value) list)) es"
      by (simp add: list_all_iff)
    then show ?thesis using prems PDict r "2.IH"(3) [OF PDict, of rest "5 + offset" "[]"]
      by (auto simp: holds_at_append read_field_at tag_byte_nat tag_defs add.assoc list_all_iff)
  next
    case POther
    then show ?thesis using prems by simp
  qed
next
  case (3 d)
  then show ?case by simp
next
  case (4 d v vs)
  then obtain a b where "pack_value d v = Inr a" "pack_items d vs = Inr b" "bs = a @ b"
    by (auto simp: bind_r_def split: sum.splits)
  with 4 show ?case by (simp add: holds_at_append add.assoc)
next
  case (5 d)
  then show ?case by simp
next
  case (6 d k v es)
  then obtain a b c where r: "pack_value d k = Inr a" "pack_value d v = Inr b" "pack_entries d es = Inr c"
    "bs = a @ b @ c"
    by (auto simp: bind_r_def split: sum.splits)
  have at: "holds_at data offset a" "holds_at data (offset + length a) b"
    "holds_at data (offset + length a + length b) c"
    using "6.prems"(3) r(4) by (simp_all add: holds_at_append add.assoc)
  have st: "scalar k" "storable k" "storable v" "storable_entries es" "list_all (\<lambda>(k', _). \<not> same_key k k') es"
    using "6.prems"(2) by simp_all
  have "list_all (\<lambda>(k', _). \<not> same_key k' k) acc" using "6.prems"(4) by simp
  then have set: "set_item k (as_lists v) acc = Inr (acc @ [(k, as_lists v)])"
    using scalar_hashable(1) [OF st(1)] by (simp add: set_item_def put_entry_new)
  have "list_all (\<lambda>(k2, _). list_all (\<lambda>(k', _). \<not> same_key k' k2) (acc @ [(k, as_lists v)])) es"
    using "6.prems"(4) st(5) by (auto simp: list_all_iff)
  then have "unpack_entries d (length es) data (offset + length a + length b) (acc @ [(k, as_lists v)])
      = Inr ((acc @ [(k, as_lists v)]) @ lists_entries es, offset + length a + length b + length c)"
    using "6.IH"(3) [OF r(3) st(4) at(3)] r by simp
  then show ?case
    using "6.IH"(1) [OF r(1) st(2) at(1)] "6.IH"(2) [OF r(2) st(3) at(2)] scalar_hashable(2) [OF st(1)] r set
    by (simp add: add.assoc)
qed

text \<open>C35. Whatever the serializer packs, it unpacks: a value whose texts are valid UTF-8 and whose
  dictionary keys are scalars, no two of them equal, comes back as it was, with tuples as lists,
  at the same recursion depth, and whatever bytes follow.\<close>

theorem serializer_roundtrip:
  assumes "serialize depth v = Inr bs" and "storable v"
  shows "deserialize depth (bs @ rest) = Inr (as_lists v)"
proof -
  have "holds_at (bs @ rest) 0 bs" by (simp add: holds_at_def)
  from unpack_pack(1) [OF assms(1) [unfolded serialize_def] assms(2) this] show ?thesis
    by (simp add: deserialize_def)
qed

theorem serializer_roundtrip_witness:
  "\<exists>bs. serialize 3 (PDict [(PStr ''a'', PTuple [PInt (- 1), PNone]), (PInt 2, PBool True)]) = Inr bs
     \<and> deserialize 3 bs = Inr (PDict [(PStr ''a'', PList [PInt (- 1), PNone]), (PInt 2, PBool True)])"
proof -
  let ?v = "PDict [(PStr ''a'', PTuple [PInt (- 1), PNone]), (PInt 2, PBool True)]"
  obtain bs where bs: "serialize 3 ?v = Inr bs"
    by (simp add: serialize_def numeral_3_eq_3 pack_sized_def pack_unsigned_def pack_i64_def Let_def utf8_encode_def)
  have "utf8_valid (utf8_encode ''a'')" by code_simp
  then have "storable ?v" by (simp add: same_key_def)
  from serializer_roundtrip [OF bs this, of "[]"] bs show ?thesis by auto
qed

text \<open>Truncated data pass unnoticed: when the end of a packed byte string is missing, unpacking
  returns the bytes that are left, without an error.\<close>

theorem truncation_undetected:
  assumes "serialize (Suc d) (PBytes b) = Inr bs" and "n \<le> length b"
  shows "deserialize (Suc d) (take (5 + n) bs) = Inr (PBytes (take n b))"
proof -
  obtain h where "pack_sized TAG_BYTES (length b) = Inr h" "bs = h @ b"
    using assms(1) by (auto simp: serialize_def bind_r_def split: sum.splits)
  moreover obtain k where k: "h = tag_byte TAG_BYTES @ k" "length k = 4" "be_nat k = length b"
    using pack_sized_ok calculation(1) by blast
  ultimately have data: "take (5 + n) bs = tag_byte TAG_BYTES @ k @ take n b" by simp
  have "holds_at (tag_byte TAG_BYTES @ k @ take n b) 0 (tag_byte TAG_BYTES @ k @ take n b)"
    by (rule holds_at_whole)
  then have "read_field 1 (tag_byte TAG_BYTES @ k @ take n b) 0 = Inr (tag_byte TAG_BYTES)"
    "read_field 4 (tag_byte TAG_BYTES @ k @ take n b) 1 = Inr k"
    using k(2) by (auto simp: holds_at_append read_field_at)
  moreover have "slice_from (length b) (tag_byte TAG_BYTES @ k @ take n b) (1 + 4) = take n b"
    using k(2) assms(2) by (simp add: slice_from_def)
  ultimately show ?thesis
    unfolding data deserialize_def using k(3) by (simp add: tag_byte_nat tag_defs)
qed

theorem truncation_undetected_witness:
  "\<exists>bs. serialize 1 (PBytes [1, 2, 3]) = Inr bs \<and> deserialize 1 (take 6 bs) = Inr (PBytes [1])"
proof -
  obtain bs where bs: "serialize 1 (PBytes [1, 2, 3]) = Inr bs"
    by (simp add: serialize_def pack_sized_def pack_unsigned_def)
  from truncation_undetected [of 0 "[1, 2, 3]" bs 1] bs show ?thesis by auto
qed

subsection \<open>Enough depth\<close>

text \<open>\<open>Suc (length data)\<close> nested calls are always enough, since each container takes five bytes.\<close>

lemma read_field_no_recursion: "read_field n data offset \<noteq> Inl RecursionError"
  by (simp add: read_field_def)

lemma utf8_decode_no_recursion: "utf8_decode bs \<noteq> Inl RecursionError"
  by (simp add: utf8_decode_def)

definition moves_on :: "nat \<Rightarrow> ('a \<times> nat) result \<Rightarrow> bool" where
  "moves_on offset r \<longleftrightarrow> r \<noteq> Inl RecursionError \<and> (\<forall>x stop. r = Inr (x, stop) \<longrightarrow> offset \<le> stop)"

lemma moves_on_bind:
  assumes "moves_on offset r" and "\<And>x stop. r = Inr (x, stop) \<Longrightarrow> offset \<le> stop \<Longrightarrow> moves_on stop (f x stop)"
  shows "moves_on offset (bind_r r (\<lambda>(x, stop). f x stop))"
proof (cases r)
  case (Inl e)
  with assms(1) show ?thesis by (auto simp: moves_on_def)
next
  case (Inr y)
  obtain x stop where y: "y = (x, stop)" by (cases y)
  have "offset \<le> stop" using assms(1) by (simp add: moves_on_def Inr y)
  with assms(2) [of x stop] show ?thesis by (auto simp: Inr y moves_on_def)
qed

lemma moves_on_Inr: "offset \<le> stop \<Longrightarrow> moves_on offset (Inr (x, stop))"
  by (simp add: moves_on_def)

lemma moves_on_le: "moves_on stop r \<Longrightarrow> offset \<le> stop \<Longrightarrow> moves_on offset r"
  by (auto simp: moves_on_def)

lemma moves_on_read:
  "(\<And>bs. offset1 + k \<le> length data \<Longrightarrow> moves_on offset (g bs)) \<Longrightarrow>
     moves_on offset (bind_r (read_field k data offset1) g)"
  by (auto simp: read_field_def moves_on_def)

lemma moves_on_if:
  "(P \<Longrightarrow> moves_on offset a) \<Longrightarrow> (\<not> P \<Longrightarrow> moves_on offset b) \<Longrightarrow> moves_on offset (if P then a else b)"
  by simp

lemma moves_on_error: "moves_on offset (Inl ValueError)"
  by (simp add: moves_on_def)

lemma unpack_items_moves_on:
  assumes "\<And>offset. length data < d + offset \<Longrightarrow> moves_on offset (unpack_value d data offset)"
  shows "length data < d + offset \<Longrightarrow> moves_on offset (unpack_items d n data offset)"
proof (induction n arbitrary: offset)
  case 0
  then show ?case by (simp add: moves_on_Inr)
next
  case (Suc n)
  have "moves_on stop (bind_r (unpack_items d n data stop) (\<lambda>(vs, stop). Inr (v # vs, stop)))"
    if "offset \<le> stop" for v stop
    using Suc.IH [of stop] Suc.prems that by (intro moves_on_bind) (simp_all add: moves_on_Inr)
  then show ?case
    using assms [OF Suc.prems] by (simp only: unpack_items.simps) (rule moves_on_bind)
qed

lemma unpack_entries_moves_on:
  assumes "\<And>offset. length data < d + offset \<Longrightarrow> moves_on offset (unpack_value d data offset)"
  shows "length data < d + offset \<Longrightarrow> moves_on offset (unpack_entries d n data offset acc)"
proof (induction n arbitrary: offset acc)
  case 0
  then show ?case by (simp add: moves_on_Inr)
next
  case (Suc n)
  have "moves_on stop2 (bind_r (set_item k v acc) (\<lambda>acc'. unpack_entries d n data stop2 acc'))"
    if "offset \<le> stop2" for k v stop2
    using Suc.IH [of stop2] Suc.prems that by (auto simp: set_item_def moves_on_def)
  then have "moves_on stop1 (bind_r (unpack_value d data stop1) (\<lambda>(v, stop2).
      bind_r (set_item k v acc) (\<lambda>acc'. unpack_entries d n data stop2 acc')))" if "offset \<le> stop1" for k stop1
    using assms [of stop1] Suc.prems that by (intro moves_on_bind) auto
  then show ?case
    using assms [OF Suc.prems] by (simp only: unpack_entries.simps) (rule moves_on_bind)
qed

lemma unpack_value_moves_on:
  "length data < d + offset \<Longrightarrow> 0 < d \<Longrightarrow> moves_on offset (unpack_value d data offset)"
proof (induction d arbitrary: offset)
  case 0
  then show ?case by simp
next
  case (Suc d)
  have sub: "moves_on off (unpack_value d data off)" if "length data < d + off" "0 < d" for off
    using Suc.IH that by blast
  have items: "moves_on (offset + 5) (unpack_items d n data (offset + 5))"
    "moves_on (offset + 5) (unpack_entries d n data (offset + 5) [])"
    if "offset + 5 \<le> length data" for n
  proof -
    have d: "0 < d" "length data < d + (offset + 5)" using that Suc.prems by simp_all
    show "moves_on (offset + 5) (unpack_items d n data (offset + 5))"
      using unpack_items_moves_on [OF sub d(2)] d(1) by blast
    show "moves_on (offset + 5) (unpack_entries d n data (offset + 5) [])"
      using unpack_entries_moves_on [OF sub d(2)] d(1) by blast
  qed
  have items5: "moves_on (offset + 5) (unpack_items d n data (5 + offset))"
    "moves_on (offset + 5) (unpack_entries d n data (5 + offset) [])"
    if "5 + offset \<le> length data" for n
    using items [of n] that by (simp_all only: add.commute [of 5 offset])
  have wrap: "moves_on offset (bind_r r (\<lambda>(x, stop). Inr (f x, stop)))"
    if "moves_on (offset + 5) r" for r :: "('a \<times> nat) result" and f :: "'a \<Rightarrow> py_value"
  proof -
    have "moves_on (offset + 5) (bind_r r (\<lambda>(x, stop). Inr (f x, stop)))"
      using that by (rule moves_on_bind) (simp add: moves_on_Inr)
    then show ?thesis by (rule moves_on_le) simp
  qed
  have string: "moves_on offset (bind_r (utf8_decode bs) (\<lambda>s. Inr (PStr s, offset + 1 + 4 + n)))" for bs n
    by (auto simp: utf8_decode_def moves_on_def)
  show ?case
    unfolding unpack_value.simps Let_def
    by (intro moves_on_read moves_on_if string wrap)
      (simp_all add: moves_on_Inr items5 moves_on_error)
qed

text \<open>Unpacking ends without a RecursionError on any input when the recursion depth exceeds the
  number of bytes: each nested container has a header of five bytes.\<close>

theorem depth_suffices:
  assumes "length data < depth"
  shows "deserialize depth data \<noteq> Inl RecursionError"
proof -
  have "moves_on 0 (unpack_value depth data 0)"
    by (rule unpack_value_moves_on) (use assms in auto)
  then show ?thesis
    by (cases "unpack_value depth data 0") (auto simp: deserialize_def moves_on_def)
qed

theorem depth_suffices_witness: "deserialize 3 [6, 0] \<noteq> Inl RecursionError"
  by (rule depth_suffices) simp

end
