(* ===== verification/Schema.thy ===== *)
theory Schema
  imports Serializer Message
begin

section \<open>Schemas\<close>

text \<open>
  \<^verbatim>\<open>serializer.py\<close>, \<open>Schema\<close> and \<open>SchemaRegistry\<close>: a schema names the type of each field and the
  fields that must be there; the registry keeps the versions of each schema. Error texts are values
  that hold what the texts say.
\<close>

record schema =
  sc_name :: string
  sc_version :: int
  sc_fields :: "(string, string) dict"
  sc_required :: "string list"

text \<open>\<open>required or list(fields.keys())\<close>: an empty list is replaced as well.\<close>

definition schema_new :: "string \<Rightarrow> int \<Rightarrow> (string, string) dict \<Rightarrow> string list option \<Rightarrow> schema" where
  "schema_new name version field_types required =
     \<lparr>sc_name = name, sc_version = version, sc_fields = field_types,
      sc_required = (case required of Some (f # fs) \<Rightarrow> f # fs | _ \<Rightarrow> keys field_types)\<rparr>"

definition schema_to_dict :: "schema \<Rightarrow> (string, json) dict" where
  "schema_to_dict s =
     [(''name'', JStr (sc_name s)), (''version'', JInt (sc_version s)),
      (''fields'', JDict (map (\<lambda>(k, t). (k, JStr t)) (sc_fields s))),
      (''required'', JList (map JStr (sc_required s)))]"

text \<open>\<open>isinstance(value, TYPE_MAP.get(t))\<close>; \<open>None\<close> for a type name that is not in the map. A \<open>bool\<close> is an \<open>int\<close>.\<close>

definition is_instance :: "py_value \<Rightarrow> string \<Rightarrow> bool option" where
  "is_instance v t =
     (if t = ''string'' then Some (case v of PStr _ \<Rightarrow> True | _ \<Rightarrow> False)
      else if t = ''int'' then Some (case v of PInt _ \<Rightarrow> True | PBool _ \<Rightarrow> True | _ \<Rightarrow> False)
      else if t = ''float'' then
        Some (case v of PInt _ \<Rightarrow> True | PBool _ \<Rightarrow> True | PFloat _ \<Rightarrow> True | _ \<Rightarrow> False)
      else if t = ''bool'' then Some (case v of PBool _ \<Rightarrow> True | _ \<Rightarrow> False)
      else if t = ''list'' then Some (case v of PList _ \<Rightarrow> True | _ \<Rightarrow> False)
      else if t = ''dict'' then Some (case v of PDict _ \<Rightarrow> True | _ \<Rightarrow> False)
      else if t = ''any'' then Some True
      else None)"

datatype schema_error =
    NotADictionary
  | MissingField string
  | WrongType string string py_value
  | NewRequiredFields "string set"
  | SchemaNotFound string

definition missing_errors :: "schema \<Rightarrow> (py_value \<times> py_value) list \<Rightarrow> schema_error list" where
  "missing_errors s es = map MissingField (filter (\<lambda>f. PStr f \<notin> fst ` set es) (sc_required s))"

definition field_errors :: "schema \<Rightarrow> py_value \<times> py_value \<Rightarrow> schema_error list" where
  "field_errors s entry =
     (case entry of
        (PStr f, v) \<Rightarrow>
          (case dict_get (sc_fields s) f of
             Some t \<Rightarrow> (if is_instance v t = Some False then [WrongType f t v] else [])
           | None \<Rightarrow> [])
      | _ \<Rightarrow> [])"

definition schema_validate :: "schema \<Rightarrow> py_value \<Rightarrow> bool \<times> schema_error list" where
  "schema_validate s data =
     (case data of
        PDict es \<Rightarrow> (let errors = missing_errors s es @ concat (map (field_errors s) es)
                    in (errors = [], errors))
      | _ \<Rightarrow> (False, [NotADictionary]))"

subsection \<open>The registry\<close>

type_synonym schema_registry = "(string, (int, schema) dict) dict"

definition register_schema :: "schema \<Rightarrow> schema_registry \<Rightarrow> schema_registry" where
  "register_schema s r =
     (let r1 = (if sc_name s \<notin> set (keys r) then dict_set (sc_name s) [] r else r)
      in dict_set (sc_name s) (dict_set (sc_version s) s (dict_get_default r1 (sc_name s) [])) r1)"

definition get_schema :: "schema_registry \<Rightarrow> string \<Rightarrow> int option \<Rightarrow> schema option" where
  "get_schema r name version =
     (case dict_get r name of
        None \<Rightarrow> None
      | Some versions \<Rightarrow>
          if versions = [] then None
          else (case version of
                  Some v \<Rightarrow> dict_get versions v
                | None \<Rightarrow> dict_get versions (Max (set (keys versions)))))"

definition registry_validate :: "schema_registry \<Rightarrow> string \<Rightarrow> py_value \<Rightarrow> int option \<Rightarrow> bool \<times> schema_error list" where
  "registry_validate r name data version =
     (case get_schema r name version of
        None \<Rightarrow> (False, [SchemaNotFound name])
      | Some s \<Rightarrow> schema_validate s data)"

definition list_schemas :: "schema_registry \<Rightarrow> (string, int list) dict" where
  "list_schemas r = map (\<lambda>(name, versions). (name, sort (keys versions))) r"

definition is_backward_compatible :: "schema_registry \<Rightarrow> string \<Rightarrow> int \<Rightarrow> bool \<times> schema_error list" where
  "is_backward_compatible r name new_version =
     (case (get_schema r name (Some (new_version - 1)), get_schema r name (Some new_version)) of
        (Some old, Some new) \<Rightarrow>
          (let new_fields = set (sc_required new) - set (sc_required old);
               errors = (if new_fields \<noteq> {} then [NewRequiredFields new_fields] else [])
           in (errors = [], errors))
      | _ \<Rightarrow> (True, []))"

subsection \<open>Validation\<close>

text \<open>What a schema asks of data, as a predicate.\<close>

definition conforms :: "schema \<Rightarrow> (py_value \<times> py_value) list \<Rightarrow> bool" where
  "conforms s es \<longleftrightarrow> (\<forall>f \<in> set (sc_required s). PStr f \<in> fst ` set es)
     \<and> (\<forall>f t v. (PStr f, v) \<in> set es \<longrightarrow> dict_get (sc_fields s) f = Some t \<longrightarrow> is_instance v t \<noteq> Some False)"

lemma field_errors_empty:
  "field_errors s e = [] \<longleftrightarrow>
     (\<forall>f t v. e = (PStr f, v) \<longrightarrow> dict_get (sc_fields s) f = Some t \<longrightarrow> is_instance v t \<noteq> Some False)"
  by (cases e) (auto simp: field_errors_def split: py_value.split option.split)

lemma schema_validate_iff: "fst (schema_validate s (PDict es)) \<longleftrightarrow> conforms s es"
proof -
  have "missing_errors s es = [] \<longleftrightarrow> (\<forall>f \<in> set (sc_required s). PStr f \<in> fst ` set es)"
    by (auto simp: missing_errors_def filter_empty_conv)
  moreover have "concat (map (field_errors s) es) = [] \<longleftrightarrow> (\<forall>e \<in> set es. field_errors s e = [])"
    by auto
  ultimately show ?thesis
    by (auto simp: schema_validate_def Let_def conforms_def field_errors_empty)
qed

text \<open>A field that is not named, or has a type name the map does not know, is not checked.\<close>

definition accepts :: "schema \<Rightarrow> string \<Rightarrow> py_value \<Rightarrow> bool" where
  "accepts s f v \<longleftrightarrow> (\<forall>t. dict_get (sc_fields s) f = Some t \<longrightarrow> is_instance v t \<noteq> Some False)"

subsection \<open>The registry as a table of versions\<close>

lemma dict_get_register:
  "dict_get (register_schema s r) name =
     (if name = sc_name s then Some (dict_set (sc_version s) s (dict_get_default r (sc_name s) []))
      else dict_get r name)"
  unfolding register_schema_def Let_def in_keys_iff
  by (simp add: dict_get_default_def split: option.split)

text \<open>The version of a schema that was registered last; the registrations are given newest first.\<close>

definition last_registered :: "schema list \<Rightarrow> string \<Rightarrow> int \<Rightarrow> schema option" where
  "last_registered ss name v = List.find (\<lambda>s. sc_name s = name \<and> sc_version s = v) ss"

lemma dict_set_neq_Nil: "dict_set k v d \<noteq> []"
  by (cases d) auto

lemma registered_versions:
  fixes ss :: "schema list"
  defines "r \<equiv> foldr register_schema ss []"
  shows "dict_get (dict_get_default r name []) v = last_registered ss name v"
    and "dict_get r name \<noteq> Some []"
proof -
  have "dict_get (dict_get_default (foldr register_schema ss []) name []) v = last_registered ss name v
    \<and> dict_get (foldr register_schema ss []) name \<noteq> Some []"
  proof (induction ss)
    case Nil
    then show ?case by (simp add: dict_get_default_def last_registered_def)
  next
    case (Cons s ss)
    then show ?case
      by (auto simp: dict_get_default_def dict_get_register last_registered_def dict_set_neq_Nil
          split: option.splits)
  qed
  then show "dict_get (dict_get_default r name []) v = last_registered ss name v"
    and "dict_get r name \<noteq> Some []" by (simp_all add: r_def)
qed

lemma get_schema_version:
  "get_schema (foldr register_schema ss []) name (Some v) = last_registered ss name v"
  using registered_versions(1) [where ss = ss and name = name and v = v]
    registered_versions(2) [where ss = ss and name = name]
  by (auto simp: get_schema_def dict_get_default_def split: option.splits)

lemma last_registered_fields:
  "last_registered ss name v = Some s \<Longrightarrow> sc_name s = name \<and> sc_version s = v \<and> s \<in> set ss"
  by (auto simp: last_registered_def find_Some_iff)

lemma last_registered_some:
  "s \<in> set ss \<Longrightarrow> \<exists>s'. last_registered ss (sc_name s) (sc_version s) = Some s'"
  by (auto simp: last_registered_def find_None_iff simp flip: not_None_eq)

lemma get_schema_latest:
  "get_schema (foldr register_schema ss []) name None =
     (if name \<notin> sc_name ` set ss then None
      else last_registered ss name (Max (sc_version ` {s \<in> set ss. sc_name s = name})))"
proof -
  let ?r = "foldr register_schema ss []" and ?S = "{s \<in> set ss. sc_name s = name}"
  note R = registered_versions(1) [where ss = ss and name = name] registered_versions(2) [where ss = ss and name = name]
  show ?thesis
  proof (cases "dict_get ?r name")
    case None
    then have "last_registered ss name v = None" for v
      using R(1) [of v] by (simp add: dict_get_default_def)
    then have "name \<notin> sc_name ` set ss" using last_registered_some by fastforce
    with None show ?thesis by (simp add: get_schema_def)
  next
    case (Some vs)
    then have vs: "dict_get vs v = last_registered ss name v" for v
      using R(1) [of v] by (simp add: dict_get_default_def)
    have ne: "vs \<noteq> []" using R(2) Some by auto
    have keys: "set (keys vs) = sc_version ` ?S"
    proof (intro set_eqI)
      fix v
      have "v \<in> set (keys vs) \<longleftrightarrow> last_registered ss name v \<noteq> None" unfolding in_keys_iff vs by simp
      also have "\<dots> \<longleftrightarrow> v \<in> sc_version ` ?S"
        by (auto simp: last_registered_def find_None_iff)
      finally show "v \<in> set (keys vs) \<longleftrightarrow> v \<in> sc_version ` ?S" .
    qed
    moreover have "set (keys vs) \<noteq> {}" using ne by simp
    ultimately have "name \<in> sc_name ` set ss" by auto
    with Some ne keys vs show ?thesis by (simp add: get_schema_def)
  qed
qed

text \<open>The registry is a table of versions: after any registrations (newest first), asking for a
  version gives the schema registered last under that name and version, asking for none gives the
  highest version, and data conforms to it exactly when validation reports no error.\<close>

theorem registry_correct:
  "get_schema (foldr register_schema ss []) name (Some v) = last_registered ss name v
    \<and> get_schema (foldr register_schema ss []) name None =
        (if name \<notin> sc_name ` set ss then None
         else last_registered ss name (Max (sc_version ` {s \<in> set ss. sc_name s = name})))
    \<and> fst (registry_validate (foldr register_schema ss []) name (PDict es) (Some v)) =
        (case last_registered ss name v of None \<Rightarrow> False | Some s \<Rightarrow> conforms s es)"
  unfolding registry_validate_def get_schema_version get_schema_latest
  by (simp add: schema_validate_iff split: option.split)

text \<open>Data that was valid under the old version is valid under the next one when the registry
  calls it backward compatible and no field's type got stricter.\<close>

theorem compatible_reads_old_data:
  assumes "get_schema r name (Some (v - 1)) = Some old" and "get_schema r name (Some v) = Some new"
    and "fst (is_backward_compatible r name v)" and "\<forall>f x. accepts old f x \<longrightarrow> accepts new f x"
    and "fst (registry_validate r name (PDict es) (Some (v - 1)))"
  shows "fst (registry_validate r name (PDict es) (Some v))"
proof -
  have "set (sc_required new) \<subseteq> set (sc_required old)"
    using assms(1-3) by (auto simp: is_backward_compatible_def Let_def split: if_splits)
  moreover have "conforms old es"
    using assms(1,5) by (simp add: registry_validate_def schema_validate_iff)
  ultimately have "conforms new es"
    using assms(4) unfolding conforms_def accepts_def by (smt (verit) subsetD)
  then show ?thesis using assms(2) by (simp add: registry_validate_def schema_validate_iff)
qed

definition changed_type :: schema_registry where
  "changed_type = foldr register_schema [schema_new ''s'' 2 [(''a'', ''string'')] None,
     schema_new ''s'' 1 [(''a'', ''int'')] None] []"

theorem compatible_reads_old_data_witness:
  "fst (registry_validate (register_schema (schema_new ''s'' 2 [] None)
      (register_schema (schema_new ''s'' 1 [(''a'', ''int'')] None) [])) ''s'' (PDict [(PStr ''a'', PInt 1)]) (Some 2))"
  by (rule compatible_reads_old_data [where old = "schema_new ''s'' 1 [(''a'', ''int'')] None"
        and new = "schema_new ''s'' 2 [] None"])
    (simp_all add: get_schema_def register_schema_def schema_new_def is_backward_compatible_def
      accepts_def registry_validate_def schema_validate_def missing_errors_def field_errors_def
      is_instance_def dict_get_default_def)

text \<open>The second condition is needed: a change of a field's type is not noticed.\<close>

lemma type_change_unnoticed:
  "fst (is_backward_compatible changed_type ''s'' 2)"
  "fst (registry_validate changed_type ''s'' (PDict [(PStr ''a'', PInt 1)]) (Some 1))"
  "\<not> fst (registry_validate changed_type ''s'' (PDict [(PStr ''a'', PInt 1)]) (Some 2))"
  by (simp_all add: changed_type_def get_schema_def register_schema_def schema_new_def
      is_backward_compatible_def registry_validate_def schema_validate_def missing_errors_def
      field_errors_def is_instance_def dict_get_default_def)

subsection \<open>The JSON serializer\<close>

text \<open>
  \<open>JsonSerializer\<close>: the text of the JSON library, as UTF-8. The library is a parameter: \<open>dump\<close> gets the
  indentation and whether to sort the keys, and raises for a value it cannot write.
\<close>

record json_serializer =
  js_indent :: "int option"
  js_sort_keys :: bool

definition json_serialize ::
    "(int option \<Rightarrow> bool \<Rightarrow> json \<Rightarrow> string result) \<Rightarrow> json_serializer \<Rightarrow> json \<Rightarrow> byte list result" where
  "json_serialize dump js data = bind_r (dump (js_indent js) (js_sort_keys js) data) (\<lambda>txt. Inr (utf8_encode txt))"

definition json_deserialize :: "(string \<Rightarrow> json result) \<Rightarrow> byte list \<Rightarrow> json result" where
  "json_deserialize load data = bind_r (utf8_decode data) load"

lemma json_roundtrip:
  assumes "json_serialize dump js v = Inr data" and "utf8_valid data"
    and "\<And>txt. dump (js_indent js) (js_sort_keys js) v = Inr txt \<Longrightarrow> load txt = Inr w"
  shows "json_deserialize load data = Inr w"
  using assms by (auto simp: json_serialize_def json_deserialize_def bind_r_Inr utf8_decode_encode)

end
