(* ===== verification/Server_Run.thy ===== *)
theory Server_Run
  imports Server Broker_Run
begin

section \<open>Requests as broker operations\<close>

text \<open>
  Every request that a connection serves is a sequence of the broker's operations (\<open>broker_step\<close>), so
  whatever holds in every state a broker reaches holds for a broker behind the server, whatever
  bytes its clients send. \<open>server_ok\<close> adds what the server itself keeps: message and consumer objects
  it has not made yet are in no log and in no group.
\<close>

definition server_ok :: "server \<Rightarrow> bool" where
  "server_ok s \<longleftrightarrow> broker_inv (s_ms s) (s_broker s) \<and> b_middleware (s_broker s) = []
     \<and> (\<forall>r \<ge> s_next s. fresh_in r (s_broker s)) \<and> (\<forall>x \<ge> s_next_consumer s. outsider x (s_broker s))"

definition advances :: "server \<Rightarrow> server \<Rightarrow> bool" where
  "advances s s' \<longleftrightarrow> broker_step\<^sup>*\<^sup>* (s_ms s, s_broker s) (s_ms s', s_broker s') \<and> server_ok s'"

text \<open>An operation that only touches the objects in \<open>R\<close> and \<open>X\<close>.\<close>

definition touches :: "mref set \<Rightarrow> cref set \<Rightarrow> broker \<Rightarrow> broker \<Rightarrow> bool" where
  "touches R X b b' \<longleftrightarrow> b_middleware b' = b_middleware b
     \<and> (\<forall>r. r \<notin> R \<longrightarrow> fresh_in r b \<longrightarrow> fresh_in r b') \<and> (\<forall>x. x \<notin> X \<longrightarrow> outsider x b \<longrightarrow> outsider x b')"

lemma touches_same:
  "b_topics b' = b_topics b \<Longrightarrow> b_ps b' = b_ps b \<Longrightarrow> b_groups b' = b_groups b \<Longrightarrow>
    b_middleware b' = b_middleware b \<Longrightarrow> touches R X b b'"
  by (simp add: touches_def outsider_def)

lemma touches_refl: "touches R X b b"
  by (simp add: touches_same)

lemma touches_trans: "touches R X b b1 \<Longrightarrow> touches R X b1 b2 \<Longrightarrow> touches R X b b2"
  by (simp add: touches_def)

lemma touches_mono: "touches R X b b' \<Longrightarrow> R \<subseteq> R' \<Longrightarrow> X \<subseteq> X' \<Longrightarrow> touches R' X' b b'"
  unfolding touches_def by blast

lemma advancesI:
  assumes "server_ok s" and "broker_step\<^sup>*\<^sup>* (s_ms s, s_broker s) (ms', b')"
    and "touches R X (s_broker s) b'" and "\<forall>r \<ge> n'. r \<notin> R \<and> s_next s \<le> r"
    and "\<forall>x \<ge> k'. x \<notin> X \<and> s_next_consumer s \<le> x"
  shows "advances s \<lparr>s_ms = ms', s_next = n', s_broker = b', s_next_consumer = k'\<rparr>"
proof -
  have ok: "broker_inv (s_ms s) (s_broker s)" "b_middleware (s_broker s) = []"
    "\<And>r. s_next s \<le> r \<Longrightarrow> fresh_in r (s_broker s)"
    "\<And>x. s_next_consumer s \<le> x \<Longrightarrow> outsider x (s_broker s)"
    using assms(1) unfolding server_ok_def by blast+
  have t: "b_middleware b' = b_middleware (s_broker s)"
    "\<And>r. r \<notin> R \<Longrightarrow> fresh_in r (s_broker s) \<Longrightarrow> fresh_in r b'"
    "\<And>x. x \<notin> X \<Longrightarrow> outsider x (s_broker s) \<Longrightarrow> outsider x b'"
    using assms(3) unfolding touches_def by blast+
  have "broker_inv ms' b'" using broker_run_inv [OF assms(2)] ok(1) by simp
  moreover have "fresh_in r b'" if "n' \<le> r" for r using that assms(4) ok(3) t(2) by blast
  moreover have "outsider x b'" if "k' \<le> x" for x
    by (rule t(3)) (use that assms(5) ok(4) in blast)+
  ultimately have "server_ok \<lparr>s_ms = ms', s_next = n', s_broker = b', s_next_consumer = k'\<rparr>"
    unfolding server_ok_def using ok(2) t(1) by simp
  with assms(2) show ?thesis by (simp add: advances_def)
qed

lemma advances_refl: "server_ok s \<Longrightarrow> advances s s"
  by (simp add: advances_def)

lemma advances_trans: "advances s s1 \<Longrightarrow> advances s1 s2 \<Longrightarrow> advances s s2"
  by (auto simp: advances_def)

lemma server_eta:
  "s\<lparr>s_broker := b\<rparr> = \<lparr>s_ms = s_ms s, s_next = s_next s, s_broker = b, s_next_consumer = s_next_consumer s\<rparr>"
  by simp

text \<open>One operation of the broker, no new objects.\<close>

lemma advances_step:
  assumes "server_ok s" and "broker_step (s_ms s, s_broker s) (s_ms s, b')" and "touches {} {} (s_broker s) b'"
  shows "advances s (s\<lparr>s_broker := b'\<rparr>)"
  unfolding server_eta
  by (rule advancesI [OF assms(1) r_into_rtranclp [where r = broker_step, OF assms(2)] assms(3)]) simp_all

subsection \<open>What the operations touch\<close>

lemma topic_made_touches: "topic_made b name b' res \<Longrightarrow> touches {} {} b b'"
  by (simp add: topic_made_def touches_def outsider_def)

lemma delete_topic_touches:
  assumes inv: "broker_inv ms b" and del: "delete_topic name b = (b', res)"
  shows "touches {} {} b b'"
proof (cases "dict_get (b_topics b) name")
  case None
  with del show ?thesis by (simp add: delete_topic_def touches_refl)
next
  case (Some t)
  obtain cs' gs' us where each: "each_group (\<lambda>_ s. (group_unsubscribe (b_ps b) name s, ())) (b_groups b) (b_cs b)
      = ((cs', gs'), us)" by (metis surj_pair)
  have b': "b' = b\<lparr>b_topics := dict_del name (b_topics b), b_groups := gs', b_cs := cs'\<rparr>"
    using del Some each by (simp add: delete_topic_def)
  note I = broker_invD [OF inv]
  have "wf_dict (b_groups b)" using I(4) by (simp add: names_ok_def)
  note E = unsubscribing.each_group_ok [OF each this I(2)]
  have "outsider x b'" if "outsider x b" for x
    using E that unfolding b' outsider_def by simp blast
  moreover have "fresh_in r b \<Longrightarrow> fresh_in r b'" for r
    by (auto simp: b' fresh_all_def delete_conv split: if_splits)
  ultimately show ?thesis by (simp add: touches_def b')
qed

lemma put_queue_touches: "touches R X b (put_queue name q b)"
  by (cases q) (simp_all add: put_queue_def touches_same)

lemma enqueue_touches: "broker_enqueue now name r (ms, b) = ((ms', b'), res) \<Longrightarrow> touches R X b b'"
  by (auto simp: broker_enqueue_def put_queue_def split: option.splits sum.splits prod.splits any_queue.splits
      intro!: touches_same)

lemma create_queue_touches: "create_queue name k t prio b = (b', res) \<Longrightarrow> touches R X b b'"
  by (auto simp: create_queue_def Let_def split: if_splits intro!: touches_same)

lemma commits_touch: "only_commits (b_ps b) ps' \<Longrightarrow> touches R X b (b\<lparr>b_ps := ps', b_cs := cs'\<rparr>)"
proof -
  assume "only_commits (b_ps b) ps'"
  then have "p_log (ps' p) = p_log (b_ps b p)" for p
    by (metis only_commits_def partition.select_convs(5) partition.surjective partition.update_convs(7))
  then show ?thesis by (simp add: touches_def outsider_def fresh_all_def fresh_for_def)
qed

lemma create_group_touches:
  assumes "create_consumer_group gid st b = (b', g)"
  shows "touches R X b b'"
proof (cases "dict_get (b_groups b) gid")
  case None
  then have b': "b' = b\<lparr>b_groups := dict_set gid (group_new gid st) (b_groups b)\<rparr>"
    using assms by (auto simp: create_consumer_group_def Let_def)
  have "member_refs (group_new gid st) = []" by (simp add: group_new_def member_refs_def)
  then show ?thesis by (simp add: touches_def outsider_def b')
next
  case (Some g0)
  with assms show ?thesis by (simp add: create_consumer_group_def touches_refl)
qed

lemma subscribe_touches:
  assumes inv: "broker_inv ms b" and sub: "broker_subscribe gid tn x b = (b', res)"
  shows "touches {} {x} b b'"
proof -
  obtain b1 tr where one: "topic_or_create tn b = (b1, tr)" by (metis surj_pair)
  note made = topic_or_create_inv [OF inv one]
  have t1: "touches {} {x} b b1"
    by (rule touches_mono [OF topic_made_touches [OF made [THEN conjunct2]]]) simp_all
  show ?thesis
  proof (cases tr)
    case (Inl e)
    with sub one t1 show ?thesis by (simp add: broker_subscribe_def)
  next
    case (Inr t)
    obtain b2 g where two: "create_consumer_group gid RANGE b1 = (b2, g)" by (metis surj_pair)
    note C = create_group_inv [OF made [THEN conjunct1] two]
    note I = broker_invD [OF C(1)] and M = made [THEN conjunct2, unfolded topic_made_def Inr sum.case]
    obtain cs1 g1 where three: "group_subscribe (b_ps b2) tn (t_partitions t) (b_cs b2, g) = (cs1, g1)"
      by (metis surj_pair)
    obtain cs2 g2 where four: "group_join (b_ps b2) x (cs1, g1) = (cs2, g2)" by (metis surj_pair)
    have b': "b' = b2\<lparr>b_topics := dict_set tn (topic_subscribe gid t) (b_topics b2),
                  b_groups := dict_set gid g2 (b_groups b2), b_cs := cs2\<rparr>"
      using sub one Inr two three four by (simp add: broker_subscribe_def Let_def)
    note S = group_topics_inv(1) [OF groups_okD(2) [OF I(2) C(2)] three]
    then have "group_ok cs1 g1" by simp
    note J = group_join_inv [OF this four]
    have sub2: "set (member_refs g2) \<subseteq> insert x (set (member_refs g))"
      using J S set_dict_set [of "c_id (cs1 x)" x "g_members g"] by (auto simp: member_refs_def)
    have "outsider y b'" if "y \<noteq> x" "outsider y b2" for y
    proof -
      have "y \<notin> set (member_refs g2)" using sub2 that(1) outsiderD [OF that(2) C(2)] by blast
      with that(2) show ?thesis by (simp add: outsider_def b')
    qed
    moreover have "fresh_in r b'" if "fresh_in r b2" for r
    proof -
      have "dict_get (b_topics b2) tn = Some t" using M C(3) by simp
      with that show ?thesis by (auto simp: b' fresh_all_def fresh_for_def topic_subscribe_def)
    qed
    ultimately have "touches {} {x} b2 b'" by (simp add: touches_def b')
    with t1 create_group_touches [OF two] show ?thesis by (blast intro: touches_trans)
  qed
qed

lemma publish_touches:
  assumes inv: "broker_inv ms b" and mw: "b_middleware b = []"
    and pub: "broker_publish clock now (ms, b) m = ((ms', b'), res)"
  shows "touches {m} {} b b'"
proof -
  have p: "pipeline_process clock (b_middleware b) ms m = (([], ms), Inr (Some m))"
    by (simp add: mw pipeline_process_def)
  have same: "b\<lparr>b_middleware := []\<rparr> = b" using mw by simp
  from pub show ?thesis
  proof (cases rule: broker_publish_cases)
    case (dropped p' e processed)
    with p show ?thesis by simp
  next
    case (no_topic p' r e)
    then have "topic_or_create (m_topic (ms' r)) b = (b', Inl e)" using p same by simp
    from topic_made_touches [OF topic_or_create_inv [OF inv this, THEN conjunct2]] show ?thesis
      by (rule touches_mono) simp_all
  next
    case (published p' ms1 r b2 t ps2 t' pres)
    then have eq: "ms1 = ms" "r = m" "p' = []" using p by simp_all
    have made: "broker_inv ms b2 \<and> topic_made b (m_topic (ms m)) b2 (Inr t)"
      using topic_or_create_inv [OF inv, of "m_topic (ms m)" b2 "Inr t"] published(2) same by (simp add: eq)
    note I = broker_invD [OF made [THEN conjunct1]]
    have t: "dict_get (b_topics b2) (m_topic (ms m)) = Some t" using made by (simp add: topic_made_def)
    have rr: "0 \<le> t_round_robin t" using topics_okD(2) [OF I(1) t] by (simp add: topic_inv_def)
    note only = topic_publish_only [OF published(3) rr]
    have logs: "set (p_log (ps2 p)) \<subseteq> insert m (set (p_log (b_ps b2 p)))" for p
      using published(3) rr
    proof (cases rule: topic_publish_cases)
      case (append pid q q')
      have "set (p_log q') \<subseteq> insert m (set (p_log (b_ps b2 q)))"
      proof (cases pres)
        case (Inl e)
        then show ?thesis using partition_append_err append(5) by blast
      next
        case (Inr off)
        then show ?thesis using partition_append_ok [OF append(5) [unfolded Inr]] eq(2) by simp
      qed
      with append(6) show ?thesis by auto
    qed auto
    have "fresh_in r' b'" if "r' \<noteq> m" "fresh_in r' b2" for r'
    proof -
      have "fresh_for r' ps2 u" if u: "dict_get (b_topics b2) k = Some u" for k u
        unfolding fresh_for_def
      proof
        fix p assume "p \<in> set (t_partitions u)"
        then have "r' \<notin> set (p_log (b_ps b2 p))" using \<open>fresh_in r' b2\<close> u by (auto simp: fresh_all_def fresh_for_def)
        with logs [of p] \<open>r' \<noteq> m\<close> show "r' \<notin> set (p_log (ps2 p))" by blast
      qed
      moreover from this have "fresh_for r' ps2 t'" using t only(1) by (auto simp: fresh_for_def)
      ultimately show ?thesis by (simp add: published(4) fresh_all_def)
    qed
    then have "touches {m} {} b2 b'" by (simp add: touches_def outsider_def published(4))
    with touches_mono [OF topic_made_touches [OF made [THEN conjunct2]], of "{m}" "{}"] show ?thesis
      by (blast intro: touches_trans)
  qed
qed

subsection \<open>The handlers\<close>

lemma step_one: "broker_step s s' \<Longrightarrow> broker_step\<^sup>*\<^sup>* s s'"
  by (rule r_into_rtranclp)

lemma server_okD:
  assumes "server_ok s"
  shows "broker_inv (s_ms s) (s_broker s)" "b_middleware (s_broker s) = []"
    "fresh_in (s_next s) (s_broker s)" "outsider (s_next_consumer s) (s_broker s)"
  using assms by (simp_all add: server_ok_def)

text \<open>A new message that the broker then works on.\<close>

lemma new_message_advances:
  assumes ok: "server_ok s" and new: "new_message m s = (s1, r)"
    and step: "broker_step (s_ms s1, s_broker s1) (ms', b')" and t: "touches {r} {} (s_broker s1) b'"
  shows "advances s (s1\<lparr>s_ms := ms', s_broker := b'\<rparr>)"
proof -
  have s1: "s1 = s\<lparr>s_ms := (s_ms s)(s_next s := m), s_next := s_next s + 1\<rparr>" and r: "r = s_next s"
    using new by (auto simp: new_message_def)
  have "broker_step (s_ms s, s_broker s) (s_ms s1, s_broker s1)"
    using broker_step.new_message [OF server_okD(3) [OF ok]] by (simp add: s1)
  with step have "broker_step\<^sup>*\<^sup>* (s_ms s, s_broker s) (ms', b')" by (meson rtranclp.rtrancl_into_rtrancl step_one)
  then have "advances s \<lparr>s_ms = ms', s_next = s_next s + 1, s_broker = b', s_next_consumer = s_next_consumer s\<rparr>"
    by (rule advancesI [OF ok]) (use t in \<open>auto simp: s1 r\<close>)
  moreover have "s1\<lparr>s_ms := ms', s_broker := b'\<rparr>
      = \<lparr>s_ms = ms', s_next = s_next s + 1, s_broker = b', s_next_consumer = s_next_consumer s\<rparr>"
    by (simp add: s1)
  ultimately show ?thesis by simp
qed

lemma new_message_fresh:
  "server_ok s \<Longrightarrow> new_message m s = (s1, r) \<Longrightarrow> s_broker s1 = s_broker s \<and> fresh_in r (s_broker s1)"
  using server_okD(3) [of s] by (auto simp: new_message_def)

lemma new_message_inv:
  assumes "server_ok s" and "new_message m s = (s1, r)"
  shows "broker_inv (s_ms s1) (s_broker s1)"
proof -
  have "broker_step (s_ms s, s_broker s) (s_ms s1, s_broker s1)"
    using broker_step.new_message [OF server_okD(3) [OF assms(1)]] assms(2) by (auto simp: new_message_def)
  from broker_step_inv [OF this] server_okD(1) [OF assms(1)] show ?thesis by simp
qed

text \<open>Publishing a new message object, as the produce request and the command line do.\<close>

lemma publish_new_advances:
  assumes ok: "server_ok s" and new: "new_message m s = (s1, r)"
    and pub: "broker_publish clock now (s_ms s1, s_broker s1) r = ((ms', b'), x)"
  shows "advances s (s1\<lparr>s_ms := ms', s_broker := b'\<rparr>)"
proof -
  note F = new_message_fresh [OF ok new]
  have mw: "b_middleware (s_broker s1) = []" using F server_okD(2) [OF ok] by simp
  have "well_behaved clock (s_ms s1) (s_broker s1) r"
    by (rule well_behaved_in_place [OF F [THEN conjunct2]]) (simp add: mw)
  from broker_step.publish [OF this pub] show ?thesis
    by (rule new_message_advances [OF ok new _ publish_touches [OF new_message_inv [OF ok new] mw pub]])
qed

lemma produce_advances: "server_ok s \<Longrightarrow> handle_produce e data s = (s', res) \<Longrightarrow> advances s s'"
proof -
  assume ok: "server_ok s" and h: "handle_produce e data s = (s', res)"
  show ?thesis
  proof (cases "s' = s")
    case True
    then show ?thesis using ok by (simp add: advances_refl)
  next
    case False
    then obtain m s1 r ms' b' x where new: "new_message m s = (s1, r)"
        and pub: "broker_publish (e_clock e) (e_now e 1) (s_ms s1, s_broker s1) r = ((ms', b'), x)"
        and s': "s' = s1\<lparr>s_ms := ms', s_broker := b'\<rparr>"
      using h by (auto simp: handle_produce_def Let_def split: sum.splits if_split_asm prod.splits)
    show ?thesis unfolding s' by (rule publish_new_advances [OF ok new pub])
  qed
qed

lemma enqueue_advances: "server_ok s \<Longrightarrow> handle_enqueue e data s = (s', res) \<Longrightarrow> advances s s'"
proof -
  assume ok: "server_ok s" and h: "handle_enqueue e data s = (s', res)"
  show ?thesis
  proof (cases "s' = s")
    case True
    then show ?thesis using ok by (simp add: advances_refl)
  next
    case False
    then obtain m name s1 r ms' b' x where new: "new_message m s = (s1, r)"
        and enq: "broker_enqueue (e_now e 1) name r (s_ms s1, s_broker s1) = ((ms', b'), x)"
        and s': "s' = s1\<lparr>s_ms := ms', s_broker := b'\<rparr>"
      using h by (auto simp: handle_enqueue_def split: sum.splits prod.splits)
    from broker_step.enqueue [OF new_message_fresh [OF ok new, THEN conjunct2] enq] show ?thesis
      unfolding s' by (rule new_message_advances [OF ok new _ enqueue_touches [OF enq]])
  qed
qed

lemma create_topics_advances: "server_ok s \<Longrightarrow> handle_create_topics data s = (s', res) \<Longrightarrow> advances s s'"
proof -
  assume ok: "server_ok s" and h: "handle_create_topics data s = (s', res)"
  have "advances s (s\<lparr>s_broker := b'\<rparr>)" if "create_topic n cfg (s_broker s) = (b', x)" for n cfg b' x
    by (rule advances_step [OF ok broker_step.add_topic [OF that] topic_made_touches
          [OF create_topic_inv [OF server_okD(1) [OF ok] that, THEN conjunct2]]])
  then show ?thesis
    using h ok by (auto simp: handle_create_topics_def Let_def advances_refl split: sum.splits if_split_asm prod.splits)
qed

lemma delete_topics_advances: "server_ok s \<Longrightarrow> handle_delete_topics data s = (s', res) \<Longrightarrow> advances s s'"
proof -
  assume ok: "server_ok s" and h: "handle_delete_topics data s = (s', res)"
  have "advances s (s\<lparr>s_broker := b'\<rparr>)" if "delete_topic n (s_broker s) = (b', x)" for n b' x
    by (rule advances_step [OF ok broker_step.del_topic [OF that] delete_topic_touches [OF server_okD(1) [OF ok] that]])
  moreover have "advances s (s\<lparr>s_broker := s_broker s\<rparr>)" using ok by (simp add: advances_refl)
  ultimately show ?thesis
    using h ok by (auto simp: handle_delete_topics_def advances_refl split: sum.splits option.splits prod.splits)
qed

lemma create_queue_advances: "server_ok s \<Longrightarrow> handle_create_queue data s = (s', res) \<Longrightarrow> advances s s'"
proof -
  assume ok: "server_ok s" and h: "handle_create_queue data s = (s', res)"
  have "advances s (s\<lparr>s_broker := b'\<rparr>)" if "create_queue n k t p (s_broker s) = (b', x)" for n k t p b' x
    by (rule advances_step [OF ok broker_step.add_queue [OF that] create_queue_touches [OF that]])
  then show ?thesis
    using h ok by (auto simp: handle_create_queue_def advances_refl split: sum.splits prod.splits)
qed

lemma put_queue_advances:
  assumes "server_ok s" and "get_queue n (s_broker s) = Some q" and "(\<exists>f. q = Fifo f) = (\<exists>f. q' = Fifo f)"
  shows "advances s (s\<lparr>s_broker := put_queue n q' (s_broker s)\<rparr>)"
  by (rule advances_step [OF assms(1) broker_step.queue_work [OF assms(2,3)] put_queue_touches])

lemma usable_queueD:
  "usable_queue d b = Inr (Some (n, q)) \<Longrightarrow> get_queue n b = Some q \<and> 0 < any_depth q"
  by (auto simp: usable_queue_def lookup_key_def bind_r_def split: json.splits option.splits sum.splits if_split_asm)

lemma any_kind:
  "any_dequeue now1 now2 ms t q = (q', r) \<Longrightarrow> (\<exists>f. q = Fifo f) = (\<exists>f. q' = Fifo f)"
  "any_acknowledge mid q = (q', ok) \<Longrightarrow> (\<exists>f. q = Fifo f) = (\<exists>f. q' = Fifo f)"
  by (auto simp: any_dequeue_def any_acknowledge_def split: any_queue.splits prod.splits)

lemma dequeue_advances: "server_ok s \<Longrightarrow> handle_dequeue e data s = (s', res) \<Longrightarrow> advances s s'"
proof -
  assume ok: "server_ok s" and h: "handle_dequeue e data s = (s', res)"
  have "advances s (s\<lparr>s_broker := put_queue n q' (s_broker s)\<rparr>)"
    if "usable_queue d (s_broker s) = Inr (Some (n, q))" "any_dequeue t1 t2 ms t q = (q', r)" for d n q t1 t2 ms t q' r
    using put_queue_advances [OF ok usable_queueD [OF that(1), THEN conjunct1] any_kind(1) [OF that(2)]] .
  then show ?thesis
    using h ok by (auto simp: handle_dequeue_def bind_r_Inr advances_refl split: sum.splits option.splits prod.splits)
qed

lemma ack_advances: "server_ok s \<Longrightarrow> handle_ack data s = (s', res) \<Longrightarrow> advances s s'"
proof -
  assume ok: "server_ok s" and h: "handle_ack data s = (s', res)"
  have "advances s (s\<lparr>s_broker := put_queue n q' (s_broker s)\<rparr>)"
    if "usable_queue d (s_broker s) = Inr (Some (n, q))" "any_acknowledge i q = (q', r)" for d n q i q' r
    using put_queue_advances [OF ok usable_queueD [OF that(1), THEN conjunct1] any_kind(2) [OF that(2)]] .
  then show ?thesis
    using h ok by (auto simp: handle_ack_def bind_r_Inr advances_refl split: sum.splits option.splits prod.splits)
qed

text \<open>A new consumer object subscribes, in the join request and on the command line.\<close>

lemma subscribe_new_advances:
  assumes ok: "server_ok s" and new: "new_consumer c s = (s1, x)"
    and sub: "broker_subscribe gid tn x (s_broker s1) = (b', err)"
  shows "advances s (s1\<lparr>s_broker := b'\<rparr>)"
proof -
  let ?b = "(s_broker s)\<lparr>b_cs := (b_cs (s_broker s))(x := c)\<rparr>"
  have s1: "s1 = s\<lparr>s_broker := ?b, s_next_consumer := x + 1\<rparr>" and x: "x = s_next_consumer s"
    using new by (auto simp: new_consumer_def Let_def)
  have out: "outsider x (s_broker s)" using server_okD(4) [OF ok] by (simp add: x)
  have one: "broker_step (s_ms s, s_broker s) (s_ms s, ?b)" by (rule broker_step.new_consumer [OF out])
  have "joinable gid x ?b" unfolding joinable_def using outsiderD [OF out] by auto
  from broker_step.subscribe [OF this] sub have two: "broker_step (s_ms s, ?b) (s_ms s, b')" by (simp add: s1)
  have inv: "broker_inv (s_ms s) ?b" by (rule new_consumer_inv [OF server_okD(1) [OF ok] out])
  have "touches {} {x} (s_broker s) ?b" by (rule touches_same) simp_all
  moreover have "touches {} {x} ?b b'" using subscribe_touches [OF inv] sub by (simp add: s1)
  ultimately have "touches {} {x} (s_broker s) b'" by (rule touches_trans)
  moreover have "broker_step\<^sup>*\<^sup>* (s_ms s, s_broker s) (s_ms s, b')"
    using one two by (meson rtranclp.rtrancl_into_rtrancl step_one)
  ultimately have "advances s \<lparr>s_ms = s_ms s, s_next = s_next s, s_broker = b', s_next_consumer = x + 1\<rparr>"
    by (intro advancesI [OF ok]) (auto simp: x)
  moreover have "s1\<lparr>s_broker := b'\<rparr> = \<lparr>s_ms = s_ms s, s_next = s_next s, s_broker = b', s_next_consumer = x + 1\<rparr>"
    by (simp add: s1)
  ultimately show ?thesis by simp
qed

lemma join_advances: "server_ok s \<Longrightarrow> handle_join_group e data (s, seat) = ((s', seat'), res) \<Longrightarrow> advances s s'"
proof -
  assume ok: "server_ok s" and h: "handle_join_group e data (s, seat) = ((s', seat'), res)"
  show ?thesis
  proof (cases "s' = s")
    case True
    then show ?thesis using ok by (simp add: advances_refl)
  next
    case False
    then obtain c s1 x gid tn b' err where new: "new_consumer c s = (s1, x)"
        and sub: "broker_subscribe gid tn x (s_broker s1) = (b', err)" and s': "s' = s1\<lparr>s_broker := b'\<rparr>"
      using h by (auto simp: handle_join_group_def split: sum.splits prod.splits)
    show ?thesis unfolding s' by (rule subscribe_new_advances [OF ok new sub])
  qed
qed

lemma lookup_keyD: "lookup_key get j = Inr (Some y) \<Longrightarrow> \<exists>k. j = JStr k \<and> get k = Some y"
  by (cases j) (simp_all add: lookup_key_def)

lemma leave_advances: "server_ok s \<Longrightarrow> handle_leave_group data (s, seat) = ((s', seat'), res) \<Longrightarrow> advances s s'"
proof -
  assume ok: "server_ok s" and h: "handle_leave_group data (s, seat) = ((s', seat'), res)"
  have adv: "advances s (s\<lparr>s_broker := leave_in g gid cid (s_broker s)\<rparr>)"
    if g: "dict_get (b_groups (s_broker s)) gid = Some g" for g gid cid
  proof -
    obtain cs' g' out where lv: "group_leave (b_ps (s_broker s)) cid (b_cs (s_broker s), g) = ((cs', g'), out)"
      by (metis surj_pair)
    note L = leave_group_inv(2) [OF server_okD(1) [OF ok] g lv]
    have "touches {} {} (s_broker s) (leave_in g gid cid (s_broker s))"
      using L g by (auto simp: touches_def outsider_def leave_in_def lv)
    moreover have "broker_step (s_ms s, s_broker s) (s_ms s, leave_in g gid cid (s_broker s))"
      using broker_step.leave [OF g lv] by (simp add: leave_in_def lv)
    ultimately show ?thesis by (intro advances_step [OF ok])
  qed
  have found: "dict_get (b_groups (s_broker s)) gid = Some g"
    if "bind_r (as_object data) (\<lambda>d. lookup_key (\<lambda>gid. map_option (\<lambda>g. (gid, g)) (get_consumer_group gid (s_broker s)))
          (field d ''group_id'' (JStr []))) = Inr (Some (gid, g))" for gid g
    using that by (auto simp: bind_r_Inr get_consumer_group_def dest!: lookup_keyD)
  show ?thesis
    using h ok by (auto simp: handle_leave_group_def advances_refl intro!: adv dest: found
        split: sum.splits option.splits prod.splits)
qed

lemma commit_work:
  assumes "only_commits (b_ps b) ps'" and "c_id c' = c_id (b_cs b x)" and "c_assigned c' = c_assigned (b_cs b x)"
  shows "broker_step (ms, b) (ms, b\<lparr>b_ps := ps', b_cs := (b_cs b)(x := c')\<rparr>)"
proof (rule broker_step.work)
  show "consumer_work b (b\<lparr>b_ps := ps', b_cs := (b_cs b)(x := c')\<rparr>)"
    unfolding consumer_work_def using assms
    by (intro exI [of _ ps'] exI [of _ "(b_cs b)(x := c')"]) simp
qed

lemma commit_advances: "server_ok s \<Longrightarrow> handle_offset_commit e (s, seat) = ((s', seat'), res) \<Longrightarrow> advances s s'"
proof -
  assume ok: "server_ok s" and h: "handle_offset_commit e (s, seat) = ((s', seat'), res)"
  show ?thesis
  proof (cases seat)
    case None
    then show ?thesis using h ok by (auto simp: handle_offset_commit_def advances_refl)
  next
    case (Some x)
    obtain ps' c' d where cm: "do_commit (e_now e 0) (b_ps (s_broker s)) (b_cs (s_broker s) x) = ((ps', c'), d)"
      by (metis surj_pair)
    have s': "s' = s\<lparr>s_broker := (s_broker s)\<lparr>b_ps := ps', b_cs := (b_cs (s_broker s))(x := c')\<rparr>\<rparr>"
      using h by (auto simp: handle_offset_commit_def Some consumer_commit_def cm)
    show ?thesis
      unfolding s' using do_commit_consumer [OF cm]
      by (intro advances_step [OF ok] commit_work commits_touch) simp_all
  qed
qed

lemma cleanup_advances: "server_ok s \<Longrightarrow> advances s (cleanup now (s, c))"
proof -
  assume ok: "server_ok s"
  show ?thesis
  proof (cases "cl_seat c")
    case None
    then show ?thesis using ok by (simp add: cleanup_def advances_refl)
  next
    case (Some x)
    obtain ps' c' d where cm: "do_commit now (b_ps (s_broker s)) (b_cs (s_broker s) x) = ((ps', c'), d)"
      by (metis surj_pair)
    have s': "cleanup now (s, c) = s\<lparr>s_broker := (s_broker s)\<lparr>b_ps := ps',
        b_cs := (b_cs (s_broker s))(x := c'\<lparr>c_active := False\<rparr>)\<rparr>\<rparr>"
      by (simp add: cleanup_def Some consumer_close_def cm Let_def)
    show ?thesis
      unfolding s' using do_commit_consumer [OF cm]
      by (intro advances_step [OF ok] commit_work commits_touch) simp_all
  qed
qed

subsection \<open>Whole connections\<close>

lemma seated_advances:
  assumes "\<And>s' res. f s = (s', res) \<Longrightarrow> advances s s'" and "seated f (s, seat) = ((s', seat'), res)"
  shows "advances s s'"
  using assms by (auto simp: seated_def split: prod.splits)

lemma handler_advances:
  assumes ok: "server_ok s" and "handler_for cd e data k = Some h" and "h (s, seat) = ((s', seat'), res)"
  shows "advances s s'"
proof -
  note hs = produce_advances enqueue_advances create_topics_advances delete_topics_advances
    create_queue_advances dequeue_advances ack_advances join_advances leave_advances commit_advances
  show ?thesis
    using ok assms(2,3)
    by (cases k)
      (auto simp: seated_def handle_offset_fetch_def handle_fetch_def handle_metadata_def handle_list_groups_def
        handle_heartbeat_def handle_metrics_def Let_def intro: hs advances_refl split: prod.splits option.splits)
qed

lemma dispatch_advances:
  assumes "server_ok s" and "dispatch cd e f (s, c) = ((s', c'), res)"
  shows "advances s s'"
proof (cases "\<exists>payload h. load_payload (loads cd) (f_payload f) = Inr payload
    \<and> handler_for cd e payload (f_api_key f) = Some h")
  case True
  then obtain payload h where l: "load_payload (loads cd) (f_payload f) = Inr payload"
    and h: "handler_for cd e payload (f_api_key f) = Some h" by blast
  obtain s1 seat r where r: "h (s, cl_seat c) = ((s1, seat), r)" by (metis surj_pair)
  have "s' = s1" using assms(2) by (auto simp: dispatch_def l h r split: sum.splits prod.splits)
  with handler_advances [OF assms(1) h r] show ?thesis by simp
next
  case False
  then have "s' = s"
    using assms(2) by (auto simp: dispatch_def split: sum.splits prod.splits if_split_asm option.splits)
  with assms(1) show ?thesis by (simp add: advances_refl)
qed

lemma serve_loop_advances:
  "serve_buffer_loop cd envs n i (s, c) = (((s', c'), i'), res) \<Longrightarrow> server_ok s \<Longrightarrow> advances s s'"
proof (induction n arbitrary: i s c)
  case 0
  then show ?case by (simp add: advances_refl)
next
  case (Suc n)
  show ?case
  proof (cases "\<exists>f rest. read_from_buffer (cl_buffer c) = Inr (Some f, rest)")
    case True
    then obtain f rest where rd: "read_from_buffer (cl_buffer c) = Inr (Some f, rest)" by blast
    obtain s1 c1 r where d: "dispatch cd (envs i) f (s, c\<lparr>cl_buffer := rest\<rparr>) = ((s1, c1), r)" by (metis surj_pair)
    note a = dispatch_advances [OF Suc.prems(2) d]
    show ?thesis
    proof (cases r)
      case (Inl x)
      with Suc.prems(1) rd d a show ?thesis by auto
    next
      case (Inr u)
      with Suc.prems(1) rd d have "serve_buffer_loop cd envs n (i + 1) (s1, c1) = (((s', c'), i'), res)" by simp
      from Suc.IH [OF this] a show ?thesis by (auto simp: advances_def)
    qed
  next
    case False
    then have "s' = s" using Suc.prems(1) by (auto split: sum.splits option.splits)
    with Suc.prems(2) show ?thesis by (simp add: advances_refl)
  qed
qed

lemma receive_advances:
  "receive_loop cd envs chunks i (s, c) = ((s', c'), i') \<Longrightarrow> server_ok s \<Longrightarrow> advances s s'"
proof (induction chunks arbitrary: i s c)
  case Nil
  then show ?case by (simp add: advances_refl)
next
  case (Cons data rest)
  obtain s1 c1 i1 r where one: "serve_buffer cd envs i (s, c\<lparr>cl_buffer := cl_buffer c @ data\<rparr>) = (((s1, c1), i1), r)"
    by (metis surj_pair)
  have a: "advances s s1" using serve_loop_advances [OF one [unfolded serve_buffer_def]] Cons.prems(2) by simp
  show ?case
  proof (cases "\<not> cl_active c \<or> data = [] \<or> (\<exists>x. r = Inl x)")
    case True
    then show ?thesis using Cons.prems one a by (auto simp: advances_refl split: if_split_asm)
  next
    case False
    then have "receive_loop cd envs rest i1 (s1, c1) = ((s', c'), i')"
      using Cons.prems(1) one by (cases r) auto
    from Cons.IH [OF this] a show ?thesis by (auto simp: advances_def)
  qed
qed

lemma handle_advances:
  assumes "server_ok s" and "handle cd envs now chunks (s, c) = (s', sent)"
  shows "advances s s'"
proof -
  obtain s1 c1 i where r: "receive_loop cd envs chunks 0 (s, c) = ((s1, c1), i)" by (metis surj_pair)
  have a: "advances s s1" by (rule receive_advances [OF r assms(1)])
  then have "server_ok s1" by (simp add: advances_def)
  from cleanup_advances [OF this] have "advances s1 (cleanup now (s1, c1))" .
  with a have "advances s (cleanup now (s1, c1))" by (rule advances_trans)
  then show ?thesis using assms(2) r by (simp add: handle_def)
qed

subsection \<open>Front ends\<close>

text \<open>
  The contract of everything that offers the broker to the outside, connections or commands: each
  step moves the broker by operations of its own and keeps the counters of new objects fresh. Then
  so does every run.
\<close>

locale front_end =
  fixes step :: "'st \<Rightarrow> 'st \<Rightarrow> bool" and server_of :: "'st \<Rightarrow> server"
  assumes step_advances: "server_ok (server_of st) \<Longrightarrow> step st st' \<Longrightarrow> advances (server_of st) (server_of st')"
begin

lemma run_advances: "step\<^sup>*\<^sup>* st st' \<Longrightarrow> server_ok (server_of st) \<Longrightarrow> advances (server_of st) (server_of st')"
proof (induction rule: rtranclp_induct)
  case base
  then show ?case by (rule advances_refl)
next
  case (step st1 st2)
  then have one: "advances (server_of st) (server_of st1)" by simp
  then have "server_ok (server_of st1)" by (simp add: advances_def)
  from advances_trans [OF one step_advances [OF this step(2)]] show ?case .
qed

end

end
