(* ===== verification/Server_Ops.thy ===== *)
theory Server_Ops
  imports Server_Run Broker_Ops
begin

section \<open>What each request does to the broker\<close>

text \<open>
  Which operations of the broker a request asks for, given by its key and payload and written apart from
  the handlers: a request that reads, or that is refused before it reaches the broker, asks for
  none. \<open>serves_ops\<close> is that serving it did exactly those, each under its condition. Together with
  \<open>advances\<close> (which it implies) this is what the front ends are shown to do.
\<close>

subsection \<open>The requests\<close>

fun str_of :: "json \<Rightarrow> string option" where
  "str_of (JStr s) = Some s"
| "str_of _ = None"

fun int_of :: "json \<Rightarrow> int option" where
  "int_of (JInt i) = Some i"
| "int_of _ = None"

definition str_field :: "(string, json) dict \<Rightarrow> string \<Rightarrow> string option" where
  "str_field d k = str_of (field d k (JStr []))"

definition int_field :: "(string, json) dict \<Rightarrow> string \<Rightarrow> int \<Rightarrow> int option" where
  "int_field d k i = int_of (field d k (JInt i))"

definition produce_ops :: "env \<Rightarrow> (string, json) dict \<Rightarrow> server \<Rightarrow> broker_op list" where
  "produce_ops e d s =
     (case (str_field d ''topic'', str_field d ''value'', as_str_opt (field d ''key'' JNull),
            as_headers (field d ''headers'' (JDict []))) of
        (Some tn, Some v, Inr key, Inr hdrs) \<Rightarrow>
          if tn = [] then []
          else [Op_New_Message (s_next s) (message_new (e_id e) (e_now e 0) tn (utf8_encode v) key hdrs),
                Op_Publish (e_clock e) (e_now e 1) (s_next s)]
      | _ \<Rightarrow> [])"

definition enqueue_ops :: "env \<Rightarrow> (string, json) dict \<Rightarrow> server \<Rightarrow> broker_op list" where
  "enqueue_ops e d s =
     (case (str_field d ''queue'', str_field d ''value'', as_str_opt (field d ''key'' JNull), int_field d ''priority'' 0) of
        (Some name, Some v, Inr key, Some prio) \<Rightarrow>
          [Op_New_Message (s_next s)
             ((message_new (e_id e) (e_now e 0) name (utf8_encode v) key [])\<lparr>m_priority := prio\<rparr>),
           Op_Enqueue (e_now e 1) name (s_next s)]
      | _ \<Rightarrow> [])"

definition has_waiting :: "string \<Rightarrow> broker \<Rightarrow> bool" where
  "has_waiting name b = (case get_queue name b of Some q \<Rightarrow> any_depth q > 0 | None \<Rightarrow> False)"

definition dequeue_ops :: "env \<Rightarrow> (string, json) dict \<Rightarrow> server \<Rightarrow> broker_op list" where
  "dequeue_ops e d s =
     (case str_field d ''queue'' of
        Some name \<Rightarrow> if has_waiting name (s_broker s) then [Op_Dequeue name (e_now e 0) (e_now e 1)] else []
      | None \<Rightarrow> [])"

definition ack_ops :: "(string, json) dict \<Rightarrow> server \<Rightarrow> broker_op list" where
  "ack_ops d s =
     (case (str_field d ''queue'', str_field d ''message_id'') of
        (Some name, Some mid) \<Rightarrow> if has_waiting name (s_broker s) then [Op_Acknowledge name mid] else []
      | _ \<Rightarrow> [])"

definition create_topics_ops :: "(string, json) dict \<Rightarrow> broker_op list" where
  "create_topics_ops d =
     (case (str_field d ''name'', int_field d ''partitions'' 4) of
        (Some n, Some k) \<Rightarrow> if n = [] then [] else [Op_Create_Topic n (Some (default_topic_config\<lparr>num_partitions := k\<rparr>))]
      | _ \<Rightarrow> [])"

definition create_queue_ops :: "(string, json) dict \<Rightarrow> broker_op list" where
  "create_queue_ops d =
     (case (str_field d ''name'', int_field d ''max_size'' 0) of
        (Some n, Some k) \<Rightarrow> [Op_Create_Queue n k 30 (truthy (field d ''priority'' (JBool False)))]
      | _ \<Rightarrow> [])"

definition delete_topics_ops :: "(string, json) dict \<Rightarrow> broker_op list" where
  "delete_topics_ops d = (case str_field d ''name'' of Some n \<Rightarrow> [Op_Delete_Topic n] | None \<Rightarrow> [])"

definition join_ops :: "env \<Rightarrow> (string, json) dict \<Rightarrow> server \<Rightarrow> broker_op list" where
  "join_ops e d s =
     (case (chosen_id e (field d ''consumer_id'' JNull), str_field d ''group_id'', str_field d ''topic'') of
        (Inr cid, Some gid, Some tn) \<Rightarrow>
          [Op_New_Consumer (s_next_consumer s) (consumer_new cid default_consumer_config (e_now e 0) (e_now e 1)),
           Op_Subscribe gid tn (s_next_consumer s)]
      | _ \<Rightarrow> [])"

definition leave_ops :: "(string, json) dict \<Rightarrow> server \<Rightarrow> seat \<Rightarrow> broker_op list" where
  "leave_ops d s seat =
     (case (str_field d ''group_id'', seat) of
        (Some gid, Some x) \<Rightarrow> [Op_Leave gid (c_id (b_cs (s_broker s) x))]
      | _ \<Rightarrow> [])"

definition commit_ops :: "env \<Rightarrow> seat \<Rightarrow> broker_op list" where
  "commit_ops e seat = (case seat of Some x \<Rightarrow> [Op_Commit x (e_now e 0)] | None \<Rightarrow> [])"

text \<open>A payload that is no object asks for nothing; a commit does not look at its payload.\<close>

fun object_ops :: "env \<Rightarrow> api_key \<Rightarrow> (string, json) dict \<Rightarrow> server \<Rightarrow> seat \<Rightarrow> broker_op list" where
  "object_ops e PRODUCE d s seat = produce_ops e d s"
| "object_ops e CREATE_TOPICS d s seat = create_topics_ops d"
| "object_ops e DELETE_TOPICS d s seat = delete_topics_ops d"
| "object_ops e JOIN_GROUP d s seat = join_ops e d s"
| "object_ops e LEAVE_GROUP d s seat = leave_ops d s seat"
| "object_ops e CREATE_QUEUE d s seat = create_queue_ops d"
| "object_ops e ENQUEUE d s seat = enqueue_ops e d s"
| "object_ops e DEQUEUE d s seat = dequeue_ops e d s"
| "object_ops e ACK d s seat = ack_ops d s"
| "object_ops e _ d s seat = []"

definition request_ops :: "env \<Rightarrow> api_key \<Rightarrow> json \<Rightarrow> server \<Rightarrow> seat \<Rightarrow> broker_op list" where
  "request_ops e k data s seat =
     (if k = OFFSET_COMMIT then commit_ops e seat
      else (case data of JDict d \<Rightarrow> object_ops e k d s seat | _ \<Rightarrow> []))"

definition frame_ops :: "codec \<Rightarrow> env \<Rightarrow> frame \<Rightarrow> server \<Rightarrow> seat \<Rightarrow> broker_op list" where
  "frame_ops cd e f s seat =
     (case load_payload (loads cd) (f_payload f) of
        Inl _ \<Rightarrow> []
      | Inr data \<Rightarrow> request_ops e (f_api_key f) data s seat)"

text \<open>When a connection ends its consumer is closed.\<close>

definition close_ops :: "real \<Rightarrow> seat \<Rightarrow> broker_op list" where
  "close_ops now seat = (case seat of Some x \<Rightarrow> [Op_Close x now] | None \<Rightarrow> [])"

definition state_of :: "server \<Rightarrow> mstore \<times> broker" where
  "state_of s = (s_ms s, s_broker s)"

definition serves_ops :: "broker_op list \<Rightarrow> server \<Rightarrow> server \<Rightarrow> bool" where
  "serves_ops xs s s' \<longleftrightarrow> all_allowed xs (state_of s) \<and> state_of s' = perform_all xs (state_of s)"

lemma serves_none: "serves_ops [] s s"
  by (simp add: serves_ops_def)

subsection \<open>The handlers\<close>

text \<open>How the fields are read, in the handlers and above.\<close>

lemma str_of_conv: "str_of j = Some x \<longleftrightarrow> j = JStr x" "str_of j = None \<longleftrightarrow> (\<forall>x. j \<noteq> JStr x)"
  by (cases j; simp)+

lemma int_of_conv: "int_of j = Some i \<longleftrightarrow> j = JInt i" "int_of j = None \<longleftrightarrow> (\<forall>i. j \<noteq> JInt i)"
  by (cases j; simp)+

lemma as_str_of: "as_str j = (case str_of j of Some x \<Rightarrow> Inr x | None \<Rightarrow> Inl IllTyped)"
  by (cases j) simp_all

lemma as_int_of: "as_int j = (case int_of j of Some x \<Rightarrow> Inr x | None \<Rightarrow> Inl IllTyped)"
  by (cases j) simp_all

lemma encoded_of: "encoded j = (case str_of j of Some x \<Rightarrow> Inr (utf8_encode x) | None \<Rightarrow> Inl AttributeError)"
  by (cases j) (simp_all add: encoded_def)

lemma truthy_of: "str_of j = Some x \<Longrightarrow> truthy j = (x \<noteq> [])"
  by (cases j) simp_all

lemmas reads = as_str_of as_int_of encoded_of str_field_def int_field_def bind_r_def as_object_def

lemma put_queue_state: "state_of (s\<lparr>s_broker := b\<rparr>) = (s_ms s, b)"
  by (simp add: state_of_def)

lemma publish_new_serves:
  assumes ok: "server_ok s" and new: "new_message m s = (s1, r)"
    and pub: "broker_publish clock now (s_ms s1, s_broker s1) r = ((ms', b'), x)"
  shows "serves_ops [Op_New_Message (s_next s) m, Op_Publish clock now (s_next s)] s (s1\<lparr>s_ms := ms', s_broker := b'\<rparr>)"
proof -
  note F = new_message_fresh [OF ok new]
  have s1: "s_ms s1 = (s_ms s)(s_next s := m)" "s_broker s1 = s_broker s" "r = s_next s"
    using new by (auto simp: new_message_def)
  have "well_behaved clock (s_ms s1) (s_broker s) (s_next s)"
    using F server_okD(2) [OF ok] unfolding s1 by (intro well_behaved_in_place) simp_all
  then show ?thesis using F pub by (simp add: serves_ops_def state_of_def s1)
qed

lemma produce_serves:
  assumes "server_ok s" and "handle_produce e (JDict d) s = (s', res)"
  shows "serves_ops (produce_ops e d s) s s'"
proof -
  let ?t = "field d ''topic'' (JStr [])" and ?v = "field d ''value'' (JStr [])"
  let ?k = "as_str_opt (field d ''key'' JNull)" and ?h = "as_headers (field d ''headers'' (JDict []))"
  show ?thesis
  proof (cases "\<exists>tn v key hdrs. str_of ?t = Some tn \<and> tn \<noteq> [] \<and> str_of ?v = Some v \<and> ?k = Inr key \<and> ?h = Inr hdrs")
    case True
    then obtain tn v key hdrs where f: "str_of ?t = Some tn" "tn \<noteq> []" "str_of ?v = Some v" "?k = Inr key" "?h = Inr hdrs"
      by blast
    let ?m = "message_new (e_id e) (e_now e 0) tn (utf8_encode v) key hdrs"
    obtain s1 r where new: "new_message ?m s = (s1, r)" by (metis surj_pair)
    obtain ms' b' x where pub: "broker_publish (e_clock e) (e_now e 1) (s_ms s1, s_broker s1) r = ((ms', b'), x)"
      by (metis surj_pair)
    have "s' = s1\<lparr>s_ms := ms', s_broker := b'\<rparr>"
      using assms(2) f new pub truthy_of [OF f(1)] by (simp add: handle_produce_def reads)
    moreover have "produce_ops e d s = [Op_New_Message (s_next s) ?m, Op_Publish (e_clock e) (e_now e 1) (s_next s)]"
      using f by (simp add: produce_ops_def reads)
    ultimately show ?thesis using publish_new_serves [OF assms(1) new pub] by simp
  next
    case False
    then have "produce_ops e d s = []"
      by (auto simp: produce_ops_def reads split: option.split sum.split)
    moreover have "s' = s"
      using assms(2) False truthy_of [of ?t]
      by (auto simp: handle_produce_def reads Let_def split: option.splits sum.splits if_split_asm prod.splits)
    ultimately show ?thesis by (simp add: serves_none)
  qed
qed

lemma enqueue_serves:
  assumes "server_ok s" and "handle_enqueue e (JDict d) s = (s', res)"
  shows "serves_ops (enqueue_ops e d s) s s'"
proof -
  let ?q = "field d ''queue'' (JStr [])" and ?v = "field d ''value'' (JStr [])"
  let ?k = "as_str_opt (field d ''key'' JNull)" and ?p = "field d ''priority'' (JInt 0)"
  show ?thesis
  proof (cases "\<exists>n v key p. str_of ?q = Some n \<and> str_of ?v = Some v \<and> ?k = Inr key \<and> int_of ?p = Some p")
    case True
    then obtain n v key p where f: "str_of ?q = Some n" "str_of ?v = Some v" "?k = Inr key" "int_of ?p = Some p"
      by blast
    let ?m = "(message_new (e_id e) (e_now e 0) n (utf8_encode v) key [])\<lparr>m_priority := p\<rparr>"
    obtain s1 r where new: "new_message ?m s = (s1, r)" by (metis surj_pair)
    obtain ms' b' x where enq: "broker_enqueue (e_now e 1) n r (s_ms s1, s_broker s1) = ((ms', b'), x)"
      by (metis surj_pair)
    have s1: "s_ms s1 = (s_ms s)(s_next s := ?m)" "s_broker s1 = s_broker s" "r = s_next s"
      using new by (auto simp: new_message_def)
    have "s' = s1\<lparr>s_ms := ms', s_broker := b'\<rparr>"
      using assms(2) f new enq by (simp add: handle_enqueue_def reads)
    moreover have "enqueue_ops e d s = [Op_New_Message (s_next s) ?m, Op_Enqueue (e_now e 1) n (s_next s)]"
      using f by (simp add: enqueue_ops_def reads)
    ultimately show ?thesis
      using new_message_fresh [OF assms(1) new] enq by (simp add: serves_ops_def state_of_def s1)
  next
    case False
    then have "enqueue_ops e d s = []"
      by (auto simp: enqueue_ops_def reads split: option.split sum.split)
    moreover have "s' = s"
      using assms(2) False
      by (auto simp: handle_enqueue_def reads split: option.splits sum.splits prod.splits)
    ultimately show ?thesis by (simp add: serves_none)
  qed
qed


lemma lookup_key_of: "lookup_key get j = (case str_of j of Some x \<Rightarrow> Inr (get x)
    | None \<Rightarrow> case j of JList _ \<Rightarrow> Inl TypeError | JDict _ \<Rightarrow> Inl TypeError | _ \<Rightarrow> Inr None)"
  by (cases j) (simp_all add: lookup_key_def)

lemma usable_queue_of:
  "str_field d ''queue'' = Some n \<Longrightarrow>
     usable_queue d b = Inr (if has_waiting n b then map_option (\<lambda>q. (n, q)) (get_queue n b) else None)"
  "str_field d ''queue'' = None \<Longrightarrow> usable_queue d b = Inr None \<or> (\<exists>x. usable_queue d b = Inl x)"
  by (auto simp: usable_queue_def lookup_key_of reads has_waiting_def split: option.split json.split)

lemma dequeue_serves:
  assumes "handle_dequeue e (JDict d) s = (s', res)"
  shows "serves_ops (dequeue_ops e d s) s s'"
proof (cases "\<exists>n. str_field d ''queue'' = Some n \<and> has_waiting n (s_broker s)")
  case True
  then obtain n where n: "str_field d ''queue'' = Some n" "has_waiting n (s_broker s)" by blast
  then obtain q where q: "get_queue n (s_broker s) = Some q" by (auto simp: has_waiting_def split: option.splits)
  obtain q' r where deq: "any_dequeue (e_now e 0) (e_now e 1) (s_ms s) None q = (q', r)" by (metis surj_pair)
  have "s' = s\<lparr>s_broker := put_queue n q' (s_broker s)\<rparr>"
    using assms usable_queue_of(1) [OF n(1)] n(2) q deq by (simp add: handle_dequeue_def as_object_def bind_r_def)
  then show ?thesis using n q deq by (simp add: serves_ops_def dequeue_ops_def state_of_def on_named_queue_def)
next
  case False
  then have "usable_queue d (s_broker s) = Inr None \<or> (\<exists>x. usable_queue d (s_broker s) = Inl x)"
    using usable_queue_of [of d] by (cases "str_field d ''queue''") auto
  then have "s' = s" using assms by (auto simp: handle_dequeue_def as_object_def bind_r_def)
  moreover have "dequeue_ops e d s = []" using False by (simp add: dequeue_ops_def split: option.split)
  ultimately show ?thesis by (simp add: serves_none)
qed

lemma ack_serves:
  assumes "handle_ack (JDict d) s = (s', res)"
  shows "serves_ops (ack_ops d s) s s'"
proof (cases "\<exists>n mid. str_field d ''queue'' = Some n \<and> has_waiting n (s_broker s) \<and> str_field d ''message_id'' = Some mid")
  case True
  then obtain n mid where n: "str_field d ''queue'' = Some n" "has_waiting n (s_broker s)"
    and mid: "str_field d ''message_id'' = Some mid" by blast
  then obtain q where q: "get_queue n (s_broker s) = Some q" by (auto simp: has_waiting_def split: option.splits)
  obtain q' r where ack: "any_acknowledge mid q = (q', r)" by (metis surj_pair)
  have "lookup_key Some (field d ''message_id'' (JStr [])) = Inr (Some mid)"
    using mid by (simp add: lookup_key_of str_field_def)
  then have "s' = s\<lparr>s_broker := put_queue n q' (s_broker s)\<rparr>"
    using assms usable_queue_of(1) [OF n(1)] n(2) q ack by (simp add: handle_ack_def as_object_def bind_r_def)
  moreover have "q' = acknowledged mid q" using acknowledge_is_acknowledged [of mid q] ack by simp
  ultimately show ?thesis using n mid q by (simp add: serves_ops_def ack_ops_def state_of_def on_named_queue_def)
next
  case False
  have "s' = s"
  proof (cases "str_field d ''queue''")
    case None
    then show ?thesis using assms usable_queue_of(2) [of d "s_broker s"] by (auto simp: handle_ack_def as_object_def bind_r_def)
  next
    case (Some n)
    note u = usable_queue_of(1) [OF Some, of "s_broker s"]
    show ?thesis
    proof (cases "has_waiting n (s_broker s)")
      case True
      then have "str_of (field d ''message_id'' (JStr [])) = None"
        using False Some by (cases "str_of (field d ''message_id'' (JStr []))") (auto simp: str_field_def)
      then show ?thesis
        using assms u by (auto simp: handle_ack_def as_object_def bind_r_def lookup_key_of
            split: option.splits json.splits if_split_asm)
    next
      case False
      then show ?thesis using assms u by (simp add: handle_ack_def as_object_def bind_r_def)
    qed
  qed
  moreover have "ack_ops d s = []" using False by (auto simp: ack_ops_def split: option.split)
  ultimately show ?thesis by (simp add: serves_none)
qed

lemma create_topics_serves:
  assumes "handle_create_topics (JDict d) s = (s', res)"
  shows "serves_ops (create_topics_ops d) s s'"
  using assms truthy_of [of "field d ''name'' (JStr [])"]
  by (auto simp: handle_create_topics_def create_topics_ops_def reads Let_def serves_ops_def state_of_def
      split: option.splits if_split_asm prod.splits sum.splits)

lemma delete_topics_serves:
  assumes "handle_delete_topics (JDict d) s = (s', res)"
  shows "serves_ops (delete_topics_ops d) s s'"
  using assms
  by (auto simp: handle_delete_topics_def delete_topics_ops_def reads lookup_key_of serves_ops_def state_of_def
      split: option.splits prod.splits json.splits)

lemma create_queue_serves:
  assumes "handle_create_queue (JDict d) s = (s', res)"
  shows "serves_ops (create_queue_ops d) s s'"
  using assms
  by (auto simp: handle_create_queue_def create_queue_ops_def reads serves_ops_def state_of_def
      split: option.splits prod.splits sum.splits)

lemma subscribe_new_serves:
  assumes ok: "server_ok s" and new: "new_consumer c s = (s1, x)"
    and sub: "broker_subscribe gid tn x (s_broker s1) = (b', err)"
  shows "serves_ops [Op_New_Consumer (s_next_consumer s) c, Op_Subscribe gid tn (s_next_consumer s)] s (s1\<lparr>s_broker := b'\<rparr>)"
proof -
  let ?b = "(s_broker s)\<lparr>b_cs := (b_cs (s_broker s))(s_next_consumer s := c)\<rparr>"
  have s1: "s_broker s1 = ?b" "s_ms s1 = s_ms s" "x = s_next_consumer s"
    using new by (auto simp: new_consumer_def Let_def)
  have out: "outsider (s_next_consumer s) (s_broker s)" by (rule server_okD(4) [OF ok])
  have "joinable gid (s_next_consumer s) ?b" unfolding joinable_def using outsiderD [OF out] by auto
  then show ?thesis using out sub by (simp add: serves_ops_def state_of_def s1)
qed

lemma join_serves:
  assumes "server_ok s" and "handle_join_group e (JDict d) (s, seat) = ((s', seat'), res)"
  shows "serves_ops (join_ops e d s) s s'"
proof (cases "\<exists>cid gid tn. chosen_id e (field d ''consumer_id'' JNull) = Inr cid \<and> str_field d ''group_id'' = Some gid
    \<and> str_field d ''topic'' = Some tn")
  case True
  then obtain cid gid tn where f: "chosen_id e (field d ''consumer_id'' JNull) = Inr cid"
      "str_field d ''group_id'' = Some gid" "str_field d ''topic'' = Some tn" by blast
  let ?c = "consumer_new cid default_consumer_config (e_now e 0) (e_now e 1)"
  obtain s1 x where new: "new_consumer ?c s = (s1, x)" by (metis surj_pair)
  obtain b' err where sub: "broker_subscribe gid tn x (s_broker s1) = (b', err)" by (metis surj_pair)
  have "s' = s1\<lparr>s_broker := b'\<rparr>"
    using assms(2) f new sub by (auto simp: handle_join_group_def reads split: sum.splits)
  then show ?thesis using subscribe_new_serves [OF assms(1) new sub] f by (simp add: join_ops_def)
next
  case False
  then have "join_ops e d s = []" by (auto simp: join_ops_def split: option.split sum.split)
  moreover have "s' = s"
    using assms(2) False by (auto simp: handle_join_group_def reads split: sum.splits option.splits prod.splits)
  ultimately show ?thesis by (simp add: serves_none)
qed

lemma leave_serves:
  assumes "handle_leave_group (JDict d) (s, seat) = ((s', seat'), res)"
  shows "serves_ops (leave_ops d s seat) s s'"
  using assms
  by (auto simp: handle_leave_group_def leave_ops_def reads lookup_key_of serves_ops_def state_of_def
      split: option.splits json.splits)

lemma commit_serves:
  assumes "handle_offset_commit e (s, seat) = ((s', seat'), res)"
  shows "serves_ops (commit_ops e seat) s s'"
proof (cases seat)
  case None
  then show ?thesis using assms by (simp add: handle_offset_commit_def commit_ops_def serves_none)
next
  case (Some x)
  obtain ps' c' d where cm: "do_commit (e_now e 0) (b_ps (s_broker s)) (b_cs (s_broker s) x) = ((ps', c'), d)"
    by (metis surj_pair)
  from commit_is_committed [OF cm] show ?thesis
    using assms cm Some
    by (auto simp: handle_offset_commit_def consumer_commit_def commit_ops_def serves_ops_def state_of_def on_consumer_def)
qed

subsection \<open>Frames\<close>

lemma seatedD: "seated f (s, seat) = ((s', seat'), res) \<Longrightarrow> f s = (s', res)"
  by (auto simp: seated_def split: prod.splits)

lemma no_object: "(\<forall>d. data \<noteq> JDict d) \<Longrightarrow> as_object data = Inl AttributeError"
  by (cases data) (simp_all add: as_object_def)

text \<open>A handler whose payload is no object leaves the state alone, a commit apart.\<close>

lemma no_object_serves:
  assumes "handler_for cd e data k = Some h" "h (s, seat) = ((s', seat'), res)"
    and "\<forall>d. data \<noteq> JDict d" "k \<noteq> OFFSET_COMMIT"
  shows "s' = s"
  using assms(1,2,4) no_object [OF assms(3)]
  by (cases k)
    (auto dest!: seatedD simp: handle_produce_def handle_fetch_def handle_metadata_def handle_create_topics_def
      handle_delete_topics_def handle_list_groups_def handle_join_group_def handle_leave_group_def
      handle_offset_fetch_def handle_heartbeat_def handle_create_queue_def handle_enqueue_def handle_dequeue_def
      handle_ack_def handle_metrics_def bind_r_def Let_def split: option.splits)

lemma handler_serves:
  assumes "server_ok s" and "handler_for cd e data k = Some h" and "h (s, seat) = ((s', seat'), res)"
  shows "serves_ops (request_ops e k data s seat) s s'"
proof (cases "k = OFFSET_COMMIT")
  case True
  with assms(2,3) show ?thesis by (simp add: request_ops_def commit_serves)
next
  case False
  show ?thesis
  proof (cases "\<exists>d. data = JDict d")
    case True
    then obtain d where d: "data = JDict d" by blast
    note hs = produce_serves [OF assms(1)] enqueue_serves [OF assms(1)] dequeue_serves ack_serves create_topics_serves
      delete_topics_serves create_queue_serves join_serves [OF assms(1)] leave_serves
    show ?thesis
      using assms(2,3) False unfolding d
      by (cases k)
        (auto dest!: seatedD simp: request_ops_def handle_offset_fetch_def handle_fetch_def handle_metadata_def
          handle_list_groups_def handle_heartbeat_def handle_metrics_def Let_def serves_none intro: hs
          split: option.splits)
  next
    case False
    then have "s' = s" using no_object_serves [OF assms(2,3)] \<open>k \<noteq> OFFSET_COMMIT\<close> by blast
    moreover have "request_ops e k data s seat = []"
      using False \<open>k \<noteq> OFFSET_COMMIT\<close> by (auto simp: request_ops_def split: json.split)
    ultimately show ?thesis by (simp add: serves_none)
  qed
qed

lemma no_handler: "handler_for cd e data k = None \<Longrightarrow> request_ops e k data s seat = []"
  by (cases k) (auto simp: request_ops_def split: json.split)

lemma dispatch_serves:
  assumes "server_ok s" and "dispatch cd e f (s, c) = ((s', c'), res)"
  shows "serves_ops (frame_ops cd e f s (cl_seat c)) s s'"
proof (cases "load_payload (loads cd) (f_payload f)")
  case (Inl x)
  then have "s' = s" using assms(2) by (auto simp: dispatch_def split: prod.splits if_split_asm)
  with Inl show ?thesis by (simp add: frame_ops_def serves_none)
next
  case (Inr data)
  show ?thesis
  proof (cases "handler_for cd e data (f_api_key f)")
    case None
    then have "s' = s" using assms(2) Inr by (auto simp: dispatch_def split: prod.splits)
    with Inr None show ?thesis by (simp add: frame_ops_def serves_none no_handler)
  next
    case (Some h)
    obtain s1 seat r where h: "h (s, cl_seat c) = ((s1, seat), r)" by (metis surj_pair)
    have "s' = s1" using assms(2) by (auto simp: dispatch_def Inr Some h split: sum.splits prod.splits)
    with handler_serves [OF assms(1) Some h] Inr show ?thesis by (simp add: frame_ops_def)
  qed
qed

lemma cleanup_serves: "serves_ops (close_ops now (cl_seat c)) s (cleanup now (s, c))"
  by (simp add: close_ops_def cleanup_def serves_ops_def state_of_def close_is_committed on_consumer_def Let_def
      split: option.split)

end
