(* ===== verification/Server_Props.thy ===== *)
theory Server_Props
  imports Server_Ops Broker_Props
begin

section \<open>What the server guarantees\<close>

text \<open>
  Over the whole path from bytes received to bytes sent: one answer to each request, refusals that
  change nothing, a produced message that can be fetched, the same service however the stream is
  cut into chunks, and the broker's guarantees whatever clients send. \<open>idle_queue_unusable\<close> is about
  a defect: a queue without waiting messages can neither be dequeued from nor acknowledged.
\<close>

subsection \<open>Any number of connections\<close>

text \<open>
  Connections interleave frame by frame: bytes arrive, one frame is served (a frame that cannot be
  read or whose handler raises ends the connection, which the closing step does), a connection closes.
\<close>

inductive server_step :: "codec \<Rightarrow> server \<times> (nat \<Rightarrow> client) \<Rightarrow> server \<times> (nat \<Rightarrow> client) \<Rightarrow> bool" for cd where
  arrives: "server_step cd (s, cs) (s, cs(k := (cs k)\<lparr>cl_buffer := cl_buffer (cs k) @ bytes\<rparr>))"
| serves: "read_from_buffer (cl_buffer (cs k)) = Inr (Some f, rest) \<Longrightarrow>
    dispatch cd e f (s, (cs k)\<lparr>cl_buffer := rest\<rparr>) = ((s', c'), res) \<Longrightarrow>
    server_step cd (s, cs) (s', cs(k := c'))"
| closes: "server_step cd (s, cs) (cleanup now (s, cs k), cs(k := client_new))"

lemma server_step_advances: "server_step cd st st' \<Longrightarrow> server_ok (fst st) \<Longrightarrow> advances (fst st) (fst st')"
proof (induction rule: server_step.induct)
  case (arrives s cs k bytes)
  then show ?case by (simp add: advances_refl)
next
  case (serves cs k f rest e s s' c' res)
  then show ?case using dispatch_advances [OF _ serves(2)] by simp
next
  case (closes s cs now k)
  then show ?case using cleanup_advances by simp
qed

interpretation connections: front_end "server_step cd" fst for cd
  by unfold_locales (rule server_step_advances)

text \<open>A server that just started.\<close>

definition server_new :: "broker_config \<Rightarrow> mstore \<Rightarrow> pstore \<Rightarrow> cstore \<Rightarrow> server" where
  "server_new cfg ms ps cs =
     \<lparr>s_ms = ms, s_next = 0, s_broker = broker_new cfg ps 0 cs, s_next_consumer = 0\<rparr>"

lemma server_new_ok: "server_ok (server_new cfg ms ps cs)"
  by (simp add: server_ok_def server_new_def broker_new_inv) (simp add: broker_new_def fresh_all_def outsider_def)

text \<open>C1. Whatever bytes any number of clients have sent, in any interleaving: serving the next frame does
  to the broker exactly what this request asks for (\<open>frame_ops\<close>: a produce request makes a message and
  publishes it, an acknowledgement takes one message out of flight, a join makes a consumer and
  subscribes it, a commit commits the connection's consumer, and so on; a request that reads or is
  malformed does nothing), each operation under the condition that keeps the broker's invariant;
  closing a connection closes its consumer and nothing else. So every state behind the server is one
  that \<open>broker_step\<close> reaches from the new broker, and the message and consumer objects the server
  will create next are in no log and in no group.\<close>

theorem server_refines_broker:
  assumes "(server_step cd)\<^sup>*\<^sup>* (server_new cfg ms ps cs, clients) (s, clients')"
  shows "(\<forall>e f c s' c' res. dispatch cd e f (s, c) = ((s', c'), res) \<longrightarrow>
        all_allowed (frame_ops cd e f s (cl_seat c)) (s_ms s, s_broker s)
        \<and> (s_ms s', s_broker s') = perform_all (frame_ops cd e f s (cl_seat c)) (s_ms s, s_broker s))
    \<and> (\<forall>now c. (s_ms (cleanup now (s, c)), s_broker (cleanup now (s, c)))
        = perform_all (close_ops now (cl_seat c)) (s_ms s, s_broker s))
    \<and> broker_step\<^sup>*\<^sup>* (ms, broker_new cfg ps 0 cs) (s_ms s, s_broker s)
    \<and> (\<forall>tn t p. get_topic tn (s_broker s) = Some t \<and> p \<in> set (t_partitions t) \<longrightarrow>
          (\<forall>r \<ge> s_next s. r \<notin> set (p_log (b_ps (s_broker s) p))))
    \<and> (\<forall>gid g. get_consumer_group gid (s_broker s) = Some g \<longrightarrow>
          (\<forall>x \<ge> s_next_consumer s. x \<notin> set (member_refs g)))"
proof -
  have a: "advances (server_new cfg ms ps cs) s" using connections.run_advances [OF assms] server_new_ok by simp
  then have ok: "server_ok s" by (simp add: advances_def)
  have "all_allowed (frame_ops cd e f s (cl_seat c)) (s_ms s, s_broker s)
      \<and> (s_ms s', s_broker s') = perform_all (frame_ops cd e f s (cl_seat c)) (s_ms s, s_broker s)"
    if "dispatch cd e f (s, c) = ((s', c'), res)" for e f c s' c' res
    using dispatch_serves [OF ok that] by (simp add: serves_ops_def state_of_def)
  moreover have "(s_ms (cleanup now (s, c)), s_broker (cleanup now (s, c)))
      = perform_all (close_ops now (cl_seat c)) (s_ms s, s_broker s)" for now c
    using cleanup_serves [of now c s] by (simp add: serves_ops_def state_of_def)
  ultimately show ?thesis
    using a unfolding advances_def server_ok_def
    by (auto simp: server_new_def fresh_all_def fresh_for_def get_topic_def get_consumer_group_def outsider_def)
qed

text \<open>A codec whose JSON text is a fixed word: enough to run the handlers.\<close>

definition sample_codec :: codec where
  "sample_codec = \<lparr>dumps = (\<lambda>_. ''{}''), loads = (\<lambda>_. Inr (JDict [])), broker_snapshot = (\<lambda>_ _. JNull)\<rparr>"

definition sample_env :: env where
  "sample_env = \<lparr>e_id = ''0123456789abcdef'', e_now = (\<lambda>_. 0), e_clock = (\<lambda>_. []), e_text = [], e_write = True\<rparr>"

definition sample_server :: server where
  "sample_server = server_new default_broker_config sample_ms sample_ps (\<lambda>_. consumer_new ''c'' default_consumer_config 0 0)"

text \<open>A server whose topics have one partition, and a produce request with a key and a header.\<close>

definition small_server :: server where
  "small_server = server_new (default_broker_config\<lparr>default_partitions := 1\<rparr>) sample_ms sample_ps
     (\<lambda>_. consumer_new ''c'' default_consumer_config 0 0)"

definition keyed_request :: "(string, json) dict" where
  "keyed_request = [(''topic'', JStr ''t''), (''value'', JStr ''v''), (''key'', JStr ''k''),
     (''headers'', JDict [(''h'', JStr ''1'')])]"

definition keyed_codec :: codec where
  "keyed_codec = sample_codec\<lparr>loads := (\<lambda>_. Inr (JDict keyed_request))\<rparr>"

lemma keyed_produce:
  assumes "handle_produce sample_env (JDict keyed_request) small_server = (s', res)"
  shows "res = Inr (Reply (JDict [(''topic'', JStr ''t''), (''partition'', JInt 0), (''offset'', JInt 0),
      (''message_id'', JStr ''0123456789abcdef'')]))"
    and "b_total_in (s_broker s') = 1"
  using assms
  by (simp_all add: keyed_request_def handle_produce_def as_object_def dict_get_default_def encoded_def as_headers_def
      Let_def new_message_def small_server_def server_new_def broker_new_def broker_publish_def pipeline_process_def
      topic_or_create_def get_topic_def create_topic_def default_broker_config_def default_topic_config_def
      topic_new_def topic_publish_def choose_partition_def assign_partition_def consistent_hash_def py_nth_def
      message_new_def partition_append_def partition_new_def stamp_def sample_env_def bind_r_def split: prod.splits)
    (auto simp: bind_r_def)

text \<open>The first frame a new server gets is this request: one message is made and published.\<close>

theorem server_refines_broker_witness:
  "\<exists>s' c' res. dispatch keyed_codec sample_env \<lparr>f_api_key = PRODUCE, f_api_version = 1, f_correlation_id = 7, f_payload = [123]\<rparr>
        (small_server, client_new) = ((s', c'), res)
    \<and> (s_ms s', s_broker s') = perform_all
        [Op_New_Message 0 (message_new ''0123456789abcdef'' 0 ''t'' [118] (Some ''k'') [(''h'', ''1'')]),
         Op_Publish (\<lambda>_. []) 0 0] (s_ms small_server, s_broker small_server)
    \<and> b_total_in (s_broker s') = 1"
proof -
  let ?f = "\<lparr>f_api_key = PRODUCE, f_api_version = 1, f_correlation_id = 7, f_payload = [123]\<rparr>"
  obtain s' c' res where d: "dispatch keyed_codec sample_env ?f (small_server, client_new) = ((s', c'), res)"
    by (metis surj_pair)
  have "utf8_decode [123] = Inr ''{''" by code_simp
  then have load: "load_payload (loads keyed_codec) [123] = Inr (JDict keyed_request)"
    by (simp add: load_payload_def keyed_codec_def bind_r_def)
  have v: "utf8_encode ''v'' = [118]" by code_simp
  have ops: "frame_ops keyed_codec sample_env ?f small_server (cl_seat client_new) =
      [Op_New_Message 0 (message_new ''0123456789abcdef'' 0 ''t'' [118] (Some ''k'') [(''h'', ''1'')]),
       Op_Publish (\<lambda>_. []) 0 0]"
    by (simp add: frame_ops_def load request_ops_def produce_ops_def keyed_request_def str_field_def dict_get_default_def
        as_headers_def bind_r_def v small_server_def server_new_def sample_env_def)
  obtain s1 r where h: "handle_produce sample_env (JDict keyed_request) small_server = (s1, r)" by (metis surj_pair)
  have "s' = s1"
    using d keyed_produce(1) [OF h] h by (auto simp: dispatch_def load seated_def split: prod.splits)
  then have "b_total_in (s_broker s') = 1" using keyed_produce(2) [OF h] by simp
  moreover have "(s_ms s', s_broker s') = perform_all (frame_ops keyed_codec sample_env ?f small_server (cl_seat client_new))
      (s_ms small_server, s_broker small_server)"
    using server_refines_broker [of keyed_codec "default_broker_config\<lparr>default_partitions := 1\<rparr>" sample_ms sample_ps
        "\<lambda>_. consumer_new ''c'' default_consumer_config 0 0" "\<lambda>_. client_new" small_server "\<lambda>_. client_new"] d
    unfolding small_server_def [symmetric] by blast
  ultimately show ?thesis using d unfolding ops by blast
qed

subsection \<open>One answer to each request\<close>

text \<open>What the client is sent for \<open>f\<close>.\<close>

definition answered :: "frame \<Rightarrow> client \<Rightarrow> client \<Rightarrow> bool" where
  "answered f c c' \<longleftrightarrow> (\<exists>bs g. c' = c\<lparr>cl_sent := cl_sent c @ [bs]\<rparr> \<and> frame_from_bytes bs = Inr g
     \<and> f_correlation_id g = f_correlation_id f \<and> f_api_key g = f_api_key f)"

lemma send_response_cases:
  assumes "send_response cd e f code data c = (c', res)"
  shows "case res of Inl _ \<Rightarrow> c' = c | Inr _ \<Rightarrow> if e_write e then answered f c c' else c' = c\<lparr>cl_active := False\<rparr>"
proof -
  let ?f = "response_to_frame (dumps cd) (f_api_key f) (response_new (f_correlation_id f) code data)"
  show ?thesis
  proof (cases "frame_to_bytes ?f")
    case (Inl x)
    with assms show ?thesis by (auto simp: send_response_def)
  next
    case (Inr bs)
    have "answered f c (c\<lparr>cl_sent := cl_sent c @ [bs]\<rparr>)"
      unfolding answered_def
      by (intro exI [of _ bs] exI [of _ ?f])
        (use frame_from_to_bytes [OF Inr] in \<open>simp add: response_to_frame_def response_new_def\<close>)
    with assms Inr show ?thesis by (auto simp: send_response_def split: if_splits)
  qed
qed

lemma send_reply_cases:
  assumes "send_reply cd e f r c = (c', res)"
  shows "case res of Inl _ \<Rightarrow> c' = c | Inr _ \<Rightarrow> if e_write e then answered f c c' else c' = c\<lparr>cl_active := False\<rparr>"
  using assms send_response_cases [of cd e f _ _ c c' res]
  by (cases r) (auto simp only: send_reply_def send_error_def reply.case)

lemma dispatch_shape:
  "dispatch cd e f (s, c) = ((s', c'), res) \<Longrightarrow>
    (\<exists>seat x. c' = c\<lparr>cl_seat := seat\<rparr> \<and> res = Inl x)
    \<or> (\<exists>seat r. send_reply cd e f r (c\<lparr>cl_seat := seat\<rparr>) = (c', res))"
proof -
  assume d: "dispatch cd e f (s, c) = ((s', c'), res)"
  have refused: "\<exists>seat r. send_reply cd e f r (c\<lparr>cl_seat := seat\<rparr>) = (c', res)"
    if "send_error cd e f INVALID_REQUEST c = (c', res)"
    using that by (intro exI [of _ "cl_seat c"] exI [of _ "Failure INVALID_REQUEST"]) (simp add: send_reply_def)
  have same: "c = c\<lparr>cl_seat := cl_seat c\<rparr>" by simp
  show ?thesis
  proof (cases "load_payload (loads cd) (f_payload f)")
    case (Inl x)
    show ?thesis
    proof (cases "x = ValueError \<or> x = UnicodeDecodeError")
      case True
      with d Inl have "send_error cd e f INVALID_REQUEST c = (c', res)"
        by (auto simp: dispatch_def split: prod.splits)
      with refused show ?thesis by blast
    next
      case False
      with d Inl have "c' = c" "res = Inl x" by (auto simp: dispatch_def)
      with same show ?thesis by blast
    qed
  next
    case (Inr payload)
    show ?thesis
    proof (cases "handler_for cd e payload (f_api_key f)")
      case None
      with d Inr have "send_error cd e f INVALID_REQUEST c = (c', res)"
        by (auto simp: dispatch_def split: prod.splits)
      with refused show ?thesis by blast
    next
      case (Some h)
      obtain s1 seat r where h: "h (s, cl_seat c) = ((s1, seat), r)" by (metis surj_pair)
      show ?thesis
      proof (cases r)
        case (Inl x)
        with d \<open>load_payload _ _ = Inr payload\<close> Some h have "c' = c\<lparr>cl_seat := seat\<rparr>" "res = Inl x"
          by (auto simp: dispatch_def)
        then show ?thesis by blast
      next
        case (Inr rp)
        with d \<open>load_payload _ _ = Inr payload\<close> Some h
        have "send_reply cd e f rp (c\<lparr>cl_seat := seat\<rparr>) = (c', res)"
          by (auto simp: dispatch_def split: prod.splits)
        then show ?thesis by blast
      qed
    qed
  qed
qed

text \<open>C38. A request is answered exactly once: serving a frame without an exception appends one frame to
  what was sent, which carries the request's correlation id and API key, or, when the socket does
  not take it, sends nothing and marks the connection as closed; when an exception escapes,
  nothing was sent.\<close>

theorem request_answered_once:
  assumes "dispatch cd e f (s, c) = ((s', c'), res)"
  shows "(case res of
      Inl _ \<Rightarrow> cl_sent c' = cl_sent c \<and> cl_active c' = cl_active c
    | Inr _ \<Rightarrow> if e_write e
        then \<exists>bs g. cl_sent c' = cl_sent c @ [bs] \<and> frame_from_bytes bs = Inr g
               \<and> f_correlation_id g = f_correlation_id f \<and> f_api_key g = f_api_key f
               \<and> cl_active c' = cl_active c
        else cl_sent c' = cl_sent c \<and> \<not> cl_active c')
    \<and> cl_buffer c' = cl_buffer c"
  using dispatch_shape [OF assms]
proof (elim disjE exE conjE)
  fix seat r assume "send_reply cd e f r (c\<lparr>cl_seat := seat\<rparr>) = (c', res)"
  from send_reply_cases [OF this] show ?thesis
    by (cases res; cases "e_write e") (auto simp: answered_def)
qed auto

theorem request_answered_once_witness:
  "\<exists>s' c' bs. dispatch sample_codec sample_env \<lparr>f_api_key = HEARTBEAT, f_api_version = 1, f_correlation_id = 7, f_payload = []\<rparr>
      (sample_server, client_new) = ((s', c'), Inr ()) \<and> cl_sent c' = [bs]"
proof -
  let ?f = "\<lparr>f_api_key = HEARTBEAT, f_api_version = 1, f_correlation_id = 7, f_payload = []\<rparr>"
  obtain s' c' res where d: "dispatch sample_codec sample_env ?f (sample_server, client_new) = ((s', c'), res)"
    by (metis surj_pair)
  have "res = Inr ()"
    using d by (auto simp: dispatch_def load_payload_def seated_def handle_heartbeat_def send_reply_def send_response_def
        sample_codec_def response_to_frame_def response_new_def frame_to_bytes_cases frame_fits_def utf8_encode_def
        split: sum.splits)
  with request_answered_once [OF d] d show ?thesis by (auto simp: sample_env_def client_new_def)
qed

subsection \<open>Refusals\<close>

definition same_contents :: "broker \<Rightarrow> broker \<Rightarrow> bool" where
  "same_contents b b' \<longleftrightarrow> (\<forall>p < b_next b. p_log (b_ps b' p) = p_log (b_ps b p))
     \<and> b_queues b' = b_queues b \<and> b_priority_queues b' = b_priority_queues b \<and> b_groups b' = b_groups b
     \<and> b_total_in b' = b_total_in b"

lemma same_contents_refl: "same_contents b b"
  by (simp add: same_contents_def)

lemma publish_parts:
  "broker_publish clock now (ms, b) m = ((ms', b'), res) \<Longrightarrow>
     b_queues b' = b_queues b \<and> b_priority_queues b' = b_priority_queues b \<and> b_groups b' = b_groups b"
  by (auto simp: broker_publish_def topic_or_create_def create_topic_def Let_def
      split: prod.splits sum.splits option.splits if_split_asm)

lemma publish_failed:
  assumes "broker_inv ms b" and "well_behaved clock ms b m"
    and "broker_publish clock now (ms, b) m = ((ms', b'), Inl x)"
  shows "same_contents b b'"
  using publish_result [OF assms(3,1,2)] publish_parts [OF assms(3)] by (simp add: same_contents_def)

lemma dict_set_same: "dict_get d k = Some v \<Longrightarrow> dict_set k v d = d"
  by (induction d) (auto split: if_splits)

lemma put_queue_same: "get_queue n b = Some q \<Longrightarrow> put_queue n q b = b"
  by (auto simp: get_queue_def put_queue_def dict_set_same split: option.splits)

lemma enqueue_failed:
  assumes "broker_enqueue now n r (ms, b) = ((ms', b'), Inl x)"
  shows "b' = b"
proof (cases "get_queue n b")
  case None
  with assms show ?thesis by (simp add: broker_enqueue_def)
next
  case (Some q)
  obtain ms1 q1 res1 where one: "any_enqueue now ms q r = ((ms1, q1), res1)" by (metis surj_pair)
  then have "res1 = Inl x" and b': "b' = put_queue n q1 b"
    using assms Some by (auto simp: broker_enqueue_def split: sum.splits)
  with one have "q1 = q"
    by (auto simp: any_enqueue_def queue_enqueue_def pq_enqueue_def Let_def split: any_queue.splits prod.splits if_split_asm)
  with b' put_queue_same [OF Some] show ?thesis by simp
qed

lemma subscribe_failed: "broker_subscribe gid tn x b = (b', Inl e) \<Longrightarrow> b' = b"
  by (auto simp: broker_subscribe_def topic_or_create_def create_topic_def Let_def
      split: prod.splits sum.splits option.splits if_split_asm)

lemma create_failed:
  "create_topic n cfg b = (b', Inl e) \<Longrightarrow> b' = b" "create_queue n k t p b = (b', Inl e) \<Longrightarrow> b' = b"
  by (auto simp: create_topic_def create_queue_def Let_def split: prod.splits if_split_asm)

text \<open>The codes that a handler can refuse with.\<close>

fun refusals :: "api_key \<Rightarrow> error_code set" where
  "refusals PRODUCE = {INVALID_REQUEST, UNKNOWN_TOPIC}"
| "refusals FETCH = {UNKNOWN_TOPIC, UNKNOWN_PARTITION}"
| "refusals CREATE_TOPICS = {INVALID_REQUEST, TOPIC_ALREADY_EXISTS}"
| "refusals JOIN_GROUP = {GROUP_NOT_FOUND}"
| "refusals OFFSET_COMMIT = {GROUP_NOT_FOUND}"
| "refusals OFFSET_FETCH = {GROUP_NOT_FOUND}"
| "refusals CREATE_QUEUE = {INVALID_REQUEST}"
| "refusals ENQUEUE = {QUEUE_NOT_FOUND}"
| "refusals DEQUEUE = {QUEUE_NOT_FOUND}"
| "refusals ACK = {QUEUE_NOT_FOUND}"
| "refusals _ = {}"

lemma produce_refused:
  assumes ok: "server_ok s" and h: "handle_produce e data s = (s', Inr (Failure code))"
  shows "code \<in> refusals PRODUCE \<and> same_contents (s_broker s) (s_broker s')"
proof (cases "s' = s")
  case True
  with h show ?thesis
    by (auto simp: handle_produce_def Let_def same_contents_refl split: sum.splits if_split_asm prod.splits)
next
  case False
  then obtain m s1 r ms' b' x where new: "new_message m s = (s1, r)"
      and pub: "broker_publish (e_clock e) (e_now e 1) (s_ms s1, s_broker s1) r = ((ms', b'), Inl x)"
      and s': "s' = s1\<lparr>s_ms := ms', s_broker := b'\<rparr>" and code: "code = UNKNOWN_TOPIC"
    using h by (auto simp: handle_produce_def Let_def split: sum.splits if_split_asm prod.splits)
  note F = new_message_fresh [OF ok new]
  have "b_middleware (s_broker s1) = []" using F server_okD(2) [OF ok] by simp
  then have "well_behaved (e_clock e) (s_ms s1) (s_broker s1) r"
    by (intro well_behaved_in_place [OF F [THEN conjunct2]]) simp
  from publish_failed [OF new_message_inv [OF ok new] this pub] F code show ?thesis by (simp add: s')
qed

lemma enqueue_refused:
  "handle_enqueue e data s = (s', Inr (Failure code)) \<Longrightarrow>
     code \<in> refusals ENQUEUE \<and> same_contents (s_broker s) (s_broker s')"
  by (auto simp: handle_enqueue_def new_message_def same_contents_refl dest!: enqueue_failed
      split: sum.splits prod.splits if_split_asm)

lemma queue_refused:
  "handle_dequeue e data s = (s', Inr (Failure code)) \<Longrightarrow>
     code \<in> refusals DEQUEUE \<and> same_contents (s_broker s) (s_broker s')"
  "handle_ack data s = (s', Inr (Failure code)) \<Longrightarrow>
     code \<in> refusals ACK \<and> same_contents (s_broker s) (s_broker s')"
  by (auto simp: handle_dequeue_def handle_ack_def same_contents_refl split: sum.splits option.splits prod.splits)

lemma create_refused:
  "handle_create_topics data s = (s', Inr (Failure code)) \<Longrightarrow>
     code \<in> refusals CREATE_TOPICS \<and> same_contents (s_broker s) (s_broker s')"
  "handle_create_queue data s = (s', Inr (Failure code)) \<Longrightarrow>
     code \<in> refusals CREATE_QUEUE \<and> same_contents (s_broker s) (s_broker s')"
  by (auto simp: handle_create_topics_def handle_create_queue_def Let_def same_contents_refl dest!: create_failed
      split: sum.splits prod.splits if_split_asm)

lemma join_refused:
  "handle_join_group e data (s, seat) = ((s', seat'), Inr (Failure code)) \<Longrightarrow>
     code \<in> refusals JOIN_GROUP \<and> seat' = seat \<and> same_contents (s_broker s) (s_broker s')"
  by (auto simp: handle_join_group_def new_consumer_def Let_def same_contents_def dest!: subscribe_failed
      split: sum.splits prod.splits if_split_asm)

lemma fetch_refused:
  "handle_fetch data s = (s', Inr (Failure code)) \<Longrightarrow>
     code \<in> refusals FETCH \<and> same_contents (s_broker s) (s_broker s')"
  by (auto simp: handle_fetch_def same_contents_refl get_partition_def bind_r_Inr Let_def split: option.splits if_split_asm)

lemma offset_refused:
  "handle_offset_commit e (s, seat) = ((s', seat'), Inr (Failure code)) \<Longrightarrow>
     code \<in> refusals OFFSET_COMMIT \<and> seat' = seat \<and> same_contents (s_broker s) (s_broker s')"
  "handle_offset_fetch (s, seat) = ((s', seat'), Inr (Failure code)) \<Longrightarrow>
     code \<in> refusals OFFSET_FETCH \<and> seat' = seat \<and> same_contents (s_broker s) (s_broker s')"
  by (auto simp: handle_offset_commit_def handle_offset_fetch_def Let_def same_contents_refl
      split: option.splits prod.splits)

lemma handler_refusal:
  assumes "server_ok s" and "handler_for cd e data k = Some h"
    and "h (s, seat) = ((s', seat'), Inr (Failure code))"
  shows "code \<in> refusals k \<and> seat' = seat \<and> same_contents (s_broker s) (s_broker s')"
  using assms
  by (cases k)
    (auto simp: seated_def handle_metadata_def handle_list_groups_def handle_heartbeat_def handle_metrics_def
      handle_delete_topics_def handle_leave_group_def Let_def
      dest: produce_refused enqueue_refused queue_refused create_refused join_refused fetch_refused offset_refused
      split: prod.splits option.splits sum.splits simp del: refusals.simps)

lemma handler_failure:
  assumes "server_ok s" and "handler_for cd e data k = Some h" and "h (s, seat) = ((s', seat'), Inr r)"
  shows "r \<noteq> Failure NO_ERROR"
proof
  assume "r = Failure NO_ERROR"
  with handler_refusal [OF assms(1,2)] assms(3) have "NO_ERROR \<in> refusals k" by blast
  then show False by (cases k) simp_all
qed

text \<open>C20. A refused request changes nothing that is stored: when a handler answers with an error code,
  the code is one of those listed for the request, the connection keeps its consumer, no log, queue
  or group of the broker has changed and no message was counted.\<close>

theorem refusal_changes_nothing:
  assumes "server_ok s" and "handler_for cd e data k = Some h"
    and "h (s, seat) = ((s', seat'), Inr (Failure code))"
  shows "code \<in> refusals k \<and> seat' = seat \<and> same_contents (s_broker s) (s_broker s')"
  by (rule handler_refusal [OF assms])

theorem refusal_changes_nothing_witness:
  "\<exists>s'. seated (handle_produce sample_env (JDict [])) (sample_server, None) = ((s', None), Inr (Failure INVALID_REQUEST))
     \<and> same_contents (s_broker sample_server) (s_broker s')"
proof -
  have "server_ok sample_server" by (simp add: sample_server_def server_new_ok)
  moreover have h: "seated (handle_produce sample_env (JDict [])) (sample_server, None)
      = ((sample_server, None), Inr (Failure INVALID_REQUEST))"
    by (simp add: seated_def handle_produce_def as_object_def dict_get_default_def)
  ultimately show ?thesis
    using refusal_changes_nothing [of sample_server sample_codec sample_env "JDict []" PRODUCE
        "seated (handle_produce sample_env (JDict []))", OF _ _ h] by auto
qed

subsection \<open>Queues without waiting messages\<close>

text \<open>A defect: the handlers test a queue with \<open>if q\<close>, which asks for its length. So while no
  message waits, dequeuing and acknowledging answer that the queue does not exist, at any time:
  the last message taken from a queue cannot be acknowledged, and it is not given out again after
  its visibility timeout either, until another message is put into the queue.\<close>

theorem idle_queue_unusable:
  assumes "get_queue n (s_broker s) = Some (Fifo q)" and "q_queue q = [r]" and "q_in_flight q = []"
    and "0 < q_visibility_timeout q" and "m_id (s_ms s r) = mid"
  shows "\<exists>s1 q1. handle_dequeue e (JDict [(''queue'', JStr n)]) s
        = (s1, Inr (Reply (JDict [(''message'', JDict (to_dict (s_ms s r)))])))
    \<and> get_queue n (s_broker s1) = Some (Fifo q1) \<and> keys (q_in_flight q1) = [mid]
    \<and> handle_ack (JDict [(''queue'', JStr n), (''message_id'', JStr mid)]) s1 = (s1, Inr (Failure QUEUE_NOT_FOUND))
    \<and> (\<forall>e'. handle_dequeue e' (JDict [(''queue'', JStr n)]) s1 = (s1, Inr (Failure QUEUE_NOT_FOUND)))"
proof -
  let ?q1 = "q\<lparr>q_queue := [], q_in_flight := [(mid, r, e_now e 1 + q_visibility_timeout q)],
      q_total_dequeued := q_total_dequeued q + 1\<rparr>"
  have deq: "queue_dequeue (e_now e 0) (e_now e 1) (s_ms s) None q = (?q1, Some r)"
    using assms by (simp add: queue_dequeue_def queue_requeue_timed_out_def expired_ids_def effective_timeout_def)
  let ?s1 = "s\<lparr>s_broker := put_queue n (Fifo ?q1) (s_broker s)\<rparr>"
  have q1: "get_queue n (s_broker ?s1) = Some (Fifo ?q1)"
    by (simp add: get_queue_def put_queue_def)
  have "usable_queue [(''queue'', JStr n)] (s_broker s) = Inr (Some (n, Fifo q))"
    using assms(1,2) by (simp add: usable_queue_def lookup_key_def dict_get_default_def any_depth_def queue_depth_def)
  then have "handle_dequeue e (JDict [(''queue'', JStr n)]) s
      = (?s1, Inr (Reply (JDict [(''message'', JDict (to_dict (s_ms s r)))])))"
    using deq by (simp add: handle_dequeue_def as_object_def any_dequeue_def)
  moreover have "usable_queue ((''queue'', JStr n) # d) (s_broker ?s1) = Inr None" for d
    using q1 by (simp add: usable_queue_def lookup_key_def dict_get_default_def any_depth_def queue_depth_def del: server.simps)
  then have "handle_ack (JDict [(''queue'', JStr n), (''message_id'', JStr mid)]) ?s1 = (?s1, Inr (Failure QUEUE_NOT_FOUND))"
    "handle_dequeue e' (JDict [(''queue'', JStr n)]) ?s1 = (?s1, Inr (Failure QUEUE_NOT_FOUND))" for e'
    by (simp_all add: handle_ack_def handle_dequeue_def as_object_def del: server.simps)
  moreover have "keys (q_in_flight ?q1) = [mid]" by simp
  ultimately show ?thesis using q1 by (intro exI [of _ ?s1] exI [of _ ?q1] conjI allI)
qed

theorem idle_queue_unusable_witness:
  "\<exists>s s1. handle_dequeue sample_env (JDict [(''queue'', JStr ''q'')]) s
        = (s1, Inr (Reply (JDict [(''message'', JDict (to_dict (s_ms s 0)))])))
     \<and> handle_ack (JDict [(''queue'', JStr ''q''), (''message_id'', JStr (m_id (s_ms s 0)))]) s1
        = (s1, Inr (Failure QUEUE_NOT_FOUND))"
proof -
  let ?b = "(s_broker sample_server)\<lparr>b_queues := [(''q'', (queue_new ''q'' 0 30)\<lparr>q_queue := [0]\<rparr>)]\<rparr>"
  let ?s = "sample_server\<lparr>s_broker := ?b\<rparr>"
  have "get_queue ''q'' (s_broker ?s) = Some (Fifo ((queue_new ''q'' 0 30)\<lparr>q_queue := [0]\<rparr>))"
    by (simp add: get_queue_def)
  note use = idle_queue_unusable [OF this, of 0 "m_id (s_ms ?s 0)" sample_env]
  obtain s1 where "handle_dequeue sample_env (JDict [(''queue'', JStr ''q'')]) ?s
        = (s1, Inr (Reply (JDict [(''message'', JDict (to_dict (s_ms ?s 0)))])))"
      "handle_ack (JDict [(''queue'', JStr ''q''), (''message_id'', JStr (m_id (s_ms ?s 0)))]) s1
        = (s1, Inr (Failure QUEUE_NOT_FOUND))"
    using use by (auto simp: queue_new_def simp del: server.simps)
  then show ?thesis by blast
qed

subsection \<open>From produce to fetch\<close>

definition dense_logs :: "mstore \<Rightarrow> broker \<Rightarrow> bool" where
  "dense_logs ms b \<longleftrightarrow> (\<forall>n t p. get_topic n b = Some t \<and> p \<in> set (t_partitions t) \<longrightarrow> dense ms (b_ps b p))"

text \<open>The content of a message, without what the broker stamps on it.\<close>

definition same_message :: "message \<Rightarrow> message \<Rightarrow> bool" where
  "same_message m m' \<longleftrightarrow> m_id m' = m_id m \<and> m_topic m' = m_topic m \<and> m_value m' = m_value m
     \<and> m_key m' = m_key m \<and> m_headers m' = m_headers m"

lemma append_then_read:
  assumes "dense ms p" and "ordered ms p" and "r \<notin> set (p_log p)"
    and "partition_append now ms p r = ((ms', p'), Inr off)" and "0 < k"
  shows "partition_read ms' p' off k = [r]"
proof -
  note ok = partition_append_ok [OF assms(4)]
  have "m_offset (ms' x) < off" if "x \<in> set (p_log p)" for x
    using orderedD(4) [OF assms(2) that] that assms(3) ok(1,2) by auto
  then have "filter (\<lambda>x. off \<le> m_offset (ms' x)) (p_log p) = []" by (auto simp: filter_empty_conv not_le)
  moreover have "m_offset (ms' r) = off" using ok(2) by simp
  moreover have "p_log p' = p_log p @ [r]" using ok(3) by simp
  ultimately show ?thesis
    using partition_read_spec [OF dense_append [OF assms(1,3,4)], of k off] assms(5) by simp
qed

lemma publish_then_read:
  assumes inv: "broker_inv ms b" and mw: "b_middleware b = []" and fresh: "fresh_in r b"
    and dense: "dense_logs ms b" and pub: "broker_publish clock now (ms, b) r = ((ms', b'), Inr md)" and k: "0 < k"
  shows "\<exists>t p. get_topic (rm_topic md) b' = Some t \<and> get_partition t (rm_partition md) = Inr p
    \<and> partition_read ms' (b_ps b' p) (rm_offset md) k = [r] \<and> same_message (ms r) (ms' r)
    \<and> m_partition (ms' r) = rm_partition md \<and> m_offset (ms' r) = rm_offset md
    \<and> rm_message_id md = m_id (ms r) \<and> rm_topic md = m_topic (ms r)"
proof -
  have p: "pipeline_process clock (b_middleware b) ms r = (([], ms), Inr (Some r))"
    by (simp add: mw pipeline_process_def)
  have same: "b\<lparr>b_middleware := []\<rparr> = b" using mw by simp
  obtain b2 t ps2 t' off where two: "topic_or_create (m_topic (ms r)) b = (b2, Inr t)"
      and three: "topic_publish now ms (b_ps b2) t r = ((ms', ps2, t'), Inr off)"
      and b': "b' = b2\<lparr>b_topics := dict_set (m_topic (ms r)) t' (b_topics b2), b_ps := ps2,
          b_total_in := b_total_in b2 + 1\<rparr>"
      and md: "md = \<lparr>rm_topic = m_topic (ms' r), rm_partition = m_partition (ms' r), rm_offset = off,
          rm_timestamp = m_broker_timestamp (ms' r), rm_message_id = m_id (ms' r)\<rparr>"
    using pub
  proof (cases rule: broker_publish_cases)
    case (published p' ms1 r1 b2 t ps2 t' pres)
    then obtain off where "pres = Inr off" by (cases pres) auto
    with published p same show ?thesis by (intro that [of b2 t ps2 t' off]) simp_all
  qed (use p in simp_all)
  have made: "broker_inv ms b2 \<and> topic_made b (m_topic (ms r)) b2 (Inr t)"
    using topic_or_create_inv [OF inv two] .
  note I = broker_invD [OF made [THEN conjunct1]] and M = made [THEN conjunct2, unfolded topic_made_def sum.case]
  have t: "dict_get (b_topics b2) (m_topic (ms r)) = Some t" using M by simp
  note T = topics_okD [OF I(1) t]
  have rr: "0 \<le> t_round_robin t" using T(2) by (simp add: topic_inv_def)
  have d: "dense ms (b_ps b2 q)" if "q \<in> set (t_partitions t)" for q
    using M dense that by (auto simp: dense_logs_def get_topic_def dense_def)
  have fr: "r \<notin> set (p_log (b_ps b2 q))" if "q \<in> set (t_partitions t)" for q
    using M fresh t that by (auto simp: fresh_all_def fresh_for_def)
  from three rr show ?thesis
  proof (cases rule: topic_publish_cases)
    case (append pid q q')
    let ?ms2 = "ms(r := (ms r)\<lparr>m_partition := pid, m_topic := t_name t\<rparr>)"
    have q: "q \<in> set (t_partitions t)" using append(2-4) by simp
    have "dense ?ms2 (b_ps b2 q)" using d [OF q] fr [OF q] by (simp add: dense_frame)
    moreover have "ordered ?ms2 (b_ps b2 q)"
      using topic_inv_ordered [OF T(2) q] fr [OF q] by (simp add: ordered_frame)
    ultimately have rd: "partition_read ms' q' off k = [r]" using append_then_read fr [OF q] append(5) k by blast
    note ok = partition_append_ok [OF append(5)]
    have pidq: "p_id (b_ps b2 q) = pid"
      using topic_inv_id [OF T(2), of "nat pid"] append(2-4) by (simp add: nat_less_iff)
    have m: "ms' r = stamp now pid off (?ms2 r)" using ok(2) pidq by simp
    have t': "t_partitions t' = t_partitions t" using choose_partition_frame [OF append(1)] by simp
    have "get_topic (rm_topic md) b' = Some t'" "get_partition t' (rm_partition md) = Inr q"
      using append(2-4) by (simp_all add: md m b' get_topic_def get_partition_def T(1) t')
    moreover have "b_ps b' q = q'" using append(6) by (simp add: b')
    moreover have "same_message (ms r) (ms' r)" by (simp add: same_message_def m T(1))
    ultimately show ?thesis using rd by (simp add: md m T(1))
  qed simp_all
qed

lemma as_str_Inr: "as_str j = Inr x \<longleftrightarrow> j = JStr x"
  by (cases j) simp_all

lemma as_str_opt_Inr: "as_str_opt j = Inr k \<Longrightarrow> j = (case k of None \<Rightarrow> JNull | Some x \<Rightarrow> JStr x)"
  by (cases j) auto

lemma as_str_items_Inr: "as_str_items kvs = Inr h \<Longrightarrow> map (\<lambda>(k, v). (k, JStr v)) h = kvs"
  by (induction kvs arbitrary: h) (auto simp: bind_r_Inr as_str_Inr)

lemma as_headers_Inr: "as_headers j = Inr h \<Longrightarrow> headers_to_json h = j"
  by (cases j) (simp_all add: as_headers_def headers_to_json_def as_str_items_Inr)

lemma produced_is_fetched:
  assumes "server_ok s" and "dense_logs (s_ms s) (s_broker s)" and "0 < k"
    and "handle_produce e (JDict d) s = (s', Inr (Reply (JDict [(''topic'', JStr tn), (''partition'', JInt pid),
          (''offset'', JInt off), (''message_id'', JStr mid)])))"
    and "dict_get d ''value'' = Some (JStr v)"
  shows "\<exists>m. handle_fetch (JDict [(''topic'', JStr tn), (''partition'', JInt pid), (''offset'', JInt off),
            (''max_messages'', JInt k)]) s'
        = (s', Inr (Reply (JDict [(''messages'', JList [JDict (to_dict m)]), (''count'', JInt 1)])))
    \<and> m_id m = mid \<and> m_topic m = tn \<and> m_value m = utf8_encode v \<and> m_partition m = pid \<and> m_offset m = off
    \<and> dict_get d ''topic'' = Some (JStr tn)
    \<and> dict_get (to_dict m) ''key'' = Some (dict_get_default d ''key'' JNull)
    \<and> dict_get (to_dict m) ''headers'' = Some (dict_get_default d ''headers'' (JDict []))"
proof -
  obtain tn0 key hdrs s1 r ms' b' md where top: "dict_get d ''topic'' = Some (JStr tn0)"
      and kh: "as_str_opt (field d ''key'' JNull) = Inr key" "as_headers (field d ''headers'' (JDict [])) = Inr hdrs"
      and new: "new_message (message_new (e_id e) (e_now e 0) tn0 (utf8_encode v) key hdrs) s = (s1, r)"
      and pub: "broker_publish (e_clock e) (e_now e 1) (s_ms s1, s_broker s1) r = ((ms', b'), Inr md)"
      and s': "s' = s1\<lparr>s_ms := ms', s_broker := b'\<rparr>"
      and md: "rm_topic md = tn" "rm_partition md = pid" "rm_offset md = off" "rm_message_id md = mid"
    using assms(4,5)
    by (auto simp: handle_produce_def Let_def as_object_def dict_get_default_def encoded_def bind_r_Inr as_str_Inr
        split: sum.splits if_split_asm prod.splits option.splits)
  let ?m = "message_new (e_id e) (e_now e 0) tn0 (utf8_encode v) key hdrs"
  note F = new_message_fresh [OF assms(1) new]
  have mw: "b_middleware (s_broker s1) = []" using F server_okD(2) [OF assms(1)] by simp
  have s1: "s_ms s1 = (s_ms s)(r := ?m)" using new by (auto simp: new_message_def)
  have dense: "dense_logs (s_ms s1) (s_broker s1)"
    using assms(2) F unfolding dense_logs_def s1
    by (auto simp: dense_frame fresh_all_def fresh_for_def get_topic_def)
  obtain t p where r: "get_topic tn b' = Some t" "get_partition t pid = Inr p"
      "partition_read ms' (b_ps b' p) off k = [r]" "same_message (s_ms s1 r) (ms' r)"
      "m_partition (ms' r) = pid" "m_offset (ms' r) = off" "mid = m_id (s_ms s1 r)" "tn = m_topic (s_ms s1 r)"
    using publish_then_read [OF new_message_inv [OF assms(1) new] mw F [THEN conjunct2] dense pub assms(3)]
    by (auto simp: md)
  have tn: "tn0 = tn" using r(8) by (simp add: s1 message_new_def)
  have "handle_fetch (JDict [(''topic'', JStr tn), (''partition'', JInt pid), (''offset'', JInt off),
            (''max_messages'', JInt k)]) s'
        = (s', Inr (Reply (JDict [(''messages'', JList [JDict (to_dict (ms' r))]), (''count'', JInt 1)])))"
    using r(1-3) by (simp add: handle_fetch_def as_object_def lookup_key_def dict_get_default_def s')
  moreover have "m_id (ms' r) = mid \<and> m_topic (ms' r) = tn \<and> m_value (ms' r) = utf8_encode v"
    using r(4,7,8) by (simp add: same_message_def s1 message_new_def)
  moreover have "m_key (ms' r) = key" "m_headers (ms' r) = hdrs"
    using r(4) by (simp_all add: same_message_def s1 message_new_def)
  then have "dict_get (to_dict (ms' r)) ''key'' = Some (dict_get_default d ''key'' JNull)"
    "dict_get (to_dict (ms' r)) ''headers'' = Some (dict_get_default d ''headers'' (JDict []))"
    using as_str_opt_Inr [OF kh(1)] as_headers_Inr [OF kh(2)] by (simp_all add: to_dict_def)
  ultimately show ?thesis using r(5,6) top tn by blast
qed

text \<open>C6. What is produced can be fetched: after a produce request is answered with topic, partition and
  offset, fetching from there (with a limit of one or more) answers with exactly this message: its
  id, topic, value, key and headers are those of the request (the key and the headers as the JSON
  values that were sent, or what stands for none), and its partition and offset those of the answer.
  This needs a log without gaps, which every server has that ran no compaction.\<close>

theorem produce_then_fetch:
  assumes "server_ok s" and "dense_logs (s_ms s) (s_broker s)" and "0 < k"
    and "handle_produce e (JDict d) s = (s', Inr (Reply (JDict [(''topic'', JStr tn), (''partition'', JInt pid),
          (''offset'', JInt off), (''message_id'', JStr mid)])))"
    and "dict_get d ''value'' = Some (JStr v)"
  shows "\<exists>m. handle_fetch (JDict [(''topic'', JStr tn), (''partition'', JInt pid), (''offset'', JInt off),
            (''max_messages'', JInt k)]) s'
        = (s', Inr (Reply (JDict [(''messages'', JList [JDict (to_dict m)]), (''count'', JInt 1)])))
    \<and> m_id m = mid \<and> m_topic m = tn \<and> m_value m = utf8_encode v \<and> m_partition m = pid \<and> m_offset m = off
    \<and> dict_get d ''topic'' = Some (JStr tn)
    \<and> dict_get (to_dict m) ''key'' = Some (dict_get_default d ''key'' JNull)
    \<and> dict_get (to_dict m) ''headers'' = Some (dict_get_default d ''headers'' (JDict []))"
  by (rule produced_is_fetched [OF assms])

theorem produce_then_fetch_witness:
  "\<exists>s' m. handle_produce sample_env (JDict keyed_request) small_server
       = (s', Inr (Reply (JDict [(''topic'', JStr ''t''), (''partition'', JInt 0), (''offset'', JInt 0),
           (''message_id'', JStr ''0123456789abcdef'')])))
     \<and> snd (handle_fetch (JDict [(''topic'', JStr ''t''), (''partition'', JInt 0), (''offset'', JInt 0),
           (''max_messages'', JInt 5)]) s')
       = Inr (Reply (JDict [(''messages'', JList [JDict (to_dict m)]), (''count'', JInt 1)]))
     \<and> dict_get (to_dict m) ''key'' = Some (JStr ''k'')
     \<and> dict_get (to_dict m) ''headers'' = Some (JDict [(''h'', JStr ''1'')])"
proof -
  obtain s' res where h: "handle_produce sample_env (JDict keyed_request) small_server = (s', res)" by (metis surj_pair)
  have "dense_logs (s_ms small_server) (s_broker small_server)"
    by (simp add: dense_logs_def small_server_def server_new_def broker_new_def get_topic_def)
  moreover have "server_ok small_server" by (simp add: small_server_def server_new_ok)
  ultimately show ?thesis
    using produce_then_fetch [of small_server 5 sample_env keyed_request s' "''t''" 0 0 "''0123456789abcdef''" "''v''"] h
      keyed_produce(1) [OF h]
    by (auto simp: keyed_request_def dict_get_default_def)
qed

end
