(* ===== verification/Server_Stream.thy ===== *)
theory Server_Stream
  imports Server_Props
begin

section \<open>A connection as a sequence of frames\<close>

text \<open>
  What a connection does is what it does with the frames in its byte stream (\<open>serve_frames\<close>): the
  contract of \<open>framing\<close> carries over from the frames read to the whole state of the server.
\<close>

fun serve_frames ::
    "codec \<Rightarrow> (nat \<Rightarrow> env) \<Rightarrow> nat \<Rightarrow> frame list \<Rightarrow> server \<times> client \<Rightarrow> ((server \<times> client) \<times> nat) \<times> unit result" where
  "serve_frames cd envs i [] st = ((st, i), Inr ())"
| "serve_frames cd envs i (f # fs) st =
     (case dispatch cd (envs i) f st of
        (st', Inl x) \<Rightarrow> ((st', i + 1), Inl x)
      | (st', Inr _) \<Rightarrow> serve_frames cd envs (i + 1) fs st')"

lemma serve_frames_append:
  "serve_frames cd envs i (fs @ gs) st =
     (case serve_frames cd envs i fs st of
        ((st', j), Inl x) \<Rightarrow> ((st', j), Inl x)
      | ((st', j), Inr _) \<Rightarrow> serve_frames cd envs j gs st')"
  by (induction fs arbitrary: i st) (auto split: prod.splits sum.splits)

text \<open>The buffer is left alone by the handlers.\<close>

abbreviation with_buffer :: "byte list \<Rightarrow> server \<times> client \<Rightarrow> server \<times> client" where
  "with_buffer b st \<equiv> (fst st, (snd st)\<lparr>cl_buffer := b\<rparr>)"

lemma send_buffer:
  "send_response cd e f code data (c\<lparr>cl_buffer := b\<rparr>)
     = (case send_response cd e f code data c of (c', r) \<Rightarrow> (c'\<lparr>cl_buffer := b\<rparr>, r))"
  by (simp add: send_response_def split: sum.split)

lemma send_reply_buffer:
  "send_reply cd e f r (c\<lparr>cl_buffer := b\<rparr>)
     = (case send_reply cd e f r c of (c', x) \<Rightarrow> (c'\<lparr>cl_buffer := b\<rparr>, x))"
  by (cases r) (simp_all only: send_reply_def send_error_def send_buffer reply.case)

lemma seat_buffer: "c\<lparr>cl_buffer := b, cl_seat := x\<rparr> = c\<lparr>cl_seat := x, cl_buffer := b\<rparr>"
  by simp

lemma dispatch_buffer:
  "dispatch cd e f (with_buffer b st) = (case dispatch cd e f st of (st', r) \<Rightarrow> (with_buffer b st', r))"
proof (cases st)
  case (Pair s c)
  show ?thesis
  proof (cases "load_payload (loads cd) (f_payload f)")
    case (Inl x)
    then show ?thesis by (simp add: Pair dispatch_def send_error_def send_buffer split: prod.split)
  next
    case l: (Inr payload)
    show ?thesis
    proof (cases "handler_for cd e payload (f_api_key f)")
      case None
      then show ?thesis by (simp add: Pair l dispatch_def send_error_def send_buffer split: prod.split)
    next
      case (Some h)
      obtain s1 seat r where h: "h (s, cl_seat c) = ((s1, seat), r)" by (metis surj_pair)
      show ?thesis
      proof (cases r)
        case (Inl x)
        then show ?thesis using h by (simp add: Pair l Some dispatch_def)
      next
        case (Inr rp)
        then show ?thesis
          using h by (simp add: Pair l Some dispatch_def seat_buffer send_reply_buffer split: prod.split)
      qed
    qed
  qed
qed

text \<open>What a state is, apart from the buffer.\<close>

definition view :: "(server \<times> client) \<times> nat \<Rightarrow> (server \<times> client) \<times> nat" where
  "view x = (with_buffer [] (fst x), snd x)"

lemma serve_frames_buffer:
  "serve_frames cd envs i fs (with_buffer b st)
     = (case serve_frames cd envs i fs st of ((st', j), r) \<Rightarrow> ((with_buffer b st', j), r))"
proof (induction fs arbitrary: i st)
  case Nil
  then show ?case by simp
next
  case (Cons f fs)
  obtain st' r where d: "dispatch cd (envs i) f st = (st', r)" by (metis surj_pair)
  show ?case using Cons.IH [of "i + 1" st'] by (simp only: serve_frames.simps dispatch_buffer d) (auto split: sum.split)
qed

text \<open>Serving the buffer is serving the frames in it, in this order.\<close>

lemma serve_loop_frames:
  assumes "parse_all read_from_buffer n (cl_buffer (snd st)) = (fs, rest, err)"
  shows "case serve_frames cd envs i fs st of ((st', j), r) \<Rightarrow>
     (\<exists>b. serve_buffer_loop cd envs n i st = ((with_buffer b st', j),
        case r of Inl x \<Rightarrow> Inl x | Inr _ \<Rightarrow> (case err of Some x \<Rightarrow> Inl x | None \<Rightarrow> Inr ()))
      \<and> (r = Inr () \<and> err = None \<longrightarrow> b = rest))"
  using assms
proof (induction n arbitrary: i st fs)
  case 0
  have "st = with_buffer (cl_buffer (snd st)) st" by simp
  with 0 show ?case by (auto intro: exI [of _ "cl_buffer (snd st)"])
next
  case (Suc n)
  obtain s c where st: "st = (s, c)" by (cases st)
  show ?case
  proof (cases "read_from_buffer (cl_buffer c)")
    case (Inl x)
    have "st = with_buffer (cl_buffer c) st" by (simp add: st)
    with Inl Suc.prems show ?thesis by (auto simp: st intro!: exI [of _ "cl_buffer c"])
  next
    case (Inr y)
    obtain fo b where y: "y = (fo, b)" by (cases y)
    show ?thesis
    proof (cases fo)
      case None
      with Inr y Suc.prems show ?thesis by (auto simp: st)
    next
      case (Some f)
      obtain gs where p: "parse_all read_from_buffer n b = (gs, rest, err)" and fs: "fs = f # gs"
        using Suc.prems Inr y Some by (auto simp: st split: prod.splits)
      obtain st1 r1 where d: "dispatch cd (envs i) f st = (st1, r1)" by (metis surj_pair)
      have db: "dispatch cd (envs i) f (s, c\<lparr>cl_buffer := b\<rparr>) = (with_buffer b st1, r1)"
        using dispatch_buffer [where cd = cd and e = "envs i" and f = f and b = b and st = st] by (simp add: st d [unfolded st])
      show ?thesis
      proof (cases r1)
        case (Inl x)
        then show ?thesis using Inr y Some d db by (auto simp: st fs d [unfolded st])
      next
        case r1: (Inr u)
        have loop: "serve_buffer_loop cd envs (Suc n) i st = serve_buffer_loop cd envs n (i + 1) (with_buffer b st1)"
          using Inr y Some db r1 by (simp add: st)
        have frames: "serve_frames cd envs i fs st = serve_frames cd envs (i + 1) gs st1"
          using d r1 by (simp add: fs)
        have "parse_all read_from_buffer n (cl_buffer (snd (with_buffer b st1))) = (gs, rest, err)"
          using p by simp
        from Suc.IH [OF this, of "i + 1"] show ?thesis
          unfolding loop frames by (auto simp: serve_frames_buffer split: prod.splits)
      qed
    qed
  qed
qed

lemma dispatch_active:
  assumes "dispatch cd e f (s, c) = ((s', c'), res)" and "e_write e"
  shows "cl_active c' = cl_active c"
  using dispatch_shape [OF assms(1)]
proof (elim disjE exE conjE)
  fix seat r assume "send_reply cd e f r (c\<lparr>cl_seat := seat\<rparr>) = (c', res)"
  from send_reply_cases [OF this] assms(2) show ?thesis
    by (cases res) (auto simp: answered_def)
qed auto

lemma serve_frames_active:
  "serve_frames cd envs i fs (s, c) = (((s', c'), j), r) \<Longrightarrow> \<forall>i. e_write (envs i) \<Longrightarrow> cl_active c' = cl_active c"
proof (induction fs arbitrary: i s c)
  case Nil
  then show ?case by simp
next
  case (Cons f fs)
  obtain s1 c1 r1 where d: "dispatch cd (envs i) f (s, c) = ((s1, c1), r1)" by (metis surj_pair)
  have a: "cl_active c1 = cl_active c" by (rule dispatch_active [OF d]) (use Cons.prems(2) in simp)
  show ?case
  proof (cases r1)
    case (Inl x)
    then show ?thesis using Cons.prems(1) d a by auto
  next
    case (Inr u)
    then have "serve_frames cd envs (i + 1) fs (s1, c1) = (((s', c'), j), r)" using Cons.prems(1) d by simp
    from Cons.IH [OF this Cons.prems(2)] a show ?thesis by simp
  qed
qed

lemma view_buffer: "view ((s, c\<lparr>cl_buffer := b\<rparr>), j) = view ((s, c), j)"
  by (simp add: view_def)

lemma receive_frames:
  assumes "\<forall>i. e_write (envs i)" and "cl_active c" and "[] \<notin> set chunks"
  shows "view (receive_loop cd envs chunks i (s, c))
    = view (fst (serve_frames cd envs i (fst (feed_with read_from_buffer chunks (cl_buffer c))) (s, c)))"
  using assms(2,3)
proof (induction chunks arbitrary: i s c)
  case Nil
  then show ?case by simp
next
  case (Cons data rest)
  let ?c = "c\<lparr>cl_buffer := cl_buffer c @ data\<rparr>"
  obtain fs b err where p: "process_with read_from_buffer (cl_buffer c @ data) = (fs, b, err)"
    by (metis surj_pair)
  then have pa: "parse_all read_from_buffer (Suc (length (cl_buffer ?c))) (cl_buffer (snd (s, ?c))) = (fs, b, err)"
    by (simp add: process_with_def)
  obtain s1 c1 j r where sf: "serve_frames cd envs i fs (s, c) = (((s1, c1), j), r)" by (metis surj_pair)
  have sf': "serve_frames cd envs i fs (s, ?c) = ((with_buffer (cl_buffer c @ data) (s1, c1), j), r)"
    using serve_frames_buffer [where cd = cd and envs = envs and i = i and fs = fs and b = "cl_buffer c @ data" and st = "(s, c)"] by (simp add: sf)
  from serve_loop_frames [OF pa, of cd envs i] obtain b' where
    loop: "serve_buffer cd envs i (s, ?c) = ((with_buffer b' (s1, c1), j),
        case r of Inl x \<Rightarrow> Inl x | Inr _ \<Rightarrow> (case err of Some x \<Rightarrow> Inl x | None \<Rightarrow> Inr ()))"
    and b': "r = Inr () \<and> err = None \<longrightarrow> b' = b"
    by (auto simp: sf' serve_buffer_def)
  have go: "cl_active c" "data \<noteq> []" using Cons.prems by auto
  show ?case
  proof (cases r)
    case (Inl x)
    obtain gs b2 err2 where g: "fst (feed_with read_from_buffer (data # rest) (cl_buffer c)) = fs @ gs"
      by (cases err; cases "feed_with read_from_buffer rest b") (auto simp: p)
    have "serve_frames cd envs i (fst (feed_with read_from_buffer (data # rest) (cl_buffer c))) (s, c)
        = (((s1, c1), j), Inl x)" unfolding g by (simp add: serve_frames_append sf Inl)
    moreover have "receive_loop cd envs (data # rest) i (s, c) = ((s1, c1\<lparr>cl_buffer := b'\<rparr>), j)"
      using go loop Inl by simp
    ultimately show ?thesis by (simp only: view_buffer fst_conv)
  next
    case r: (Inr u)
    show ?thesis
    proof (cases err)
      case (Some x)
      then show ?thesis using go loop r by (simp add: p sf view_buffer)
    next
      case None
      have act: "cl_active (c1\<lparr>cl_buffer := b\<rparr>)"
        using serve_frames_active [OF sf assms(1)] go(1) by simp
      have "receive_loop cd envs (data # rest) i (s, c) = receive_loop cd envs rest j (s1, c1\<lparr>cl_buffer := b\<rparr>)"
        using go loop r None b' by simp
      moreover have "fst (feed_with read_from_buffer (data # rest) (cl_buffer c))
          = fs @ fst (feed_with read_from_buffer rest b)"
        using None by (simp add: p split: prod.split)
      moreover have "serve_frames cd envs j gs (s1, c1\<lparr>cl_buffer := b\<rparr>)
          = (case serve_frames cd envs j gs (s1, c1) of ((st', k), x) \<Rightarrow> ((with_buffer b st', k), x))" for gs
        using serve_frames_buffer [where cd = cd and envs = envs and i = j and fs = gs and b = b and st = "(s1, c1)"] by simp
      ultimately show ?thesis
        using Cons.IH [OF act, of j s1] Cons.prems(2) r
        by (simp add: serve_frames_append sf view_buffer split: prod.split)
    qed
  qed
qed

lemma handle_view:
  "handle cd envs now cs st = (cleanup now (fst (view (receive_loop cd envs cs 0 st))),
     cl_sent (snd (fst (view (receive_loop cd envs cs 0 st)))))"
proof -
  obtain s c i where r: "receive_loop cd envs cs 0 st = ((s, c), i)" by (metis surj_pair)
  have "cleanup now (s, c\<lparr>cl_buffer := []\<rparr>) = cleanup now (s, c)" by (simp add: cleanup_def)
  then show ?thesis by (simp add: handle_def view_def r)
qed

text \<open>C7. However TCP cuts a client's byte stream into chunks, the server does the same: as long as its
  answers can be sent, it ends in the same state (topics, logs, queues, groups, consumers and stored
  messages) and has sent the same bytes, malformed frames and escaping exceptions included.\<close>

theorem serving_independent_of_chunks:
  assumes "\<forall>i. e_write (envs i)" and "[] \<notin> set cs" and "[] \<notin> set ds" and "concat cs = concat ds"
  shows "handle cd envs now cs (s, client_new) = handle cd envs now ds (s, client_new)"
proof -
  have empty: "read_from_buffer [] = Inr (None, [])" by (simp add: read_from_buffer_def)
  have new: "cl_active client_new" "cl_buffer client_new = []" by (simp_all add: client_new_def)
  have same: "fst (feed_with read_from_buffer cs []) = fst (feed_with read_from_buffer ds [])"
    using frames.feed_process [OF empty, of cs, THEN conjunct1]
      frames.feed_process [OF empty, of ds, THEN conjunct1] unfolding assms(4) by (rule trans [OF _ sym])
  have "view (receive_loop cd envs cs 0 (s, client_new)) = view (receive_loop cd envs ds 0 (s, client_new))"
    unfolding receive_frames [OF assms(1) new(1) assms(2)] receive_frames [OF assms(1) new(1) assms(3)] new(2) same
    by (rule refl)
  then show ?thesis by (simp only: handle_view)
qed

theorem serving_independent_of_chunks_witness:
  "handle sample_codec (\<lambda>_. sample_env) 0 [[0, 0, 0], [8, 0, 8, 0, 1, 0, 0, 0, 7]] (sample_server, client_new)
     = handle sample_codec (\<lambda>_. sample_env) 0 [[0, 0, 0, 8, 0, 8, 0, 1, 0, 0, 0, 7]] (sample_server, client_new)"
  by (rule serving_independent_of_chunks) (simp_all add: sample_env_def)

end
