(* ===== verification/Client.thy ===== *)
theory Client
  imports Protocol
begin

section \<open>The TCP client\<close>

text \<open>
  \<^verbatim>\<open>client.py\<close>: requests over a socket and the response read back, and one method for each request.
  The other end of the connection is a parameter: a \<open>peer\<close> takes the bytes sent and gives the chunks
  that arrive then, and whether it has closed the stream after them. What has arrived and is not read
  yet stays with the client (\<open>bc_incoming\<close>), as in the socket's receive buffer; when it is used up, \<open>recv\<close>
  gives no bytes at the end of the stream and raises the timeout of the socket otherwise. The JSON
  printer and parser are parameters, as in \<open>Protocol\<close>.
\<close>

type_synonym incoming = "byte list list \<times> bool"

record broker_client =
  bc_connected :: bool
  bc_socket :: bool
  bc_correlation :: int
  bc_incoming :: incoming

definition broker_client_new :: broker_client where
  "broker_client_new = \<lparr>bc_connected = False, bc_socket = False, bc_correlation = 0, bc_incoming = ([], False)\<rparr>"

text \<open>\<open>connect\<close>, with what the socket's own \<open>connect\<close> does as an argument; \<open>close\<close>. The new socket is kept
  even when connecting fails.\<close>

definition client_connect :: "unit result \<Rightarrow> broker_client \<Rightarrow> broker_client \<times> unit result" where
  "client_connect outcome c =
     (case outcome of
        Inl e \<Rightarrow> (c\<lparr>bc_socket := True, bc_incoming := ([], False)\<rparr>, Inl e)
      | Inr _ \<Rightarrow> (c\<lparr>bc_connected := True, bc_socket := True, bc_incoming := ([], False)\<rparr>, Inr ()))"

definition client_close :: "broker_client \<Rightarrow> broker_client" where
  "client_close c = c\<lparr>bc_connected := False, bc_socket := False\<rparr>"

definition next_correlation_id :: "broker_client \<Rightarrow> broker_client \<times> int" where
  "next_correlation_id c = (c\<lparr>bc_correlation := bc_correlation c + 1\<rparr>, bc_correlation c + 1)"

subsection \<open>Reading a response\<close>

text \<open>\<open>recv(n)\<close>: at most \<open>n\<close> bytes of what arrived first.\<close>

fun recv :: "nat \<Rightarrow> incoming \<Rightarrow> incoming \<times> byte list result" where
  "recv n ([], eof) = (([], eof), if eof then Inr [] else Inl TimeoutError)"
| "recv n (c # cs, eof) = ((if length c \<le> n then cs else drop n c # cs, eof), Inr (take n c))"

function recv_loop :: "nat \<Rightarrow> byte list \<Rightarrow> incoming \<Rightarrow> incoming \<times> byte list result" where
  "recv_loop n data inc =
     (if length data < n
      then (case recv (n - length data) inc of
              (inc', Inl e) \<Rightarrow> (inc', Inl e)
            | (inc', Inr chunk) \<Rightarrow>
                if chunk = [] then (inc', Inl ConnectionError) else recv_loop n (data @ chunk) inc')
      else (inc, Inr data))"
  by pat_completeness auto

termination
  by (relation "measure (\<lambda>(n, data, inc). n - length data)")
    (auto intro!: diff_less_mono2 simp flip: length_greater_0_conv)

declare recv_loop.simps [simp del]

definition recv_exactly :: "nat \<Rightarrow> incoming \<Rightarrow> incoming \<times> byte list result" where
  "recv_exactly n inc = recv_loop n [] inc"

definition read_response :: "incoming \<Rightarrow> incoming \<times> byte list result" where
  "read_response inc =
     (case recv_exactly 4 inc of
        (inc1, Inl e) \<Rightarrow> (inc1, Inl e)
      | (inc1, Inr header) \<Rightarrow>
          (case recv_exactly (be_nat header) inc1 of
             (inc2, Inl e) \<Rightarrow> (inc2, Inl e)
           | (inc2, Inr body) \<Rightarrow> (inc2, Inr (header @ body))))"

subsection \<open>Requests\<close>

text \<open>The exceptions of a call: Python's own, and \<open>BrokerError\<close> with its code and text (none for the
  text made from the code alone).\<close>

datatype client_error = Raised py_error | BrokerError error_code "json option"

type_synonym 'x peer = "byte list \<Rightarrow> 'x \<Rightarrow> 'x \<times> incoming result"

text \<open>What a call works with: the client and the other end.\<close>

type_synonym ('x, 'a) call = "broker_client \<times> 'x \<Rightarrow> (broker_client \<times> 'x) \<times> (client_error + 'a)"

definition response_value :: "response \<Rightarrow> client_error + json" where
  "response_value r =
     (if p_error_code r \<noteq> NO_ERROR
      then (case p_data r of
              JDict d \<Rightarrow> Inl (BrokerError (p_error_code r) (dict_get d ''error''))
            | _ \<Rightarrow> Inl (Raised AttributeError))
      else Inr (p_data r))"

definition arrives :: "incoming \<Rightarrow> incoming \<Rightarrow> incoming" where
  "arrives inc new = (fst inc @ fst new, snd inc \<or> snd new)"

definition send_request ::
    "(json \<Rightarrow> string) \<Rightarrow> (string \<Rightarrow> json result) \<Rightarrow> 'x peer \<Rightarrow> api_key \<Rightarrow> json \<Rightarrow> ('x, json) call" where
  "send_request dump load peer k data s =
     (case s of (c, x) \<Rightarrow>
        if \<not> bc_connected c \<or> \<not> bc_socket c then (s, Inl (Raised ConnectionError))
        else
          (case next_correlation_id c of (c1, cid) \<Rightarrow>
             (case encode_request dump k cid data 1 of
                Inl e \<Rightarrow> ((c1, x), Inl (Raised e))
              | Inr frame_bytes \<Rightarrow>
                  (case peer frame_bytes x of
                     (x', Inl e) \<Rightarrow> ((c1, x'), Inl (Raised e))
                   | (x', Inr arrived) \<Rightarrow>
                       (case read_response (arrives (bc_incoming c1) arrived) of (inc, res) \<Rightarrow>
                          ((c1\<lparr>bc_incoming := inc\<rparr>, x'),
                           case res of
                             Inl e \<Rightarrow> Inl (Raised e)
                           | Inr response_data \<Rightarrow>
                               (case decode_response load response_data of
                                  Inl e \<Rightarrow> Inl (Raised e)
                                | Inr r \<Rightarrow> response_value r)))))))"

subsection \<open>The methods\<close>

text \<open>A value given as bytes is decoded, with replacement characters.\<close>

datatype text_or_bytes = Txt string | Raw "byte list"

definition value_text :: "text_or_bytes \<Rightarrow> string" where
  "value_text v = (case v of Txt s \<Rightarrow> s | Raw b \<Rightarrow> utf8_decode_replace b)"

definition opt_str :: "string option \<Rightarrow> json" where
  "opt_str k = (case k of None \<Rightarrow> JNull | Some s \<Rightarrow> JStr s)"

text \<open>\<open>result.get(key, default)\<close>\<close>

definition result_get :: "string \<Rightarrow> json \<Rightarrow> json \<Rightarrow> client_error + json" where
  "result_get k dflt j =
     (case j of JDict d \<Rightarrow> Inr (dict_get_default d k dflt) | _ \<Rightarrow> Inl (Raised AttributeError))"

definition and_get :: "string \<Rightarrow> json \<Rightarrow> (broker_client \<times> 'x) \<times> (client_error + json) \<Rightarrow> (broker_client \<times> 'x) \<times> (client_error + json)" where
  "and_get k dflt out =
     (fst out, case snd out of Inl e \<Rightarrow> Inl e | Inr j \<Rightarrow> result_get k dflt j)"

text \<open>In each method, \<open>req\<close> is \<open>self._send_request\<close>.\<close>

type_synonym 'x sender = "api_key \<Rightarrow> json \<Rightarrow> ('x, json) call"

definition client_create_topic :: "'x sender \<Rightarrow> string \<Rightarrow> int \<Rightarrow> ('x, json) call" where
  "client_create_topic req name partitions =
     req CREATE_TOPICS (JDict [(''name'', JStr name), (''partitions'', JInt partitions)])"

definition client_delete_topic :: "'x sender \<Rightarrow> string \<Rightarrow> ('x, json) call" where
  "client_delete_topic req name = req DELETE_TOPICS (JDict [(''name'', JStr name)])"

definition client_list_topics :: "'x sender \<Rightarrow> ('x, json) call" where
  "client_list_topics req = req METADATA (JDict [])"

definition produce_request :: "string \<Rightarrow> text_or_bytes \<Rightarrow> string option \<Rightarrow> headers option \<Rightarrow> json" where
  "produce_request topic val key hdrs =
     JDict [(''topic'', JStr topic), (''value'', JStr (value_text val)), (''key'', opt_str key),
       (''headers'', headers_to_json (headers_new hdrs))]"

definition client_produce ::
    "'x sender \<Rightarrow> string \<Rightarrow> text_or_bytes \<Rightarrow> string option \<Rightarrow> headers option \<Rightarrow> ('x, json) call" where
  "client_produce req topic val key hdrs = req PRODUCE (produce_request topic val key hdrs)"

definition fetch_request :: "string \<Rightarrow> int \<Rightarrow> int \<Rightarrow> int \<Rightarrow> json" where
  "fetch_request topic pid off max_messages =
     JDict [(''topic'', JStr topic), (''partition'', JInt pid), (''offset'', JInt off),
       (''max_messages'', JInt max_messages)]"

definition client_fetch :: "'x sender \<Rightarrow> string \<Rightarrow> int \<Rightarrow> int \<Rightarrow> int \<Rightarrow> ('x, json) call" where
  "client_fetch req topic pid off max_messages s =
     and_get ''messages'' (JList []) (req FETCH (fetch_request topic pid off max_messages) s)"

definition client_join_group :: "'x sender \<Rightarrow> string \<Rightarrow> string \<Rightarrow> string option \<Rightarrow> ('x, json) call" where
  "client_join_group req group_id topic consumer_id =
     req JOIN_GROUP (JDict [(''group_id'', JStr group_id), (''topic'', JStr topic), (''consumer_id'', opt_str consumer_id)])"

definition client_leave_group :: "'x sender \<Rightarrow> string \<Rightarrow> ('x, json) call" where
  "client_leave_group req group_id = req LEAVE_GROUP (JDict [(''group_id'', JStr group_id)])"

definition client_commit_offsets :: "'x sender \<Rightarrow> ('x, json) call" where
  "client_commit_offsets req = req OFFSET_COMMIT (JDict [])"

definition client_fetch_offsets :: "'x sender \<Rightarrow> ('x, json) call" where
  "client_fetch_offsets req = req OFFSET_FETCH (JDict [])"

definition client_create_queue :: "'x sender \<Rightarrow> string \<Rightarrow> int \<Rightarrow> bool \<Rightarrow> ('x, json) call" where
  "client_create_queue req name max_size priority =
     req CREATE_QUEUE (JDict [(''name'', JStr name), (''max_size'', JInt max_size), (''priority'', JBool priority)])"

definition client_enqueue ::
    "'x sender \<Rightarrow> string \<Rightarrow> text_or_bytes \<Rightarrow> string option \<Rightarrow> int \<Rightarrow> ('x, json) call" where
  "client_enqueue req queue val key priority =
     req ENQUEUE (JDict [(''queue'', JStr queue), (''value'', JStr (value_text val)), (''key'', opt_str key),
       (''priority'', JInt priority)])"

definition client_dequeue :: "'x sender \<Rightarrow> string \<Rightarrow> ('x, json) call" where
  "client_dequeue req queue s = and_get ''message'' JNull (req DEQUEUE (JDict [(''queue'', JStr queue)]) s)"

definition client_ack :: "'x sender \<Rightarrow> string \<Rightarrow> string \<Rightarrow> ('x, json) call" where
  "client_ack req queue message_id = req ACK (JDict [(''queue'', JStr queue), (''message_id'', JStr message_id)])"

definition client_heartbeat :: "'x sender \<Rightarrow> ('x, json) call" where
  "client_heartbeat req = req HEARTBEAT (JDict [])"

definition client_metrics :: "'x sender \<Rightarrow> ('x, json) call" where
  "client_metrics req = req METRICS (JDict [])"

definition client_list_groups :: "'x sender \<Rightarrow> ('x, json) call" where
  "client_list_groups req s = and_get ''groups'' (JList []) (req LIST_GROUPS (JDict []) s)"

subsection \<open>Reading exactly\<close>

lemma recv_some:
  assumes "[] \<notin> set (fst inc)" and "0 < n" and "fst inc \<noteq> []"
  shows "\<exists>inc' chunk. recv n inc = (inc', Inr chunk) \<and> chunk \<noteq> [] \<and> length chunk \<le> n
    \<and> concat (fst inc) = chunk @ concat (fst inc') \<and> [] \<notin> set (fst inc') \<and> snd inc' = snd inc"
proof -
  obtain c cs eof where inc: "inc = (c # cs, eof)" using assms(3) by (cases inc; cases "fst inc") auto
  have "recv n inc = ((if length c \<le> n then cs else drop n c # cs, eof), Inr (take n c))" by (simp add: inc)
  with assms(1,2) show ?thesis by (auto simp: inc)
qed

text \<open>However the bytes arrive, exactly the first \<open>n\<close> are taken, as soon as there are \<open>n\<close>.\<close>

lemma recv_loop_spec:
  "[] \<notin> set (fst inc) \<Longrightarrow> length data \<le> n \<Longrightarrow> n \<le> length data + length (concat (fst inc)) \<Longrightarrow>
     \<exists>inc'. recv_loop n data inc = (inc', Inr (data @ take (n - length data) (concat (fst inc))))
       \<and> concat (fst inc') = drop (n - length data) (concat (fst inc)) \<and> [] \<notin> set (fst inc') \<and> snd inc' = snd inc"
proof (induction n data inc rule: recv_loop.induct)
  case (1 n data inc)
  show ?case
  proof (cases "length data < n")
    case False
    with 1 show ?thesis by (subst recv_loop.simps) auto
  next
    case True
    have ne: "fst inc \<noteq> []" using "1.prems"(3) True by auto
    have "0 < n - length data" using True by simp
    from recv_some [OF "1.prems"(1) this ne] obtain inc1 chunk where
      rc: "recv (n - length data) inc = (inc1, Inr chunk)" and chunk: "chunk \<noteq> []"
      and C: "length chunk \<le> n - length data" "concat (fst inc) = chunk @ concat (fst inc1)"
        "[] \<notin> set (fst inc1)" "snd inc1 = snd inc" by blast
    have "\<exists>inc'. recv_loop n (data @ chunk) inc1 =
          (inc', Inr ((data @ chunk) @ take (n - length (data @ chunk)) (concat (fst inc1))))
       \<and> concat (fst inc') = drop (n - length (data @ chunk)) (concat (fst inc1)) \<and> [] \<notin> set (fst inc')
       \<and> snd inc' = snd inc1"
      by (rule "1.IH" [OF True rc [symmetric] refl chunk]) (use C "1.prems" True in \<open>auto\<close>)
    moreover have "recv_loop n data inc = recv_loop n (data @ chunk) inc1"
      by (subst recv_loop.simps) (simp add: True rc chunk)
    ultimately show ?thesis using C by (auto simp: diff_diff_add)
  qed
qed

lemma recv_exactly_spec:
  assumes "[] \<notin> set (fst inc)" and "concat (fst inc) = a @ b" and "length a = n"
  shows "\<exists>inc'. recv_exactly n inc = (inc', Inr a) \<and> concat (fst inc') = b \<and> [] \<notin> set (fst inc')
    \<and> snd inc' = snd inc"
  using recv_loop_spec [OF assms(1), of "[]" n] assms(2,3) by (simp add: recv_exactly_def)

lemma read_response_spec:
  assumes "[] \<notin> set (fst inc)" and "concat (fst inc) = bs @ rest" and "frame_to_bytes f = Inr bs"
  shows "\<exists>inc'. read_response inc = (inc', Inr bs) \<and> concat (fst inc') = rest \<and> [] \<notin> set (fst inc')
    \<and> snd inc' = snd inc"
  using assms(3)
proof (rule frame_layout)
  fix l k v c
  assume *: "bs = l @ k @ v @ c @ f_payload f" "length l = 4" "length k = 2" "length v = 2"
    "length c = 4" "be_nat l = 8 + length (f_payload f)"
  let ?body = "k @ v @ c @ f_payload f"
  obtain inc1 where one: "recv_exactly 4 inc = (inc1, Inr l)" "concat (fst inc1) = ?body @ rest"
      "[] \<notin> set (fst inc1)" "snd inc1 = snd inc"
    using recv_exactly_spec [OF assms(1), of l "?body @ rest" 4] assms(2) * by auto
  obtain inc2 where two: "recv_exactly (be_nat l) inc1 = (inc2, Inr ?body)" "concat (fst inc2) = rest"
      "[] \<notin> set (fst inc2)" "snd inc2 = snd inc1"
    using recv_exactly_spec [OF one(3,2), of "be_nat l"] * by auto
  from one two *(1) show ?thesis by (simp add: read_response_def)
qed

end
