(* ===== verification/Client_Server.thy ===== *)
theory Client_Server
  imports Client Server_Stream
begin

section \<open>The client and the server together\<close>

text \<open>
  The other end of the client's connection is the server's loop over its buffer (\<open>serve_buffer\<close>): its
  answers come back cut into any chunks, and the stream ends when an exception has ended the loop or
  the connection was given up.
\<close>

type_synonym connection = "(server \<times> client) \<times> nat"

definition server_peer :: "codec \<Rightarrow> (nat \<Rightarrow> env) \<Rightarrow> (byte list \<Rightarrow> byte list list) \<Rightarrow> connection peer" where
  "server_peer cd envs chop bs x =
     (case x of ((s, conn), i) \<Rightarrow>
        (case serve_buffer cd envs i (s, conn\<lparr>cl_buffer := cl_buffer conn @ bs\<rparr>) of
           (((s', conn'), i'), res) \<Rightarrow>
             (((s', conn'), i'),
              Inr (chop (concat (drop (length (cl_sent conn)) (cl_sent conn'))), \<not> is_ok res \<or> \<not> cl_active conn'))))"

text \<open>The JSON library carries a value when it reads back the text it wrote for it, and this text fits.\<close>

definition carries :: "codec \<Rightarrow> json \<Rightarrow> bool" where
  "carries cd j \<longleftrightarrow> loads cd (dumps cd j) = Inr j \<and> dumps cd j \<noteq> [] \<and> utf8_valid (utf8_encode (dumps cd j))
     \<and> length (dumps cd j) < 2 ^ 31"

definition chops :: "(byte list \<Rightarrow> byte list list) \<Rightarrow> bool" where
  "chops chop \<longleftrightarrow> (\<forall>bs. concat (chop bs) = bs \<and> [] \<notin> set (chop bs))"

definition reply_code :: "reply \<Rightarrow> error_code" where
  "reply_code r = (case r of Reply _ \<Rightarrow> NO_ERROR | Failure code \<Rightarrow> code)"

definition reply_data :: "env \<Rightarrow> reply \<Rightarrow> json" where
  "reply_data e r = (case r of Reply j \<Rightarrow> j | Failure _ \<Rightarrow> JDict [(''error'', JStr (e_text e))])"

definition answer_json :: "env \<Rightarrow> reply \<Rightarrow> json" where
  "answer_json e r =
     JDict [(''error_code'', JInt (error_number (reply_code r))), (''data'', data_or_empty (reply_data e r))]"

text \<open>An open connection on which nothing is pending.\<close>

definition linked :: "broker_client \<Rightarrow> client \<Rightarrow> bool" where
  "linked c conn \<longleftrightarrow> bc_connected c \<and> bc_socket c \<and> bc_incoming c = ([], False)
     \<and> cl_buffer conn = [] \<and> cl_active conn"

lemma length_utf8_encode: "length (utf8_encode s) = length s"
  by (simp add: utf8_encode_def)

lemma load_carried: "carries cd j \<Longrightarrow> load_payload (loads cd) (utf8_encode (dumps cd j)) = Inr j"
  using utf8_decode_encode [of "dumps cd j"] length_utf8_encode [of "dumps cd j"]
  by (auto simp: carries_def load_payload_def)

lemma carried_fits:
  assumes "carries cd j" and "- (2 ^ 31) \<le> cid" and "cid < 2 ^ 31"
  shows "frame_fits \<lparr>f_api_key = k, f_api_version = 1, f_correlation_id = cid, f_payload = utf8_encode (dumps cd j)\<rparr>"
  using assms by (simp add: frame_fits_def carries_def length_utf8_encode)

lemma data_or_empty_idem [simp]: "data_or_empty (data_or_empty j) = data_or_empty j"
  by (simp add: data_or_empty_def split: json.split)

subsection \<open>One request\<close>

lemma serve_request:
  assumes bs: "frame_to_bytes f = Inr bs" and "load_payload (loads cd) (f_payload f) = Inr payload"
    and "handler_for cd (envs i) payload (f_api_key f) = Some h" and "h (s, cl_seat conn) = ((s', seat'), res)"
    and "cl_buffer conn = []"
  shows "serve_buffer cd envs i (s, conn\<lparr>cl_buffer := cl_buffer conn @ bs\<rparr>) =
    (case res of
       Inl x \<Rightarrow> (((s', conn\<lparr>cl_seat := seat'\<rparr>), i + 1), Inl x)
     | Inr r \<Rightarrow>
         (case send_reply cd (envs i) f r (conn\<lparr>cl_seat := seat'\<rparr>) of
            (conn', Inl x) \<Rightarrow> (((s', conn'), i + 1), Inl x)
          | (conn', Inr _) \<Rightarrow> (((s', conn'\<lparr>cl_buffer := []\<rparr>), i + 1), Inr ())))"
proof -
  obtain n where n: "length bs = Suc n" using frame_length [OF bs] by (cases "length bs") auto
  have rd: "read_from_buffer bs = Inr (Some f, [])" using read_frame_and_more [OF bs, of "[]"] by simp
  have conn: "conn\<lparr>cl_buffer := []\<rparr> = conn" using assms(5) by (cases conn) simp
  have d: "dispatch cd (envs i) f (s, conn) = (case res of
       Inl x \<Rightarrow> ((s', conn\<lparr>cl_seat := seat'\<rparr>), Inl x)
     | Inr r \<Rightarrow> (case send_reply cd (envs i) f r (conn\<lparr>cl_seat := seat'\<rparr>) of (conn', y) \<Rightarrow> ((s', conn'), y)))"
    using assms(2-4) by (simp add: dispatch_def)
  have empty: "cl_buffer conn' = []"
    if "send_reply cd (envs i) f r (conn\<lparr>cl_seat := seat'\<rparr>) = (conn', y)" for r conn' y
    using that assms(5)
    by (auto simp: send_reply_def send_error_def send_response_def split: reply.splits sum.splits if_split_asm)
  show ?thesis
    using assms(5)
    by (auto simp: serve_buffer_def n rd conn d read_from_buffer_def [of "[]"] empty split: sum.splits prod.splits)
qed

text \<open>An answer that can be sent is what the client reads.\<close>

lemma send_carried_reply:
  assumes "carries cd (answer_json e r)" and "e_write e"
    and "- (2 ^ 31) \<le> f_correlation_id f" and "f_correlation_id f < 2 ^ 31"
  shows "\<exists>bs g. send_reply cd e f r c = (c\<lparr>cl_sent := cl_sent c @ [bs]\<rparr>, Inr ())
    \<and> frame_to_bytes g = Inr bs
    \<and> decode_response (loads cd) bs
        = Inr (response_new (f_correlation_id f) (reply_code r) (reply_data e r))"
proof -
  let ?g = "response_to_frame (dumps cd) (f_api_key f) (response_new (f_correlation_id f) (reply_code r) (reply_data e r))"
  have g: "?g = \<lparr>f_api_key = f_api_key f, f_api_version = 1, f_correlation_id = f_correlation_id f,
      f_payload = utf8_encode (dumps cd (answer_json e r))\<rparr>"
    by (simp add: response_to_frame_def response_new_def answer_json_def)
  then obtain bs where bs: "frame_to_bytes ?g = Inr bs"
    using carried_fits [OF assms(1,3,4), of "f_api_key f"] by (simp add: frame_to_bytes_cases)
  have "send_reply cd e f r c = send_response cd e f (reply_code r) (reply_data e r) c"
    by (simp add: send_reply_def send_error_def reply_code_def reply_data_def split: reply.split)
  then have "send_reply cd e f r c = (c\<lparr>cl_sent := cl_sent c @ [bs]\<rparr>, Inr ())"
    using bs assms(2) by (simp add: send_response_def)
  moreover have "decode_response (loads cd) bs
      = Inr (response_new (f_correlation_id f) (reply_code r) (reply_data e r))"
    using frame_from_to_bytes [OF bs] load_carried [OF assms(1)]
    by (simp add: response_to_frame_def decode_response_def answer_json_def dict_get_default_def response_new_def)
  ultimately show ?thesis using bs by blast
qed

definition outcome :: "env \<Rightarrow> reply result \<Rightarrow> client_error + json" where
  "outcome e res =
     (case res of
        Inl _ \<Rightarrow> Inl (Raised ConnectionError)
      | Inr (Reply j) \<Rightarrow> Inr (data_or_empty j)
      | Inr (Failure code) \<Rightarrow> Inl (BrokerError code (Some (JStr (e_text e)))))"

lemma outcome_value:
  assumes "res = Inr r" and "r \<noteq> Failure NO_ERROR"
  shows "response_value (response_new cid (reply_code r) (reply_data e r)) = outcome e res"
  using assms
  by (cases r) (auto simp: response_value_def response_new_def reply_code_def reply_data_def outcome_def data_or_empty_def)

lemma read_nothing: "read_response ([], True) = (([], True), Inl ConnectionError)"
  by (simp add: read_response_def recv_exactly_def recv_loop.simps)

lemma read_whole:
  assumes "chops chop" and "frame_to_bytes g = Inr bs"
  shows "read_response (chop bs, False) = (([], False), Inr bs)"
proof -
  obtain inc' where "read_response (chop bs, False) = (inc', Inr bs)" "concat (fst inc') = []"
      "[] \<notin> set (fst inc')" "snd inc' = False"
    using read_response_spec [of "(chop bs, False)" bs "[]" g] assms by (auto simp: chops_def)
  then show ?thesis by (cases inc'; cases "fst inc'") auto
qed

lemma request_call:
  assumes "linked c conn" and "chops chop" and "\<forall>i. e_write (envs i)"
    and "- (2 ^ 31) \<le> bc_correlation c" and "bc_correlation c + 1 < 2 ^ 31"
    and "carries cd (data_or_empty data)"
    and "handler_for cd (envs i) (data_or_empty data) k = Some h" and "h (s, cl_seat conn) = ((s', seat'), res)"
    and "\<And>r. res = Inr r \<Longrightarrow> r \<noteq> Failure NO_ERROR \<and> carries cd (answer_json (envs i) r)"
  shows "\<exists>c' conn'. send_request (dumps cd) (loads cd) (server_peer cd envs chop) k data (c, ((s, conn), i))
      = ((c', ((s', conn'), i + 1)), outcome (envs i) res)
    \<and> cl_seat conn' = seat' \<and> bc_correlation c' = bc_correlation c + 1 \<and> (is_ok res \<longrightarrow> linked c' conn')"
proof -
  let ?cid = "bc_correlation c + 1"
  let ?f = "\<lparr>f_api_key = k, f_api_version = 1, f_correlation_id = ?cid,
      f_payload = utf8_encode (dumps cd (data_or_empty data))\<rparr>"
  let ?peer = "server_peer cd envs chop"
  note link = assms(1) [unfolded linked_def]
  obtain bs where bs: "frame_to_bytes ?f = Inr bs"
    using carried_fits [OF assms(6), of ?cid k] assms(4,5) by (auto simp: frame_to_bytes_cases)
  then have enc: "encode_request (dumps cd) k ?cid data 1 = Inr bs"
    by (simp add: encode_request_def request_to_frame_def request_new_def)
  note serve = serve_request [OF bs, of cd "data_or_empty data" envs i h s conn s' seat' res]
  have pend: "serve_buffer cd envs i (s, conn\<lparr>cl_buffer := cl_buffer conn @ bs\<rparr>) =
    (case res of
       Inl x \<Rightarrow> (((s', conn\<lparr>cl_seat := seat'\<rparr>), i + 1), Inl x)
     | Inr r \<Rightarrow>
         (case send_reply cd (envs i) ?f r (conn\<lparr>cl_seat := seat'\<rparr>) of
            (conn', Inl x) \<Rightarrow> (((s', conn'), i + 1), Inl x)
          | (conn', Inr _) \<Rightarrow> (((s', conn'\<lparr>cl_buffer := []\<rparr>), i + 1), Inr ())))"
    by (rule serve) (use assms(7,8) link load_carried [OF assms(6)] in simp_all)
  have call: "send_request (dumps cd) (loads cd) ?peer k data (c, ((s, conn), i)) =
     (case ?peer bs ((s, conn), i) of
        (x', Inl e) \<Rightarrow> ((c\<lparr>bc_correlation := ?cid\<rparr>, x'), Inl (Raised e))
      | (x', Inr arrived) \<Rightarrow>
          (case read_response arrived of (inc, r) \<Rightarrow>
             ((c\<lparr>bc_correlation := ?cid, bc_incoming := inc\<rparr>, x'),
              case r of Inl e \<Rightarrow> Inl (Raised e)
              | Inr d \<Rightarrow> (case decode_response (loads cd) d of Inl e \<Rightarrow> Inl (Raised e) | Inr v \<Rightarrow> response_value v))))"
    using link by (simp add: send_request_def next_correlation_id_def enc arrives_def)
  have new: "linked (c\<lparr>bc_correlation := ?cid, bc_incoming := ([], False)\<rparr>) conn'"
    if "cl_buffer conn' = []" "cl_active conn'" for conn'
    using link that by (simp add: linked_def)
  show ?thesis
  proof (cases res)
    case (Inl x)
    have "chop [] = []" using assms(2) by (cases "chop []") (auto simp: chops_def dest: spec [of _ "[]"])
    then have "?peer bs ((s, conn), i) = (((s', conn\<lparr>cl_seat := seat'\<rparr>), i + 1), Inr ([], True))"
      using pend by (simp add: server_peer_def Inl)
    then show ?thesis unfolding call
      by (intro exI [of _ "c\<lparr>bc_correlation := ?cid, bc_incoming := ([], True)\<rparr>"] exI [of _ "conn\<lparr>cl_seat := seat'\<rparr>"])
        (simp add: read_nothing outcome_def Inl)
  next
    case r: (Inr r)
    obtain cs g where sent: "send_reply cd (envs i) ?f r (conn\<lparr>cl_seat := seat'\<rparr>)
          = (conn\<lparr>cl_seat := seat', cl_sent := cl_sent conn @ [cs]\<rparr>, Inr ())"
      and g: "frame_to_bytes g = Inr cs"
      and dec: "decode_response (loads cd) cs = Inr (response_new ?cid (reply_code r) (reply_data (envs i) r))"
      using send_carried_reply [of cd "envs i" r ?f "conn\<lparr>cl_seat := seat'\<rparr>"] assms(3-5) assms(9) [OF r] by auto
    let ?conn = "conn\<lparr>cl_seat := seat', cl_sent := cl_sent conn @ [cs], cl_buffer := []\<rparr>"
    have "?peer bs ((s, conn), i) = (((s', ?conn), i + 1), Inr (chop cs, False))"
      using pend link by (simp add: server_peer_def r sent)
    then show ?thesis unfolding call
      using new [of ?conn] link outcome_value [OF r] assms(9) [OF r]
      by (intro exI [of _ "c\<lparr>bc_correlation := ?cid, bc_incoming := ([], False)\<rparr>"] exI [of _ ?conn])
        (simp add: read_whole [OF assms(2) g] dec)
  qed
qed

subsection \<open>A call of the client is a call of the handler\<close>

text \<open>A printer and parser for the values of the samples: requests print as p and f, other values as a or
  as b.\<close>

definition codec_for :: "json \<Rightarrow> json \<Rightarrow> json \<Rightarrow> json \<Rightarrow> codec" where
  "codec_for p f a b = \<lparr>dumps = (\<lambda>j. if j = p then ''p'' else if j = f then ''f'' else if j = a then ''a'' else ''b''),
     loads = (\<lambda>t. Inr (if t = ''p'' then p else if t = ''f'' then f else if t = ''a'' then a else b)),
     broker_snapshot = (\<lambda>_ _. JNull)\<rparr>"

lemma codec_carries: "j \<in> {p, f, a, b} \<Longrightarrow> carries (codec_for p f a b) j"
proof -
  have "utf8_valid (utf8_encode ''p'')" "utf8_valid (utf8_encode ''f'')" "utf8_valid (utf8_encode ''a'')"
    "utf8_valid (utf8_encode ''b'')" by code_simp+
  then show "j \<in> {p, f, a, b} \<Longrightarrow> carries (codec_for p f a b) j"
    by (auto simp: carries_def codec_for_def)
qed

definition sample_client :: broker_client where
  "sample_client = fst (client_connect (Inr ()) broker_client_new)"

lemma sample_linked: "linked sample_client client_new" "bc_correlation sample_client = 0"
  by (simp_all add: linked_def sample_client_def client_connect_def broker_client_new_def client_new_def)

lemma sample_chops: "chops (\<lambda>bs. map (\<lambda>b. [b]) bs)"
  by (auto simp: chops_def)

lemma sample_write: "e_write sample_env"
  by (simp add: sample_env_def)

lemma sample_server_ok: "server_ok sample_server"
  by (simp add: sample_server_def server_new_ok)

lemma small_server_ok: "server_ok small_server"
  by (simp add: small_server_def server_new_ok)

text \<open>C2. A request made with the client is a call of the server's handler: with a JSON library that
  carries the request and the answer, whatever way the answer is cut into chunks, the handler of
  this API key runs exactly once on the data sent, the client returns the data of its reply, raises
  \<open>BrokerError\<close> with its error code and the text sent along, or \<open>ConnectionError\<close> when an exception has
  escaped from the handler; unless this has happened the connection is ready for the next request.\<close>

theorem remote_call:
  assumes "linked c conn" and "chops chop" and "\<forall>i. e_write (envs i)" and "server_ok s"
    and "- (2 ^ 31) \<le> bc_correlation c" and "bc_correlation c + 1 < 2 ^ 31"
    and "carries cd (data_or_empty data)"
    and "handler_for cd (envs i) (data_or_empty data) k = Some h" and "h (s, cl_seat conn) = ((s', seat'), res)"
    and "\<And>r. res = Inr r \<Longrightarrow> carries cd (answer_json (envs i) r)"
  shows "\<exists>c' conn'. send_request (dumps cd) (loads cd) (server_peer cd envs chop) k data (c, ((s, conn), i))
      = ((c', ((s', conn'), i + 1)), outcome (envs i) res)
    \<and> cl_seat conn' = seat' \<and> bc_correlation c' = bc_correlation c + 1 \<and> (is_ok res \<longrightarrow> linked c' conn')"
  by (rule request_call [OF assms(1-3,5-9)]) (use handler_failure [OF assms(4,8)] assms(9,10) in auto)

theorem remote_call_witness:
  "\<exists>cd st. snd (send_request (dumps cd) (loads cd) (server_peer cd (\<lambda>_. sample_env) (\<lambda>bs. map (\<lambda>b. [b]) bs)) HEARTBEAT
      (JDict []) (sample_client, ((sample_server, client_new), 0))) = Inr (JDict [(''status'', JStr ''alive'')])"
proof -
  let ?b = "answer_json sample_env (Reply (JDict [(''status'', JStr ''alive'')]))"
  let ?cd = "codec_for (JDict []) (JDict []) ?b ?b"
  have h: "handler_for ?cd sample_env (JDict []) HEARTBEAT = Some (seated handle_heartbeat)" by simp
  have r: "seated handle_heartbeat (sample_server, None)
      = ((sample_server, None), Inr (Reply (JDict [(''status'', JStr ''alive'')])))"
    by (simp add: seated_def handle_heartbeat_def)
  have d: "data_or_empty (JDict []) = JDict []" by (simp add: data_or_empty_def)
  show ?thesis
    using remote_call [OF sample_linked(1) sample_chops _ sample_server_ok, of "\<lambda>_. sample_env" ?cd "JDict []" 0 HEARTBEAT
        "seated handle_heartbeat" sample_server None "Inr (Reply (JDict [(''status'', JStr ''alive'')]))"]
      codec_carries [of _ "JDict []" "JDict []" ?b ?b] h r
    by (intro exI [of _ ?cd]) (auto simp: sample_linked(2) sample_env_def d client_new_def outcome_def data_or_empty_def)
qed

lemma opt_str_inj: "opt_str j = opt_str k \<longleftrightarrow> j = k"
  by (auto simp: opt_str_def split: option.splits)

lemma headers_to_json_inj: "headers_to_json h = headers_to_json h' \<Longrightarrow> h = h'"
  by (metis headers_json_roundtrip sum.inject(2))

text \<open>C3. Through the network: once \<open>produce\<close> has returned topic, partition and offset, \<open>fetch\<close> from there
  returns one message, the one produced: with the id, topic, partition and offset returned, and with
  the value, key and headers given to \<open>produce\<close>. This needs a log without gaps, and a JSON library that
  carries the two requests and their answers.\<close>

theorem client_produce_then_fetch:
  assumes "linked c conn" and "chops chop" and "\<forall>i. e_write (envs i)" and "server_ok s"
    and "dense_logs (s_ms s) (s_broker s)" and "0 < k"
    and "- (2 ^ 31) \<le> bc_correlation c" and "bc_correlation c + 2 < 2 ^ 31"
    and "carries cd (produce_request tn val key hdrs)" and "carries cd (fetch_request tn pid off k)"
    and "\<And>r. snd (handle_produce (envs i) (produce_request tn val key hdrs) s) = Inr r \<Longrightarrow>
        carries cd (answer_json (envs i) r)"
    and "\<And>r. snd (handle_fetch (fetch_request tn pid off k)
          (fst (handle_produce (envs i) (produce_request tn val key hdrs) s))) = Inr r \<Longrightarrow>
        carries cd (answer_json (envs (i + 1)) r)"
    and "client_produce (send_request (dumps cd) (loads cd) (server_peer cd envs chop)) tn val key hdrs (c, ((s, conn), i))
      = (st, Inr (JDict [(''topic'', JStr tn), (''partition'', JInt pid), (''offset'', JInt off), (''message_id'', JStr mid)]))"
  shows "\<exists>st' m. client_fetch (send_request (dumps cd) (loads cd) (server_peer cd envs chop)) tn pid off k st
      = (st', Inr (JList [JDict (to_dict m)]))
    \<and> m_id m = mid \<and> m_topic m = tn \<and> m_value m = utf8_encode (value_text val) \<and> m_partition m = pid \<and> m_offset m = off
    \<and> m_key m = key \<and> m_headers m = headers_new hdrs"
proof -
  let ?d = "[(''topic'', JStr tn), (''value'', JStr (value_text val)), (''key'', opt_str key),
       (''headers'', headers_to_json (headers_new hdrs))]"
  let ?a = "JDict [(''topic'', JStr tn), (''partition'', JInt pid), (''offset'', JInt off), (''message_id'', JStr mid)]"
  let ?req = "produce_request tn val key hdrs" and ?freq = "fetch_request tn pid off k"
  have req: "?req = JDict ?d" "data_or_empty ?req = ?req" by (simp_all add: produce_request_def data_or_empty_def)
  have freq: "data_or_empty ?freq = ?freq" by (simp add: fetch_request_def data_or_empty_def)
  obtain s' res where h: "handle_produce (envs i) ?req s = (s', res)" by (metis surj_pair)
  have hp: "handler_for cd (envs i) (data_or_empty ?req) PRODUCE = Some (seated (handle_produce (envs i) ?req))"
    by (simp add: req(2))
  have hps: "seated (handle_produce (envs i) ?req) (s, cl_seat conn) = ((s', cl_seat conn), res)"
    by (simp add: seated_def h)
  have fits: "bc_correlation c + 1 < 2 ^ 31" using assms(8) by simp
  have "carries cd (data_or_empty ?req)" using assms(9) req by simp
  note pc = request_call [OF assms(1-3,7) fits this hp hps]
  have "r \<noteq> Failure NO_ERROR \<and> carries cd (answer_json (envs i) r)" if "res = Inr r" for r
    using handler_failure [OF assms(4) hp hps [unfolded that]] assms(11) h that by simp
  from pc [OF this] obtain c1 conn1 where
    call: "send_request (dumps cd) (loads cd) (server_peer cd envs chop) PRODUCE ?req (c, ((s, conn), i))
      = ((c1, ((s', conn1), i + 1)), outcome (envs i) res)"
    and corr: "bc_correlation c1 = bc_correlation c + 1" and link: "is_ok res \<longrightarrow> linked c1 conn1"
    by blast
  have st: "st = (c1, ((s', conn1), i + 1))" and out: "outcome (envs i) res = Inr ?a"
    using assms(13) call by (simp_all add: client_produce_def)
  have res: "res = Inr (Reply ?a)"
    using out by (auto simp: outcome_def data_or_empty_def split: sum.splits reply.splits json.splits)
  obtain m where m: "handle_fetch ?freq s' = (s', Inr (Reply (JDict [(''messages'', JList [JDict (to_dict m)]), (''count'', JInt 1)])))"
    "m_id m = mid" "m_topic m = tn" "m_value m = utf8_encode (value_text val)" "m_partition m = pid" "m_offset m = off"
    "dict_get (to_dict m) ''key'' = Some (opt_str key)"
    "dict_get (to_dict m) ''headers'' = Some (headers_to_json (headers_new hdrs))"
  proof -
    have "dict_get_default ?d ''key'' JNull = opt_str key" "dict_get ?d ''value'' = Some (JStr (value_text val))"
      "dict_get_default ?d ''headers'' (JDict []) = headers_to_json (headers_new hdrs)"
      by (simp_all add: dict_get_default_def)
    then show thesis
      using produced_is_fetched [OF assms(4-6), of "envs i" ?d s' tn pid off mid "value_text val"] h res that
      unfolding req(1) fetch_request_def by metis
  qed
  have hf: "handler_for cd (envs (i + 1)) (data_or_empty ?freq) FETCH = Some (seated (handle_fetch ?freq))"
    by (simp add: freq)
  let ?b = "JDict [(''messages'', JList [JDict (to_dict m)]), (''count'', JInt 1)]"
  have hfs: "seated (handle_fetch ?freq) (s', cl_seat conn1) = ((s', cl_seat conn1), Inr (Reply ?b))"
    by (simp add: seated_def m(1))
  have link1: "linked c1 conn1" using link res by simp
  have fits1: "- (2 ^ 31) \<le> bc_correlation c1" "bc_correlation c1 + 1 < 2 ^ 31" using corr assms(7,8) by simp_all
  have "carries cd (data_or_empty ?freq)" using assms(10) freq by simp
  note fc = request_call [OF link1 assms(2,3) fits1 this hf hfs]
  have "r \<noteq> Failure NO_ERROR \<and> carries cd (answer_json (envs (i + 1)) r)" if "Inr (Reply ?b) = Inr r" for r
    using assms(12) [of r] h m(1) that by auto
  from fc [OF this] obtain st' where "send_request (dumps cd) (loads cd) (server_peer cd envs chop) FETCH ?freq st
      = (st', Inr ?b)"
    by (auto simp: st outcome_def data_or_empty_def)
  then have "client_fetch (send_request (dumps cd) (loads cd) (server_peer cd envs chop)) tn pid off k st
      = (st', Inr (JList [JDict (to_dict m)]))"
    by (simp add: client_fetch_def and_get_def result_get_def dict_get_default_def)
  moreover have "opt_str (m_key m) = opt_str key" "headers_to_json (m_headers m) = headers_to_json (headers_new hdrs)"
    using m(7,8) by (simp_all add: to_dict_def opt_str_def)
  then have "m_key m = key" "m_headers m = headers_new hdrs"
    by (simp_all add: opt_str_inj headers_to_json_inj)
  ultimately show ?thesis using m(2-6) by blast
qed

theorem client_produce_then_fetch_witness:
  "\<exists>cd st st' m. client_produce (send_request (dumps cd) (loads cd) (server_peer cd (\<lambda>_. sample_env) (map (\<lambda>b. [b]))))
        ''t'' (Txt ''v'') (Some ''k'') (Some [(''h'', ''1'')]) (sample_client, ((small_server, client_new), 0))
      = (st, Inr (JDict [(''topic'', JStr ''t''), (''partition'', JInt 0), (''offset'', JInt 0),
          (''message_id'', JStr ''0123456789abcdef'')]))
    \<and> client_fetch (send_request (dumps cd) (loads cd) (server_peer cd (\<lambda>_. sample_env) (map (\<lambda>b. [b])))) ''t'' 0 0 5 st
      = (st', Inr (JList [JDict (to_dict m)])) \<and> m_value m = utf8_encode ''v'' \<and> m_key m = Some ''k'' \<and> m_headers m = [(''h'', ''1'')]"
proof -
  let ?p = "produce_request ''t'' (Txt ''v'') (Some ''k'') (Some [(''h'', ''1'')])" and ?f = "fetch_request ''t'' 0 0 5"
  let ?r = "JDict [(''topic'', JStr ''t''), (''partition'', JInt 0), (''offset'', JInt 0),
      (''message_id'', JStr ''0123456789abcdef'')]"
  have p: "?p = JDict keyed_request"
    by (simp add: produce_request_def keyed_request_def value_text_def opt_str_def headers_new_def headers_to_json_def)
  obtain s' res where h: "handle_produce sample_env ?p small_server = (s', res)" by (metis surj_pair)
  have res: "res = Inr (Reply ?r)" by (rule keyed_produce(1) [OF h [unfolded p]])
  let ?a = "answer_json sample_env (Reply ?r)"
  let ?b = "answer_json sample_env (case snd (handle_fetch ?f s') of Inr r \<Rightarrow> r | Inl _ \<Rightarrow> Failure UNKNOWN)"
  let ?cd = "codec_for ?p ?f ?a ?b"
  let ?req = "send_request (dumps ?cd) (loads ?cd) (server_peer ?cd (\<lambda>_. sample_env) (map (\<lambda>b. [b])))"
  have c: "carries ?cd ?p" "carries ?cd ?f" "carries ?cd ?a" "carries ?cd ?b"
    by (rule codec_carries; simp)+
  have pd: "data_or_empty ?p = ?p" by (simp add: produce_request_def data_or_empty_def)
  have rd: "data_or_empty ?r = ?r" by (simp add: data_or_empty_def)
  have hp: "handler_for ?cd sample_env (data_or_empty ?p) PRODUCE = Some (seated (handle_produce sample_env ?p))"
    by (simp add: pd)
  have hps: "seated (handle_produce sample_env ?p) (small_server, cl_seat client_new)
      = ((s', cl_seat client_new), Inr (Reply ?r))"
    by (simp add: seated_def h res)
  obtain st where st: "client_produce ?req ''t'' (Txt ''v'') (Some ''k'') (Some [(''h'', ''1'')]) (sample_client, ((small_server, client_new), 0)) = (st, Inr ?r)"
    using request_call [where envs = "\<lambda>_. sample_env" and i = 0, OF sample_linked(1) sample_chops _ _ _ _ hp hps] c(1,3)
    by (auto simp: sample_linked(2) sample_write pd client_produce_def outcome_def rd)
  have dense: "dense_logs (s_ms small_server) (s_broker small_server)"
    by (simp add: dense_logs_def small_server_def server_new_def broker_new_def get_topic_def)
  have "\<exists>st' m. client_fetch ?req ''t'' 0 0 5 st = (st', Inr (JList [JDict (to_dict m)]))
    \<and> m_id m = ''0123456789abcdef'' \<and> m_topic m = ''t'' \<and> m_value m = utf8_encode (value_text (Txt ''v''))
    \<and> m_partition m = 0 \<and> m_offset m = 0 \<and> m_key m = Some ''k'' \<and> m_headers m = headers_new (Some [(''h'', ''1'')])"
    by (rule client_produce_then_fetch [OF sample_linked(1) sample_chops _ small_server_ok dense _ _ _ c(1,2) _ _ st])
      (use c(3,4) in \<open>auto simp: sample_linked(2) sample_write h res\<close>)
  then obtain st' m where f: "client_fetch ?req ''t'' 0 0 5 st = (st', Inr (JList [JDict (to_dict m)]))"
    and v: "m_value m = utf8_encode ''v''" "m_key m = Some ''k''" "m_headers m = [(''h'', ''1'')]"
    by (auto simp: value_text_def headers_new_def)
  show ?thesis
    by (rule exI [of _ ?cd], rule exI [of _ st], rule exI [of _ st'], rule exI [of _ m], rule conjI, rule st,
      rule conjI, rule f) (simp add: v)
qed

subsection \<open>Late answers\<close>

text \<open>C34. A defect: the client never compares correlation ids. When a request has timed out, its connection
  stays in use, and the answer that arrives late is returned as the result of the next request,
  whatever this is; the answer to that one is left in the socket for the request after it.\<close>

theorem late_answer_taken:
  assumes "bc_connected c" and "bc_socket c" and "bc_incoming c = ([], False)"
    and "- (2 ^ 31) \<le> bc_correlation c" and "bc_correlation c + 2 < 2 ^ 31"
    and "carries cd (data_or_empty d)" and "carries cd (data_or_empty d')" and "carries cd (answer_json e (Reply j))"
    and "\<And>bs. peer bs x = (x1, Inr ([], False))"
    and "encode_response (dumps cd) (bc_correlation c + 1) NO_ERROR j k = Inr late"
    and "\<And>bs. peer bs x1 = (x2, Inr ([late @ answer], False))"
  shows "\<exists>c1 c2. send_request (dumps cd) (loads cd) peer k d (c, x) = ((c1, x1), Inl (Raised TimeoutError))
    \<and> send_request (dumps cd) (loads cd) peer k' d' (c1, x1) = ((c2, x2), Inr (data_or_empty j))
    \<and> bc_connected c2 \<and> concat (fst (bc_incoming c2)) = answer"
proof -
  let ?cid = "bc_correlation c + 1"
  let ?c1 = "c\<lparr>bc_correlation := ?cid\<rparr>"
  have enc: "\<exists>bs. encode_request (dumps cd) k cid d 1 = Inr bs"
    if "carries cd (data_or_empty d)" "- (2 ^ 31) \<le> cid" "cid < 2 ^ 31" for cid d k
    using carried_fits [OF that, of k]
    by (auto simp: encode_request_def request_to_frame_def request_new_def frame_to_bytes_cases)
  obtain b1 where b1: "encode_request (dumps cd) k ?cid d 1 = Inr b1"
    using enc [OF assms(6), of ?cid] assms(4,5) by fastforce
  obtain b2 where b2: "encode_request (dumps cd) k' (?cid + 1) d' 1 = Inr b2"
    using enc [OF assms(7), of "?cid + 1"] assms(4,5) by fastforce
  have "read_response ([], False) = (([], False), Inl TimeoutError)"
    by (simp add: read_response_def recv_exactly_def recv_loop.simps)
  then have first: "send_request (dumps cd) (loads cd) peer k d (c, x) = ((?c1, x1), Inl (Raised TimeoutError))"
    using assms(1-3,9) b1 by (simp add: send_request_def next_correlation_id_def arrives_def)
  let ?g = "response_to_frame (dumps cd) k (response_new ?cid NO_ERROR j)"
  have g: "frame_to_bytes ?g = Inr late" using assms(10) by (simp add: encode_response_def)
  have aj: "JDict [(''error_code'', JInt 0), (''data'', data_or_empty j)] = answer_json e (Reply j)"
    by (simp add: answer_json_def reply_code_def reply_data_def)
  have dec: "decode_response (loads cd) late = Inr (response_new ?cid NO_ERROR j)"
    using frame_from_to_bytes [OF g] load_carried [OF assms(8)]
    by (simp add: response_to_frame_def decode_response_def response_new_def aj)
      (use error_code_of_number [of NO_ERROR] in
        \<open>simp add: answer_json_def reply_code_def reply_data_def dict_get_default_def\<close>)
  have "[] \<notin> set [late @ answer]" using frame_length [OF g] by auto
  then obtain inc where "read_response ([late @ answer], False) = (inc, Inr late)" "concat (fst inc) = answer"
    using read_response_spec [of "([late @ answer], False)" late answer ?g] g by auto
  then have "send_request (dumps cd) (loads cd) peer k' d' (?c1, x1)
      = ((c\<lparr>bc_correlation := ?cid + 1, bc_incoming := inc\<rparr>, x2), Inr (data_or_empty j)) \<and> concat (fst inc) = answer"
    using assms(1-3,11) b2 dec
    by (simp add: send_request_def next_correlation_id_def arrives_def response_value_def response_new_def)
  with first assms(1) show ?thesis
    by (intro exI [of _ ?c1] exI [of _ "c\<lparr>bc_correlation := ?cid + 1, bc_incoming := inc\<rparr>"]) simp
qed

theorem late_answer_taken_witness:
  "\<exists>(cd :: codec) peer c1 c2. send_request (dumps cd) (loads cd) peer HEARTBEAT (JDict []) (sample_client, 0)
      = ((c1, 1), Inl (Raised TimeoutError))
    \<and> send_request (dumps cd) (loads cd) peer METRICS (JDict []) (c1, 1)
      = ((c2, 2 :: nat), Inr (JDict [(''status'', JStr ''alive'')]))"
proof -
  let ?j = "JDict [(''status'', JStr ''alive'')]"
  let ?a = "answer_json sample_env (Reply ?j)"
  let ?cd = "codec_for (JDict []) (JDict []) ?a ?a"
  have c: "carries ?cd (JDict [])" "carries ?cd ?a" by (rule codec_carries; simp)+
  have d: "data_or_empty (JDict []) = JDict []" "data_or_empty ?j = ?j" by (simp_all add: data_or_empty_def)
  obtain late where late: "encode_response (dumps ?cd) 1 NO_ERROR ?j HEARTBEAT = Inr late"
    using carried_fits [OF c(2), of 1 HEARTBEAT]
    by (auto simp: encode_response_def response_to_frame_def response_new_def frame_to_bytes_cases
        answer_json_def reply_code_def reply_data_def)
  let ?peer = "(\<lambda>bs n. (Suc n, Inr ((if n = 0 then [] else [late @ [0]]), False))) :: nat peer"
  have s: "bc_connected sample_client" "bc_socket sample_client" "bc_incoming sample_client = ([], False)"
    using sample_linked(1) by (simp_all add: linked_def)
  have "\<exists>c1 c2. send_request (dumps ?cd) (loads ?cd) ?peer HEARTBEAT (JDict []) (sample_client, 0)
      = ((c1, 1), Inl (Raised TimeoutError))
    \<and> send_request (dumps ?cd) (loads ?cd) ?peer METRICS (JDict []) (c1, 1) = ((c2, 2), Inr (data_or_empty ?j))
    \<and> bc_connected c2 \<and> concat (fst (bc_incoming c2)) = [0]"
    by (rule late_answer_taken [OF s _ _ _ _ c(2)]) (use c(1) late in \<open>auto simp: sample_linked(2) d(1)\<close>)
  then obtain c1 c2 where
    r1: "send_request (dumps ?cd) (loads ?cd) ?peer HEARTBEAT (JDict []) (sample_client, 0)
      = ((c1, 1), Inl (Raised TimeoutError))"
    and r2: "send_request (dumps ?cd) (loads ?cd) ?peer METRICS (JDict []) (c1, 1) = ((c2, 2), Inr ?j)"
    unfolding d(2) by (elim exE conjE)
  show ?thesis
    by (rule exI [of _ ?cd], rule exI [of _ ?peer], rule exI [of _ c1], rule exI [of _ c2], rule conjI, rule r1, rule r2)
qed

end
