(* ===== verification/Server_Listener.thy ===== *)
theory Server_Listener
  imports Server
begin

section \<open>Starting, accepting and stopping\<close>

text \<open>
  \<open>BrokerServer\<close>: \<open>start\<close>, the accept loop and \<open>stop\<close>. What the listening socket does is an argument: how
  binding ends, and the outcomes of \<open>accept\<close> one after the other. Which handlers are connected, and
  whether each may go on receiving (\<open>_active\<close>), is the state; connections are numbered.
\<close>

record server_control =
  sc_listener :: listener
  sc_socket :: bool
  sc_active :: "nat \<Rightarrow> bool"

definition control_new :: "int \<Rightarrow> server_control" where
  "control_new limit =
     \<lparr>sc_listener = \<lparr>max_connections = limit, ls_handlers = [], ls_running = False\<rparr>, sc_socket = False,
      sc_active = (\<lambda>_. False)\<rparr>"

definition server_is_running :: "server_control \<Rightarrow> bool" where
  "server_is_running c = ls_running (sc_listener c)"

text \<open>\<open>start\<close> up to the accept loop, which runs in a thread of its own or in the caller's.\<close>

definition server_start ::
    "unit result \<Rightarrow> real \<Rightarrow> server_control \<times> broker \<Rightarrow> (server_control \<times> broker) \<times> unit result" where
  "server_start bound now st =
     (case st of (c, b) \<Rightarrow>
        (case bound of
           Inl e \<Rightarrow> ((c\<lparr>sc_socket := True\<rparr>, b), Inl e)
         | Inr _ \<Rightarrow>
             ((c\<lparr>sc_socket := True, sc_listener := (sc_listener c)\<lparr>ls_running := True\<rparr>\<rparr>, broker_start now b), Inr ())))"

text \<open>
  What happens at the listening socket: \<open>accept\<close> gives a connection, times out or fails; in between,
  handlers end and remove themselves, and the server may be stopped.
\<close>

datatype accept_event = Accepted nat | Accept_timeout | Accept_failed | Handler_done nat | Stop_requested

fun accept_loop :: "accept_event list \<Rightarrow> server_control \<Rightarrow> server_control" where
  "accept_loop [] c = c"
| "accept_loop (Handler_done i # es) c = accept_loop es (c\<lparr>sc_listener := remove_handler i (sc_listener c)\<rparr>)"
| "accept_loop (Stop_requested # es) c =
     accept_loop es (c\<lparr>sc_listener := (sc_listener c)\<lparr>ls_running := False\<rparr>\<rparr>)"
| "accept_loop (Accept_timeout # es) c = (if ls_running (sc_listener c) then accept_loop es c else c)"
| "accept_loop (Accept_failed # es) c = c"
| "accept_loop (Accepted i # es) c =
     (if ls_running (sc_listener c)
      then (case accept_connection i (sc_listener c) of (l, taken) \<Rightarrow>
              accept_loop es (c\<lparr>sc_listener := l, sc_active := (if taken then (sc_active c)(i := True) else sc_active c)\<rparr>))
      else c)"

text \<open>\<open>stop\<close>: when stopping the broker raises, the connections stay open.\<close>

definition server_stop ::
    "(string \<Rightarrow> broker hooks) \<Rightarrow> (mref \<Rightarrow> real) \<Rightarrow> real \<Rightarrow> server_control \<times> mstore \<times> broker
      \<Rightarrow> (server_control \<times> mstore \<times> broker) \<times> unit result" where
  "server_stop hooks_of clock now st =
     (case st of (c, ms, b) \<Rightarrow>
        (let c1 = c\<lparr>sc_listener := (sc_listener c)\<lparr>ls_running := False\<rparr>\<rparr> in
         case broker_stop hooks_of clock now (ms, b) of
           ((ms', b'), Inl e) \<Rightarrow> ((c1, ms', b'), Inl e)
         | ((ms', b'), Inr _) \<Rightarrow>
             ((c1\<lparr>sc_active := (\<lambda>i. if i \<in> set (ls_handlers (sc_listener c1)) then False else sc_active c1 i),
                  sc_listener := (sc_listener c1)\<lparr>ls_handlers := []\<rparr>\<rparr>, ms', b'), Inr ())))"

text \<open>The numbers of the connections accepted.\<close>

fun accepted :: "accept_event list \<Rightarrow> nat list" where
  "accepted [] = []"
| "accepted (Accepted i # es) = i # accepted es"
| "accepted (_ # es) = accepted es"

text \<open>However connections come and go, there are never more handlers than the limit, none twice, and all
  of them active.\<close>

lemma accept_loop_bounded:
  assumes "distinct (ls_handlers (sc_listener c) @ accepted es)"
    and "int (length (ls_handlers (sc_listener c))) \<le> max 0 (max_connections (sc_listener c))"
    and "\<forall>i \<in> set (ls_handlers (sc_listener c)). sc_active c i"
  shows "int (connection_count (sc_listener (accept_loop es c))) \<le> max 0 (max_connections (sc_listener c))
    \<and> distinct (ls_handlers (sc_listener (accept_loop es c)))
    \<and> (\<forall>i \<in> set (ls_handlers (sc_listener (accept_loop es c))). sc_active (accept_loop es c) i)"
  using assms
proof (induction es c rule: accept_loop.induct)
  case (2 i es c)
  let ?c = "c\<lparr>sc_listener := remove_handler i (sc_listener c)\<rparr>"
  have d: "distinct (ls_handlers (sc_listener ?c) @ accepted es)"
    using "2.prems"(1) by (auto simp: remove_handler_def)
  have n: "int (length (ls_handlers (sc_listener ?c))) \<le> max 0 (max_connections (sc_listener ?c))"
    using "2.prems"(2) by (auto simp: remove_handler_def length_remove1)
  have a: "\<forall>j \<in> set (ls_handlers (sc_listener ?c)). sc_active ?c j"
    using "2.prems"(1,3) by (auto simp: remove_handler_def)
  have "max_connections (sc_listener ?c) = max_connections (sc_listener c)"
    by (simp add: remove_handler_def)
  with "2.IH" [OF d n a] show ?case by simp
next
  case (6 i es c)
  then show ?case
    by (auto simp: accept_connection_def connection_count_def split: if_split_asm)
qed (auto simp: connection_count_def)

end
