(* ===== verification/Metrics.thy ===== *)
theory Metrics
  imports Utils Message
begin

section \<open>Metrics\<close>

text \<open>
  \<^verbatim>\<open>metrics.py\<close>: message rates over a sliding window, latency percentiles, and gauges. The deques are
  lists, oldest first; floats are reals (the index of a percentile comes out the same: for whole
  percents the float product never falls below an integer the real one reaches). The clock readings
  are arguments.
\<close>

record metrics =
  mt_window :: int
  mt_max_samples :: nat
  mt_in :: "real list"
  mt_out :: "real list"
  mt_latencies :: "real list"
  mt_topic_depths :: "(string, int) dict"
  mt_consumer_lag :: "(string, int) dict"
  mt_dlq_sizes :: "(string, int) dict"
  mt_connections :: int
  mt_total_messages :: int
  mt_total_bytes :: int

definition metrics_new :: "int \<Rightarrow> nat \<Rightarrow> metrics" where
  "metrics_new window samples =
     \<lparr>mt_window = window, mt_max_samples = samples, mt_in = [], mt_out = [], mt_latencies = [],
      mt_topic_depths = [], mt_consumer_lag = [], mt_dlq_sizes = [], mt_connections = 0,
      mt_total_messages = 0, mt_total_bytes = 0\<rparr>"

text \<open>\<open>range(count)\<close> is empty for a negative count, which is still added to the total.\<close>

definition record_message_in :: "real \<Rightarrow> int \<Rightarrow> metrics \<Rightarrow> metrics" where
  "record_message_in now n m =
     m\<lparr>mt_in := mt_in m @ replicate (nat n) now, mt_total_messages := mt_total_messages m + n\<rparr>"

definition record_message_out :: "real \<Rightarrow> int \<Rightarrow> metrics \<Rightarrow> metrics" where
  "record_message_out now n m = m\<lparr>mt_out := mt_out m @ replicate (nat n) now\<rparr>"

text \<open>\<open>append\<close> on a deque with a maximal length drops from the other end.\<close>

definition bounded_append :: "nat \<Rightarrow> 'a list \<Rightarrow> 'a \<Rightarrow> 'a list" where
  "bounded_append k xs x = drop (length xs + 1 - k) (xs @ [x])"

definition record_latency :: "real \<Rightarrow> metrics \<Rightarrow> metrics" where
  "record_latency ms m = m\<lparr>mt_latencies := bounded_append (mt_max_samples m) (mt_latencies m) ms\<rparr>"

definition metrics_topic_depth :: "string \<Rightarrow> int \<Rightarrow> metrics \<Rightarrow> metrics" where
  "metrics_topic_depth topic depth m = m\<lparr>mt_topic_depths := dict_set topic depth (mt_topic_depths m)\<rparr>"

definition update_consumer_lag :: "string \<Rightarrow> int \<Rightarrow> metrics \<Rightarrow> metrics" where
  "update_consumer_lag gid lag m = m\<lparr>mt_consumer_lag := dict_set gid lag (mt_consumer_lag m)\<rparr>"

definition update_dlq_size :: "string \<Rightarrow> int \<Rightarrow> metrics \<Rightarrow> metrics" where
  "update_dlq_size name n m = m\<lparr>mt_dlq_sizes := dict_set name n (mt_dlq_sizes m)\<rparr>"

definition update_connections :: "int \<Rightarrow> metrics \<Rightarrow> metrics" where
  "update_connections n m = m\<lparr>mt_connections := n\<rparr>"

definition update_total_bytes :: "int \<Rightarrow> metrics \<Rightarrow> metrics" where
  "update_total_bytes n m = m\<lparr>mt_total_bytes := n\<rparr>"

subsection \<open>Rates\<close>

fun pop_before :: "real \<Rightarrow> real list \<Rightarrow> real list" where
  "pop_before cutoff [] = []"
| "pop_before cutoff (t # ts) = (if t < cutoff then pop_before cutoff ts else t # ts)"

definition calculate_rate :: "int \<Rightarrow> real \<Rightarrow> real list \<Rightarrow> real list \<times> real" where
  "calculate_rate window now ts =
     (let ts' = pop_before (now - of_int window) ts
      in (ts',
          if ts' = [] then 0
          else
            (let elapsed = (if length ts' > 1 then now - hd ts' else of_int window)
             in if elapsed \<le> 0 then 0 else of_nat (length ts') / elapsed)))"

subsection \<open>Percentiles\<close>

definition percentile :: "real list \<Rightarrow> real \<Rightarrow> real" where
  "percentile xs p =
     (let idx = nat \<lfloor>p / 100 * real (length xs - 1)\<rfloor> in xs ! min idx (length xs - 1))"

definition calculate_percentiles :: "real list \<Rightarrow> real \<times> real \<times> real \<times> real" where
  "calculate_percentiles latencies =
     (if latencies = [] then (0, 0, 0, 0)
      else
        (let xs = sort latencies
         in (percentile xs 50, percentile xs 90, percentile xs 95, percentile xs 99)))"

subsection \<open>Snapshots\<close>

record metrics_snapshot =
  ms_timestamp :: real
  ms_in_rate :: real
  ms_out_rate :: real
  ms_total_messages :: int
  ms_total_bytes :: int
  ms_topic_depths :: "(string, int) dict"
  ms_consumer_lag :: "(string, int) dict"
  ms_connections :: int
  ms_dlq_sizes :: "(string, int) dict"
  ms_p50 :: real
  ms_p90 :: real
  ms_p95 :: real
  ms_p99 :: real

text \<open>The clock is read for each rate and for the timestamp.\<close>

definition metrics_take :: "real \<Rightarrow> real \<Rightarrow> real \<Rightarrow> metrics \<Rightarrow> metrics \<times> metrics_snapshot" where
  "metrics_take now1 now2 now3 m =
     (case calculate_rate (mt_window m) now1 (mt_in m) of (ins, in_rate) \<Rightarrow>
      case calculate_rate (mt_window m) now2 (mt_out m) of (outs, out_rate) \<Rightarrow>
      case calculate_percentiles (mt_latencies m) of (p50, p90, p95, p99) \<Rightarrow>
        (m\<lparr>mt_in := ins, mt_out := outs\<rparr>,
         \<lparr>ms_timestamp = now3, ms_in_rate = in_rate, ms_out_rate = out_rate,
          ms_total_messages = mt_total_messages m, ms_total_bytes = mt_total_bytes m,
          ms_topic_depths = mt_topic_depths m, ms_consumer_lag = mt_consumer_lag m,
          ms_connections = mt_connections m, ms_dlq_sizes = mt_dlq_sizes m,
          ms_p50 = p50, ms_p90 = p90, ms_p95 = p95, ms_p99 = p99\<rparr>))"

definition int_dict :: "(string, int) dict \<Rightarrow> json" where
  "int_dict d = JDict (map (\<lambda>(k, i). (k, JInt i)) d)"

definition snapshot_to_dict :: "metrics_snapshot \<Rightarrow> (string, json) dict" where
  "snapshot_to_dict s =
     [(''timestamp'', JFloat (ms_timestamp s)),
      (''messages_in_rate'', JFloat (py_round (ms_in_rate s) 2)),
      (''messages_out_rate'', JFloat (py_round (ms_out_rate s) 2)),
      (''total_messages'', JInt (ms_total_messages s)), (''total_bytes'', JInt (ms_total_bytes s)),
      (''topic_depths'', int_dict (ms_topic_depths s)), (''consumer_lag'', int_dict (ms_consumer_lag s)),
      (''active_connections'', JInt (ms_connections s)), (''dlq_sizes'', int_dict (ms_dlq_sizes s)),
      (''latency_ms'', JDict
         [(''p50'', JFloat (py_round (ms_p50 s) 3)), (''p90'', JFloat (py_round (ms_p90 s) 3)),
          (''p95'', JFloat (py_round (ms_p95 s) 3)), (''p99'', JFloat (py_round (ms_p99 s) 3))])]"

definition metrics_reset :: "metrics \<Rightarrow> metrics" where
  "metrics_reset m =
     m\<lparr>mt_in := [], mt_out := [], mt_latencies := [], mt_topic_depths := [], mt_consumer_lag := [],
       mt_dlq_sizes := [], mt_connections := 0, mt_total_messages := 0, mt_total_bytes := 0\<rparr>"

subsection \<open>A run of the collector\<close>

text \<open>The calls on a collector, each with the clock readings it makes.\<close>

datatype metrics_op =
    In real int | Out real int | Latency real | Depth string int | Lag string int | Dlq string int
  | Connections int | Bytes int | Snap real real real | Reset

fun metrics_apply :: "metrics_op \<Rightarrow> metrics \<Rightarrow> metrics" where
  "metrics_apply (In now n) m = record_message_in now n m"
| "metrics_apply (Out now n) m = record_message_out now n m"
| "metrics_apply (Latency x) m = record_latency x m"
| "metrics_apply (Depth s n) m = metrics_topic_depth s n m"
| "metrics_apply (Lag s n) m = update_consumer_lag s n m"
| "metrics_apply (Dlq s n) m = update_dlq_size s n m"
| "metrics_apply (Connections n) m = update_connections n m"
| "metrics_apply (Bytes n) m = update_total_bytes n m"
| "metrics_apply (Snap a b c) m = fst (metrics_take a b c m)"
| "metrics_apply Reset m = metrics_reset m"

fun readings :: "metrics_op \<Rightarrow> real list" where
  "readings (In now n) = [now]"
| "readings (Out now n) = [now]"
| "readings (Snap a b c) = [a, b, c]"
| "readings _ = []"

fun is_snap :: "metrics_op \<Rightarrow> bool" where
  "is_snap (Snap a b c) = True"
| "is_snap _ = False"

definition metrics_run :: "metrics_op list \<Rightarrow> metrics \<Rightarrow> metrics" where
  "metrics_run ops m = fold metrics_apply ops m"

subsection \<open>The window\<close>

lemma pop_before_filter: "sorted ts \<Longrightarrow> pop_before c ts = filter (\<lambda>t. c \<le> t) ts"
proof (induction ts)
  case (Cons t ts)
  show ?case
  proof (cases "t < c")
    case False
    then have "filter (\<lambda>t. c \<le> t) (t # ts) = t # ts" using Cons.prems by (intro filter_True) auto
    with False show ?thesis by simp
  qed (use Cons in simp)
qed simp

text \<open>\<open>m'\<close> is what \<open>m\<close> would be without the snapshots taken up to time \<open>now\<close>.\<close>

definition pruned :: "real \<Rightarrow> int \<Rightarrow> real list \<Rightarrow> real list \<Rightarrow> bool" where
  "pruned now w ts ts' \<longleftrightarrow> sorted ts' \<and> (\<forall>t\<in>set ts'. t \<le> now)
     \<and> (\<exists>c \<le> now - of_int w. ts = filter (\<lambda>t. c \<le> t) ts')"

definition undisturbed :: "real \<Rightarrow> metrics \<Rightarrow> metrics \<Rightarrow> bool" where
  "undisturbed now m m' \<longleftrightarrow> m\<lparr>mt_in := [], mt_out := []\<rparr> = m'\<lparr>mt_in := [], mt_out := []\<rparr>
     \<and> pruned now (mt_window m') (mt_in m) (mt_in m') \<and> pruned now (mt_window m') (mt_out m) (mt_out m')"

lemma pruned_later: "pruned now w ts ts' \<Longrightarrow> now \<le> later \<Longrightarrow> pruned later w ts ts'"
proof -
  assume p: "pruned now w ts ts'" and l: "now \<le> later"
  then obtain c where c: "c \<le> now - of_int w" "ts = filter (\<lambda>t. c \<le> t) ts'" by (auto simp: pruned_def)
  have "c \<le> later - of_int w" using c(1) l by simp
  moreover have "\<forall>t\<in>set ts'. t \<le> later" using p l unfolding pruned_def by force
  ultimately show ?thesis using p c(2) unfolding pruned_def by blast
qed

lemma pruned_empty: "pruned now w [] []"
  by (auto simp: pruned_def)

lemma pruned_append:
  assumes "pruned now w ts ts'" and "0 \<le> w" and "now \<le> later"
  shows "pruned later w (ts @ replicate n later) (ts' @ replicate n later)"
proof -
  obtain c where c: "c \<le> now - of_int w" "ts = filter (\<lambda>t. c \<le> t) ts'" using assms(1) by (auto simp: pruned_def)
  then have "c \<le> later" "c \<le> later - of_int w" using assms(2,3) by (simp_all add: order_trans)
  with c assms show ?thesis
    unfolding pruned_def by (auto simp: sorted_append intro!: exI [of _ c])
qed

lemma pruned_rate:
  assumes "pruned now w ts ts'" and "now \<le> later"
  shows "calculate_rate w later ts = calculate_rate w later ts'"
    and "pruned later w (fst (calculate_rate w later ts)) ts'"
proof -
  obtain c where c: "c \<le> now - of_int w" "ts = filter (\<lambda>t. c \<le> t) ts'" and s: "sorted ts'" "\<forall>t\<in>set ts'. t \<le> now"
    using assms(1) by (auto simp: pruned_def)
  let ?c = "later - of_int w"
  have "c \<le> ?c" using c(1) assms(2) by simp
  then have "filter (\<lambda>t. ?c \<le> t) ts = filter (\<lambda>t. ?c \<le> t) ts'"
    unfolding c(2) filter_filter by (intro filter_cong) auto
  then have eq: "pop_before ?c ts = filter (\<lambda>t. ?c \<le> t) ts'" "pop_before ?c ts' = filter (\<lambda>t. ?c \<le> t) ts'"
    using s(1) sorted_wrt_filter [of "(\<le>)" ts' "\<lambda>t. c \<le> t"] c(2) by (simp_all add: pop_before_filter)
  then show "calculate_rate w later ts = calculate_rate w later ts'" by (simp add: calculate_rate_def)
  have "\<forall>t\<in>set ts'. t \<le> later" using s(2) assms(2) by force
  then show "pruned later w (fst (calculate_rate w later ts)) ts'"
    using s(1) eq(1) by (auto simp: pruned_def calculate_rate_def Let_def)
qed

lemma take_undisturbed:
  assumes "undisturbed now m m'" and "now \<le> a" and "now \<le> b"
  shows "snd (metrics_take a b c m) = snd (metrics_take a b c m')"
proof -
  have eq: "m\<lparr>mt_in := [], mt_out := []\<rparr> = m'\<lparr>mt_in := [], mt_out := []\<rparr>"
    and pr: "pruned now (mt_window m') (mt_in m) (mt_in m')" "pruned now (mt_window m') (mt_out m) (mt_out m')"
    using assms(1) unfolding undisturbed_def by blast+
  have f: "mt_window m = mt_window m'" "mt_latencies m = mt_latencies m'" "mt_topic_depths m = mt_topic_depths m'"
    "mt_consumer_lag m = mt_consumer_lag m'" "mt_dlq_sizes m = mt_dlq_sizes m'" "mt_connections m = mt_connections m'"
    "mt_total_messages m = mt_total_messages m'" "mt_total_bytes m = mt_total_bytes m'"
    using arg_cong [OF eq, of mt_window] arg_cong [OF eq, of mt_latencies] arg_cong [OF eq, of mt_topic_depths]
      arg_cong [OF eq, of mt_consumer_lag] arg_cong [OF eq, of mt_dlq_sizes] arg_cong [OF eq, of mt_connections]
      arg_cong [OF eq, of mt_total_messages] arg_cong [OF eq, of mt_total_bytes] by simp_all
  show ?thesis
    using pruned_rate(1) [OF pr(1) assms(2)] pruned_rate(1) [OF pr(2) assms(3)]
    by (simp add: metrics_take_def f split: prod.split)
qed

lemma apply_window: "mt_window (metrics_apply op m) = mt_window m"
  by (cases op)
    (simp_all add: record_message_in_def record_message_out_def record_latency_def metrics_topic_depth_def
      update_consumer_lag_def update_dlq_size_def update_connections_def update_total_bytes_def metrics_take_def
      metrics_reset_def split: prod.split)

lemma snap_undisturbed:
  assumes "undisturbed now m m'" and "now \<le> a" and "a \<le> b" and "b \<le> c"
  shows "undisturbed c (metrics_apply (Snap a b c) m) m'"
proof -
  have eq: "m\<lparr>mt_in := [], mt_out := []\<rparr> = m'\<lparr>mt_in := [], mt_out := []\<rparr>"
    and pr: "pruned now (mt_window m') (mt_in m) (mt_in m')" "pruned now (mt_window m') (mt_out m) (mt_out m')"
    using assms(1) unfolding undisturbed_def by blast+
  have w: "mt_window m = mt_window m'" using arg_cong [OF eq, of mt_window] by simp
  have "metrics_apply (Snap a b c) m
      = m\<lparr>mt_in := fst (calculate_rate (mt_window m) a (mt_in m)), mt_out := fst (calculate_rate (mt_window m) b (mt_out m))\<rparr>"
    by (simp add: metrics_take_def split: prod.split)
  moreover have "pruned c (mt_window m') (fst (calculate_rate (mt_window m) a (mt_in m))) (mt_in m')"
    using pruned_later [OF pruned_rate(2) [OF pr(1) assms(2)]] assms(3,4) by (simp add: w)
  moreover have "pruned c (mt_window m') (fst (calculate_rate (mt_window m) b (mt_out m))) (mt_out m')"
    using pruned_later [OF pruned_rate(2) [OF pr(2)]] assms(2-4) by (simp add: w)
  ultimately show ?thesis using eq by (simp add: undisturbed_def)
qed

lemma op_undisturbed:
  assumes "undisturbed now m m'" and "0 \<le> mt_window m'" and "sorted (now # readings op)" and "\<not> is_snap op"
  shows "undisturbed (last (now # readings op)) (metrics_apply op m) (metrics_apply op m')"
proof -
  have eq: "m\<lparr>mt_in := [], mt_out := []\<rparr> = m'\<lparr>mt_in := [], mt_out := []\<rparr>"
    and pr: "pruned now (mt_window m') (mt_in m) (mt_in m')" "pruned now (mt_window m') (mt_out m) (mt_out m')"
    using assms(1) unfolding undisturbed_def by blast+
  obtain w k ins outs lats td cl dl co tm tb where m: "m = \<lparr>mt_window = w, mt_max_samples = k, mt_in = ins, mt_out = outs,
      mt_latencies = lats, mt_topic_depths = td, mt_consumer_lag = cl, mt_dlq_sizes = dl, mt_connections = co,
      mt_total_messages = tm, mt_total_bytes = tb\<rparr>" by (cases m)
  obtain ins' outs' where m': "m' = m\<lparr>mt_in := ins', mt_out := outs'\<rparr>"
    using eq by (cases m') (auto simp: m)
  show ?thesis
    using pr assms(2-4) pruned_append [OF pr(1) assms(2)] pruned_append [OF pr(2) assms(2)]
    by (cases op)
      (auto simp: undisturbed_def m m' record_message_in_def record_message_out_def record_latency_def metrics_topic_depth_def
        update_consumer_lag_def update_dlq_size_def update_connections_def update_total_bytes_def
        metrics_reset_def pruned_empty elim: pruned_later)
qed

lemma run_undisturbed:
  assumes "undisturbed now m m'" and "0 \<le> mt_window m'" and "sorted (now # concat (map readings ops))"
  shows "undisturbed (last (now # concat (map readings ops))) (metrics_run ops m)
     (metrics_run (filter (\<lambda>op. \<not> is_snap op) ops) m')"
  using assms
proof (induction ops arbitrary: now m m')
  case Nil
  then show ?case by (simp add: metrics_run_def)
next
  case (Cons op ops)
  let ?rest = "concat (map readings ops)"
  let ?now = "last (now # readings op)"
  have "sorted ((now # readings op) @ ?rest)" using Cons.prems(3) by simp
  then have srt: "sorted (now # readings op)" "sorted (?now # ?rest)"
    unfolding sorted_append by (auto intro: bspec)
  have lst: "last (now # concat (map readings (op # ops))) = last (?now # ?rest)"
    by simp
  show ?case
  proof (cases "is_snap op")
    case True
    then obtain a b c where op: "op = Snap a b c" by (cases op) auto
    have "undisturbed ?now (metrics_apply op m) m'"
      using snap_undisturbed [OF Cons.prems(1), of a b c] srt(1) by (simp add: op)
    from Cons.IH [OF this Cons.prems(2) srt(2)] lst True show ?thesis by (simp add: metrics_run_def)
  next
    case False
    have "undisturbed ?now (metrics_apply op m) (metrics_apply op m')"
      by (rule op_undisturbed [OF Cons.prems(1,2) srt(1) False])
    from Cons.IH [OF this _ srt(2)] Cons.prems(2) lst False show ?thesis
      by (simp add: metrics_run_def apply_window)
  qed
qed

text \<open>Looking at the metrics does not change them: although a snapshot throws away the timestamps
  that have left the window, a later snapshot says the same whether or not any were taken before it,
  as long as the clock does not go back.\<close>

theorem snapshots_do_not_disturb:
  assumes "sorted (concat (map readings ops) @ [a, b])" and "0 \<le> window"
  shows "snd (metrics_take a b c (metrics_run ops (metrics_new window samples)))
    = snd (metrics_take a b c (metrics_run (filter (\<lambda>op. \<not> is_snap op) ops) (metrics_new window samples)))"
proof -
  let ?rs = "concat (map readings ops)"
  define now where "now = (if ?rs = [] then a else hd ?rs)"
  have srt: "sorted (now # ?rs)" "last (now # ?rs) \<le> a" "last (now # ?rs) \<le> b"
    using assms(1) by (cases ?rs; auto simp: now_def sorted_append)+
  have "undisturbed now (metrics_new window samples) (metrics_new window samples)"
    by (simp add: undisturbed_def metrics_new_def pruned_empty)
  from take_undisturbed [OF run_undisturbed [OF this _ srt(1)] srt(2,3)] assms(2) show ?thesis
    by (simp add: metrics_new_def)
qed

theorem snapshots_do_not_disturb_witness:
  "snd (metrics_take 70 70 70 (metrics_run [In 0 5, Snap 65 65 65, In 66 2] (metrics_new 60 10)))
    = snd (metrics_take 70 70 70 (metrics_run [In 0 5, In 66 2] (metrics_new 60 10)))"
  using snapshots_do_not_disturb [of "[In 0 5, Snap 65 65 65, In 66 2]" 70 70 60 70 10] by simp

subsection \<open>Values\<close>

lemma percentile_index:
  assumes "xs \<noteq> []" and "0 \<le> p" and "p \<le> 100"
  shows "nat \<lfloor>p / 100 * real (length xs - 1)\<rfloor> \<le> length xs - 1"
proof -
  have "p / 100 * real (length xs - 1) \<le> 1 * real (length xs - 1)"
    using assms by (intro mult_right_mono) simp_all
  then have "\<lfloor>p / 100 * real (length xs - 1)\<rfloor> \<le> int (length xs - 1)" by linarith
  then show ?thesis by simp
qed

lemma percentile_mem: "xs \<noteq> [] \<Longrightarrow> percentile xs p \<in> set xs"
  unfolding percentile_def Let_def by (rule nth_mem) (simp add: min.strict_coboundedI2)

lemma percentile_mono:
  assumes "sorted xs" and "xs \<noteq> []" and "p \<le> q"
  shows "percentile xs p \<le> percentile xs q"
proof -
  have "p / 100 * real (length xs - 1) \<le> q / 100 * real (length xs - 1)"
    using assms(3) by (intro mult_right_mono) simp_all
  then have "nat \<lfloor>p / 100 * real (length xs - 1)\<rfloor> \<le> nat \<lfloor>q / 100 * real (length xs - 1)\<rfloor>"
    by (intro nat_mono floor_mono)
  then show ?thesis unfolding percentile_def Let_def
    using assms(1,2) by (intro sorted_nth_mono) (simp_all add: min.strict_coboundedI2 min_le_iff_disj)
qed

lemma length_filter_nth: "length (filter P xs) = card {i. i < length xs \<and> P (xs ! i)}"
  by (rule length_filter_conv_card)

text \<open>The rank of a percentile: at most \<open>p / 100 (n - 1)\<close> samples are below it, and more are not above.\<close>

lemma percentile_rank:
  assumes "sorted xs" and "xs \<noteq> []" and "0 \<le> p" and "p \<le> 100"
  shows "real (length (filter (\<lambda>x. x < percentile xs p) xs)) \<le> p / 100 * real (length xs - 1)"
    and "p / 100 * real (length xs - 1) < real (length (filter (\<lambda>x. x \<le> percentile xs p) xs))"
proof -
  define idx where "idx = nat \<lfloor>p / 100 * real (length xs - 1)\<rfloor>"
  have le: "idx \<le> length xs - 1" using percentile_index [OF assms(2-4)] by (simp only: idx_def)
  then have lt: "idx < length xs" using assms(2) by (cases xs) auto
  have v: "percentile xs p = xs ! idx"
    by (simp only: percentile_def Let_def idx_def [symmetric] min_absorb1 [OF le])
  have nonneg: "0 \<le> p / 100 * real (length xs - 1)" using assms(3) by simp
  have "{i. i < length xs \<and> xs ! i < xs ! idx} \<subseteq> {..<idx}"
    using sorted_nth_mono [OF assms(1), of idx] by (auto simp: not_le [symmetric] intro: ccontr)
  from card_mono [OF _ this] have "length (filter (\<lambda>x. x < xs ! idx) xs) \<le> idx" by (simp add: length_filter_nth)
  then have "real (length (filter (\<lambda>x. x < xs ! idx) xs)) \<le> real idx" by simp
  also have "real idx \<le> p / 100 * real (length xs - 1)" using nonneg unfolding idx_def by linarith
  finally show "real (length (filter (\<lambda>x. x < percentile xs p) xs)) \<le> p / 100 * real (length xs - 1)"
    by (simp only: v)
  have "{..idx} \<subseteq> {i. i < length xs \<and> xs ! i \<le> xs ! idx}"
    using sorted_nth_mono [OF assms(1)] lt by auto
  from card_mono [OF _ this] have "idx + 1 \<le> length (filter (\<lambda>x. x \<le> xs ! idx) xs)" by (simp add: length_filter_nth)
  then have "real idx + 1 \<le> real (length (filter (\<lambda>x. x \<le> xs ! idx) xs))" by linarith
  moreover have "p / 100 * real (length xs - 1) < real idx + 1" using nonneg unfolding idx_def by linarith
  ultimately show "p / 100 * real (length xs - 1) < real (length (filter (\<lambda>x. x \<le> percentile xs p) xs))"
    by (simp only: v)
qed

lemma length_filter_sort: "length (filter P (sort xs)) = length (filter P xs)"
  by (simp add: filter_sort)

text \<open>The latency percentiles of a snapshot are latencies that were measured, rise from p50 to p99,
  and have the rank they claim: fewer than that share of the samples lie below, and at least it not
  above.\<close>

theorem percentiles_correct:
  assumes "xs \<noteq> []" and "calculate_percentiles xs = (p50, p90, p95, p99)"
  shows "{p50, p90, p95, p99} \<subseteq> set xs \<and> p50 \<le> p90 \<and> p90 \<le> p95 \<and> p95 \<le> p99
    \<and> list_all (\<lambda>(p, v). real (length (filter (\<lambda>x. x < v) xs)) \<le> p / 100 * real (length xs - 1)
          \<and> p / 100 * real (length xs - 1) < real (length (filter (\<lambda>x. x \<le> v) xs)))
        [(50, p50), (90, p90), (95, p95), (99, p99)]"
proof -
  let ?ys = "sort xs"
  have v: "p50 = percentile ?ys 50" "p90 = percentile ?ys 90" "p95 = percentile ?ys 95" "p99 = percentile ?ys 99"
    using assms by (simp_all add: calculate_percentiles_def Let_def)
  have ne: "?ys \<noteq> []" using assms(1) by (metis length_0_conv length_sort)
  have mem: "percentile ?ys p \<in> set xs" for p using percentile_mem [OF ne, of p] by simp
  have rank: "real (length (filter (\<lambda>x. x < percentile ?ys p) xs)) \<le> p / 100 * real (length xs - 1)
      \<and> p / 100 * real (length xs - 1) < real (length (filter (\<lambda>x. x \<le> percentile ?ys p) xs))"
    if "0 \<le> p" "p \<le> 100" for p
    using percentile_rank [OF sorted_sort ne that] unfolding length_filter_sort length_sort by blast
  show ?thesis unfolding v
    using mem rank [of 50] rank [of 90] rank [of 95] rank [of 99] by (simp add: percentile_mono [OF sorted_sort ne])
qed

theorem percentiles_correct_witness:
  "\<exists>p50 p90 p95 p99. calculate_percentiles [5, 1, 3] = (p50, p90, p95, p99) \<and> p50 \<le> p99 \<and> p99 \<in> {5, 1, 3}"
proof -
  obtain p50 p90 p95 p99 where p: "calculate_percentiles [5, 1, 3] = (p50, p90, p95, p99)" by (metis surj_pair)
  from percentiles_correct [OF _ p] show ?thesis
    by (intro exI [of _ p50] exI [of _ p90] exI [of _ p95] exI [of _ p99]) (use p in auto)
qed

text \<open>The rate counts exactly the messages in the window, but divides by the time since the oldest
  of them (by the window only when it is the single one): it is never below the messages per second
  over the window and may be any amount above, and it is zero for a burst recorded at the very
  moment of the reading.\<close>

theorem rate_bounds:
  assumes "sorted ts" and "\<forall>t\<in>set ts. t \<le> now" and "0 < w" and "calculate_rate w now ts = (ts', r)"
  shows "ts' = filter (\<lambda>t. now - of_int w \<le> t) ts \<and> 0 \<le> r
    \<and> (r = 0 \<longleftrightarrow> ts' = [] \<or> length ts' > 1 \<and> hd ts' = now)
    \<and> (r \<noteq> 0 \<longrightarrow> real (length ts') \<le> r * of_int w)"
proof -
  have ts': "ts' = filter (\<lambda>t. now - of_int w \<le> t) ts"
    using assms(1,4) by (simp add: calculate_rate_def Let_def pop_before_filter)
  define elapsed where "elapsed = (if length ts' > 1 then now - hd ts' else of_int w)"
  have r: "r = (if ts' = [] \<or> elapsed \<le> 0 then 0 else of_nat (length ts') / elapsed)"
    using assms(4) unfolding calculate_rate_def Let_def elapsed_def by auto
  have "hd ts' \<in> set ts'" if "ts' \<noteq> []" using that by simp
  then have hd: "hd ts' \<le> now \<and> now - of_int w \<le> hd ts'" if "ts' \<noteq> []"
    using that assms(2) unfolding ts' by auto
  have e: "0 \<le> elapsed \<and> elapsed \<le> of_int w" if "ts' \<noteq> []"
    using hd [OF that] assms(3) by (auto simp: elapsed_def)
  have "real (length ts') \<le> r * of_int w" if "r \<noteq> 0"
  proof -
    from that r have *: "ts' \<noteq> []" "0 < elapsed" "r = of_nat (length ts') / elapsed" by (auto split: if_split_asm)
    have "real (length ts') * elapsed \<le> real (length ts') * of_int w"
      using e [OF *(1)] by (intro mult_left_mono) simp_all
    then show ?thesis using *(2) by (simp add: *(3) field_simps)
  qed
  moreover have "0 \<le> r" using r by simp
  moreover have "r = 0 \<longleftrightarrow> ts' = [] \<or> length ts' > 1 \<and> hd ts' = now"
  proof (cases "ts' = []")
    case False
    then have "r = 0 \<longleftrightarrow> elapsed \<le> 0" using r by simp
    with False hd [OF False] assms(3) show ?thesis by (auto simp: elapsed_def)
  qed (simp add: r)
  ultimately show ?thesis using ts' by blast
qed

theorem rate_bounds_witness: "\<exists>r. snd (calculate_rate 60 100 [99, 100]) = r \<and> real 2 \<le> r * 60"
proof -
  obtain ts' r where c: "calculate_rate 60 100 [99, 100] = (ts', r)" by (metis surj_pair)
  have "ts' = [99, 100]" using c by (simp add: calculate_rate_def Let_def split: if_split_asm)
  with rate_bounds [of "[99, 100]" 100 60, OF _ _ _ c] c show ?thesis by simp
qed

end
