(* ===== verification/Snapshots.thy ===== *)
theory Snapshots
  imports Broker_Props
begin

section \<open>Snapshots\<close>

text \<open>
  The \<open>snapshot\<close> methods of topics, groups and the broker, over those of partitions, queues, consumers
  and producers, which stand with their classes. A snapshot is a record with the fields of the
  dictionary the code returns, but for the creation times, which the models leave out.
\<close>

record topic_info =
  ti_name :: string
  ti_num_partitions :: nat
  ti_retention_ms :: int
  ti_max_message_bytes :: int
  ti_compaction_enabled :: bool
  ti_total_messages :: nat
  ti_total_bytes :: nat
  ti_subscribers :: "string set"
  ti_partitions :: "partition_info list"

definition topic_snapshot :: "mstore \<Rightarrow> pstore \<Rightarrow> topic \<Rightarrow> topic_info" where
  "topic_snapshot ms ps t =
     \<lparr>ti_name = t_name t, ti_num_partitions = length (t_partitions t),
      ti_retention_ms = retention_ms (t_config t), ti_max_message_bytes = max_message_bytes (t_config t),
      ti_compaction_enabled = compaction_enabled (t_config t),
      ti_total_messages = total_messages ps t, ti_total_bytes = topic_total_bytes ms ps t,
      ti_subscribers = t_subscribers t, ti_partitions = map (\<lambda>p. partition_snapshot ms (ps p)) (t_partitions t)\<rparr>"

record group_info =
  gi_group_id :: string
  gi_strategy :: assignment_strategy
  gi_generation :: nat
  gi_member_count :: nat
  gi_members :: "consumer_info list"
  gi_subscribed_topics :: "string list"
  gi_total_lag :: int

definition group_snapshot :: "cstore \<Rightarrow> pstore \<Rightarrow> consumer_group \<Rightarrow> group_info" where
  "group_snapshot cs ps g =
     \<lparr>gi_group_id = g_id g, gi_strategy = g_strategy g, gi_generation = g_generation g,
      gi_member_count = length (g_members g), gi_members = map (\<lambda>x. consumer_snapshot ps (cs x)) (member_refs g),
      gi_subscribed_topics = keys (g_subscribed g), gi_total_lag = group_total_lag cs ps g\<rparr>"

record broker_info =
  bi_running :: bool
  bi_uptime :: real
  bi_topics :: "(string, topic_info) dict"
  bi_queues :: "(string, queue_info) dict"
  bi_priority_queues :: "(string, priority_queue_info) dict"
  bi_groups :: "(string, group_info) dict"
  bi_producers :: "(string, producer_info) dict"
  bi_total_in :: int
  bi_total_out :: int

text \<open>A comprehension over the items of a dictionary.\<close>

definition dict_values :: "('v \<Rightarrow> 'w) \<Rightarrow> ('k, 'v) dict \<Rightarrow> ('k, 'w) dict" where
  "dict_values f d = map (\<lambda>(k, v). (k, f v)) d"

definition broker_snapshot_at :: "real \<Rightarrow> mstore \<Rightarrow> broker \<Rightarrow> broker_info" where
  "broker_snapshot_at now ms b =
     \<lparr>bi_running = b_running b, bi_uptime = (if b_started_at b \<noteq> 0 then now - b_started_at b else 0),
      bi_topics = dict_values (topic_snapshot ms (b_ps b)) (b_topics b),
      bi_queues = dict_values queue_snapshot (b_queues b),
      bi_priority_queues = dict_values pq_snapshot (b_priority_queues b),
      bi_groups = dict_values (group_snapshot (b_cs b) (b_ps b)) (b_groups b),
      bi_producers = dict_values producer_snapshot (b_producers b),
      bi_total_in = b_total_in b, bi_total_out = b_total_out b\<rparr>"

lemma dict_get_values: "dict_get (dict_values f d) k = map_option f (dict_get d k)"
  by (induction d) (auto simp: dict_values_def)

lemma keys_dict_values [simp]: "keys (dict_values f d) = keys d"
  by (simp add: dict_values_def split_def comp_def)

subsection \<open>What a snapshot shows\<close>

lemma sorted_span:
  "sorted_wrt (<) xs \<Longrightarrow> xs \<noteq> [] \<Longrightarrow> (\<forall>x\<in>set xs. x < n) \<Longrightarrow> int (length xs) \<le> n - hd xs" for xs :: "int list"
proof (induction xs)
  case (Cons x xs)
  show ?case
  proof (cases "xs = []")
    case False
    then have "int (length xs) \<le> n - hd xs" using Cons by simp
    moreover have "x < hd xs" using Cons.prems(1) False by simp
    ultimately show ?thesis by simp
  qed (use Cons.prems in simp)
qed simp

lemma partition_span:
  assumes "ordered ms p"
  shows "0 \<le> earliest_offset ms p \<and> earliest_offset ms p \<le> p_next_offset p
    \<and> int (length (p_log p)) \<le> p_next_offset p - earliest_offset ms p"
proof (cases "p_log p")
  case Nil
  with assms show ?thesis by (simp add: earliest_offset_def ordered_def)
next
  case (Cons r rs)
  have "int (length (offsets ms p)) \<le> p_next_offset p - hd (offsets ms p)"
    using assms by (intro sorted_span) (auto simp: ordered_def Cons)
  with assms Cons show ?thesis by (auto simp: earliest_offset_def ordered_def)
qed

text \<open>A snapshot of the broker is consistent in every reachable state: it names exactly the topics,
  queues and groups there are; each topic is under its own name, its message count is the sum of its
  partitions', these are numbered from 0, and no partition shows more messages than the offsets
  between its earliest and its next one; each group's member count is the number of members shown.\<close>

theorem broker_snapshot_consistent:
  assumes "broker_step\<^sup>*\<^sup>* (ms0, broker_new cfg ps nx cs) (ms, b)"
  shows "keys (bi_topics (broker_snapshot_at now ms b)) = list_topics b
    \<and> keys (bi_queues (broker_snapshot_at now ms b)) @ keys (bi_priority_queues (broker_snapshot_at now ms b)) = list_queues b
    \<and> keys (bi_groups (broker_snapshot_at now ms b)) = list_consumer_groups b
    \<and> (\<forall>n i. dict_get (bi_topics (broker_snapshot_at now ms b)) n = Some i \<longrightarrow>
          ti_name i = n \<and> ti_total_messages i = sum_list (map pi_count (ti_partitions i))
          \<and> map pi_id (ti_partitions i) = map int [0..<ti_num_partitions i]
          \<and> (\<forall>p \<in> set (ti_partitions i). pi_topic p = n \<and> 0 \<le> pi_earliest p \<and> pi_earliest p \<le> pi_current p
                \<and> int (pi_count p) \<le> pi_current p - pi_earliest p))
    \<and> (\<forall>gid i. dict_get (bi_groups (broker_snapshot_at now ms b)) gid = Some i \<longrightarrow>
          gi_group_id i = gid \<and> gi_member_count i = length (gi_members i))"
proof -
  have inv: "broker_inv ms b" using broker_run_inv [OF assms] broker_new_inv by simp
  note I = broker_invD [OF inv]
  let ?s = "broker_snapshot_at now ms b"
  have one: "ti_name i = n \<and> ti_total_messages i = sum_list (map pi_count (ti_partitions i))
          \<and> map pi_id (ti_partitions i) = map int [0..<ti_num_partitions i]
          \<and> (\<forall>p \<in> set (ti_partitions i). pi_topic p = n \<and> 0 \<le> pi_earliest p \<and> pi_earliest p \<le> pi_current p
                \<and> int (pi_count p) \<le> pi_current p - pi_earliest p)"
    if "dict_get (bi_topics ?s) n = Some i" for n i
  proof -
    from that obtain t where t: "get_topic n b = Some t" and i: "i = topic_snapshot ms (b_ps b) t"
      by (auto simp: broker_snapshot_at_def dict_get_values get_topic_def)
    have t': "t_name t = n" "topic_inv ms (b_ps b) t" using I(1) t unfolding topics_ok_def get_topic_def by blast+
    have part: "p_id (b_ps b (t_partitions t ! j)) = int j \<and> p_topic (b_ps b (t_partitions t ! j)) = n
        \<and> ordered ms (b_ps b (t_partitions t ! j))" if "j < length (t_partitions t)" for j
      using t' that unfolding topic_inv_def by blast
    have "map pi_id (ti_partitions i) = map int [0..<ti_num_partitions i]"
      by (rule nth_equalityI) (simp_all add: i topic_snapshot_def partition_snapshot_def part)
    moreover have "\<forall>p \<in> set (ti_partitions i). pi_topic p = n \<and> 0 \<le> pi_earliest p \<and> pi_earliest p \<le> pi_current p
                \<and> int (pi_count p) \<le> pi_current p - pi_earliest p"
    proof
      fix p assume "p \<in> set (ti_partitions i)"
      then obtain j where j: "j < length (t_partitions t)" and p: "p = partition_snapshot ms (b_ps b (t_partitions t ! j))"
        by (auto simp: i topic_snapshot_def in_set_conv_nth)
      from part [OF j] have "ordered ms (b_ps b (t_partitions t ! j))" "p_topic (b_ps b (t_partitions t ! j)) = n" by simp_all
      with partition_span [OF this(1)] show "pi_topic p = n \<and> 0 \<le> pi_earliest p \<and> pi_earliest p \<le> pi_current p
                \<and> int (pi_count p) \<le> pi_current p - pi_earliest p"
        by (simp add: p partition_snapshot_def)
    qed
    ultimately show ?thesis
      by (simp add: i topic_snapshot_def t'(1) total_messages_def partition_size_def partition_snapshot_def comp_def)
  qed
  have "gi_group_id i = gid \<and> gi_member_count i = length (gi_members i)"
    if "dict_get (bi_groups ?s) gid = Some i" for gid i
  proof -
    from that obtain g where g: "dict_get (b_groups b) gid = Some g" and i: "i = group_snapshot (b_cs b) (b_ps b) g"
      by (auto simp: broker_snapshot_at_def dict_get_values)
    have "g_id g = gid" using I(2) g unfolding groups_ok_def by blast
    then show ?thesis by (simp add: i group_snapshot_def member_refs_def)
  qed
  with one show ?thesis
    by (simp add: broker_snapshot_at_def list_topics_def list_queues_def list_consumer_groups_def)
qed

theorem broker_snapshot_consistent_witness:
  "keys (bi_topics (broker_snapshot_at 5 sample_ms sample_subscribed)) = [''t'']"
  using broker_snapshot_consistent [OF sample_run [unfolded sample_broker_def], of 5]
  by (simp add: list_topics_def sample_topics)

end
