(* ===== verification/Admin.thy ===== *)
theory Admin
  imports Snapshots Server_Props
begin

section \<open>Administration\<close>

text \<open>
  \<^verbatim>\<open>admin.py\<close>: the manager calls the broker and notes each operation that goes through. Its state is the
  broker (with the message objects) and the log; \<open>now\<close> is the clock reading of the log entry.
\<close>

record log_entry =
  le_operation :: string
  le_details :: json
  le_timestamp :: real

record admin =
  ad_ms :: mstore
  ad_broker :: broker
  ad_log :: "log_entry list"

definition admin_new :: "mstore \<Rightarrow> broker \<Rightarrow> admin" where
  "admin_new ms b = \<lparr>ad_ms = ms, ad_broker = b, ad_log = []\<rparr>"

definition log_operation :: "real \<Rightarrow> string \<Rightarrow> (string, json) dict \<Rightarrow> admin \<Rightarrow> admin" where
  "log_operation now operation details a =
     a\<lparr>ad_log := ad_log a @ [\<lparr>le_operation = operation, le_details = JDict details, le_timestamp = now\<rparr>]\<rparr>"

subsection \<open>Topics\<close>

definition admin_create_topic ::
    "real \<Rightarrow> string \<Rightarrow> int \<Rightarrow> int \<Rightarrow> bool \<Rightarrow> int \<Rightarrow> admin \<Rightarrow> admin \<times> topic_info result" where
  "admin_create_topic now name partitions retention compaction max_bytes a =
     (let config = default_topic_config\<lparr>num_partitions := partitions, retention_ms := retention,
            compaction_enabled := compaction, max_message_bytes := max_bytes\<rparr>
      in case create_topic name (Some config) (ad_broker a) of
           (b, Inl e) \<Rightarrow> (a\<lparr>ad_broker := b\<rparr>, Inl e)
         | (b, Inr t) \<Rightarrow>
             (log_operation now ''create_topic'' [(''name'', JStr name), (''partitions'', JInt partitions)]
                (a\<lparr>ad_broker := b\<rparr>),
              Inr (topic_snapshot (ad_ms a) (b_ps b) t)))"

definition deletion :: "string \<Rightarrow> string \<Rightarrow> bool \<Rightarrow> (string, json) dict" where
  "deletion key name deleted = [(key, JStr name), (''deleted'', JBool deleted)]"

definition admin_delete_topic :: "real \<Rightarrow> string \<Rightarrow> admin \<Rightarrow> admin \<times> bool" where
  "admin_delete_topic now name a =
     (case delete_topic name (ad_broker a) of (b, deleted) \<Rightarrow>
        (log_operation now ''delete_topic'' (deletion ''name'' name deleted) (a\<lparr>ad_broker := b\<rparr>), deleted))"

definition describe_topic :: "string \<Rightarrow> admin \<Rightarrow> topic_info option" where
  "describe_topic name a =
     map_option (topic_snapshot (ad_ms a) (b_ps (ad_broker a))) (get_topic name (ad_broker a))"

record topic_row =
  tr_name :: string
  tr_partitions :: nat
  tr_messages :: nat
  tr_bytes :: nat
  tr_subscribers :: nat

definition admin_list_topics :: "admin \<Rightarrow> topic_row list" where
  "admin_list_topics a =
     (let b = ad_broker a in
      List.map_filter (\<lambda>name. map_option (\<lambda>t.
          \<lparr>tr_name = name, tr_partitions = length (t_partitions t), tr_messages = total_messages (b_ps b) t,
           tr_bytes = topic_total_bytes (ad_ms a) (b_ps b) t, tr_subscribers = subscriber_count t\<rparr>)
        (get_topic name b)) (list_topics b))"

subsection \<open>Queues\<close>

datatype any_queue_info = Fifo_info queue_info | Prio_info priority_queue_info

definition any_snapshot :: "any_queue \<Rightarrow> any_queue_info" where
  "any_snapshot q = (case q of Fifo f \<Rightarrow> Fifo_info (queue_snapshot f) | Prio p \<Rightarrow> Prio_info (pq_snapshot p))"

definition admin_create_queue ::
    "real \<Rightarrow> string \<Rightarrow> int \<Rightarrow> real \<Rightarrow> bool \<Rightarrow> admin \<Rightarrow> admin \<times> any_queue_info result" where
  "admin_create_queue now name max_size timeout priority a =
     (case create_queue name max_size timeout priority (ad_broker a) of
        (b, Inl e) \<Rightarrow> (a\<lparr>ad_broker := b\<rparr>, Inl e)
      | (b, Inr q) \<Rightarrow>
          (log_operation now ''create_queue'' [(''name'', JStr name), (''priority'', JBool priority)]
             (a\<lparr>ad_broker := b\<rparr>),
           Inr (any_snapshot q)))"

definition admin_delete_queue :: "real \<Rightarrow> string \<Rightarrow> admin \<Rightarrow> admin \<times> bool" where
  "admin_delete_queue now name a =
     (case delete_queue name (ad_broker a) of (b, deleted) \<Rightarrow>
        (log_operation now ''delete_queue'' (deletion ''name'' name deleted) (a\<lparr>ad_broker := b\<rparr>), deleted))"

text \<open>\<open>q = self.broker.get_queue(name)\<close> and \<open>if q\<close>: a queue is true when a message waits in it.\<close>

definition waiting_queue :: "string \<Rightarrow> broker \<Rightarrow> any_queue option" where
  "waiting_queue name b =
     (case get_queue name b of Some q \<Rightarrow> if any_depth q > 0 then Some q else None | None \<Rightarrow> None)"

definition describe_queue :: "string \<Rightarrow> admin \<Rightarrow> any_queue_info option" where
  "describe_queue name a = map_option any_snapshot (waiting_queue name (ad_broker a))"

definition admin_list_queues :: "admin \<Rightarrow> any_queue_info list" where
  "admin_list_queues a =
     List.map_filter (\<lambda>name. map_option any_snapshot (waiting_queue name (ad_broker a))) (list_queues (ad_broker a))"

text \<open>A priority queue has no \<open>purge\<close>.\<close>

definition purge_queue :: "string \<Rightarrow> admin \<Rightarrow> admin \<times> nat result" where
  "purge_queue name a =
     (case waiting_queue name (ad_broker a) of
        None \<Rightarrow> (a, Inr 0)
      | Some (Fifo q) \<Rightarrow>
          (case queue_purge q of (q', n) \<Rightarrow> (a\<lparr>ad_broker := put_queue name (Fifo q') (ad_broker a)\<rparr>, Inr n))
      | Some (Prio q) \<Rightarrow> (a, Inl AttributeError))"

subsection \<open>Consumer groups\<close>

definition strategy_of :: "string \<Rightarrow> assignment_strategy result" where
  "strategy_of s =
     (if s = ''range'' then Inr RANGE else if s = ''round_robin'' then Inr ROUND_ROBIN
      else if s = ''sticky'' then Inr STICKY else Inl ValueError)"

definition admin_create_group :: "real \<Rightarrow> string \<Rightarrow> string \<Rightarrow> admin \<Rightarrow> admin \<times> group_info result" where
  "admin_create_group now gid strategy a =
     (case strategy_of strategy of
        Inl e \<Rightarrow> (a, Inl e)
      | Inr st \<Rightarrow>
          (case create_consumer_group gid st (ad_broker a) of (b, g) \<Rightarrow>
             (log_operation now ''create_consumer_group'' [(''group_id'', JStr gid)] (a\<lparr>ad_broker := b\<rparr>),
              Inr (group_snapshot (b_cs b) (b_ps b) g))))"

definition admin_delete_group :: "real \<Rightarrow> string \<Rightarrow> admin \<Rightarrow> admin \<times> bool" where
  "admin_delete_group now gid a =
     (case delete_consumer_group gid (ad_broker a) of (b, deleted) \<Rightarrow>
        (log_operation now ''delete_consumer_group'' (deletion ''group_id'' gid deleted) (a\<lparr>ad_broker := b\<rparr>),
         deleted))"

definition describe_group :: "string \<Rightarrow> admin \<Rightarrow> group_info option" where
  "describe_group gid a =
     map_option (group_snapshot (b_cs (ad_broker a)) (b_ps (ad_broker a))) (get_consumer_group gid (ad_broker a))"

record group_row =
  gr_group_id :: string
  gr_members :: nat
  gr_total_lag :: int

definition admin_list_groups :: "admin \<Rightarrow> group_row list" where
  "admin_list_groups a =
     (let b = ad_broker a in
      List.map_filter (\<lambda>gid. map_option (\<lambda>g.
          \<lparr>gr_group_id = gid, gr_members = length (g_members g), gr_total_lag = group_total_lag (b_cs b) (b_ps b) g\<rparr>)
        (get_consumer_group gid b)) (list_consumer_groups b))"

subsection \<open>Maintenance\<close>

definition removal :: "('v \<Rightarrow> json) \<Rightarrow> (string, 'v) dict \<Rightarrow> (string, json) dict" where
  "removal f result = [(''removed'', JDict (dict_values f result))]"

definition run_retention :: "real \<Rightarrow> (pref \<Rightarrow> real) \<Rightarrow> admin \<Rightarrow> admin \<times> (string, int) dict" where
  "run_retention now clock a =
     (case broker_apply_retention clock (ad_ms a, ad_broker a) of ((ms, b), result) \<Rightarrow>
        (log_operation now ''retention'' (removal JInt result) (a\<lparr>ad_ms := ms, ad_broker := b\<rparr>), result))"

definition run_compaction :: "real \<Rightarrow> admin \<Rightarrow> admin \<times> (string, int) dict" where
  "run_compaction now a =
     (case compact_topics (ad_ms a, ad_broker a) of ((ms, b), result) \<Rightarrow>
        (log_operation now ''compaction'' (removal JInt result) (a\<lparr>ad_ms := ms, ad_broker := b\<rparr>), result))"

definition admin_remove_dead :: "real \<Rightarrow> (string \<Rightarrow> string \<Rightarrow> real) \<Rightarrow> admin \<Rightarrow> admin \<times> (string, string list) dict" where
  "admin_remove_dead now clock a =
     (case remove_dead_consumers clock (ad_broker a) of (b, result) \<Rightarrow>
        (log_operation now ''remove_dead_consumers'' (removal (\<lambda>ids. JList (map JStr ids)) result)
           (a\<lparr>ad_broker := b\<rparr>), result))"

definition broker_stats :: "real \<Rightarrow> admin \<Rightarrow> broker_info" where
  "broker_stats now a = broker_snapshot_at now (ad_ms a) (ad_broker a)"

text \<open>\<open>log[-limit:]\<close>: with a limit of 0 or less this is \<open>log[k:]\<close> for \<open>k = -limit\<close>.\<close>

definition operation_log :: "int \<Rightarrow> admin \<Rightarrow> log_entry list" where
  "operation_log limit a =
     (if limit > 0 then drop (length (ad_log a) - nat limit) (ad_log a) else drop (nat (- limit)) (ad_log a))"

subsection \<open>A run of the manager\<close>

text \<open>
  The calls that can change something, with the readings of the clock they take; the others
  (describing, listing, \<open>broker_stats\<close>, \<open>operation_log\<close>) have no state as a result.
\<close>

datatype admin_call =
    Create_Topic_Call real string int int bool int
  | Delete_Topic_Call real string
  | Create_Queue_Call real string int real bool
  | Delete_Queue_Call real string
  | Purge_Call string
  | Create_Group_Call real string string
  | Delete_Group_Call real string
  | Retention_Call real "pref \<Rightarrow> real"
  | Compaction_Call real
  | Remove_Dead_Call real "string \<Rightarrow> string \<Rightarrow> real"

fun admin_do :: "admin_call \<Rightarrow> admin \<Rightarrow> admin" where
  "admin_do (Create_Topic_Call now name k ret compacted mx) a = fst (admin_create_topic now name k ret compacted mx a)"
| "admin_do (Delete_Topic_Call now name) a = fst (admin_delete_topic now name a)"
| "admin_do (Create_Queue_Call now name k t prio) a = fst (admin_create_queue now name k t prio a)"
| "admin_do (Delete_Queue_Call now name) a = fst (admin_delete_queue now name a)"
| "admin_do (Purge_Call name) a = fst (purge_queue name a)"
| "admin_do (Create_Group_Call now gid st) a = fst (admin_create_group now gid st a)"
| "admin_do (Delete_Group_Call now gid) a = fst (admin_delete_group now gid a)"
| "admin_do (Retention_Call now clock) a = fst (run_retention now clock a)"
| "admin_do (Compaction_Call now) a = fst (run_compaction now a)"
| "admin_do (Remove_Dead_Call now clock) a = fst (admin_remove_dead now clock a)"

definition admin_run :: "admin_call list \<Rightarrow> admin \<Rightarrow> admin" where
  "admin_run calls a = fold admin_do calls a"

text \<open>What each call asks of the broker, and what it notes in the log.\<close>

fun call_ops :: "admin_call \<Rightarrow> broker_op list" where
  "call_ops (Create_Topic_Call now name k ret compacted mx) =
     [Op_Create_Topic name (Some (default_topic_config\<lparr>num_partitions := k, retention_ms := ret,
        compaction_enabled := compacted, max_message_bytes := mx\<rparr>))]"
| "call_ops (Delete_Topic_Call now name) = [Op_Delete_Topic name]"
| "call_ops (Create_Queue_Call now name k t prio) = [Op_Create_Queue name k t prio]"
| "call_ops (Delete_Queue_Call now name) = [Op_Delete_Queue name]"
| "call_ops (Purge_Call name) = [Op_Purge name]"
| "call_ops (Create_Group_Call now gid st) =
     (case strategy_of st of Inr x \<Rightarrow> [Op_Create_Group gid x] | Inl _ \<Rightarrow> [])"
| "call_ops (Delete_Group_Call now gid) = [Op_Delete_Group gid]"
| "call_ops (Retention_Call now clock) = [Op_Retention clock]"
| "call_ops (Compaction_Call now) = [Op_Compaction]"
| "call_ops (Remove_Dead_Call now clock) = [Op_Remove_Dead clock]"

fun call_notes :: "admin_call \<Rightarrow> broker \<Rightarrow> (string \<times> real) list" where
  "call_notes (Create_Topic_Call now name k ret compacted mx) b =
     (if name \<in> set (keys (b_topics b))
         \<or> max_topics (b_config b) > 0 \<and> int (length (b_topics b)) \<ge> max_topics (b_config b)
      then [] else [(''create_topic'', now)])"
| "call_notes (Delete_Topic_Call now name) b = [(''delete_topic'', now)]"
| "call_notes (Create_Queue_Call now name k t prio) b =
     (if name \<in> set (list_queues b)
         \<or> max_queues (b_config b) > 0 \<and> int (length (list_queues b)) \<ge> max_queues (b_config b)
      then [] else [(''create_queue'', now)])"
| "call_notes (Delete_Queue_Call now name) b = [(''delete_queue'', now)]"
| "call_notes (Purge_Call name) b = []"
| "call_notes (Create_Group_Call now gid st) b =
     (if st \<in> {''range'', ''round_robin'', ''sticky''} then [(''create_consumer_group'', now)] else [])"
| "call_notes (Delete_Group_Call now gid) b = [(''delete_consumer_group'', now)]"
| "call_notes (Retention_Call now clock) b = [(''retention'', now)]"
| "call_notes (Compaction_Call now) b = [(''compaction'', now)]"
| "call_notes (Remove_Dead_Call now clock) b = [(''remove_dead_consumers'', now)]"

definition noted :: "log_entry list \<Rightarrow> (string \<times> real) list" where
  "noted es = map (\<lambda>x. (le_operation x, le_timestamp x)) es"

lemma log_operation_fields [simp]:
  "ad_ms (log_operation now op d a) = ad_ms a" "ad_broker (log_operation now op d a) = ad_broker a"
  "ad_log (log_operation now op d a)
     = ad_log a @ [\<lparr>le_operation = op, le_details = JDict d, le_timestamp = now\<rparr>]"
  by (simp_all add: log_operation_def)

definition does_exactly :: "admin_call \<Rightarrow> admin \<Rightarrow> bool" where
  "does_exactly call a \<longleftrightarrow>
     (ad_ms (admin_do call a), ad_broker (admin_do call a)) = perform_all (call_ops call) (ad_ms a, ad_broker a)
     \<and> (\<exists>es. ad_log (admin_do call a) = ad_log a @ es \<and> noted es = call_notes call (ad_broker a))"

lemma purge_empty: "queue_depth f = 0 \<Longrightarrow> f\<lparr>q_queue := []\<rparr> = f"
  by (simp add: queue_depth_def)

lemma purge_does: "does_exactly (Purge_Call name) a"
proof (cases "get_queue name (ad_broker a)")
  case None
  then show ?thesis by (simp add: does_exactly_def purge_queue_def waiting_queue_def on_named_queue_def noted_def)
next
  case (Some q)
  note same = put_queue_same [OF Some]
  show ?thesis
    using Some same
    by (cases q)
      (auto simp: does_exactly_def purge_queue_def waiting_queue_def on_named_queue_def noted_def purged_def queue_purge_def
        any_depth_def purge_empty)
qed

lemma create_topic_does: "does_exactly (Create_Topic_Call now name k ret compacted mx) a"
  by (auto simp: does_exactly_def admin_create_topic_def create_topic_def Let_def noted_def split: prod.splits)

lemma create_queue_does: "does_exactly (Create_Queue_Call now name k t prio) a"
  by (auto simp: does_exactly_def admin_create_queue_def create_queue_def list_queues_def Let_def noted_def
      split: prod.splits)

lemma create_group_does: "does_exactly (Create_Group_Call now gid st) a"
  by (auto simp: does_exactly_def admin_create_group_def strategy_of_def noted_def split: prod.splits)

lemma call_does_exactly: "does_exactly call a"
proof (cases call)
  case (Create_Topic_Call now name k ret compacted mx)
  then show ?thesis by (simp only: create_topic_does)
next
  case (Create_Queue_Call now name k t prio)
  then show ?thesis by (simp only: create_queue_does)
next
  case (Purge_Call name)
  then show ?thesis by (simp only: purge_does)
next
  case (Create_Group_Call now gid st)
  then show ?thesis by (simp only: create_group_does)
qed (simp_all add: does_exactly_def admin_delete_topic_def admin_delete_queue_def admin_delete_group_def run_retention_def
    run_compaction_def admin_remove_dead_def noted_def split: prod.splits)

lemma admin_run_does:
  "(ad_ms (admin_run calls a), ad_broker (admin_run calls a))
     = perform_all (concat (map call_ops calls)) (ad_ms a, ad_broker a)"
proof (induction calls arbitrary: a)
  case (Cons call calls)
  have "admin_run (call # calls) a = admin_run calls (admin_do call a)" by (simp add: admin_run_def)
  then show ?case using Cons call_does_exactly [of call a] by (simp add: does_exactly_def)
qed (simp add: admin_run_def)

lemma call_ops_allowed: "all_allowed (call_ops call) s"
  by (cases call) (simp_all split: sum.split)

lemma calls_allowed: "all_allowed (concat (map call_ops calls)) s"
  by (induction calls arbitrary: s) (simp_all add: call_ops_allowed)

text \<open>C24. Whatever the administrator does, in any order: the broker has performed exactly the operations that the
  calls ask for (\<open>call_ops\<close>: creating, deleting or purging what is named, with the configuration
  given; purging empties what waits in a queue and leaves what is in flight), one after the other,
  and nothing else, so all that holds of its reachable states holds behind the manager too. Each
  call adds its entry with its clock reading to the end of the operation log (a refused creation
  adds none, and neither does a purge), and at most the asked number of the latest entries are shown
  for a positive limit.\<close>

theorem admin_refines_broker:
  "(ad_ms (admin_run calls (admin_new ms b)), ad_broker (admin_run calls (admin_new ms b)))
       = perform_all (concat (map call_ops calls)) (ms, b)
    \<and> broker_step\<^sup>*\<^sup>* (ms, b) (ad_ms (admin_run calls (admin_new ms b)), ad_broker (admin_run calls (admin_new ms b)))
    \<and> (\<exists>es. ad_log (admin_run (calls @ [call]) (admin_new ms b)) = ad_log (admin_run calls (admin_new ms b)) @ es
          \<and> noted es = call_notes call (ad_broker (admin_run calls (admin_new ms b))))
    \<and> (\<forall>limit > 0. int (length (operation_log limit (admin_run calls (admin_new ms b)))) \<le> limit
          \<and> (\<exists>old. ad_log (admin_run calls (admin_new ms b)) = old @ operation_log limit (admin_run calls (admin_new ms b))))"
proof -
  let ?a = "admin_run calls (admin_new ms b)"
  have run: "(ad_ms ?a, ad_broker ?a) = perform_all (concat (map call_ops calls)) (ms, b)"
    by (simp add: admin_run_does) (simp add: admin_new_def)
  have "broker_step\<^sup>*\<^sup>* (ms, b) (ad_ms ?a, ad_broker ?a)"
    unfolding run by (rule perform_all_run [OF calls_allowed])
  moreover have "admin_run (calls @ [call]) (admin_new ms b) = admin_do call ?a" by (simp add: admin_run_def)
  moreover have "\<exists>old. ad_log ?a = old @ drop n (ad_log ?a)" for n
    by (rule exI [of _ "take n (ad_log ?a)"]) simp
  moreover have "int (length (operation_log limit ?a)) \<le> limit" if "limit > 0" for limit
    using that by (simp add: operation_log_def)
  ultimately show ?thesis
    using run call_does_exactly [of call ?a] by (simp add: does_exactly_def operation_log_def)
qed

text \<open>Two messages of a queue, one of them taken: purging drops the other one, and is not noted.\<close>

theorem admin_refines_broker_witness:
  "\<exists>b f. dict_get (b_queues b) ''q'' = Some f \<and> q_queue f = [1] \<and> keys (q_in_flight f) = [''m'']
    \<and> ad_broker (admin_run [Create_Group_Call 3 ''g'' ''range'', Purge_Call ''q''] (admin_new sample_ms b))
        = snd (perform_all [Op_Create_Group ''g'' RANGE, Op_Purge ''q''] (sample_ms, b))
    \<and> noted (operation_log 5 (admin_run [Create_Group_Call 3 ''g'' ''range'', Purge_Call ''q''] (admin_new sample_ms b)))
        = [(''create_consumer_group'', 3)]
    \<and> get_queue ''q'' (ad_broker (admin_run [Create_Group_Call 3 ''g'' ''range'', Purge_Call ''q''] (admin_new sample_ms b)))
        = Some (Fifo (f\<lparr>q_queue := []\<rparr>))"
proof -
  let ?f = "(queue_new ''q'' 0 30)\<lparr>q_queue := [1], q_in_flight := [(''m'', 0, 40)]\<rparr>"
  let ?b = "(s_broker sample_server)\<lparr>b_queues := [(''q'', ?f)], b_groups := []\<rparr>"
  let ?calls = "[Create_Group_Call 3 ''g'' ''range'', Purge_Call ''q'']"
  let ?a = "admin_run ?calls (admin_new sample_ms ?b)"
  have ops: "concat (map call_ops ?calls) = [Op_Create_Group ''g'' RANGE, Op_Purge ''q'']"
    by (simp add: strategy_of_def)
  have run: "ad_broker ?a = snd (perform_all [Op_Create_Group ''g'' RANGE, Op_Purge ''q''] (sample_ms, ?b))"
    using admin_refines_broker [of ?calls sample_ms ?b, unfolded ops] by (metis snd_conv)
  then have "get_queue ''q'' (ad_broker ?a) = Some (Fifo (?f\<lparr>q_queue := []\<rparr>))"
    by (simp add: create_consumer_group_def on_named_queue_def get_queue_def purged_def put_queue_def Let_def)
  moreover have "noted (operation_log 5 ?a) = [(''create_consumer_group'', 3)]"
    by (simp add: admin_run_def admin_create_group_def strategy_of_def create_consumer_group_def purge_queue_def
        waiting_queue_def get_queue_def admin_new_def any_depth_def queue_depth_def operation_log_def noted_def
        log_operation_def queue_purge_def Let_def)
  ultimately show ?thesis using run by (intro exI [of _ ?b] exI [of _ ?f]) simp
qed

text \<open>A defect: the manager tests a queue with \<open>if q\<close>, which asks for its length. A queue in which no
  message waits is described as absent and left out of the list although it exists; purging it
  answers 0, and the messages taken from it and not acknowledged stay; purging a priority queue in
  which a message waits raises \<open>AttributeError\<close>, for it has no such method.\<close>

theorem queue_administration_defects:
  assumes "get_queue n (ad_broker a) = Some q"
  shows "(any_depth q = 0 \<longrightarrow> describe_queue n a = None \<and> purge_queue n a = (a, Inr 0)
        \<and> (\<forall>i \<in> set (admin_list_queues a). \<exists>n'. n' \<noteq> n \<and> describe_queue n' a = Some i))
    \<and> (any_depth q > 0 \<longrightarrow> describe_queue n a = Some (any_snapshot q)
        \<and> any_snapshot q \<in> set (admin_list_queues a)
        \<and> (case q of
             Fifo f \<Rightarrow> (\<exists>a'. purge_queue n a = (a', Inr (queue_depth f))
               \<and> get_queue n (ad_broker a') = Some (Fifo (f\<lparr>q_queue := []\<rparr>)))
           | Prio p \<Rightarrow> purge_queue n a = (a, Inl AttributeError)))"
proof (cases "any_depth q = 0")
  case True
  then have w: "waiting_queue n (ad_broker a) = None" using assms by (simp add: waiting_queue_def)
  have "\<exists>n'. n' \<noteq> n \<and> describe_queue n' a = Some i" if "i \<in> set (admin_list_queues a)" for i
  proof -
    from that obtain x y where "waiting_queue x (ad_broker a) = Some y" "i = any_snapshot y"
      by (auto simp: admin_list_queues_def List.map_filter_def)
    with w show ?thesis by (intro exI [of _ x]) (auto simp: describe_queue_def)
  qed
  with True w show ?thesis by (simp add: describe_queue_def purge_queue_def)
next
  case False
  then have w: "waiting_queue n (ad_broker a) = Some q" using assms by (simp add: waiting_queue_def)
  have "n \<in> set (list_queues (ad_broker a))"
    unfolding list_queues_def set_append Un_iff in_keys_iff
    using assms by (auto simp: get_queue_def split: option.splits)
  then have "any_snapshot q \<in> set (admin_list_queues a)"
    using w by (force simp: admin_list_queues_def List.map_filter_def)
  moreover have "case q of Fifo f \<Rightarrow> (\<exists>a'. purge_queue n a = (a', Inr (queue_depth f))
               \<and> get_queue n (ad_broker a') = Some (Fifo (f\<lparr>q_queue := []\<rparr>)))
           | Prio p \<Rightarrow> purge_queue n a = (a, Inl AttributeError)"
    using w by (simp add: purge_queue_def queue_purge_def queue_depth_def get_queue_def put_queue_def split: any_queue.split)
  ultimately show ?thesis using False w by (simp add: describe_queue_def)
qed

theorem queue_administration_defects_witness:
  "\<exists>a. get_queue ''q'' (ad_broker a) = Some (Fifo (queue_new ''q'' 0 30)) \<and> describe_queue ''q'' a = None"
proof -
  let ?a = "admin_new sample_ms ((s_broker sample_server)\<lparr>b_queues := [(''q'', queue_new ''q'' 0 30)]\<rparr>)"
  have g: "get_queue ''q'' (ad_broker ?a) = Some (Fifo (queue_new ''q'' 0 30))"
    by (simp add: admin_new_def get_queue_def)
  have "any_depth (Fifo (queue_new ''q'' 0 30)) = 0" by (simp add: any_depth_def queue_depth_def queue_new_def)
  with queue_administration_defects [OF g] g show ?thesis by blast
qed

end
