(* ===== verification/Text_Table.thy ===== *)
theory Text_Table
  imports Prelude
begin

section \<open>Tables of text\<close>

text \<open>
  \<open>format_table\<close> of \<^verbatim>\<open>cli.py\<close>. Strings are UTF-8 bytes, and \<open>len\<close> of a string counts its characters: the
  bytes that do not continue one.
\<close>

definition char_count :: "string \<Rightarrow> nat" where
  "char_count s = length (filter (\<lambda>c. (of_char c :: nat) div 64 \<noteq> 2) s)"

text \<open>\<open>f"{s:<{w}}"\<close> and \<open>sep.join(xs)\<close>\<close>

definition pad_right :: "nat \<Rightarrow> string \<Rightarrow> string" where
  "pad_right w s = s @ replicate (w - char_count s) (CHR '' '')"

fun join :: "string \<Rightarrow> string list \<Rightarrow> string" where
  "join sep [] = []"
| "join sep [x] = x"
| "join sep (x # y # xs) = x @ sep @ join sep (y # xs)"

text \<open>A row widens the columns it has cells for; cells beyond the last column do not count.\<close>

fun widen :: "nat list \<Rightarrow> string list \<Rightarrow> nat list" where
  "widen (w # ws) (c # cs) = max w (char_count c) # widen ws cs"
| "widen ws _ = ws"

definition column_widths :: "nat \<Rightarrow> string list \<Rightarrow> string list list \<Rightarrow> nat list" where
  "column_widths min_width hdrs rows =
     fold (\<lambda>row ws. widen ws row) rows (map (\<lambda>h. max min_width (char_count h)) hdrs)"

definition table_cell :: "nat \<Rightarrow> string \<Rightarrow> string" where
  "table_cell w c = '' '' @ pad_right w c @ '' ''"

text \<open>\<open>widths[i] if i < len(widths) else min_width\<close>\<close>

fun row_cells :: "nat \<Rightarrow> nat list \<Rightarrow> string list \<Rightarrow> string list" where
  "row_cells min_width ws [] = []"
| "row_cells min_width [] (c # cs) = table_cell min_width c # row_cells min_width [] cs"
| "row_cells min_width (w # ws) (c # cs) = table_cell w c # row_cells min_width ws cs"

definition framed :: "string \<Rightarrow> string list \<Rightarrow> string" where
  "framed edge cells = edge @ join edge cells @ edge"

definition table_lines :: "nat \<Rightarrow> string list \<Rightarrow> string list list \<Rightarrow> string list" where
  "table_lines min_width hdrs rows =
     (let ws = column_widths min_width hdrs rows;
          divider = framed ''+'' (map (\<lambda>w. replicate (w + 2) (CHR ''-'')) ws)
      in [divider, framed ''|'' (row_cells min_width ws hdrs), divider]
         @ map (\<lambda>row. framed ''|'' (row_cells min_width ws row)) rows @ [divider])"

definition format_table :: "string list \<Rightarrow> string list list \<Rightarrow> nat \<Rightarrow> string" where
  "format_table hdrs rows min_width = join [CHR 0x0A] (table_lines min_width hdrs rows)"

subsection \<open>A table is a rectangle\<close>

lemma char_count_append [simp]: "char_count (s @ t) = char_count s + char_count t"
  by (simp add: char_count_def)

lemma char_count_Nil [simp]: "char_count [] = 0"
  by (simp add: char_count_def)

lemma char_count_replicate:
  "char_count (replicate n (CHR '' '')) = n" "char_count (replicate n (CHR ''-'')) = n"
  by (simp_all add: char_count_def)

lemma char_count_edges [simp]: "char_count ''|'' = 1" "char_count ''+'' = 1" "char_count '' '' = 1"
  by (simp_all add: char_count_def)

lemma char_count_cell: "char_count c \<le> w \<Longrightarrow> char_count (table_cell w c) = w + 2"
  unfolding table_cell_def pad_right_def char_count_append char_count_replicate char_count_edges by simp

lemma char_count_join:
  "char_count sep = 1 \<Longrightarrow> xs \<noteq> [] \<Longrightarrow> Suc (char_count (join sep xs)) = sum_list (map (\<lambda>x. char_count x + 1) xs)"
  by (induction sep xs rule: join.induct) simp_all

text \<open>The width of a framed line depends on the widths of its cells only.\<close>

lemma char_count_framed:
  assumes "char_count edge = 1" and "map char_count cells = ws"
  shows "char_count (framed edge cells) = (if ws = [] then 2 else 1 + sum_list (map (\<lambda>w. w + 1) ws))"
proof (cases "cells = []")
  case True
  then show ?thesis using assms by (auto simp: framed_def)
next
  case False
  have "sum_list (map (\<lambda>x. char_count x + 1) cells) = sum_list (map (\<lambda>w. w + 1) ws)"
    by (simp add: assms(2) [symmetric] comp_def)
  then show ?thesis using char_count_join [OF assms(1) False] assms False by (auto simp: framed_def)
qed

lemma widen_length [simp]: "length (widen ws row) = length ws"
  by (induction ws row rule: widen.induct) simp_all

lemma widen_grows: "list_all2 (\<le>) ws (widen ws row)"
  by (induction ws row rule: widen.induct) (auto simp: list_all2_refl)

lemma widen_holds: "length row = length ws \<Longrightarrow> list_all2 (\<lambda>c w. char_count c \<le> w) row (widen ws row)"
  by (induction ws row rule: widen.induct) auto

lemma fits_wider:
  "list_all2 (\<lambda>c w. char_count c \<le> w) cs ws \<Longrightarrow> list_all2 (\<le>) ws ws' \<Longrightarrow> list_all2 (\<lambda>c w. char_count c \<le> w) cs ws'"
  unfolding list_all2_conv_all_nth by (metis order_trans)

lemma fold_widen:
  "\<forall>row \<in> set rows. length row = length ws \<Longrightarrow>
     list_all2 (\<le>) ws (fold (\<lambda>row ws. widen ws row) rows ws)
     \<and> (\<forall>row \<in> set rows. list_all2 (\<lambda>c w. char_count c \<le> w) row (fold (\<lambda>row ws. widen ws row) rows ws))"
proof (induction rows arbitrary: ws)
  case Nil
  then show ?case by (simp add: list_all2_refl)
next
  case (Cons row rows)
  let ?ws = "widen ws row"
  have IH: "list_all2 (\<le>) ?ws (fold (\<lambda>row ws. widen ws row) rows ?ws)"
    "\<forall>row \<in> set rows. list_all2 (\<lambda>c w. char_count c \<le> w) row (fold (\<lambda>row ws. widen ws row) rows ?ws)"
    using Cons.IH [of ?ws] Cons.prems by simp_all
  have "list_all2 (\<le>) ws (fold (\<lambda>row ws. widen ws row) rows ?ws)"
    by (rule list_all2_trans [OF _ widen_grows IH(1)]) simp
  moreover have "list_all2 (\<lambda>c w. char_count c \<le> w) row (fold (\<lambda>row ws. widen ws row) rows ?ws)"
    by (rule fits_wider [OF widen_holds IH(1)]) (use Cons.prems in simp)
  ultimately show ?case using IH(2) by simp
qed

lemma row_cells_fit:
  "list_all2 (\<lambda>c w. char_count c \<le> w) row ws \<Longrightarrow> map char_count (row_cells k ws row) = map (\<lambda>w. w + 2) ws"
  by (induction row ws rule: list_all2_induct) (simp_all add: char_count_cell)

text \<open>A table is a rectangle whatever its cells hold: when every row has a cell for each column, all
  lines have the same number of characters, no cell is wider than its column, and no column is
  narrower than the minimum.\<close>

theorem table_rectangular:
  assumes "\<forall>row \<in> set rows. length row = length hdrs"
  shows "(\<exists>n. \<forall>l \<in> set (table_lines min_width hdrs rows). char_count l = n)
    \<and> (\<forall>row \<in> set (hdrs # rows). list_all2 (\<lambda>c w. char_count c \<le> w) row (column_widths min_width hdrs rows))
    \<and> (\<forall>w \<in> set (column_widths min_width hdrs rows). min_width \<le> w)
    \<and> length (table_lines min_width hdrs rows) = length rows + 4"
proof -
  let ?w0 = "map (\<lambda>h. max min_width (char_count h)) hdrs"
  let ?ws = "column_widths min_width hdrs rows"
  have F: "list_all2 (\<le>) ?w0 ?ws" "\<forall>row \<in> set rows. list_all2 (\<lambda>c w. char_count c \<le> w) row ?ws"
    using fold_widen [of rows ?w0] assms by (simp_all add: column_widths_def)
  have "list_all2 (\<lambda>c w. char_count c \<le> w) hdrs ?w0" by (simp add: list_all2_map2 list_all2_refl)
  then have rows: "\<forall>row \<in> set (hdrs # rows). list_all2 (\<lambda>c w. char_count c \<le> w) row ?ws"
    using fits_wider [OF _ F(1)] F(2) by simp
  have "\<forall>w \<in> set ?ws. min_width \<le> w"
    using F(1) by (fastforce simp: list_all2_conv_all_nth in_set_conv_nth)
  moreover define n where "n = (if ?ws = [] then 2 else 1 + sum_list (map (\<lambda>w. w + 1) (map (\<lambda>w. w + 2) ?ws)))"
  have "char_count (framed ''|'' (row_cells min_width ?ws row)) = n" if "row \<in> set (hdrs # rows)" for row
    unfolding n_def using char_count_framed [OF char_count_edges(1) row_cells_fit [OF bspec [OF rows that]]]
    by (simp only: map_is_Nil_conv)
  moreover have "char_count (framed ''+'' (map (\<lambda>w. replicate (w + 2) (CHR ''-'')) ?ws)) = n"
    by (subst char_count_framed [OF _ refl]) (simp_all add: n_def comp_def char_count_replicate del: replicate_Suc)
  ultimately show ?thesis
    using rows by (auto simp: table_lines_def Let_def intro!: exI [of _ n])
qed

theorem table_rectangular_witness:
  "(\<exists>n. \<forall>l \<in> set (table_lines 10 [''Name'', ''Depth''] [[''orders'', ''3'']]). char_count l = n)
    \<and> length (table_lines 10 [''Name'', ''Depth''] [[''orders'', ''3'']]) = 5"
  using table_rectangular [of "[[''orders'', ''3'']]" "[''Name'', ''Depth'']" 10] by simp

end
