(* ===== verification/Cli.thy ===== *)
theory Cli
  imports Admin Text_Table
begin

section \<open>The command line\<close>








subsection \<open>The commands\<close>





















subsection \<open>What commands do to the broker\<close>
















subsection \<open>Which operations a command asks for\<close>




















end
