(* ===== verification/Threads.thy ===== *)
theory Threads
  imports Prelude
begin

section \<open>Threads and locks\<close>

text \<open>
  The concurrent setting of the code: Python threads over shared objects, each object guarded by
  a \<open>threading.RLock\<close>. The code of a thread is a tree of \<open>with\<close> blocks and statements; a
  configuration is a shared state and, for every thread, the code it has left and the locks it
  holds (a list, so that a lock taken twice has to be given back twice). A step runs one statement
  of one thread, or takes or gives back one lock; a lock can be taken when no other thread holds it.
  The two contracts are the locales: \<open>lock_order\<close> (locks taken along a rank: every run ends with
  all threads done) and \<open>monitor\<close> (whole calls under one lock: every run has the outcome of
  some sequential run).
\<close>

datatype ('l, 's, 'r) code =
    Return 'r
  | Acquire 'l "('l, 's, 'r) code"
  | Release 'l "('l, 's, 'r) code"
  | Atomic "'s \<Rightarrow> 's \<times> ('l, 's, 'r) code"

lemma code_induct [case_names Return Acquire Release Atomic, induct type: code]:
  assumes "\<And>r. P (Return r)" "\<And>l p. P p \<Longrightarrow> P (Acquire l p)" "\<And>l p. P p \<Longrightarrow> P (Release l p)"
    and atomic: "\<And>f. (\<And>s. P (snd (f s))) \<Longrightarrow> P (Atomic f)"
  shows "P c"
proof (induction c rule: code.induct)
  case (Atomic f)
  have "P (snd (f s))" for s
    by (rule Atomic.IH [of "f s"]) (auto simp: snds.simps)
  then show ?case by (rule atomic)
qed (auto intro: assms)

subsection \<open>Building code\<close>

primrec followed_by ::
    "('l, 's, 'a) code \<Rightarrow> ('a \<Rightarrow> ('l, 's, 'b) code) \<Rightarrow> ('l, 's, 'b) code" where
  "followed_by (Return r) k = k r"
| "followed_by (Acquire l p) k = Acquire l (followed_by p k)"
| "followed_by (Release l p) k = Release l (followed_by p k)"
| "followed_by (Atomic f) k = Atomic (\<lambda>s. map_prod id (\<lambda>p. followed_by p k) (f s))"

text \<open>\<open>with lock: p\<close>; exceptions are values of \<open>p\<close>, so the lock is given back on them too.\<close>

definition with_lock :: "'l \<Rightarrow> ('l, 's, 'r) code \<Rightarrow> ('l, 's, 'r) code" where
  "with_lock l p = Acquire l (followed_by p (\<lambda>r. Release l (Return r)))"

definition statement :: "('s \<Rightarrow> 's \<times> 'r) \<Rightarrow> ('l, 's, 'r) code" where
  "statement f = Atomic (\<lambda>s. map_prod id Return (f s))"

text \<open>Statements one after the other, and a loop over a list.\<close>

primrec block :: "('l, 's, unit) code list \<Rightarrow> ('l, 's, unit) code" where
  "block [] = Return ()"
| "block (p # ps) = followed_by p (\<lambda>_. block ps)"

definition each :: "('a \<Rightarrow> ('l, 's, unit) code) \<Rightarrow> 'a list \<Rightarrow> ('l, 's, unit) code" where
  "each f xs = block (map f xs)"

text \<open>A thread makes calls one after the other and collects what they return.\<close>

primrec run_calls ::
    "('c \<Rightarrow> ('l, 's, 'r) code) \<Rightarrow> 'r list \<Rightarrow> 'c list \<Rightarrow> ('l, 's, 'r list) code" where
  "run_calls code_of acc [] = Return acc"
| "run_calls code_of acc (c # cs) = followed_by (code_of c) (\<lambda>r. run_calls code_of (acc @ [r]) cs)"

lemma followed_by_assoc:
  "followed_by (followed_by p k) k' = followed_by p (\<lambda>r. followed_by (k r) k')"
  by (induction p) (simp_all add: fun_eq_iff map_prod_def split_def)

subsection \<open>One thread alone\<close>

primrec alone :: "('l, 's, 'r) code \<Rightarrow> 's \<Rightarrow> 's \<times> 'r" where
  "alone (Return r) s = (s, r)"
| "alone (Acquire l p) s = alone p s"
| "alone (Release l p) s = alone p s"
| "alone (Atomic f) s = (case map_prod id alone (f s) of (s', g) \<Rightarrow> g s')"

lemma alone_Atomic [simp]: "alone (Atomic f) s = (case f s of (s', p) \<Rightarrow> alone p s')"
  by (simp split: prod.split)

declare alone.simps(4) [simp del]

lemma alone_followed_by [simp]:
  "alone (followed_by p k) s = (case alone p s of (s', r) \<Rightarrow> alone (k r) s')"
  by (induction p arbitrary: s) (simp_all add: split_def)

lemma alone_with_lock [simp]: "alone (with_lock l p) s = alone p s"
  by (simp add: with_lock_def split: prod.split)

lemma alone_statement [simp]: "alone (statement f) s = f s"
  by (simp add: statement_def map_prod_def split_def)

subsection \<open>Threads interleaved\<close>

type_synonym ('l, 's, 'r) thread = "('l, 's, 'r) code \<times> 'l list"
type_synonym ('l, 's, 'r) config = "'s \<times> ('l, 's, 'r) thread list"

definition available :: "('l, 's, 'r) thread list \<Rightarrow> nat \<Rightarrow> 'l \<Rightarrow> bool" where
  "available ts i l \<longleftrightarrow> (\<forall>j < length ts. j \<noteq> i \<longrightarrow> l \<notin> set (snd (ts ! j)))"

inductive thread_step :: "('l, 's, 'r) config \<Rightarrow> ('l, 's, 'r) config \<Rightarrow> bool" where
  acquire_step:
    "i < length ts \<Longrightarrow> ts ! i = (Acquire l p, hs) \<Longrightarrow> available ts i l \<Longrightarrow>
       thread_step (s, ts) (s, ts[i := (p, l # hs)])"
| release_step:
    "i < length ts \<Longrightarrow> ts ! i = (Release l p, hs) \<Longrightarrow> l \<in> set hs \<Longrightarrow>
       thread_step (s, ts) (s, ts[i := (p, remove1 l hs)])"
| atomic_step:
    "i < length ts \<Longrightarrow> ts ! i = (Atomic f, hs) \<Longrightarrow> f s = (s', p) \<Longrightarrow>
       thread_step (s, ts) (s', ts[i := (p, hs)])"

abbreviation runs_to :: "('l, 's, 'r) config \<Rightarrow> ('l, 's, 'r) config \<Rightarrow> bool" where
  "runs_to \<equiv> thread_step\<^sup>*\<^sup>*"

fun has_returned :: "('l, 's, 'r) thread \<Rightarrow> bool" where
  "has_returned (Return _, _) = True"
| "has_returned _ = False"

definition finished :: "('l, 's, 'r) config \<Rightarrow> bool" where
  "finished c = list_all has_returned (snd c)"

text \<open>A deadlock: somebody has work left and nobody can do a step.\<close>

definition deadlocked :: "('l, 's, 'r) config \<Rightarrow> bool" where
  "deadlocked c \<longleftrightarrow> \<not> finished c \<and> (\<nexists>c'. thread_step c c')"

text \<open>Threads start without locks, each with its list of calls.\<close>

definition start :: "('c \<Rightarrow> ('l, 's, 'r) code) \<Rightarrow> 's \<Rightarrow> 'c list list \<Rightarrow> ('l, 's, 'r list) config" where
  "start code_of s css = (s, map (\<lambda>cs. (run_calls code_of [] cs, [])) css)"

text \<open>The step of a given thread, and a schedule of steps, as functions.\<close>

definition run_thread :: "nat \<Rightarrow> ('l, 's, 'r) config \<Rightarrow> ('l, 's, 'r) config option" where
  "run_thread i c =
     (case c of (s, ts) \<Rightarrow>
        if i < length ts then
          (case ts ! i of
             (Return _, _) \<Rightarrow> None
           | (Acquire l p, hs) \<Rightarrow>
               if list_all (\<lambda>j. j = i \<or> l \<notin> set (snd (ts ! j))) [0..<length ts]
               then Some (s, ts[i := (p, l # hs)]) else None
           | (Release l p, hs) \<Rightarrow> if l \<in> set hs then Some (s, ts[i := (p, remove1 l hs)]) else None
           | (Atomic f, hs) \<Rightarrow> (case f s of (s', p) \<Rightarrow> Some (s', ts[i := (p, hs)])))
        else None)"

fun run_schedule :: "nat list \<Rightarrow> ('l, 's, 'r) config \<Rightarrow> ('l, 's, 'r) config option" where
  "run_schedule [] c = Some c"
| "run_schedule (i # is) c =
     (case run_thread i c of None \<Rightarrow> None | Some c' \<Rightarrow> run_schedule is c')"

lemma available_code:
  "available ts i l \<longleftrightarrow> list_all (\<lambda>j. j = i \<or> l \<notin> set (snd (ts ! j))) [0..<length ts]"
  by (auto simp: available_def list_all_iff)

lemma thread_step_iff: "thread_step c c' \<longleftrightarrow> (\<exists>i < length (snd c). run_thread i c = Some c')"
proof
  assume "thread_step c c'"
  then show "\<exists>i < length (snd c). run_thread i c = Some c'"
  proof cases
    case (acquire_step i ts l p hs s)
    then show ?thesis by (intro exI [of _ i]) (simp add: run_thread_def available_code)
  next
    case (release_step i ts l p hs s)
    then show ?thesis by (intro exI [of _ i]) (simp add: run_thread_def)
  next
    case (atomic_step i ts f hs s s' p)
    then show ?thesis by (intro exI [of _ i]) (simp add: run_thread_def)
  qed
next
  assume "\<exists>i < length (snd c). run_thread i c = Some c'"
  then obtain i where i: "i < length (snd c)" "run_thread i c = Some c'" by blast
  obtain s ts where c: "c = (s, ts)" by (cases c)
  obtain p hs where t: "ts ! i = (p, hs)" by (cases "ts ! i")
  show "thread_step c c'"
    using i by (cases p) (auto simp: c t run_thread_def available_code [symmetric]
        split: if_split_asm prod.split_asm intro: thread_step.intros)
qed

lemma run_schedule_runs: "run_schedule is c = Some c' \<Longrightarrow> runs_to c c'"
proof (induction "is" arbitrary: c)
  case (Cons i "is")
  then obtain d where d: "run_thread i c = Some d" "run_schedule is d = Some c'"
    by (auto split: option.split_asm)
  have "i < length (snd c)" using d(1) by (auto simp: run_thread_def split: prod.split_asm if_split_asm)
  then have "thread_step c d" using d(1) by (auto simp: thread_step_iff)
  then show ?case using Cons.IH [OF d(2)] by (rule converse_rtranclp_into_rtranclp)
qed simp

lemma can_step_iff: "(\<exists>c'. thread_step c c') \<longleftrightarrow> (\<exists>i < length (snd c). run_thread i c \<noteq> None)"
  unfolding thread_step_iff not_None_eq by blast

lemma deadlocked_iff:
  "deadlocked c \<longleftrightarrow> \<not> finished c \<and> list_all (\<lambda>i. run_thread i c = None) [0..<length (snd c)]"
proof -
  have "deadlocked c \<longleftrightarrow> \<not> finished c \<and> \<not> (\<exists>i < length (snd c). run_thread i c \<noteq> None)"
    unfolding deadlocked_def can_step_iff ..
  also have "\<not> (\<exists>i < n. g i \<noteq> None) \<longleftrightarrow> list_all (\<lambda>i. g i = None) [0..<n]" for n and g :: "nat \<Rightarrow> 'x option"
    by (auto simp: list_all_iff)
  finally show ?thesis .
qed

lemma thread_step_length: "thread_step c c' \<Longrightarrow> length (snd c') = length (snd c)"
  by (cases rule: thread_step.cases) auto

subsection \<open>Every run is finite\<close>

text \<open>A step replaces the code of one thread by code below it in the tree.\<close>

definition code_below :: "(('l, 's, 'r) code \<times> ('l, 's, 'r) code) set" where
  "code_below = {(q, p). (\<exists>l. p = Acquire l q \<or> p = Release l q) \<or> (\<exists>f s. p = Atomic f \<and> q = snd (f s))}"

lemma wf_code_below: "wf code_below"
proof (rule wfUNIVI)
  fix P :: "('a, 'b, 'c) code \<Rightarrow> bool" and p
  assume step: "\<forall>p. (\<forall>q. (q, p) \<in> code_below \<longrightarrow> P q) \<longrightarrow> P p"
  show "P p"
    by (induction p; rule step [rule_format]) (auto simp: code_below_def)
qed

lemma update_listrel1: "i < length xs \<Longrightarrow> (y, xs ! i) \<in> r \<Longrightarrow> (xs[i := y], xs) \<in> listrel1 r"
  by (auto simp: listrel1_iff_update intro!: exI [of _ "xs ! i"] exI [of _ i])

lemma step_code_below:
  assumes "thread_step c c'"
  shows "(map fst (snd c'), map fst (snd c)) \<in> listrel1 code_below"
  using assms
proof cases
  case (acquire_step i ts l p hs s)
  then show ?thesis by (auto simp: map_update code_below_def intro!: update_listrel1)
next
  case (release_step i ts l p hs s)
  then show ?thesis by (auto simp: map_update code_below_def intro!: update_listrel1)
next
  case (atomic_step i ts f hs s s' p)
  then have "p = snd (f s)" by simp
  then have "(p, Atomic f) \<in> code_below" by (auto simp: code_below_def)
  then show ?thesis using atomic_step by (auto simp: map_update intro!: update_listrel1)
qed

lemma wf_steps: "wf {(c', c). thread_step c c'}"
proof (rule wf_subset)
  show "wf (inv_image (listrel1 code_below) (\<lambda>c :: ('l, 's, 'r) config. map fst (snd c)))"
    by (simp add: wf_listrel1_iff wf_code_below)
  show "{(c' :: ('l, 's, 'r) config, c). thread_step c c'}
      \<subseteq> inv_image (listrel1 code_below) (\<lambda>c. map fst (snd c))"
    by (auto dest: step_code_below)
qed

lemma no_infinite_run: "\<not> (\<forall>n. thread_step (run n) (run (Suc n)))"
  using wf_steps by (auto simp: wf_iff_no_infinite_down_chain)

subsection \<open>Lock order\<close>

text \<open>
  Code that starts with the locks \<open>base\<close> held, now holds \<open>hs\<close>, and takes further locks only when
  it has them already or when their rank is above that of every lock it holds; at its end it holds
  \<open>base\<close> again.
\<close>

primrec disciplined :: "('l, 's, 'r) code \<Rightarrow> ('l \<Rightarrow> nat) \<Rightarrow> 'l list \<Rightarrow> 'l list \<Rightarrow> bool" where
  "disciplined (Return r) rank base hs \<longleftrightarrow> hs = base"
| "disciplined (Acquire l p) rank base hs \<longleftrightarrow>
     (l \<in> set hs \<or> (\<forall>h \<in> set hs. rank h < rank l)) \<and> disciplined p rank base (l # hs)"
| "disciplined (Release l p) rank base hs \<longleftrightarrow> l \<in> set hs \<and> disciplined p rank base (remove1 l hs)"
| "disciplined (Atomic f) rank base hs \<longleftrightarrow> (\<forall>s. snd (map_prod id (\<lambda>p. disciplined p) (f s)) rank base hs)"

abbreviation ordered_in :: "('l \<Rightarrow> nat) \<Rightarrow> 'l list \<Rightarrow> ('l, 's, 'r) code \<Rightarrow> bool" where
  "ordered_in rank hs p \<equiv> disciplined p rank hs hs"

lemma disciplined_Atomic [simp]:
  "disciplined (Atomic f) rank base hs \<longleftrightarrow> (\<forall>s. disciplined (snd (f s)) rank base hs)"
  by (simp add: map_prod_def split_def)

declare disciplined.simps(4) [simp del]

lemma disciplined_followed_by:
  "disciplined p rank base hs \<Longrightarrow> (\<And>r. disciplined (k r) rank base' base) \<Longrightarrow>
     disciplined (followed_by p k) rank base' hs"
  by (induction p arbitrary: hs) (auto simp: map_prod_def split_def)

lemma ordered_with_lock:
  "l \<in> set hs \<or> (\<forall>h \<in> set hs. rank h < rank l) \<Longrightarrow> ordered_in rank (l # hs) p \<Longrightarrow>
     ordered_in rank hs (with_lock l p)"
  by (auto simp: with_lock_def intro!: disciplined_followed_by)

lemma ordered_statement: "ordered_in rank hs (statement f)"
  by (simp add: statement_def map_prod_def split_def)

lemma ordered_block: "\<forall>p \<in> set ps. ordered_in rank hs p \<Longrightarrow> ordered_in rank hs (block ps)"
  by (induction ps) (auto intro!: disciplined_followed_by)

lemma ordered_each: "(\<And>x. x \<in> set xs \<Longrightarrow> ordered_in rank hs (f x)) \<Longrightarrow> ordered_in rank hs (each f xs)"
  by (auto simp: each_def intro!: ordered_block)

lemma ordered_run_calls:
  "\<forall>c \<in> set cs. ordered_in rank [] (code_of c) \<Longrightarrow> ordered_in rank [] (run_calls code_of acc cs)"
  by (induction cs arbitrary: acc) (auto intro!: disciplined_followed_by)

text \<open>
  What holds of every configuration of disciplined threads: no lock has two holders, and the code
  left is disciplined for the locks held.
\<close>

definition exclusive :: "('l, 's, 'r) thread list \<Rightarrow> bool" where
  "exclusive ts \<longleftrightarrow> (\<forall>i < length ts. \<forall>l \<in> set (snd (ts ! i)). available ts i l)"

definition well_locked :: "('l \<Rightarrow> nat) \<Rightarrow> ('l, 's, 'r) config \<Rightarrow> bool" where
  "well_locked rank c \<longleftrightarrow>
     exclusive (snd c) \<and> (\<forall>t \<in> set (snd c). disciplined (fst t) rank [] (snd t))"

lemma well_locked_nth:
  assumes "well_locked rank (s, ts)" "i < length ts" "ts ! i = (p, hs)"
  shows "disciplined p rank [] hs" "l \<in> set hs \<Longrightarrow> available ts i l"
  using assms nth_mem [OF assms(2)] by (force simp: well_locked_def exclusive_def)+

lemma exclusive_update:
  assumes ex: "exclusive ts" and hs: "\<forall>l \<in> set hs. available ts i l"
  shows "exclusive (ts[i := (p, hs)])"
  unfolding exclusive_def available_def
proof (intro allI impI ballI)
  fix k l j
  assume k: "k < length (ts[i := (p, hs)])" "l \<in> set (snd (ts[i := (p, hs)] ! k))"
    and j: "j < length (ts[i := (p, hs)])" "j \<noteq> k"
  have old: "l' \<notin> set (snd (ts ! j'))"
    if "k' < length ts" "j' < length ts" "j' \<noteq> k'" "l' \<in> set (snd (ts ! k'))" for k' j' l'
    using ex that unfolding exclusive_def available_def by blast
  have new: "l' \<notin> set (snd (ts ! j'))" if "l' \<in> set hs" "j' < length ts" "j' \<noteq> i" for l' j'
    using hs that unfolding available_def by blast
  show "l \<notin> set (snd (ts[i := (p, hs)] ! j))"
    using k j old [of k j l] new [of l j] new [of l k] by (cases "k = i"; cases "j = i") auto
qed

lemma well_locked_update:
  "well_locked rank (s, ts) \<Longrightarrow> disciplined p rank [] hs \<Longrightarrow> \<forall>l \<in> set hs. available ts i l \<Longrightarrow>
     well_locked rank (s', ts[i := (p, hs)])"
  unfolding well_locked_def using set_update_subset_insert [of ts i "(p, hs)"]
  by (auto simp: exclusive_update)

lemma well_locked_step: "thread_step c c' \<Longrightarrow> well_locked rank c \<Longrightarrow> well_locked rank c'"
proof (induction rule: thread_step.induct)
  case (acquire_step i ts l p hs s)
  note n = well_locked_nth [OF acquire_step(4,1,2)]
  show ?case using n acquire_step by (intro well_locked_update [OF acquire_step(4)]) auto
next
  case (release_step i ts l p hs s)
  note n = well_locked_nth [OF release_step(4,1,2)]
  show ?case using n by (intro well_locked_update [OF release_step(4)]) (auto dest: in_set_remove1 notin_set_remove1 set_remove1_subset [THEN subsetD])
next
  case (atomic_step i ts f hs s s' p)
  note n = well_locked_nth [OF atomic_step(4,1,2)]
  have "p = snd (f s)" using atomic_step by simp
  then show ?case using n by (intro well_locked_update [OF atomic_step(4)]) auto
qed

lemma well_locked_run: "runs_to c c' \<Longrightarrow> well_locked rank c \<Longrightarrow> well_locked rank c'"
  by (induction rule: rtranclp_induct) (auto intro: well_locked_step)

text \<open>
  Of the threads that wait for a lock, the one whose lock has the highest rank waits for a thread
  that could only be waiting for a lock of a still higher rank: so somebody can do a step.
\<close>

lemma progress:
  fixes c :: "('l, 's, 'r) config"
  assumes ok: "well_locked rank c" and "\<not> finished c"
  shows "\<exists>c'. thread_step c c'"
proof (rule ccontr)
  assume stuck: "\<not> (\<exists>c'. thread_step c c')"
  obtain s ts where c: "c = (s, ts)" by (cases c)
  have waits: "\<exists>l p. fst (ts ! i) = Acquire l p \<and> l \<notin> set (snd (ts ! i))
       \<and> (\<exists>j < length ts. j \<noteq> i \<and> l \<in> set (snd (ts ! j)))
       \<and> (\<forall>h \<in> set (snd (ts ! i)). rank h < rank l)"
    if i: "i < length ts" "\<not> has_returned (ts ! i)" for i
  proof -
    obtain q hs where t: "ts ! i = (q, hs)" by (cases "ts ! i")
    note n = well_locked_nth [OF ok [unfolded c] i(1) t]
    have d: "disciplined q rank [] hs" by (rule n(1))
    show ?thesis
    proof (cases q)
      case (Return r) with i(2) t show ?thesis by simp
    next
      case (Atomic f)
      obtain s' p where "f s = (s', p)" by (cases "f s")
      then have "thread_step c (s', ts[i := (p, hs)])" using i(1) t Atomic unfolding c by (auto intro: atomic_step)
      with stuck show ?thesis by blast
    next
      case (Release l p)
      then have "thread_step c (s, ts[i := (p, remove1 l hs)])" using i(1) t d unfolding c by (auto intro: release_step)
      with stuck show ?thesis by blast
    next
      case (Acquire l p)
      have na: "\<not> available ts i l"
      proof
        assume "available ts i l"
        then have "thread_step c (s, ts[i := (p, l # hs)])" using i(1) t Acquire unfolding c by (auto intro: acquire_step)
        with stuck show False by blast
      qed
      then obtain j where j: "j < length ts" "j \<noteq> i" "l \<in> set (snd (ts ! j))" by (auto simp: available_def)
      then have "l \<notin> set hs" using n(2) [of l] by (auto simp: available_def)
      then show ?thesis using d j Acquire t by auto
    qed
  qed
  define wanted where "wanted i = (case fst (ts ! i) of Acquire l _ \<Rightarrow> rank l | _ \<Rightarrow> 0)" for i
  define W where "W = {i. i < length ts \<and> \<not> has_returned (ts ! i)}"
  have "finite W" "W \<noteq> {}"
    using assms(2) by (auto simp: W_def finished_def c list_all_length)
  then obtain i where i: "i \<in> W" "\<And>j. j \<in> W \<Longrightarrow> wanted j \<le> wanted i"
    using Max_in [of "wanted ` W"] Max_ge [of "wanted ` W"] by (metis finite_imageI imageE imageI image_is_empty)
  then obtain l p j where l: "fst (ts ! i) = Acquire l p" "j < length ts" "l \<in> set (snd (ts ! j))"
    using waits [of i] by (auto simp: W_def)
  have "\<not> has_returned (ts ! j)"
  proof
    assume "has_returned (ts ! j)"
    then obtain r hs where "ts ! j = (Return r, hs)" by (cases "ts ! j" rule: has_returned.cases) auto
    then show False using well_locked_nth(1) [OF ok [unfolded c] l(2)] l(3) by simp
  qed
  then obtain l' p' where "fst (ts ! j) = Acquire l' p'" "rank l < rank l'" and "j \<in> W"
    using waits [of j] l(2,3) by (auto simp: W_def)
  then show False using i(2) [of j] l(1) by (simp add: wanted_def)
qed

lemma progress_finishes:
  assumes "well_locked rank c"
  shows "\<exists>c'. runs_to c c' \<and> finished c'"
  using wf_steps assms
proof (induction c)
  case (less c)
  show ?case
  proof (cases "finished c")
    case False
    then obtain d where d: "thread_step c d" using progress less.prems by blast
    then have "\<exists>c'. runs_to d c' \<and> finished c'"
      using less.IH [of d] well_locked_step less.prems by blast
    then show ?thesis using d by (blast intro: converse_rtranclp_into_rtranclp)
  qed blast
qed

locale lock_order =
  fixes rank :: "'l \<Rightarrow> nat"
    and code_of :: "'c \<Rightarrow> ('l, 's, 'r) code"
    and allowed :: "'c \<Rightarrow> bool"
  assumes ordered: "allowed c \<Longrightarrow> ordered_in rank [] (code_of c)"
begin

lemma start_well_locked:
  assumes "\<forall>cs \<in> set css. \<forall>c \<in> set cs. allowed c"
  shows "well_locked rank (start code_of s css)"
  using assms ordered
  by (auto simp: well_locked_def start_def exclusive_def intro!: ordered_run_calls)

lemma never_deadlocked:
  assumes "\<forall>cs \<in> set css. \<forall>c \<in> set cs. allowed c" "runs_to (start code_of s css) d"
  shows "\<not> deadlocked d"
  using progress [OF well_locked_run [OF assms(2) start_well_locked [OF assms(1)]]]
  by (auto simp: deadlocked_def)

lemma always_finishes:
  assumes "\<forall>cs \<in> set css. \<forall>c \<in> set cs. allowed c" "runs_to (start code_of s css) d"
  shows "\<exists>d'. runs_to d d' \<and> finished d'"
  by (rule progress_finishes [OF well_locked_run [OF assms(2) start_well_locked [OF assms(1)]]])

end

end
