(* ===== verification/Monitor.thy ===== *)
theory Monitor
  imports Threads
begin

section \<open>Calls under one lock\<close>

text \<open>
  The contract behind ``thread-safe via a lock'': when every call of an object does its whole work
  inside \<open>with self._lock\<close>, threads calling it at the same time see what they would have seen had
  the calls been made one after the other, in the order in which they took the lock. The work may
  take further locks inside, and the same lock again.
\<close>

text \<open>A sequential run: calls tagged with the thread that makes them, and what each returns.\<close>

primrec serial ::
    "('c \<Rightarrow> 's \<Rightarrow> 's \<times> 'r) \<Rightarrow> (nat \<times> 'c) list \<Rightarrow> 's \<Rightarrow> 's \<times> (nat \<times> 'r) list" where
  "serial effect [] s = (s, [])"
| "serial effect (x # h) s =
     (let (s1, r) = effect (snd x) s; (s2, rs) = serial effect h s1 in (s2, (fst x, r) # rs))"

definition of_thread :: "nat \<Rightarrow> (nat \<times> 'a) list \<Rightarrow> 'a list" where
  "of_thread i h = map snd (filter (\<lambda>x. fst x = i) h)"

text \<open>\<open>h\<close> is an order of all the calls that keeps the order within each thread.\<close>

definition order_of :: "'c list list \<Rightarrow> (nat \<times> 'c) list \<Rightarrow> bool" where
  "order_of css h \<longleftrightarrow> (\<forall>x \<in> set h. fst x < length css) \<and> (\<forall>i < length css. of_thread i h = css ! i)"

lemma of_thread_simps [simp]:
  "of_thread i [] = []"
  "of_thread i (x # h) = (if fst x = i then snd x # of_thread i h else of_thread i h)"
  "of_thread i (h @ h') = of_thread i h @ of_thread i h'"
  by (simp_all add: of_thread_def)

lemma serial_append:
  "serial effect (h @ h') s =
     (case serial effect h s of (s1, rs) \<Rightarrow> case serial effect h' s1 of (s2, rs') \<Rightarrow> (s2, rs @ rs'))"
  by (induction h arbitrary: s) (simp_all add: split_def Let_def)

lemma serial_snoc:
  "effect c (fst (serial effect h s)) = (s', r) \<Longrightarrow>
     serial effect (h @ [(i, c)]) s = (s', snd (serial effect h s) @ [(i, r)])"
  by (simp add: serial_append split_def)

text \<open>A finished configuration with the outcome of a sequential run.\<close>

definition serial_outcome ::
    "('c \<Rightarrow> 's \<Rightarrow> 's \<times> 'r) \<Rightarrow> 'c list list \<Rightarrow> (nat \<times> 'c) list \<Rightarrow> 's \<Rightarrow> ('l, 's, 'r list) config \<Rightarrow> bool" where
  "serial_outcome effect css h s c \<longleftrightarrow>
     order_of css h \<and> fst c = fst (serial effect h s)
     \<and> map fst (snd c) = map (\<lambda>i. Return (of_thread i (snd (serial effect h s)))) [0..<length css]"

definition locked_call :: "'l \<Rightarrow> ('c \<Rightarrow> ('l, 's, 'r) code) \<Rightarrow> 'c \<Rightarrow> ('l, 's, 'r) code" where
  "locked_call lock body c = with_lock lock (body c)"

locale monitor =
  fixes rank :: "'l \<Rightarrow> nat"
    and lock :: 'l
    and body :: "'c \<Rightarrow> ('l, 's, 'r) code"
    and effect :: "'c \<Rightarrow> 's \<Rightarrow> 's \<times> 'r"
  assumes body_ordered: "ordered_in rank [lock] (body c)"
    and body_balanced: "ordered_in rank [] (body c)"
    and body_effect: "alone (body c) s = effect c s"

sublocale monitor \<subseteq> lock_order rank "locked_call lock body" "\<lambda>_. True"
  by unfold_locales (auto simp: locked_call_def intro!: ordered_with_lock body_ordered)

context monitor begin

abbreviation call :: "'c \<Rightarrow> ('l, 's, 'r) code" where
  "call \<equiv> locked_call lock body"

definition leave :: "'r list \<Rightarrow> 'c list \<Rightarrow> 'r \<Rightarrow> ('l, 's, 'r list) code" where
  "leave acc cs r = Release lock (run_calls call (acc @ [r]) cs)"

lemma run_calls_Cons:
  "run_calls call acc (c # cs) = Acquire lock (followed_by (body c) (leave acc cs))"
  by (simp add: locked_call_def with_lock_def followed_by_assoc leave_def [abs_def])

text \<open>A thread between two calls, and the thread inside one.\<close>

definition idle :: "'c list list \<Rightarrow> (nat \<times> 'c) list \<Rightarrow> (nat \<times> 'r) list \<Rightarrow> nat \<Rightarrow> ('l, 's, 'r list) thread \<Rightarrow> bool" where
  "idle css h rs i t \<longleftrightarrow>
     (\<exists>rest. css ! i = of_thread i h @ rest \<and> t = (run_calls call (of_thread i rs) rest, []))"

definition inside ::
    "'c list list \<Rightarrow> (nat \<times> 'c) list \<Rightarrow> (nat \<times> 'r) list \<Rightarrow> 's \<Rightarrow> 's \<Rightarrow> nat \<Rightarrow> ('l, 's, 'r list) thread \<Rightarrow> bool" where
  "inside css h rs s0 s i t \<longleftrightarrow>
     (\<exists>c rest q hs. css ! i = of_thread i h @ c # rest
        \<and> t = (followed_by q (leave (of_thread i rs) rest), hs @ [lock])
        \<and> disciplined q rank [] hs \<and> alone q s = effect c s0)"

definition explained :: "'c list list \<Rightarrow> 's \<Rightarrow> nat option \<Rightarrow> (nat \<times> 'c) list \<Rightarrow> ('l, 's, 'r list) config \<Rightarrow> bool" where
  "explained css s0 holder h c \<longleftrightarrow>
     length (snd c) = length css \<and> (\<forall>x \<in> set h. fst x < length css)
     \<and> (\<forall>i < length css. Some i \<noteq> holder \<longrightarrow> idle css h (snd (serial effect h s0)) i (snd c ! i))
     \<and> (case holder of
          None \<Rightarrow> fst c = fst (serial effect h s0)
        | Some i \<Rightarrow> i < length css
            \<and> inside css h (snd (serial effect h s0)) (fst (serial effect h s0)) (fst c) i (snd c ! i))"

lemma explained_start: "explained css s0 None [] (start call s0 css)"
  by (auto simp: explained_def start_def idle_def)

text \<open>An idle thread can only take the lock; while somebody is inside, it cannot do that either.\<close>

lemma idle_cases:
  assumes "idle css h rs i t"
  obtains (over) acc where "t = (Return acc, [])"
  | (next_call) c rest where "css ! i = of_thread i h @ c # rest"
      "t = (Acquire lock (followed_by (body c) (leave (of_thread i rs) rest)), [])"
proof -
  obtain rest where r: "css ! i = of_thread i h @ rest" "t = (run_calls call (of_thread i rs) rest, [])"
    using assms by (auto simp: idle_def)
  show ?thesis
  proof (cases rest)
    case Nil
    then show ?thesis using r over by simp
  next
    case (Cons c rest')
    then show ?thesis using r next_call [of c rest'] by (simp only: run_calls_Cons)
  qed
qed

lemma idle_other:
  "idle css h rs j t \<Longrightarrow> j \<noteq> i \<Longrightarrow> idle css (h @ [(i, c)]) (rs @ [(i, r)]) j t"
  by (simp add: idle_def)

lemma explained_enter:
  assumes e: "explained css s0 None h (s, ts)" and i: "i < length ts"
    and c: "css ! i = of_thread i h @ c # rest"
  shows "explained css s0 (Some i) h
           (s, ts[i := (followed_by (body c) (leave (of_thread i (snd (serial effect h s0))) rest), [lock])])"
proof -
  have "inside css h (snd (serial effect h s0)) (fst (serial effect h s0)) s i
          (followed_by (body c) (leave (of_thread i (snd (serial effect h s0))) rest), [lock])"
    unfolding inside_def using c e
    by (intro exI [of _ c] exI [of _ rest] exI [of _ "body c"] exI [of _ "[]"])
      (simp add: body_balanced body_effect explained_def)
  then show ?thesis using e i by (auto simp: explained_def nth_list_update)
qed

lemma explained_leave:
  assumes e: "explained css s0 (Some i) h (s, ts)" and i: "i < length ts"
    and c: "css ! i = of_thread i h @ c # rest" and r: "effect c (fst (serial effect h s0)) = (s, r)"
  shows "explained css s0 None (h @ [(i, c)])
           (s, ts[i := (run_calls call (of_thread i (snd (serial effect h s0)) @ [r]) rest, [])])"
proof -
  have "idle css (h @ [(i, c)]) (snd (serial effect h s0) @ [(i, r)]) i
      (run_calls call (of_thread i (snd (serial effect h s0)) @ [r]) rest, [])"
    using c by (auto simp: idle_def)
  then show ?thesis using e i
    by (auto simp: explained_def nth_list_update intro: idle_other
        simp: serial_snoc [where effect = effect and c = c and h = h and s = s0, OF r])
qed

lemma explained_inside:
  assumes e: "explained css s0 (Some i) h (s, ts)" and i: "i < length ts"
    and c: "css ! i = of_thread i h @ c # rest"
    and d: "disciplined q rank [] hs" and a: "alone q s' = effect c (fst (serial effect h s0))"
  shows "explained css s0 (Some i) h
           (s', ts[i := (followed_by q (leave (of_thread i (snd (serial effect h s0))) rest), hs @ [lock])])"
proof -
  have "inside css h (snd (serial effect h s0)) (fst (serial effect h s0)) s' i
          (followed_by q (leave (of_thread i (snd (serial effect h s0))) rest), hs @ [lock])"
    unfolding inside_def using c d a
    by (intro exI [of _ c] exI [of _ rest] exI [of _ q] exI [of _ hs]) simp
  then show ?thesis using e i by (auto simp: explained_def nth_list_update)
qed

lemma explained_step:
  assumes "thread_step d d'" and e: "explained css s0 holder h d"
  shows "\<exists>holder' h'. explained css s0 holder' h' d'"
proof (cases holder)
  case None
  obtain s ts where d: "d = (s, ts)" by (cases d)
  obtain i where i: "i < length ts" "run_thread i d = Some d'"
    using assms(1) by (auto simp: thread_step_iff d)
  have "idle css h (snd (serial effect h s0)) i (ts ! i)"
    using e None i(1) by (simp add: explained_def d)
  then show ?thesis
  proof (cases rule: idle_cases)
    case (next_call c rest)
    then have "d' = (s, ts[i := (followed_by (body c) (leave (of_thread i (snd (serial effect h s0))) rest), [lock])])"
      using i by (auto simp: run_thread_def d split: if_split_asm)
    then show ?thesis using explained_enter [OF e [unfolded d None] i(1) next_call(1)] by blast
  qed (use i in \<open>simp add: run_thread_def d\<close>)
next
  case (Some i)
  obtain s ts where d: "d = (s, ts)" by (cases d)
  have len: "length ts = length css" "i < length ts" using e Some by (simp_all add: explained_def d)
  obtain c rest q hs where c: "css ! i = of_thread i h @ c # rest"
    and t: "ts ! i = (followed_by q (leave (of_thread i (snd (serial effect h s0))) rest), hs @ [lock])"
    and dq: "disciplined q rank [] hs" and aq: "alone q s = effect c (fst (serial effect h s0))"
    using e Some by (auto simp: explained_def inside_def d)
  obtain j where j: "j < length ts" "run_thread j d = Some d'"
    using assms(1) by (auto simp: thread_step_iff d)
  note inner = explained_inside [OF e [unfolded d Some] len(2) c]
  show ?thesis
  proof (cases "j = i")
    case False
    then have "idle css h (snd (serial effect h s0)) j (ts ! j)"
      using e Some j(1) len by (simp add: explained_def d)
    then show ?thesis
    proof (cases rule: idle_cases)
      case (next_call c' rest')
      then have "available ts j lock"
        using j by (auto simp: run_thread_def d available_code split: if_split_asm)
      then have "lock \<notin> set (snd (ts ! i))" using len(2) False by (auto simp: available_def)
      then show ?thesis by (simp add: t)
    qed (use j in \<open>simp add: run_thread_def d\<close>)
  next
    case True
    show ?thesis
    proof (cases q)
      case (Return r)
      then have "d' = (s, ts[i := (run_calls call (of_thread i (snd (serial effect h s0)) @ [r]) rest, [])])"
        using j dq t True by (simp add: run_thread_def d leave_def)
      moreover have "effect c (fst (serial effect h s0)) = (s, r)" using aq Return by simp
      ultimately show ?thesis using explained_leave [OF e [unfolded d Some] len(2) c] by blast
    next
      case (Acquire l p)
      then have "d' = (s, ts[i := (followed_by p (leave (of_thread i (snd (serial effect h s0))) rest), (l # hs) @ [lock])])"
        using j t True by (auto simp: run_thread_def d split: if_split_asm)
      moreover have "disciplined p rank [] (l # hs)" "alone p s = effect c (fst (serial effect h s0))"
        using dq aq Acquire by simp_all
      ultimately show ?thesis using inner by blast
    next
      case (Release l p)
      then have "l \<in> set hs" "disciplined p rank [] (remove1 l hs)" "alone p s = effect c (fst (serial effect h s0))"
        using dq aq by simp_all
      moreover from this have "d' = (s, ts[i := (followed_by p (leave (of_thread i (snd (serial effect h s0))) rest), remove1 l hs @ [lock])])"
        using j t True Release by (auto simp: run_thread_def d remove1_append)
      ultimately show ?thesis using inner by blast
    next
      case (Atomic f)
      obtain s' p where f: "f s = (s', p)" by (cases "f s")
      then have "d' = (s', ts[i := (followed_by p (leave (of_thread i (snd (serial effect h s0))) rest), hs @ [lock])])"
        using j t True Atomic by (simp add: run_thread_def d)
      moreover have "disciplined p rank [] hs" "alone p s' = effect c (fst (serial effect h s0))"
        using dq aq Atomic f by (auto dest: spec [of _ s])
      ultimately show ?thesis using inner by blast
    qed
  qed
qed

lemma explained_run:
  "runs_to (start call s0 css) d \<Longrightarrow> \<exists>holder h. explained css s0 holder h d"
proof (induction rule: rtranclp_induct)
  case base
  then show ?case using explained_start by blast
next
  case (step d d')
  then show ?case using explained_step by blast
qed

lemma explained_finished:
  assumes e: "explained css s0 holder h d" and fin: "finished d"
  shows "serial_outcome effect css h s0 d"
proof -
  obtain s ts where d: "d = (s, ts)" by (cases d)
  have len: "length ts = length css" using e by (simp add: explained_def d)
  have ret: "has_returned (ts ! i)" if "i < length ts" for i
    using fin that by (simp add: finished_def d list_all_length)
  have none: "holder = None"
  proof (cases holder)
    case (Some i)
    then have i: "i < length ts" and "inside css h (snd (serial effect h s0)) (fst (serial effect h s0)) s i (ts ! i)"
      using e by (simp_all add: explained_def d)
    then obtain q acc rest hs where "ts ! i = (followed_by q (leave acc rest), hs)"
      unfolding inside_def by blast
    then have "\<not> has_returned (ts ! i)" by (cases q) (simp_all add: leave_def)
    then show ?thesis using ret [OF i] by blast
  qed
  have each_thread: "of_thread i h = css ! i \<and> fst (ts ! i) = Return (of_thread i (snd (serial effect h s0)))"
    if i: "i < length css" for i
  proof -
    obtain rest where r: "css ! i = of_thread i h @ rest" "ts ! i = (run_calls call (of_thread i (snd (serial effect h s0))) rest, [])"
      using e none i by (auto simp: explained_def idle_def d)
    then have "rest = []"
      using ret [of i] i len by (cases rest) (auto simp: locked_call_def with_lock_def)
    then show ?thesis using r by simp
  qed
  then have "map fst ts = map (\<lambda>i. Return (of_thread i (snd (serial effect h s0)))) [0..<length css]"
    by (intro nth_equalityI) (simp_all add: len)
  then show ?thesis
    using e each_thread none by (auto simp: serial_outcome_def order_of_def explained_def d)
qed

lemma serializable:
  assumes "runs_to (start call s0 css) d" "finished d"
  shows "\<exists>h. serial_outcome effect css h s0 d"
  using explained_run [OF assms(1)] explained_finished [OF _ assms(2)] by blast

text \<open>Every run can be brought to its end, and its end is that of a sequential run.\<close>

lemma atomic_calls:
  assumes "runs_to (start call s0 css) d"
  shows "\<exists>d' h. runs_to d d' \<and> finished d' \<and> serial_outcome effect css h s0 d'"
proof -
  obtain d' where d': "runs_to d d'" "finished d'"
    using always_finishes [OF _ assms] by auto
  then have "runs_to (start call s0 css) d'" using assms by (meson rtranclp_trans)
  then show ?thesis using d' serializable by blast
qed

end

end
