(* ===== verification/Locks.thy ===== *)
theory Locks
  imports Monitor
begin

section \<open>The locks of the program\<close>

text \<open>
  One lock per object that has one, named by the object's name or reference, and the lock traffic
  of the methods: which locks a call takes, in which order and inside which other locks. What a
  call reads decides which objects it visits; here these are arguments, so that a statement about
  all arguments holds whatever the data are and however other threads change them. A batch of
  publications lists those that reach the broker's lock: a message that a middleware drops takes
  no lock. Callbacks of producers are not set.
\<close>

datatype lock =
    ProducerLock nat
  | BrokerLock
  | TopicLock string | QueueLock string | GroupLock string
  | ConsumerLock nat
  | PartitionLock nat
  | AckLock nat | DlqLock nat
  | LogLock nat | SegmentLock nat
  | ManagerLock nat | LimiterLock nat
  | MetricsLock nat | ServerLock nat | ClientLock nat

type_synonym 's traffic = "(lock, 's, unit) code"

text \<open>A method that does all its work under the object's own lock.\<close>

definition touch :: "lock \<Rightarrow> 's traffic" where
  "touch l = with_lock l (Return ())"

definition optional :: "bool \<Rightarrow> 's traffic \<Rightarrow> 's traffic" where
  "optional b p = (if b then p else Return ())"

subsection \<open>Partitions and topics\<close>

definition partition_snapshot_locks :: "nat \<Rightarrow> 's traffic" where
  "partition_snapshot_locks p =
     with_lock (PartitionLock p) (block [touch (PartitionLock p), touch (PartitionLock p)])"

definition assign_partition_locks :: "string \<Rightarrow> bool \<Rightarrow> 's traffic" where
  "assign_partition_locks t keyed = optional (\<not> keyed) (touch (TopicLock t))"

text \<open>A publication: is the topic missing, which topic, is a partition to be assigned, has the
  message a key, and the partition appended to (none when an exception comes first).\<close>

datatype publication =
  Publication (missing: bool) (to_topic: string) (unassigned: bool) (keyed: bool) (target: "nat option")

definition topic_publish_locks :: "publication \<Rightarrow> 's traffic" where
  "topic_publish_locks m =
     block [optional (unassigned m) (assign_partition_locks (to_topic m) (keyed m)),
            case target m of None \<Rightarrow> Return () | Some p \<Rightarrow> touch (PartitionLock p)]"

definition each_partition_locks :: "nat list \<Rightarrow> 's traffic" where
  "each_partition_locks ps = each (\<lambda>p. touch (PartitionLock p)) ps"

definition topic_snapshot_locks :: "nat list \<Rightarrow> 's traffic" where
  "topic_snapshot_locks ps =
     block [each_partition_locks ps, each_partition_locks ps, each partition_snapshot_locks ps]"

subsection \<open>Consumers and groups\<close>

definition assign_locks :: "nat \<times> nat list \<Rightarrow> 's traffic" where
  "assign_locks m = (case m of (c, ps) \<Rightarrow> with_lock (ConsumerLock c) (each_partition_locks ps))"

definition poll_locks :: "nat \<Rightarrow> nat list \<Rightarrow> bool \<Rightarrow> 's traffic" where
  "poll_locks c ps commits =
     with_lock (ConsumerLock c)
       (block [each_partition_locks ps, optional commits (each_partition_locks ps)])"

definition commit_locks :: "nat \<Rightarrow> nat list \<Rightarrow> 's traffic" where
  "commit_locks c ps = with_lock (ConsumerLock c) (each_partition_locks ps)"

text \<open>The members whose partitions are revoked, and what each is assigned afterwards.\<close>

type_synonym rebalancing = "nat list \<times> (nat \<times> nat list) list"

definition rebalance_locks :: "rebalancing \<Rightarrow> 's traffic" where
  "rebalance_locks r =
     (case r of (old, new) \<Rightarrow> block [each (\<lambda>c. touch (ConsumerLock c)) old, each assign_locks new])"

definition group_change_locks :: "string \<Rightarrow> rebalancing \<Rightarrow> 's traffic" where
  "group_change_locks g r = with_lock (GroupLock g) (rebalance_locks r)"

definition group_removal_locks :: "string \<Rightarrow> nat list \<Rightarrow> rebalancing \<Rightarrow> 's traffic" where
  "group_removal_locks g gone r =
     with_lock (GroupLock g) (block [each (\<lambda>c. touch (ConsumerLock c)) gone, rebalance_locks r])"

definition consumer_lag_locks :: "string \<Rightarrow> (nat \<times> nat list) list \<Rightarrow> 's traffic" where
  "consumer_lag_locks g members =
     with_lock (GroupLock g)
       (each (\<lambda>(c, ps). block [touch (ConsumerLock c), each_partition_locks ps]) members)"

definition group_snapshot_locks :: "string \<Rightarrow> (nat \<times> nat list) list \<Rightarrow> 's traffic" where
  "group_snapshot_locks g members =
     with_lock (GroupLock g)
       (block [each (\<lambda>(c, ps). touch (ConsumerLock c)) members, consumer_lag_locks g members])"

subsection \<open>The broker\<close>

definition delete_topic_locks :: "(string \<times> rebalancing) list \<Rightarrow> 's traffic" where
  "delete_topic_locks groups = with_lock BrokerLock (each (\<lambda>(g, r). group_change_locks g r) groups)"

definition publish_locks :: "publication \<Rightarrow> 's traffic" where
  "publish_locks m =
     with_lock BrokerLock (block [optional (missing m) (touch BrokerLock), topic_publish_locks m])"

definition enqueue_locks :: "string option \<Rightarrow> 's traffic" where
  "enqueue_locks q =
     with_lock BrokerLock (case q of None \<Rightarrow> Return () | Some q \<Rightarrow> touch (QueueLock q))"

definition subscribe_locks :: "bool \<Rightarrow> bool \<Rightarrow> string \<Rightarrow> string \<Rightarrow> rebalancing \<Rightarrow> rebalancing \<Rightarrow> 's traffic" where
  "subscribe_locks new_topic new_group t g subscribing joining =
     with_lock BrokerLock
       (block [optional new_topic (touch BrokerLock), optional new_group (touch BrokerLock),
               group_change_locks g subscribing, touch (TopicLock t), group_change_locks g joining])"

definition maintenance_locks :: "nat list list \<Rightarrow> 's traffic" where
  "maintenance_locks topics = with_lock BrokerLock (each each_partition_locks topics)"

definition remove_dead_locks :: "(string \<times> nat list \<times> rebalancing) list \<Rightarrow> 's traffic" where
  "remove_dead_locks groups =
     with_lock BrokerLock (each (\<lambda>(g, gone, r). group_removal_locks g gone r) groups)"

definition broker_snapshot_locks ::
    "nat list list \<Rightarrow> string list \<Rightarrow> (string \<times> (nat \<times> nat list) list) list \<Rightarrow> nat list \<Rightarrow> 's traffic" where
  "broker_snapshot_locks topics queues groups producers =
     with_lock BrokerLock
       (block [each topic_snapshot_locks topics, each (\<lambda>q. touch (QueueLock q)) queues,
               each (\<lambda>(g, members). group_snapshot_locks g members) groups,
               each (\<lambda>p. touch (ProducerLock p)) producers])"

subsection \<open>Producers that publish through the broker\<close>

definition flush_locks :: "nat \<Rightarrow> publication list \<Rightarrow> 's traffic" where
  "flush_locks p batch = with_lock (ProducerLock p) (each publish_locks batch)"

definition send_locks :: "nat \<Rightarrow> bool \<Rightarrow> bool \<Rightarrow> publication list \<Rightarrow> 's traffic" where
  "send_locks p idempotent batching published =
     block [optional idempotent (touch (ProducerLock p)),
            if batching then flush_locks p published else each publish_locks published]"

definition stop_locks :: "(nat \<times> publication list) list \<Rightarrow> 's traffic" where
  "stop_locks producers = each (\<lambda>(p, batch). flush_locks p batch) producers"

subsection \<open>Acknowledgements, dead letters, storage, backpressure\<close>

text \<open>\<open>negative_acknowledge\<close> and \<open>check_timeouts\<close>, with \<open>DeadLetterQueue.add\<close> as the dead letter
  callback: one visit to the dead letter queue for every message given up.\<close>

definition give_up_locks :: "nat \<Rightarrow> nat list \<Rightarrow> 's traffic" where
  "give_up_locks a dead = with_lock (AckLock a) (each (\<lambda>d. touch (DlqLock d)) dead)"

definition dlq_snapshot_locks :: "nat \<Rightarrow> 's traffic" where
  "dlq_snapshot_locks d = with_lock (DlqLock d) (block [touch (DlqLock d), touch (DlqLock d)])"

definition wal_append_locks :: "nat \<Rightarrow> nat \<Rightarrow> nat option \<Rightarrow> 's traffic" where
  "wal_append_locks w segment rotated =
     with_lock (LogLock w)
       (block [optional (rotated \<noteq> None) (touch (SegmentLock segment)),
               let l = SegmentLock (case rotated of None \<Rightarrow> segment | Some s \<Rightarrow> s) in with_lock l (touch l)])"

definition wal_read_locks :: "nat \<Rightarrow> (nat \<times> bool) list \<Rightarrow> 's traffic" where
  "wal_read_locks w segments =
     with_lock (LogLock w)
       (each (\<lambda>(s, reads). block [touch (SegmentLock s), optional reads (touch (SegmentLock s))]) segments)"

definition wal_compact_locks :: "nat \<Rightarrow> nat list \<Rightarrow> nat list \<Rightarrow> 's traffic" where
  "wal_compact_locks w segments kept =
     with_lock (LogLock w)
       (block [each (\<lambda>s. block [touch (SegmentLock s), touch (SegmentLock s)]) segments,
               each (\<lambda>s. with_lock (SegmentLock s) (touch (SegmentLock s))) kept])"

definition wal_snapshot_locks :: "nat \<Rightarrow> nat list \<Rightarrow> nat \<Rightarrow> 's traffic" where
  "wal_snapshot_locks w segments active =
     with_lock (LogLock w)
       (block [with_lock (LogLock w) (each (\<lambda>s. touch (SegmentLock s)) segments),
               with_lock (LogLock w) (each (\<lambda>s. touch (SegmentLock s)) segments),
               touch (LogLock w), with_lock (LogLock w) (touch (SegmentLock active))])"

text \<open>\<open>check_publish_allowed\<close>: the manager's lock is given back before the limiter is asked.\<close>

definition check_publish_locks :: "nat \<Rightarrow> nat option \<Rightarrow> bool \<Rightarrow> 's traffic" where
  "check_publish_locks b limiter refused =
     block [case limiter of None \<Rightarrow> Return () | Some l \<Rightarrow> block [touch (ManagerLock b), touch (LimiterLock l)],
            optional refused (touch (ManagerLock b))]"

definition manager_snapshot_locks :: "nat \<Rightarrow> nat list \<Rightarrow> 's traffic" where
  "manager_snapshot_locks b limiters =
     with_lock (ManagerLock b) (each (\<lambda>l. touch (LimiterLock l)) limiters)"

subsection \<open>The calls of a thread\<close>

datatype lock_call =
    Own lock
  | Partition_Snapshot nat
  | Topic_Publish publication | Each_Partition "nat list" | Topic_Snapshot "nat list"
  | Assign "nat \<times> nat list" | Poll nat "nat list" bool | Commit nat "nat list"
  | Group_Change string rebalancing | Group_Removal string "nat list" rebalancing
  | Consumer_Lag string "(nat \<times> nat list) list" | Group_Snapshot string "(nat \<times> nat list) list"
  | Delete_Topic "(string \<times> rebalancing) list" | Publish publication | Enqueue "string option"
  | Subscribe bool bool string string rebalancing rebalancing
  | Maintenance "nat list list" | Remove_Dead "(string \<times> nat list \<times> rebalancing) list"
  | Broker_Snapshot "nat list list" "string list" "(string \<times> (nat \<times> nat list) list) list" "nat list"
  | Flush nat "publication list" | Send nat bool bool "publication list"
  | Stop "(nat \<times> publication list) list"
  | Give_Up nat "nat list" | Dlq_Snapshot nat
  | Wal_Append nat nat "nat option" | Wal_Read nat "(nat \<times> bool) list"
  | Wal_Compact nat "nat list" "nat list" | Wal_Snapshot nat "nat list" nat
  | Check_Publish nat "nat option" bool | Manager_Snapshot nat "nat list"

fun locks_of :: "lock_call \<Rightarrow> 's traffic" where
  "locks_of (Own l) = touch l"
| "locks_of (Partition_Snapshot p) = partition_snapshot_locks p"
| "locks_of (Topic_Publish m) = topic_publish_locks m"
| "locks_of (Each_Partition ps) = each_partition_locks ps"
| "locks_of (Topic_Snapshot ps) = topic_snapshot_locks ps"
| "locks_of (Assign m) = assign_locks m"
| "locks_of (Poll c ps commits) = poll_locks c ps commits"
| "locks_of (Commit c ps) = commit_locks c ps"
| "locks_of (Group_Change g r) = group_change_locks g r"
| "locks_of (Group_Removal g gone r) = group_removal_locks g gone r"
| "locks_of (Consumer_Lag g ms) = consumer_lag_locks g ms"
| "locks_of (Group_Snapshot g ms) = group_snapshot_locks g ms"
| "locks_of (Delete_Topic gs) = delete_topic_locks gs"
| "locks_of (Publish m) = publish_locks m"
| "locks_of (Enqueue q) = enqueue_locks q"
| "locks_of (Subscribe nt ng t g r1 r2) = subscribe_locks nt ng t g r1 r2"
| "locks_of (Maintenance ts) = maintenance_locks ts"
| "locks_of (Remove_Dead gs) = remove_dead_locks gs"
| "locks_of (Broker_Snapshot ts qs gs ps) = broker_snapshot_locks ts qs gs ps"
| "locks_of (Flush p batch) = flush_locks p batch"
| "locks_of (Send p idempotent batching published) = send_locks p idempotent batching published"
| "locks_of (Stop ps) = stop_locks ps"
| "locks_of (Give_Up a dead) = give_up_locks a dead"
| "locks_of (Dlq_Snapshot d) = dlq_snapshot_locks d"
| "locks_of (Wal_Append w s rotated) = wal_append_locks w s rotated"
| "locks_of (Wal_Read w segments) = wal_read_locks w segments"
| "locks_of (Wal_Compact w segments kept) = wal_compact_locks w segments kept"
| "locks_of (Wal_Snapshot w segments active) = wal_snapshot_locks w segments active"
| "locks_of (Check_Publish b l refused) = check_publish_locks b l refused"
| "locks_of (Manager_Snapshot b ls) = manager_snapshot_locks b ls"

subsection \<open>Two orders\<close>

text \<open>
  The order is the same for all locks but the producers': a batching producer publishes with its
  own lock held, so its lock comes before the broker's; \<open>Broker.snapshot\<close> asks the registered
  producers with the broker's lock held, so it comes after. \<open>lock_rank pr\<close> has it at \<open>pr\<close>.
\<close>

fun lock_rank :: "nat \<Rightarrow> lock \<Rightarrow> nat" where
  "lock_rank pr (ProducerLock _) = pr"
| "lock_rank pr BrokerLock = 1"
| "lock_rank pr (TopicLock _) = 2"
| "lock_rank pr (QueueLock _) = 2"
| "lock_rank pr (GroupLock _) = 2"
| "lock_rank pr (ConsumerLock _) = 3"
| "lock_rank pr (PartitionLock _) = 4"
| "lock_rank pr (AckLock _) = 0"
| "lock_rank pr (DlqLock _) = 1"
| "lock_rank pr (LogLock _) = 0"
| "lock_rank pr (SegmentLock _) = 1"
| "lock_rank pr (ManagerLock _) = 0"
| "lock_rank pr (LimiterLock _) = 1"
| "lock_rank pr (MetricsLock _) = 0"
| "lock_rank pr (ServerLock _) = 0"
| "lock_rank pr (ClientLock _) = 0"

fun asks_producers :: "lock_call \<Rightarrow> bool" where
  "asks_producers (Broker_Snapshot ts qs gs ps) = (ps \<noteq> [])"
| "asks_producers _ = False"

fun publishes_batch :: "lock_call \<Rightarrow> bool" where
  "publishes_batch (Flush p batch) = (batch \<noteq> [])"
| "publishes_batch (Send p idempotent batching published) = (batching \<and> published \<noteq> [])"
| "publishes_batch (Stop ps) = list_ex (\<lambda>p. snd p \<noteq> []) ps"
| "publishes_batch _ = False"

end
