(* ===== verification/Deadlock.thy ===== *)
theory Deadlock
  imports Locks
begin

section \<open>Freedom from deadlock\<close>

text \<open>
  The lock traffic of every call is along the order of \<open>Locks\<close>, in one of its two forms: the two
  interpretations of \<open>lock_order\<close>. Where neither form fits, there is a deadlock. The rules for the
  traffic of a method ask only how high the locks already held are (\<open>height\<close>).
\<close>

primrec height :: "nat \<Rightarrow> lock list \<Rightarrow> nat" where
  "height pr [] = 0"
| "height pr (h # hs) = max (Suc (lock_rank pr h)) (height pr hs)"

named_theorems lock_intros \<open>how lock traffic keeps the order\<close>

lemma height_above: "height pr hs \<le> n \<Longrightarrow> h \<in> set hs \<Longrightarrow> lock_rank pr h < n"
  by (induction hs) auto

declare block.simps [simp del]

lemmas [lock_intros] = ordered_block ordered_each

lemma ordered_with [lock_intros]:
  "l \<in> set hs \<or> height pr hs \<le> lock_rank pr l \<Longrightarrow> ordered_in (lock_rank pr) (l # hs) p \<Longrightarrow>
     ordered_in (lock_rank pr) hs (with_lock l p)"
  by (rule ordered_with_lock) (auto dest: height_above)

lemma ordered_touch [lock_intros]:
  "l \<in> set hs \<or> height pr hs \<le> lock_rank pr l \<Longrightarrow> ordered_in (lock_rank pr) hs (touch l)"
  unfolding touch_def by (rule ordered_with) simp_all

lemma ordered_optional [lock_intros]:
  "(b \<Longrightarrow> ordered_in rank hs p) \<Longrightarrow> ordered_in rank hs (optional b p)"
  by (simp add: optional_def)

lemma ordered_each_partition [lock_intros]:
  "height pr hs \<le> 4 \<Longrightarrow> ordered_in (lock_rank pr) hs (each_partition_locks ps)"
  by (auto simp: each_partition_locks_def intro!: lock_intros)

lemma ordered_partition_snapshot [lock_intros]:
  "height pr hs \<le> 4 \<Longrightarrow> ordered_in (lock_rank pr) hs (partition_snapshot_locks p)"
  by (auto simp: partition_snapshot_locks_def intro!: lock_intros)

lemma ordered_topic_snapshot [lock_intros]:
  "height pr hs \<le> 4 \<Longrightarrow> ordered_in (lock_rank pr) hs (topic_snapshot_locks p)"
  by (auto simp: topic_snapshot_locks_def intro!: lock_intros)

lemma ordered_topic_publish [lock_intros]:
  "height pr hs \<le> 2 \<Longrightarrow> ordered_in (lock_rank pr) hs (topic_publish_locks m)"
  by (auto simp: topic_publish_locks_def assign_partition_locks_def intro!: lock_intros split: option.split)

lemma ordered_assign [lock_intros]:
  "height pr hs \<le> 3 \<Longrightarrow> ordered_in (lock_rank pr) hs (assign_locks m)"
  by (auto simp: assign_locks_def intro!: lock_intros split: prod.split)

lemma ordered_rebalance [lock_intros]:
  "height pr hs \<le> 3 \<Longrightarrow> ordered_in (lock_rank pr) hs (rebalance_locks r)"
  by (auto simp: rebalance_locks_def intro!: lock_intros split: prod.split)

lemma ordered_group_change [lock_intros]:
  "height pr hs \<le> 2 \<Longrightarrow> ordered_in (lock_rank pr) hs (group_change_locks g r)"
  by (auto simp: group_change_locks_def intro!: lock_intros)

lemma ordered_group_removal [lock_intros]:
  "height pr hs \<le> 2 \<Longrightarrow> ordered_in (lock_rank pr) hs (group_removal_locks g gone r)"
  by (auto simp: group_removal_locks_def intro!: lock_intros)

lemma ordered_consumer_lag [lock_intros]:
  "GroupLock g \<in> set hs \<or> height pr hs \<le> 2 \<Longrightarrow> height pr hs \<le> 3 \<Longrightarrow>
     ordered_in (lock_rank pr) hs (consumer_lag_locks g ms)"
  by (auto simp: consumer_lag_locks_def intro!: lock_intros)

lemma ordered_group_snapshot [lock_intros]:
  "height pr hs \<le> 2 \<Longrightarrow> ordered_in (lock_rank pr) hs (group_snapshot_locks g ms)"
  by (auto simp: group_snapshot_locks_def intro!: lock_intros)

lemma ordered_publish [lock_intros]:
  "height pr hs \<le> 1 \<Longrightarrow> ordered_in (lock_rank pr) hs (publish_locks m)"
  by (auto simp: publish_locks_def intro!: lock_intros)

lemma ordered_flush [lock_intros]:
  "pr = 0 \<or> batch = [] \<Longrightarrow> ordered_in (lock_rank pr) [] (flush_locks p batch)"
  by (auto simp: flush_locks_def intro!: lock_intros)

lemmas locks_of_defs =
  poll_locks_def commit_locks_def delete_topic_locks_def enqueue_locks_def subscribe_locks_def
  maintenance_locks_def remove_dead_locks_def broker_snapshot_locks_def send_locks_def
  stop_locks_def give_up_locks_def dlq_snapshot_locks_def wal_append_locks_def
  wal_read_locks_def wal_compact_locks_def wal_snapshot_locks_def check_publish_locks_def
  manager_snapshot_locks_def

lemma locks_flushing: "\<not> asks_producers c \<Longrightarrow> ordered_in (lock_rank 0) [] (locks_of c)"
  by (cases c) (auto simp: locks_of_defs Let_def intro!: lock_intros split: option.split)

lemma locks_asking: "\<not> publishes_batch c \<Longrightarrow> ordered_in (lock_rank 5) [] (locks_of c)"
  by (cases c) (auto simp: locks_of_defs Let_def list_ex_iff intro!: lock_intros split: option.split)

interpretation flushing: lock_order "lock_rank 0" locks_of "\<lambda>c. \<not> asks_producers c"
  by unfold_locales (rule locks_flushing)

interpretation asking: lock_order "lock_rank 5" locks_of "\<lambda>c. \<not> publishes_batch c"
  by unfold_locales (rule locks_asking)

subsection \<open>Threads calling the program\<close>

lemma threads_finish:
  assumes "(\<forall>cs \<in> set css. \<forall>c \<in> set cs. \<not> asks_producers c)
      \<or> (\<forall>cs \<in> set css. \<forall>c \<in> set cs. \<not> publishes_batch c)"
    and "runs_to (start locks_of s css) d"
  shows "\<exists>d'. runs_to d d' \<and> finished d'"
  using assms(1)
proof
  assume "\<forall>cs \<in> set css. \<forall>c \<in> set cs. \<not> asks_producers c"
  then show ?thesis using assms(2) by (rule flushing.always_finishes)
next
  assume "\<forall>cs \<in> set css. \<forall>c \<in> set cs. \<not> publishes_batch c"
  then show ?thesis using assms(2) by (rule asking.always_finishes)
qed

lemma finishing_not_deadlocked: "runs_to d d' \<Longrightarrow> finished d' \<Longrightarrow> \<not> deadlocked d"
  by (auto simp: deadlocked_def elim: converse_rtranclpE)

text \<open>C10. Threads never deadlock: any number of threads, each with any list of calls to partitions,
  topics, consumers, groups, queues, the broker, producers, acknowledgement managers, dead letter
  queues, the write-ahead log and the backpressure manager, over any shared objects. From every
  configuration they can get into, they can go on until all are done, and no run goes on for ever.
  The one condition: not both a \<open>Broker.snapshot\<close> with registered producers and a producer that
  publishes a batch through the broker.\<close>

theorem broker_never_deadlocks:
  assumes "(\<forall>cs \<in> set css. \<forall>c \<in> set cs. \<not> asks_producers c)
      \<or> (\<forall>cs \<in> set css. \<forall>c \<in> set cs. \<not> publishes_batch c)"
    and "runs_to (start locks_of s css) d"
  shows "\<not> deadlocked d \<and> (\<exists>d'. runs_to d d' \<and> finished d')
    \<and> (\<nexists>run. run 0 = d \<and> (\<forall>n. thread_step (run n) (run (Suc n))))"
proof (intro conjI)
  obtain d' where d': "runs_to d d'" "finished d'" using threads_finish [OF assms] by blast
  show "\<not> deadlocked d" using d' by (rule finishing_not_deadlocked)
  show "\<exists>d'. runs_to d d' \<and> finished d'" using d' by blast
  show "\<nexists>run. run 0 = d \<and> (\<forall>n. thread_step (run n) (run (Suc n)))"
    using no_infinite_run by blast
qed

text \<open>A batching producer, a poll and a snapshot of a broker without registered producers, when the
  producer has its lock, the consumer its own, and the snapshot the broker's.\<close>

abbreviation three_threads :: "lock_call list list" where
  "three_threads \<equiv>
     [[Flush 7 [Publication True ''t'' True False (Some 3)], Publish (Publication False ''t'' True True (Some 4))],
      [Poll 2 [3, 4] True], [Broker_Snapshot [[3, 4]] [] [(''g'', [(2, [3, 4])])] []]]"

theorem broker_never_deadlocks_witness:
  "\<exists>d. run_schedule [0, 1, 2] (start locks_of () three_threads) = Some d
    \<and> \<not> deadlocked d \<and> (\<exists>d'. runs_to d d' \<and> finished d')"
proof -
  let ?start = "start locks_of () three_threads"
  obtain d where d: "run_schedule [0, 1, 2] ?start = Some d"
    by (simp add: start_def run_thread_def flush_locks_def poll_locks_def broker_snapshot_locks_def
        with_lock_def upt_rec)
  have "\<not> deadlocked d \<and> (\<exists>d'. runs_to d d' \<and> finished d')
      \<and> (\<nexists>run. run 0 = d \<and> (\<forall>n. thread_step (run n) (run (Suc n))))"
    by (rule broker_never_deadlocks [of three_threads "()" d]) (simp, rule run_schedule_runs [OF d])
  then show ?thesis using d by blast
qed

text \<open>C17. The condition is needed: \<open>Broker.snapshot\<close> takes the broker's lock and then asks each
  producer, a producer flushing its batch takes its own lock and then the broker's, so a thread
  taking a snapshot and a thread flushing a registered producer can come to wait for each other
  for ever.\<close>

theorem snapshot_deadlock:
  "\<exists>d. runs_to (start locks_of () [[Broker_Snapshot [] [] [] [p]], [Flush p (m # batch)]]) d \<and> deadlocked d"
proof -
  let ?start = "start locks_of () [[Broker_Snapshot [] [] [] [p]], [Flush p (m # batch)]]"
  obtain d where d: "run_schedule [0, 1] ?start = Some d" and "deadlocked d"
    by (simp add: start_def run_thread_def flush_locks_def broker_snapshot_locks_def publish_locks_def
        with_lock_def touch_def each_def block.simps deadlocked_iff finished_def upt_rec)
  then show ?thesis using run_schedule_runs [OF d] by blast
qed

end
