(* ===== verification/Partition_Threads.thy ===== *)
theory Partition_Threads
  imports Partition Locks
begin

section \<open>A partition used by several threads\<close>

text \<open>
  The methods of \<^verbatim>\<open>partition.py\<close> statement by statement, each inside \<open>with self._lock\<close>, and the
  interpretation of \<open>monitor\<close>: threads that use one partition at the same time leave it, and get
  answers, as if the methods of \<open>Partition\<close> had been called one after the other. This is what
  lets the other theories take a method as one step. \<open>apply_retention\<close> looks at the retention
  time and at the clock before it takes the lock: the first never changes, the second is an argument.
\<close>

type_synonym partition_state = "mstore \<times> partition"

datatype partition_call =
    Append real mref
  | Read int int | Read_At int
  | Commit_Offset string int | Committed string | Lag string
  | Retention real | Compact | Clear
  | Current | Earliest | Size | Size_Bytes | Snapshot

datatype partition_answer =
    Appended "int result" | Messages "mref list" | Found "mref option"
  | Number int | Nothing | Info partition_info

text \<open>A statement that changes the object or a message, and one that only reads.\<close>

definition assign :: "('s \<Rightarrow> 's) \<Rightarrow> ('l, 's, 'r) code \<Rightarrow> ('l, 's, 'r) code" where
  "assign f p = Atomic (\<lambda>s. (f s, p))"

definition look :: "('s \<Rightarrow> 'a) \<Rightarrow> ('a \<Rightarrow> ('l, 's, 'r) code) \<Rightarrow> ('l, 's, 'r) code" where
  "look f k = Atomic (\<lambda>s. (s, k (f s)))"

abbreviation set_message :: "(message \<Rightarrow> message) \<Rightarrow> mref \<Rightarrow> partition_state \<Rightarrow> partition_state" where
  "set_message f r s \<equiv> ((fst s)(r := f (fst s r)), snd s)"

abbreviation set_partition :: "(partition \<Rightarrow> partition) \<Rightarrow> partition_state \<Rightarrow> partition_state" where
  "set_partition f s \<equiv> (fst s, f (snd s))"

definition append_code :: "real \<Rightarrow> mref \<Rightarrow> (lock, partition_state, partition_answer) code" where
  "append_code now r =
     look (\<lambda>s. p_max_size (snd s) > 0 \<and> int (length (p_log (snd s))) \<ge> p_max_size (snd s)) (\<lambda>full.
       if full then Return (Appended (Inl ValueError))
       else
         look (\<lambda>s. p_next_offset (snd s)) (\<lambda>offset.
         look (\<lambda>s. p_id (snd s)) (\<lambda>pid.
         assign (set_message (\<lambda>m. m\<lparr>m_partition := pid\<rparr>) r) (
         assign (set_message (\<lambda>m. m\<lparr>m_offset := offset\<rparr>) r) (
         assign (set_message (\<lambda>m. m\<lparr>m_broker_timestamp := now\<rparr>) r) (
         assign (set_partition (\<lambda>p. p\<lparr>p_log := p_log p @ [r]\<rparr>)) (
         look (\<lambda>s. p_next_offset (snd s)) (\<lambda>n.
         assign (set_partition (\<lambda>p. p\<lparr>p_next_offset := n + 1\<rparr>)) (
         Return (Appended (Inr offset)))))))))))"

definition retention_code :: "real \<Rightarrow> (lock, partition_state, partition_answer) code" where
  "retention_code now =
     look (\<lambda>s. p_retention_ms (snd s)) (\<lambda>ret.
       if ret \<le> 0 then Return (Number 0)
       else
         look (\<lambda>s. int (length (p_log (snd s)))) (\<lambda>original_len.
         look (\<lambda>s. filter (\<lambda>r. m_broker_timestamp (fst s r) \<ge> now - of_int ret / 1000) (p_log (snd s))) (\<lambda>kept.
         assign (set_partition (\<lambda>p. p\<lparr>p_log := kept\<rparr>)) (
         look (\<lambda>s. int (length (p_log (snd s)))) (\<lambda>len.
         Return (Number (original_len - len)))))))"

definition compact_code :: "(lock, partition_state, partition_answer) code" where
  "compact_code =
     look (\<lambda>s. int (length (p_log (snd s)))) (\<lambda>original_len.
     look (\<lambda>s. compact_entries (\<lambda>r. m_key (fst s r)) (p_log (snd s))) (\<lambda>compacted.
     assign (set_partition (\<lambda>p. p\<lparr>p_log := compacted\<rparr>)) (
     look (\<lambda>s. int (length (p_log (snd s)))) (\<lambda>len.
     Return (Number (original_len - len))))))"

text \<open>The properties that \<open>snapshot\<close> reads take the same lock again.\<close>

definition snapshot_code :: "nat \<Rightarrow> (lock, partition_state, partition_answer) code" where
  "snapshot_code n =
     look (\<lambda>s. p_next_offset (snd s)) (\<lambda>current.
     followed_by (with_lock (PartitionLock n) (look (\<lambda>s. earliest_offset (fst s) (snd s)) Return)) (\<lambda>earliest.
     look (\<lambda>s. length (p_log (snd s))) (\<lambda>len.
     followed_by (with_lock (PartitionLock n) (look (\<lambda>s. partition_size_bytes (fst s) (snd s)) Return)) (\<lambda>bytes.
     look snd (\<lambda>p.
     Return (Info \<lparr>pi_topic = p_topic p, pi_id = p_id p, pi_current = current, pi_earliest = earliest,
                   pi_count = len, pi_bytes = bytes, pi_committed = p_committed p\<rparr>))))))"

fun partition_body :: "nat \<Rightarrow> partition_call \<Rightarrow> (lock, partition_state, partition_answer) code" where
  "partition_body n (Append now r) = append_code now r"
| "partition_body n (Read k mx) = look (\<lambda>s. partition_read (fst s) (snd s) k mx) (\<lambda>rs. Return (Messages rs))"
| "partition_body n (Read_At k) = look (\<lambda>s. partition_read_at (fst s) (snd s) k) (\<lambda>x. Return (Found x))"
| "partition_body n (Commit_Offset g k) = assign (set_partition (commit_offset g k)) (Return Nothing)"
| "partition_body n (Committed g) = look (\<lambda>s. get_committed_offset (snd s) g) (\<lambda>k. Return (Number k))"
| "partition_body n (Lag g) =
     look (\<lambda>s. get_committed_offset (snd s) g) (\<lambda>committed.
     look (\<lambda>s. p_next_offset (snd s)) (\<lambda>next_offset. Return (Number (max 0 (next_offset - committed)))))"
| "partition_body n (Retention now) = retention_code now"
| "partition_body n Compact = compact_code"
| "partition_body n Clear = assign (set_partition partition_clear) (Return Nothing)"
| "partition_body n Current = look (\<lambda>s. current_offset (snd s)) (\<lambda>k. Return (Number k))"
| "partition_body n Earliest = look (\<lambda>s. earliest_offset (fst s) (snd s)) (\<lambda>k. Return (Number k))"
| "partition_body n Size = look (\<lambda>s. int (partition_size (snd s))) (\<lambda>k. Return (Number k))"
| "partition_body n Size_Bytes = look (\<lambda>s. int (partition_size_bytes (fst s) (snd s))) (\<lambda>k. Return (Number k))"
| "partition_body n Snapshot = snapshot_code n"

text \<open>The same calls by the methods of \<open>Partition\<close>.\<close>

fun partition_effect :: "partition_call \<Rightarrow> partition_state \<Rightarrow> partition_state \<times> partition_answer" where
  "partition_effect (Append now r) (ms, p) = map_prod id Appended (partition_append now ms p r)"
| "partition_effect (Read k mx) (ms, p) = ((ms, p), Messages (partition_read ms p k mx))"
| "partition_effect (Read_At k) (ms, p) = ((ms, p), Found (partition_read_at ms p k))"
| "partition_effect (Commit_Offset g k) (ms, p) = ((ms, commit_offset g k p), Nothing)"
| "partition_effect (Committed g) (ms, p) = ((ms, p), Number (get_committed_offset p g))"
| "partition_effect (Lag g) (ms, p) = ((ms, p), Number (consumer_lag p g))"
| "partition_effect (Retention now) (ms, p) =
     (case partition_apply_retention now ms p of (p', k) \<Rightarrow> ((ms, p'), Number k))"
| "partition_effect Compact (ms, p) = (case partition_compact ms p of (p', k) \<Rightarrow> ((ms, p'), Number k))"
| "partition_effect Clear (ms, p) = ((ms, partition_clear p), Nothing)"
| "partition_effect Current (ms, p) = ((ms, p), Number (current_offset p))"
| "partition_effect Earliest (ms, p) = ((ms, p), Number (earliest_offset ms p))"
| "partition_effect Size (ms, p) = ((ms, p), Number (int (partition_size p)))"
| "partition_effect Size_Bytes (ms, p) = ((ms, p), Number (int (partition_size_bytes ms p)))"
| "partition_effect Snapshot (ms, p) = ((ms, p), Info (partition_snapshot ms p))"

lemma alone_assign [simp]: "alone (assign f p) s = alone p (f s)"
  by (simp add: assign_def)

lemma alone_look [simp]: "alone (look f k) s = alone (k (f s)) s"
  by (simp add: look_def)

lemma disciplined_assign [simp]: "disciplined (assign f p) rank base hs = disciplined p rank base hs"
  by (simp add: assign_def)

lemma disciplined_look [simp]:
  "disciplined (look f k) rank base hs \<longleftrightarrow> (\<forall>s. disciplined (k (f s)) rank base hs)"
  by (simp add: look_def)

lemmas partition_code_defs = append_code_def retention_code_def compact_code_def snapshot_code_def

lemma partition_body_effect: "alone (partition_body n c) s = partition_effect c s"
  by (cases s; cases c)
    (auto simp: partition_code_defs partition_append_def stamp_def Let_def consumer_lag_def
      get_committed_offset_def partition_apply_retention_def partition_compact_def partition_snapshot_def)

lemma partition_body_ordered:
  "hs = [] \<or> hs = [PartitionLock n] \<Longrightarrow> ordered_in (lock_rank pr) hs (partition_body n c)"
  by (cases c) (auto simp: partition_code_defs with_lock_def look_def)

interpretation part: monitor "lock_rank 0" "PartitionLock n" "partition_body n" partition_effect for n
  by unfold_locales (auto simp: partition_body_ordered partition_body_effect)

subsection \<open>What the threads get\<close>

text \<open>C15. Threads using one partition at the same time (appending, reading, committing, compacting,
  expiring, clearing) come to an end whatever the interleaving of their statements, and then the
  partition, the messages and all answers are those of the same calls made one after the other,
  each thread's calls in its own order.\<close>

theorem concurrent_partition_serial:
  assumes "runs_to (start (locked_call (PartitionLock n) (partition_body n)) s css) d"
  shows "\<exists>d' h. runs_to d d' \<and> finished d' \<and> serial_outcome partition_effect css h s d'"
  by (rule part.atomic_calls [OF assms])

abbreviation two_threads :: "partition_call list list" where
  "two_threads \<equiv> [[Append 1 0, Commit_Offset ''g'' 1, Append 2 1], [Append 3 2, Read 0 10, Compact]]"

abbreviation some_messages :: mstore where
  "some_messages \<equiv> (\<lambda>i. message_new ''m'' 1 ''t'' [7] None [])"

abbreviation a_partition :: partition where
  "a_partition \<equiv> partition_new ''t'' 0 0 0"

theorem concurrent_partition_serial_witness:
  "\<exists>d. run_schedule [1, 1, 1] (start (locked_call (PartitionLock 0) (partition_body 0))
        (some_messages, a_partition) two_threads) = Some d
    \<and> (\<exists>d' h. runs_to d d' \<and> finished d'
        \<and> serial_outcome partition_effect two_threads h (some_messages, a_partition) d')"
proof -
  let ?start = "start (locked_call (PartitionLock 0) (partition_body 0)) (some_messages, a_partition) two_threads"
  obtain d where d: "run_schedule [1, 1, 1] ?start = Some d"
    by (simp add: start_def run_thread_def locked_call_def with_lock_def append_code_def look_def
        partition_new_def upt_rec)
  show ?thesis
    using concurrent_partition_serial [OF run_schedule_runs [OF d]] d by blast
qed

text \<open>The message of an append, and the answers to a sequence of successful appends.\<close>

fun appended :: "partition_call \<Rightarrow> mref" where
  "appended (Append now r) = r"
| "appended _ = 0"

definition consecutive :: "int \<Rightarrow> (nat \<times> partition_call) list \<Rightarrow> (nat \<times> partition_answer) list" where
  "consecutive base h = map (\<lambda>k. (fst (h ! k), Appended (Inr (base + int k)))) [0..<length h]"

lemma consecutive_Cons:
  "consecutive base (x # h) = (fst x, Appended (Inr base)) # consecutive (base + 1) h"
  by (simp add: consecutive_def upt_conv_Cons map_Suc_upt [symmetric] algebra_simps del: upt_Suc)

lemma serial_appends:
  assumes "\<forall>x \<in> set h. \<exists>now r. snd x = Append now r" and "p_max_size p \<le> 0"
  shows "\<exists>ms'. serial partition_effect h (ms, p) =
    ((ms', p\<lparr>p_log := p_log p @ map (appended \<circ> snd) h, p_next_offset := p_next_offset p + int (length h)\<rparr>),
     consecutive (p_next_offset p) h)"
  using assms
proof (induction h arbitrary: ms p)
  case Nil
  then show ?case by (simp add: consecutive_def)
next
  case (Cons x h)
  obtain now r where x: "snd x = Append now r" using Cons.prems(1) by auto
  let ?p = "p\<lparr>p_log := p_log p @ [r], p_next_offset := p_next_offset p + 1\<rparr>"
  let ?ms = "ms(r := stamp now (p_id p) (p_next_offset p) (ms r))"
  have "\<exists>ms'. serial partition_effect h (?ms, ?p) =
      ((ms', ?p\<lparr>p_log := p_log ?p @ map (appended \<circ> snd) h, p_next_offset := p_next_offset ?p + int (length h)\<rparr>),
       consecutive (p_next_offset ?p) h)"
    by (rule Cons.IH) (use Cons.prems in simp_all)
  moreover have "partition_effect (snd x) (ms, p) = ((?ms, ?p), Appended (Inr (p_next_offset p)))"
    using Cons.prems(2) by (simp add: x partition_append_def Let_def)
  ultimately show ?case
    by (auto simp: x consecutive_Cons add.commute simp del: fun_upd_apply)
qed

lemma order_of_calls:
  assumes "order_of css h" "x \<in> set h"
  shows "\<exists>cs \<in> set css. snd x \<in> set cs"
proof
  have i: "fst x < length css" "of_thread (fst x) h = css ! fst x"
    using assms by (auto simp: order_of_def)
  then show "css ! fst x \<in> set css" by simp
  show "snd x \<in> set (css ! fst x)" unfolding i(2) [symmetric] using assms(2) by (auto simp: of_thread_def)
qed

text \<open>C16. Threads that only append, to a partition without a size limit: when they are done, the
  log has grown by exactly their messages, in an order that keeps each thread's order, and
  the answers are the next offsets, one each, in that order: no offset is given out twice and none
  is left out, however the threads were interleaved.\<close>

theorem concurrent_appends_get_distinct_offsets:
  assumes "\<forall>cs \<in> set css. \<forall>c \<in> set cs. \<exists>now r. c = Append now r" and "p_max_size p \<le> 0"
    and "runs_to (start (locked_call (PartitionLock n) (partition_body n)) (ms, p) css) d" and "finished d"
  shows "\<exists>h. order_of css h \<and> p_log (snd (fst d)) = p_log p @ map (appended \<circ> snd) h
    \<and> p_next_offset (snd (fst d)) = p_next_offset p + int (length h)
    \<and> map fst (snd d) =
        map (\<lambda>i. Return (of_thread i (consecutive (p_next_offset p) h))) [0..<length css]"
proof -
  obtain h where h: "serial_outcome partition_effect css h (ms, p) d"
    using part.serializable [OF assms(3,4)] by blast
  then have "order_of css h" by (simp add: serial_outcome_def)
  moreover have "\<forall>x \<in> set h. \<exists>now r. snd x = Append now r"
    using order_of_calls [OF calculation] assms(1) by blast
  then obtain ms' where "serial partition_effect h (ms, p) =
    ((ms', p\<lparr>p_log := p_log p @ map (appended \<circ> snd) h, p_next_offset := p_next_offset p + int (length h)\<rparr>),
     consecutive (p_next_offset p) h)"
    using serial_appends [OF _ assms(2)] by blast
  ultimately show ?thesis using h by (intro exI [of _ h]) (simp add: serial_outcome_def)
qed

theorem concurrent_appends_get_distinct_offsets_witness:
  "\<exists>d h. runs_to (start (locked_call (PartitionLock 0) (partition_body 0))
        (some_messages, a_partition) [[Append 1 0, Append 2 1], [Append 3 2]]) d
    \<and> finished d \<and> order_of [[Append 1 0, Append 2 1], [Append 3 2]] h
    \<and> p_log (snd (fst d)) = map (appended \<circ> snd) h"
proof -
  let ?css = "[[Append 1 0, Append 2 1], [Append 3 2]] :: partition_call list list"
  obtain d where d: "runs_to (start (locked_call (PartitionLock 0) (partition_body 0))
        (some_messages, a_partition) ?css) d" "finished d"
    using part.always_finishes [of ?css, OF _ rtranclp.rtrancl_refl] by blast
  have "\<forall>cs \<in> set ?css. \<forall>c \<in> set cs. \<exists>now r. c = Append now r" "p_max_size a_partition \<le> 0"
    by (simp_all add: partition_new_def)
  from concurrent_appends_get_distinct_offsets [OF this d] obtain h where
    h: "order_of ?css h" "p_log (snd (fst d)) = p_log a_partition @ map (appended \<circ> snd) h" by blast
  have "p_log (snd (fst d)) = map (appended \<circ> snd) h" using h(2) by (simp add: partition_new_def)
  then show ?thesis using d h(1) by blast
qed

end
