(* ===== verification/Queue_Threads.thy ===== *)
theory Queue_Threads
  imports Queue Partition_Threads
begin

section \<open>A queue used by several workers\<close>

text \<open>
  The methods of the FIFO queue of \<^verbatim>\<open>queue.py\<close> statement by statement under the queue's lock, and
  the interpretation of \<open>monitor\<close>. \<open>dequeue\<close> takes the lock twice: it requeues what has timed out
  under a first lock (\<open>requeue_timed_out\<close>) and takes the next message under a second, so it is two
  calls here, and other threads can come in between. The default visibility time never changes.
\<close>

type_synonym queue_state = "mstore \<times> message_queue"

datatype queue_call =
    Put real mref | Requeue real | Take real "real option"
  | Done_With string | Give_Back string | Peek | Purge | Depth

datatype queue_answer = Stored "unit result" | Counted nat | Taken "mref option" | Was_There bool

abbreviation set_queue :: "(message_queue \<Rightarrow> message_queue) \<Rightarrow> queue_state \<Rightarrow> queue_state" where
  "set_queue f s \<equiv> (fst s, f (snd s))"

definition put_code :: "real \<Rightarrow> mref \<Rightarrow> (lock, queue_state, queue_answer) code" where
  "put_code now r =
     look (\<lambda>s. q_max_size (snd s) > 0 \<and> int (length (q_queue (snd s))) \<ge> q_max_size (snd s)) (\<lambda>full.
     if full then Return (Stored (Inl ValueError))
     else
       assign (\<lambda>s. ((fst s)(r := (fst s r)\<lparr>m_broker_timestamp := now\<rparr>), snd s)) (
       assign (set_queue (\<lambda>q. q\<lparr>q_queue := q_queue q @ [r]\<rparr>)) (
       look (\<lambda>s. q_total_enqueued (snd s)) (\<lambda>n.
       assign (set_queue (\<lambda>q. q\<lparr>q_total_enqueued := n + 1\<rparr>)) (
       Return (Stored (Inr ())))))))"

text \<open>The loop over the expired ids: one pop and one push to the front for each.\<close>

primrec requeue_each :: "string list \<Rightarrow> nat \<Rightarrow> (lock, queue_state, queue_answer) code" where
  "requeue_each [] n = Return (Counted n)"
| "requeue_each (mid # mids) n =
     Atomic (\<lambda>s.
       case dict_get (q_in_flight (snd s)) mid of
         None \<Rightarrow> (s, requeue_each mids (Suc n))
       | Some (r, _) \<Rightarrow>
           (set_queue (\<lambda>q. q\<lparr>q_in_flight := dict_del mid (q_in_flight q)\<rparr>) s,
            assign (set_queue (\<lambda>q. q\<lparr>q_queue := r # q_queue q\<rparr>)) (requeue_each mids (Suc n))))"

definition take_code :: "real \<Rightarrow> real option \<Rightarrow> (lock, queue_state, queue_answer) code" where
  "take_code now visibility_timeout =
     look (\<lambda>s. effective_timeout visibility_timeout (q_visibility_timeout (snd s))) (\<lambda>timeout.
     Atomic (\<lambda>s.
       case q_queue (snd s) of
         [] \<Rightarrow> (s, Return (Taken None))
       | r # rest \<Rightarrow>
           (set_queue (\<lambda>q. q\<lparr>q_queue := rest\<rparr>) s,
            look (\<lambda>s. m_id (fst s r)) (\<lambda>mid.
            assign (set_queue (\<lambda>q. q\<lparr>q_in_flight := dict_set mid (r, now + timeout) (q_in_flight q)\<rparr>)) (
            look (\<lambda>s. q_total_dequeued (snd s)) (\<lambda>n.
            assign (set_queue (\<lambda>q. q\<lparr>q_total_dequeued := n + 1\<rparr>)) (
            Return (Taken (Some r)))))))))"

fun queue_effect :: "queue_call \<Rightarrow> queue_state \<Rightarrow> queue_state \<times> queue_answer" where
  "queue_effect (Put now r) (ms, q) = map_prod id Stored (queue_enqueue now ms q r)"
| "queue_effect (Requeue now) (ms, q) =
     (case queue_requeue_timed_out now q of (q', n) \<Rightarrow> ((ms, q'), Counted n))"
| "queue_effect (Take now t) (ms, q) =
     (case q_queue q of
        [] \<Rightarrow> ((ms, q), Taken None)
      | r # rest \<Rightarrow>
          ((ms, q\<lparr>q_queue := rest,
                  q_in_flight := dict_set (m_id (ms r))
                    (r, now + effective_timeout t (q_visibility_timeout q)) (q_in_flight q),
                  q_total_dequeued := q_total_dequeued q + 1\<rparr>), Taken (Some r)))"
| "queue_effect (Done_With mid) (ms, q) = (case queue_acknowledge mid q of (q', b) \<Rightarrow> ((ms, q'), Was_There b))"
| "queue_effect (Give_Back mid) (ms, q) = (case queue_nack mid q of (q', b) \<Rightarrow> ((ms, q'), Was_There b))"
| "queue_effect Peek (ms, q) = ((ms, q), Taken (queue_peek q))"
| "queue_effect Purge (ms, q) = (case queue_purge q of (q', n) \<Rightarrow> ((ms, q'), Counted n))"
| "queue_effect Depth (ms, q) = ((ms, q), Counted (queue_depth q))"

fun queue_body :: "queue_call \<Rightarrow> (lock, queue_state, queue_answer) code" where
  "queue_body (Put now r) = put_code now r"
| "queue_body (Requeue now) = look (\<lambda>s. expired_ids now (q_in_flight (snd s))) (\<lambda>ids. requeue_each ids 0)"
| "queue_body (Take now t) = take_code now t"
| "queue_body (Done_With mid) =
     look (\<lambda>s. mid \<in> set (keys (q_in_flight (snd s)))) (\<lambda>there.
     if \<not> there then Return (Was_There False)
     else
       assign (set_queue (\<lambda>q. q\<lparr>q_in_flight := dict_del mid (q_in_flight q)\<rparr>)) (
       look (\<lambda>s. q_total_acked (snd s)) (\<lambda>n.
       assign (set_queue (\<lambda>q. q\<lparr>q_total_acked := n + 1\<rparr>)) (
       Return (Was_There True)))))"
| "queue_body c = statement (queue_effect c)"

text \<open>\<open>dequeue\<close> of \<open>Queue\<close> is its two sections, one after the other.\<close>

lemma dequeue_sections:
  "queue_dequeue now1 now2 ms t q =
     (case queue_effect (Requeue now1) (ms, q) of (s1, _) \<Rightarrow>
        (case queue_effect (Take now2 t) s1 of ((_, q2), a) \<Rightarrow>
           (q2, case a of Taken x \<Rightarrow> x | _ \<Rightarrow> None)))"
  by (simp add: queue_dequeue_def Let_def split_def split: list.split)

lemma alone_requeue_each:
  "alone (requeue_each mids n) (ms, q) = ((ms, fold requeue_one mids q), Counted (n + length mids))"
  by (induction mids arbitrary: n q) (simp_all add: requeue_one_def split: option.split)

lemma queue_body_effect: "alone (queue_body c) s = queue_effect c s"
  by (cases s; cases c)
    (auto simp: put_code_def take_code_def queue_enqueue_def alone_requeue_each queue_requeue_timed_out_def
      queue_acknowledge_def Let_def split: list.split)

lemma requeue_each_ordered: "ordered_in rank hs (requeue_each mids n)"
  by (induction mids arbitrary: n) (simp_all split: option.split)

lemma queue_body_ordered: "ordered_in rank hs (queue_body c)"
  by (cases c) (simp_all add: put_code_def take_code_def requeue_each_ordered ordered_statement split: list.split)

interpretation fifo: monitor "lock_rank 0" "QueueLock name" queue_body queue_effect for name
  by unfold_locales (simp_all add: queue_body_ordered queue_body_effect)

subsection \<open>Workers\<close>

text \<open>What workers do that only dequeue, with clock readings between \<open>lo\<close> and \<open>hi\<close>.\<close>

fun dequeues_within :: "real \<Rightarrow> real \<Rightarrow> queue_call \<Rightarrow> bool" where
  "dequeues_within lo hi (Requeue now) \<longleftrightarrow> lo \<le> now \<and> now \<le> hi"
| "dequeues_within lo hi (Take now None) \<longleftrightarrow> lo \<le> now \<and> now \<le> hi"
| "dequeues_within lo hi _ \<longleftrightarrow> False"

text \<open>The messages that a sequence of answers hands out.\<close>

fun handed_out :: "queue_answer \<Rightarrow> mref list" where
  "handed_out (Taken (Some r)) = [r]"
| "handed_out _ = []"

definition all_handed_out :: "queue_answer list \<Rightarrow> mref list" where
  "all_handed_out xs = concat (map handed_out xs)"

definition nothing_expires :: "real \<Rightarrow> message_queue \<Rightarrow> bool" where
  "nothing_expires hi q \<longleftrightarrow> (\<forall>x \<in> set (q_in_flight q). hi < snd (snd x))"

lemma dequeues_effect:
  assumes c: "dequeues_within lo hi c" and q: "nothing_expires hi q" "hi < lo + q_visibility_timeout q"
    and "0 < q_visibility_timeout q"
  shows "\<exists>q' a. queue_effect c (ms, q) = ((ms, q'), a) \<and> nothing_expires hi q'
    \<and> q_visibility_timeout q' = q_visibility_timeout q \<and> q_queue q = handed_out a @ q_queue q'"
proof (cases c)
  case (Requeue now)
  have "expired_ids now (q_in_flight q) = []"
    using c q(1) by (force simp: Requeue expired_ids_def nothing_expires_def filter_empty_conv)
  then show ?thesis using q(1) by (simp add: Requeue queue_requeue_timed_out_def)
next
  case (Take now t)
  then have t: "t = None" "lo \<le> now" using c by (cases t; simp)+
  show ?thesis
  proof (cases "q_queue q")
    case Nil
    then show ?thesis using q(1) by (simp add: Take)
  next
    case (Cons r rest)
    let ?flight = "dict_set (m_id (ms r)) (r, now + q_visibility_timeout q) (q_in_flight q)"
    have "\<forall>x \<in> set ?flight. hi < snd (snd x)"
      using q t(2) set_dict_set [of "m_id (ms r)" "(r, now + q_visibility_timeout q)" "q_in_flight q"]
      unfolding nothing_expires_def by fastforce
    then show ?thesis
      using assms(4) by (simp add: Take Cons t(1) effective_timeout_def nothing_expires_def)
  qed
qed (use c in simp_all)

lemma serial_dequeues:
  assumes "\<forall>x \<in> set h. dequeues_within lo hi (snd x)" "nothing_expires hi q"
    and "hi < lo + q_visibility_timeout q" "0 < q_visibility_timeout q"
  shows "\<exists>q' answers. serial queue_effect h (ms, q) = ((ms, q'), answers)
    \<and> q_queue q = all_handed_out (map snd answers) @ q_queue q'"
  using assms
proof (induction h arbitrary: q)
  case Nil
  then show ?case by (simp add: all_handed_out_def)
next
  case (Cons x h)
  obtain q1 a where 1: "queue_effect (snd x) (ms, q) = ((ms, q1), a)" "nothing_expires hi q1"
    "q_visibility_timeout q1 = q_visibility_timeout q" "q_queue q = handed_out a @ q_queue q1"
    using dequeues_effect [of lo hi "snd x" q ms] Cons.prems by auto
  obtain q' answers where 2: "serial queue_effect h (ms, q1) = ((ms, q'), answers)"
    "q_queue q1 = all_handed_out (map snd answers) @ q_queue q'"
    using Cons.IH [of q1] Cons.prems 1(2,3) by auto
  show ?case using 1(1,4) 2 by (simp add: all_handed_out_def)
qed

text \<open>C13. Workers dequeuing from one queue at the same time share it: as long as no visibility time
  runs out, what they are handed, all together, is a first part of the queue, each message once and
  in the queue's order, and what is left in the queue is the rest; every worker gets its share in
  the order of its calls. No message goes to two workers and none is skipped.\<close>

theorem workers_share_the_queue:
  assumes "\<forall>cs \<in> set css. \<forall>c \<in> set cs. dequeues_within lo hi c" and "q_in_flight q = []"
    and "hi < lo + q_visibility_timeout q" "0 < q_visibility_timeout q"
    and "runs_to (start (locked_call (QueueLock name) queue_body) (ms, q) css) d" and "finished d"
  shows "\<exists>answers. map fst (snd d) = map (\<lambda>i. Return (of_thread i answers)) [0..<length css]
    \<and> q_queue q = all_handed_out (map snd answers) @ q_queue (snd (fst d))"
proof -
  obtain h where h: "serial_outcome queue_effect css h (ms, q) d"
    using fifo.serializable [OF assms(5,6)] by blast
  then have "order_of css h" by (simp add: serial_outcome_def)
  then have "\<forall>x \<in> set h. dequeues_within lo hi (snd x)"
    using order_of_calls assms(1) by blast
  moreover have "nothing_expires hi q" by (simp add: nothing_expires_def assms(2))
  ultimately obtain q' answers where "serial queue_effect h (ms, q) = ((ms, q'), answers)"
    "q_queue q = all_handed_out (map snd answers) @ q_queue q'"
    using serial_dequeues assms(3,4) by blast
  then show ?thesis using h by (intro exI [of _ answers]) (simp add: serial_outcome_def)
qed

abbreviation two_workers :: "queue_call list list" where
  "two_workers \<equiv> [[Requeue 1, Take 2 None, Requeue 3, Take 4 None], [Requeue 2, Take 3 None]]"

abbreviation a_queue :: message_queue where
  "a_queue \<equiv> (queue_new ''q'' 0 30)\<lparr>q_queue := [7, 8]\<rparr>"

theorem workers_share_the_queue_witness:
  "\<exists>d answers. runs_to (start (locked_call (QueueLock ''q'') queue_body) (some_messages, a_queue) two_workers) d
    \<and> finished d \<and> map fst (snd d) = map (\<lambda>i. Return (of_thread i answers)) [0..<2]
    \<and> [7, 8] = all_handed_out (map snd answers) @ q_queue (snd (fst d))"
proof -
  obtain d where d: "runs_to (start (locked_call (QueueLock ''q'') queue_body) (some_messages, a_queue) two_workers) d"
    "finished d"
    using fifo.always_finishes [of two_workers, OF _ rtranclp.rtrancl_refl] by blast
  have "\<forall>cs \<in> set two_workers. \<forall>c \<in> set cs. dequeues_within 1 4 c" by simp
  moreover have "q_in_flight a_queue = []" "4 < 1 + q_visibility_timeout a_queue" "0 < q_visibility_timeout a_queue"
    by (simp_all add: queue_new_def)
  ultimately obtain answers where
    "map fst (snd d) = map (\<lambda>i. Return (of_thread i answers)) [0..<length two_workers]"
    and "q_queue a_queue = all_handed_out (map snd answers) @ q_queue (snd (fst d))"
    using workers_share_the_queue [OF _ _ _ _ d] by blast
  then have "map fst (snd d) = map (\<lambda>i. Return (of_thread i answers)) [0..<2]"
    and "[7, 8] = all_handed_out (map snd answers) @ q_queue (snd (fst d))"
    by (simp_all add: numeral_2_eq_2)
  then show ?thesis using d by blast
qed

end
