(* ===== verification/Broker_Threads.thy ===== *)
theory Broker_Threads
  imports Broker Partition_Threads
begin

section \<open>The broker used by several threads\<close>

text \<open>
  \<open>Broker.publish\<close> (after its middleware, which runs before the lock is taken), \<open>enqueue\<close> and the
  creation of topics, the creation and deletion of queues and groups, with every lock they take and
  give back: the broker's around the whole, inside it the topic's for the round-robin counter, the
  partition's for the append, the queue's for the enqueue.
  The interpretation of \<open>monitor\<close> makes threads that publish, enqueue and administer at the same
  time equivalent to one thread doing the same in some order. What a method of a partition
  or a queue does inside its own lock is one statement here (see \<open>Partition_Threads\<close>). Calls that
  go on to consumer groups (deleting a topic, subscribing) are not among them.
\<close>

type_synonym broker_state = "mstore \<times> broker"

datatype broker_call =
    Publish_Message real mref
  | Enqueue_Message real string mref
  | Create_Topic string "topic_config option"
  | Create_Queue string int real bool | Remove_Queue string
  | Create_Group string assignment_strategy | Remove_Group string
  | List_Topics | List_Queues | List_Groups

datatype broker_answer =
    Published "record_metadata result" | Outcome "unit result" | Flag bool | Names "string list"

abbreviation set_broker :: "(broker \<Rightarrow> broker) \<Rightarrow> broker_state \<Rightarrow> broker_state" where
  "set_broker f s \<equiv> (fst s, f (snd s))"

abbreviation change_message :: "(message \<Rightarrow> message) \<Rightarrow> mref \<Rightarrow> broker_state \<Rightarrow> broker_state" where
  "change_message f r s \<equiv> ((fst s)(r := f (fst s r)), snd s)"

text \<open>An operation on the topic object that the name stands for while the lock is held.\<close>

definition on_topic :: "string \<Rightarrow> (topic \<Rightarrow> topic \<times> 'a result) \<Rightarrow> broker_state \<Rightarrow> broker_state \<times> 'a result" where
  "on_topic name f s =
     (case get_topic name (snd s) of
        None \<Rightarrow> (s, Inl KeyError)
      | Some t \<Rightarrow>
          (case f t of (t', res) \<Rightarrow> (set_broker (\<lambda>b. b\<lparr>b_topics := dict_set name t' (b_topics b)\<rparr>) s, res)))"

definition append_to :: "real \<Rightarrow> pref \<Rightarrow> mref \<Rightarrow> broker_state \<Rightarrow> broker_state \<times> int result" where
  "append_to now p r s =
     (case partition_append now (fst s) (b_ps (snd s) p) r of
        ((ms', q), res) \<Rightarrow> ((ms', (snd s)\<lparr>b_ps := (b_ps (snd s))(p := q)\<rparr>), res))"

definition assign_partition_code :: "string \<Rightarrow> topic \<Rightarrow> mref \<Rightarrow> (lock, broker_state, int result) code" where
  "assign_partition_code name t r =
     look (\<lambda>s. m_key (fst s r)) (\<lambda>key.
       case key of
         Some k \<Rightarrow> Return (consistent_hash k (int (length (t_partitions t))))
       | None \<Rightarrow> with_lock (TopicLock name) (statement (on_topic name (\<lambda>t. assign_partition t None))))"

definition topic_publish_code :: "real \<Rightarrow> string \<Rightarrow> topic \<Rightarrow> mref \<Rightarrow> (lock, broker_state, int result) code" where
  "topic_publish_code now name t r =
     look (\<lambda>s. max_message_bytes (t_config t) > 0
             \<and> int (size_bytes (fst s r)) > max_message_bytes (t_config t)) (\<lambda>too_big.
     if too_big then Return (Inl ValueError)
     else
       look (\<lambda>s. m_partition (fst s r)) (\<lambda>requested.
       followed_by
         (if requested < 0 then assign_partition_code name t r else Return (Inr requested))
         (\<lambda>assigned.
            case assigned of
              Inl e \<Rightarrow> Return (Inl e)
            | Inr pid \<Rightarrow>
                assign (if requested < 0 then change_message (\<lambda>m. m\<lparr>m_partition := pid\<rparr>) r else id) (
                case py_nth (t_partitions t) pid of
                  Inl e \<Rightarrow> Return (Inl e)
                | Inr p \<Rightarrow>
                    assign (change_message (\<lambda>m. m\<lparr>m_topic := t_name t\<rparr>) r) (
                    with_lock (PartitionLock p) (statement (append_to now p r)))))))"

definition create_topic_code :: "string \<Rightarrow> topic_config option \<Rightarrow> (lock, broker_state, topic result) code" where
  "create_topic_code name config =
     statement (\<lambda>s. case create_topic name config (snd s) of (b', res) \<Rightarrow> ((fst s, b'), res))"

definition publish_code :: "real \<Rightarrow> mref \<Rightarrow> (lock, broker_state, record_metadata result) code" where
  "publish_code now r =
     look (\<lambda>s. m_topic (fst s r)) (\<lambda>name.
     look (\<lambda>s. get_topic name (snd s)) (\<lambda>found.
     followed_by
       (case found of
          Some t \<Rightarrow> Return (Inr t)
        | None \<Rightarrow> with_lock BrokerLock (create_topic_code name None))
       (\<lambda>topic.
          case topic of
            Inl e \<Rightarrow> Return (Inl e)
          | Inr t \<Rightarrow>
              followed_by (topic_publish_code now name t r) (\<lambda>res.
                case res of
                  Inl e \<Rightarrow> Return (Inl e)
                | Inr offset \<Rightarrow>
                    look (\<lambda>s. b_total_in (snd s)) (\<lambda>n.
                    assign (set_broker (\<lambda>b. b\<lparr>b_total_in := n + 1\<rparr>)) (
                    look (\<lambda>s. fst s r) (\<lambda>m.
                    Return (Inr \<lparr>rm_topic = m_topic m, rm_partition = m_partition m, rm_offset = offset,
                                 rm_timestamp = m_broker_timestamp m, rm_message_id = m_id m\<rparr>))))))))"

text \<open>What the section does to the broker: the part of \<open>broker_publish\<close> after the middleware.\<close>

definition publish_section :: "real \<Rightarrow> mref \<Rightarrow> broker_state \<Rightarrow> broker_state \<times> record_metadata result" where
  "publish_section now r s =
     (case s of (ms, b) \<Rightarrow>
        (case topic_or_create (m_topic (ms r)) b of
           (b2, Inl e) \<Rightarrow> ((ms, b2), Inl e)
         | (b2, Inr t) \<Rightarrow>
             (case topic_publish now ms (b_ps b2) t r of ((ms2, ps2, t'), res) \<Rightarrow>
                (let b3 = b2\<lparr>b_topics := dict_set (m_topic (ms r)) t' (b_topics b2), b_ps := ps2\<rparr> in
                 case res of
                   Inl e \<Rightarrow> ((ms2, b3), Inl e)
                 | Inr offset \<Rightarrow>
                     ((ms2, b3\<lparr>b_total_in := b_total_in b3 + 1\<rparr>),
                      Inr \<lparr>rm_topic = m_topic (ms2 r), rm_partition = m_partition (ms2 r),
                           rm_offset = offset, rm_timestamp = m_broker_timestamp (ms2 r),
                           rm_message_id = m_id (ms2 r)\<rparr>)))))"

lemma broker_publish_section:
  "broker_publish clock now (ms, b) r =
     (case pipeline_process clock (b_middleware b) ms r of ((p', ms1), processed) \<Rightarrow>
        (let b1 = b\<lparr>b_middleware := p'\<rparr> in
         case processed of
           Inl e \<Rightarrow> ((ms1, b1), Inl e)
         | Inr None \<Rightarrow> ((ms1, b1), Inl ValueError)
         | Inr (Some r') \<Rightarrow> publish_section now r' (ms1, b1)))"
  by (simp add: broker_publish_def publish_section_def Let_def split: prod.split sum.split option.split)

lemma broker_publish_no_middleware:
  assumes "b_middleware b = []"
  shows "broker_publish clock now (ms, b) r = publish_section now r (ms, b)"
proof -
  have same: "b\<lparr>b_middleware := []\<rparr> = b" using assms by (cases b) simp
  have "broker_publish clock now (ms, b) r = publish_section now r (ms, b\<lparr>b_middleware := []\<rparr>)"
    by (simp add: broker_publish_section pipeline_process_def assms)
  then show ?thesis unfolding same .
qed

text \<open>The statements of the section, run without interruption.\<close>

lemma dict_set_found: "dict_get d k = Some v \<Longrightarrow> dict_set k v d = d"
  by (induction d) auto

lemma unchanged [simp]:
  fixes m :: message and b :: broker
  shows "m\<lparr>m_partition := m_partition m\<rparr> = m" and "b\<lparr>b_topics := b_topics b\<rparr> = b"
    and "b\<lparr>b_ps := b_ps b\<rparr> = b"
  by (simp_all add: message.equality broker.equality)

lemma alone_assign_partition:
  assumes "get_topic name b = Some t"
  shows "alone (assign_partition_code name t r) (ms, b) =
    (case assign_partition t (m_key (ms r)) of
       (t', res) \<Rightarrow> ((ms, b\<lparr>b_topics := dict_set name t' (b_topics b)\<rparr>), res))"
  using assms dict_set_found [of "b_topics b" name t]
  by (simp add: assign_partition_code_def on_topic_def assign_partition_def get_topic_def split: option.split prod.split)

lemma alone_topic_publish:
  assumes t: "get_topic name b = Some t"
  shows "alone (topic_publish_code now name t r) (ms, b) =
    (case topic_publish now ms (b_ps b) t r of
       ((ms', ps', t'), res) \<Rightarrow> ((ms', b\<lparr>b_topics := dict_set name t' (b_topics b), b_ps := ps'\<rparr>), res))"
proof -
  have same: "dict_set name t (b_topics b) = b_topics b"
    using t by (simp add: get_topic_def dict_set_found)
  have parts: "t_partitions t' = t_partitions t" "t_name t' = t_name t"
    if "assign_partition t k = (t', res)" for k t' res
    using that by (auto simp: assign_partition_def split: option.split_asm if_split_asm)
  show ?thesis
    by (cases "m_partition (ms r) < 0")
      (auto simp: topic_publish_code_def topic_publish_def choose_partition_def alone_assign_partition [OF t]
        append_to_def same Let_def split: prod.split sum.split dest: parts)
qed

lemma topic_or_create_found:
  "topic_or_create name b = (b2, Inr t) \<Longrightarrow> get_topic name b2 = Some t"
  by (auto simp: topic_or_create_def create_topic_def get_topic_def Let_def
      split: option.split_asm if_split_asm prod.split_asm)

lemma publish_code_effect: "alone (publish_code now r) s = publish_section now r s"
proof -
  obtain ms b where s: "s = (ms, b)" by (cases s)
  let ?name = "m_topic (ms r)"
  obtain b2 topic where made: "topic_or_create ?name b = (b2, topic)" by (metis surj_pair)
  have code: "alone (publish_code now r) s =
      (case topic of
         Inl e \<Rightarrow> ((ms, b2), Inl e)
       | Inr t \<Rightarrow>
           (case alone (topic_publish_code now ?name t r) (ms, b2) of
              (s2, Inl e) \<Rightarrow> (s2, Inl e)
            | (s2, Inr offset) \<Rightarrow>
                let m = fst s2 r in
                (set_broker (\<lambda>b. b\<lparr>b_total_in := b_total_in b + 1\<rparr>) s2,
                 Inr \<lparr>rm_topic = m_topic m, rm_partition = m_partition m, rm_offset = offset,
                      rm_timestamp = m_broker_timestamp m, rm_message_id = m_id m\<rparr>)))"
    using made
    by (auto simp: s publish_code_def topic_or_create_def create_topic_code_def Let_def
        split: option.splits prod.split sum.split)
  show ?thesis
  proof (cases topic)
    case (Inl e)
    then show ?thesis unfolding code by (simp add: s publish_section_def made)
  next
    case (Inr t)
    note t = topic_or_create_found [OF made [unfolded Inr]]
    show ?thesis unfolding code
      by (simp add: s publish_section_def made Inr alone_topic_publish [OF t] Let_def split: prod.split sum.split)
  qed
qed

definition on_queue :: "string \<Rightarrow> (mstore \<Rightarrow> any_queue \<Rightarrow> (mstore \<times> any_queue) \<times> 'a result) \<Rightarrow> broker_state \<Rightarrow> broker_state \<times> 'a result" where
  "on_queue name f s =
     (case get_queue name (snd s) of
        None \<Rightarrow> (s, Inl KeyError)
      | Some q \<Rightarrow> (case f (fst s) q of ((ms', q'), res) \<Rightarrow> ((ms', put_queue name q' (snd s)), res)))"

definition enqueue_code :: "real \<Rightarrow> string \<Rightarrow> mref \<Rightarrow> (lock, broker_state, unit result) code" where
  "enqueue_code now name r =
     look (\<lambda>s. get_queue name (snd s)) (\<lambda>found.
       case found of
         None \<Rightarrow> Return (Inl ValueError)
       | Some q \<Rightarrow>
           followed_by (with_lock (QueueLock name) (statement (on_queue name (\<lambda>ms q. any_enqueue now ms q r))))
             (\<lambda>res. case res of
                Inl e \<Rightarrow> Return (Inl e)
              | Inr _ \<Rightarrow>
                  look (\<lambda>s. b_total_in (snd s)) (\<lambda>n.
                  assign (set_broker (\<lambda>b. b\<lparr>b_total_in := n + 1\<rparr>)) (Return (Inr ())))))"

lemma put_queue_total [simp]: "b_total_in (put_queue name q b) = b_total_in b"
  by (simp add: put_queue_def split: any_queue.split)

lemma enqueue_code_effect: "alone (enqueue_code now name r) s = broker_enqueue now name r s"
  by (cases s) (simp add: enqueue_code_def broker_enqueue_def on_queue_def split: option.split prod.split sum.split)

text \<open>What a call that touches nothing but the broker's dictionaries does, and its answer.\<close>

definition on_broker :: "(broker \<Rightarrow> broker \<times> broker_answer) \<Rightarrow> broker_state \<Rightarrow> broker_state \<times> broker_answer" where
  "on_broker f s = (case f (snd s) of (b', x) \<Rightarrow> ((fst s, b'), x))"

definition done_or :: "'a result \<Rightarrow> broker_answer" where
  "done_or r = Outcome (map_sum id (\<lambda>_. ()) r)"

fun broker_effect :: "broker_call \<Rightarrow> broker_state \<Rightarrow> broker_state \<times> broker_answer" where
  "broker_effect (Publish_Message now r) s = map_prod id Published (publish_section now r s)"
| "broker_effect (Enqueue_Message now name r) s = map_prod id Outcome (broker_enqueue now name r s)"
| "broker_effect (Create_Topic name cfg) s = on_broker (\<lambda>b. map_prod id done_or (create_topic name cfg b)) s"
| "broker_effect (Create_Queue name mx vis prio) s =
     on_broker (\<lambda>b. map_prod id done_or (create_queue name mx vis prio b)) s"
| "broker_effect (Remove_Queue name) s = on_broker (\<lambda>b. map_prod id Flag (delete_queue name b)) s"
| "broker_effect (Create_Group gid strategy) s =
     on_broker (\<lambda>b. case create_consumer_group gid strategy b of (b', g) \<Rightarrow> (b', Outcome (Inr ()))) s"
| "broker_effect (Remove_Group gid) s = on_broker (\<lambda>b. map_prod id Flag (delete_consumer_group gid b)) s"
| "broker_effect List_Topics s = (s, Names (list_topics (snd s)))"
| "broker_effect List_Queues s = (s, Names (list_queues (snd s)))"
| "broker_effect List_Groups s = (s, Names (list_consumer_groups (snd s)))"

fun broker_body :: "broker_call \<Rightarrow> (lock, broker_state, broker_answer) code" where
  "broker_body (Publish_Message now r) = followed_by (publish_code now r) (\<lambda>x. Return (Published x))"
| "broker_body (Enqueue_Message now name r) = followed_by (enqueue_code now name r) (\<lambda>x. Return (Outcome x))"
| "broker_body (Create_Topic name cfg) = followed_by (create_topic_code name cfg) (\<lambda>x. Return (done_or x))"
| "broker_body c = statement (broker_effect c)"

lemma broker_body_effect: "alone (broker_body c) s = broker_effect c s"
  by (cases c)
    (simp_all add: publish_code_effect enqueue_code_effect create_topic_code_def on_broker_def
      map_prod_def split_def)

lemma ordered_look: "(\<And>x. ordered_in rank hs (k x)) \<Longrightarrow> ordered_in rank hs (look f k)"
  by simp

lemma ordered_followed_by:
  "ordered_in rank hs p \<Longrightarrow> (\<And>x. ordered_in rank hs (k x)) \<Longrightarrow> ordered_in rank hs (followed_by p k)"
  by (rule disciplined_followed_by)

lemmas broker_lock_intros = ordered_look ordered_followed_by ordered_with_lock ordered_statement

lemma broker_body_ordered:
  "hs = [] \<or> hs = [BrokerLock] \<Longrightarrow> ordered_in (lock_rank pr) hs (broker_body c)"
  by (cases c)
    (auto simp: publish_code_def topic_publish_code_def assign_partition_code_def create_topic_code_def
      enqueue_code_def intro!: broker_lock_intros split: option.split sum.split)

interpretation brok: monitor "lock_rank 0" BrokerLock broker_body broker_effect
  by unfold_locales (auto simp: broker_body_ordered broker_body_effect)

subsection \<open>The same by the broker's own operations\<close>

text \<open>Without middleware the section is all of \<open>broker_publish\<close>.\<close>

fun sequential_effect :: "(nat \<Rightarrow> string) \<Rightarrow> broker_call \<Rightarrow> broker_state \<Rightarrow> broker_state \<times> broker_answer" where
  "sequential_effect clock (Publish_Message now r) s = map_prod id Published (broker_publish clock now s r)"
| "sequential_effect clock c s = broker_effect c s"

lemma create_topic_middleware: "create_topic name cfg b = (b', res) \<Longrightarrow> b_middleware b' = b_middleware b"
  by (auto simp: create_topic_def Let_def split: if_split_asm prod.split_asm)

lemma topic_or_create_middleware: "topic_or_create name b = (b', res) \<Longrightarrow> b_middleware b' = b_middleware b"
  by (auto simp: topic_or_create_def dest: create_topic_middleware split: option.split_asm)

lemma broker_effect_middleware: "b_middleware (snd (fst (broker_effect c s))) = b_middleware (snd s)"
proof (cases c)
  case (Publish_Message now r)
  show ?thesis
    by (cases s) (auto simp: Publish_Message publish_section_def Let_def dest: topic_or_create_middleware
        split: prod.split sum.split)
next
  case (Enqueue_Message now name r)
  show ?thesis
    by (cases s) (auto simp: Enqueue_Message broker_enqueue_def put_queue_def
        split: prod.split sum.split option.split any_queue.split)
next
  case (Create_Topic name cfg)
  show ?thesis
    by (cases "create_topic name cfg (snd s)") (simp add: Create_Topic on_broker_def create_topic_middleware)
qed (auto simp: on_broker_def create_queue_def delete_queue_def create_consumer_group_def
    delete_consumer_group_def Let_def split: prod.split option.split)

lemma serial_sequential:
  "b_middleware (snd s) = [] \<Longrightarrow> serial (sequential_effect clock) h s = serial broker_effect h s"
proof (induction h arbitrary: s)
  case (Cons x h)
  have same: "sequential_effect clock (snd x) s = broker_effect (snd x) s"
    using Cons.prems by (cases s; cases "snd x") (simp_all add: broker_publish_no_middleware)
  have "b_middleware (snd (fst (broker_effect (snd x) s))) = []"
    by (simp add: broker_effect_middleware Cons.prems)
  then show ?case by (simp add: same Cons.IH split_def Let_def)
qed simp

text \<open>C12. On a broker without middleware (\<open>b_middleware (snd s) = []\<close>: middleware runs before the lock is taken,
  and with a deduplication the statement is false, see \<open>dedup_race\<close> in \<open>Races\<close>), threads that publish,
  enqueue, create topics, create or delete queues and groups, and list them at the same time always
  come to an end, and then the broker, its partitions and queues, the messages and every answer are
  those of one thread making the same calls of the broker in some order that keeps the order within
  each thread.\<close>

theorem concurrent_broker_calls_serial:
  assumes "b_middleware (snd s) = []"
    and "runs_to (start (locked_call BrokerLock broker_body) s css) d"
  shows "\<exists>d' h. runs_to d d' \<and> finished d' \<and> serial_outcome (sequential_effect clock) css h s d'"
proof -
  obtain d' h where "runs_to d d'" "finished d'" "serial_outcome broker_effect css h s d'"
    using brok.atomic_calls [OF assms(2)] by blast
  then show ?thesis
    using serial_sequential [OF assms(1)] by (intro exI [of _ d'] exI [of _ h]) (simp add: serial_outcome_def)
qed

abbreviation publishers :: "broker_call list list" where
  "publishers \<equiv>
     [[Publish_Message 1 0, Create_Queue ''q'' 0 30 False], [Publish_Message 2 1, Enqueue_Message 3 ''q'' 2],
      [List_Topics]]"

abbreviation an_empty_broker :: broker_state where
  "an_empty_broker \<equiv> (some_messages, broker_new default_broker_config (\<lambda>_. a_partition) 0 (\<lambda>_. consumer_new ''c'' default_consumer_config 0 0))"

theorem concurrent_broker_calls_serial_witness:
  "\<exists>d. run_schedule [1, 1, 1] (start (locked_call BrokerLock broker_body) an_empty_broker publishers) = Some d
    \<and> (\<exists>d' h. runs_to d d' \<and> finished d'
        \<and> serial_outcome (sequential_effect (\<lambda>_. [])) publishers h an_empty_broker d')"
proof -
  let ?start = "start (locked_call BrokerLock broker_body) an_empty_broker publishers"
  obtain d where d: "run_schedule [1, 1, 1] ?start = Some d"
    by (simp add: start_def run_thread_def locked_call_def with_lock_def publish_code_def look_def
        broker_new_def get_topic_def message_new_def upt_rec)
  have "b_middleware (snd an_empty_broker) = []" by (simp add: broker_new_def)
  from concurrent_broker_calls_serial [OF this run_schedule_runs [OF d]] d
  show ?thesis by blast
qed

end
