(* ===== verification/Concurrent_Broker.thy ===== *)
theory Concurrent_Broker
  imports Broker_Threads Server_Run Broker_Ops
begin

section \<open>Concurrent runs are runs of the broker\<close>

text \<open>
  What several threads do through the calls of \<open>Broker_Threads\<close> to a broker without middleware, each
  message published or enqueued once, is that the operations they call are performed one after the
  other, each under its condition: a run of \<open>broker_step\<close>, so all that is shown of such runs holds
  behind threads too. With middleware this is false for publishing (\<open>dedup_race\<close>).
\<close>

text \<open>The messages that a call puts somewhere.\<close>

fun messages_of :: "broker_call \<Rightarrow> mref list" where
  "messages_of (Publish_Message now r) = [r]"
| "messages_of (Enqueue_Message now name r) = [r]"
| "messages_of c = []"

text \<open>The operation of the broker that a call is; the listings are none.\<close>

fun ops_of_call :: "broker_call \<Rightarrow> broker_op list" where
  "ops_of_call (Publish_Message now r) = [Op_Publish (\<lambda>_. []) now r]"
| "ops_of_call (Enqueue_Message now name r) = [Op_Enqueue now name r]"
| "ops_of_call (Create_Topic name cfg) = [Op_Create_Topic name cfg]"
| "ops_of_call (Create_Queue name mx vis prio) = [Op_Create_Queue name mx vis prio]"
| "ops_of_call (Remove_Queue name) = [Op_Delete_Queue name]"
| "ops_of_call (Create_Group gid strategy) = [Op_Create_Group gid strategy]"
| "ops_of_call (Remove_Group gid) = [Op_Delete_Group gid]"
| "ops_of_call _ = []"

lemma sequential_effect_ops:
  assumes mw: "b_middleware b = []" and fresh: "\<forall>r \<in> set (messages_of c). fresh_in r b"
  shows "all_allowed (ops_of_call c) (ms, b)"
    and "fst (sequential_effect (\<lambda>_. []) c (ms, b)) = perform_all (ops_of_call c) (ms, b)"
proof -
  show "all_allowed (ops_of_call c) (ms, b)"
    using fresh by (cases c) (simp_all add: well_behaved_in_place mw)
  show "fst (sequential_effect (\<lambda>_. []) c (ms, b)) = perform_all (ops_of_call c) (ms, b)"
    by (cases c) (simp_all add: on_broker_def split_def)
qed

lemma create_topic_step:
  assumes "broker_inv ms b" "create_topic name cfg b = (b', res)"
  shows "broker_step\<^sup>*\<^sup>* (ms, b) (ms, b') \<and> touches {} {} b b'"
  using create_topic_inv [OF assms] broker_step.add_topic [OF assms(2), of ms]
  by (blast intro: topic_made_touches)

lemma sequential_effect_step:
  assumes inv: "broker_inv ms b" and mw: "b_middleware b = []"
    and fresh: "\<forall>r \<in> set (messages_of c). fresh_in r b"
    and eff: "sequential_effect clock c (ms, b) = ((ms', b'), a)"
  shows "broker_step\<^sup>*\<^sup>* (ms, b) (ms', b') \<and> touches (set (messages_of c)) {} b b'"
proof (cases c)
  case (Publish_Message now r)
  obtain res where p: "broker_publish clock now (ms, b) r = ((ms', b'), res)"
    using eff by (cases "broker_publish clock now (ms, b) r") (auto simp: Publish_Message)
  have "well_behaved clock ms b r"
    using fresh by (intro well_behaved_in_place) (simp_all add: Publish_Message mw)
  from broker_step.publish [OF this p] publish_touches [OF inv mw p] show ?thesis
    by (simp add: Publish_Message r_into_rtranclp)
next
  case (Enqueue_Message now name r)
  obtain res where e: "broker_enqueue now name r (ms, b) = ((ms', b'), res)"
    using eff by (cases "broker_enqueue now name r (ms, b)") (auto simp: Enqueue_Message)
  have "touches {r} {} b b'" by (rule enqueue_touches [OF e])
  moreover have "broker_step (ms, b) (ms', b')"
    using broker_step.enqueue [OF _ e] fresh by (simp add: Enqueue_Message)
  ultimately show ?thesis by (simp add: Enqueue_Message r_into_rtranclp)
next
  case (Create_Topic name cfg)
  obtain res where "create_topic name cfg b = (b', res)" "ms' = ms"
    using eff by (cases "create_topic name cfg b") (auto simp: Create_Topic on_broker_def)
  then show ?thesis using create_topic_step [OF inv] by (simp add: Create_Topic)
next
  case (Create_Queue name mx vis prio)
  obtain res where q: "create_queue name mx vis prio b = (b', res)" "ms' = ms"
    using eff by (cases "create_queue name mx vis prio b") (auto simp: Create_Queue on_broker_def)
  have "touches {} {} b b'" by (rule create_queue_touches [OF q(1)])
  then show ?thesis using broker_step.add_queue [OF q(1), of ms] q(2)
    by (simp add: Create_Queue r_into_rtranclp)
next
  case (Remove_Queue name)
  have q: "b' = fst (delete_queue name b)" "ms' = ms"
    using eff by (cases "delete_queue name b"; auto simp: Remove_Queue on_broker_def)+
  have "touches {} {} b b'" unfolding q(1) by (rule touches_same) (simp_all add: delete_queue_def)
  then show ?thesis using broker_step.del_queue [of ms b name] q
    by (simp add: Remove_Queue r_into_rtranclp)
next
  case (Create_Group gid strategy)
  obtain g where q: "create_consumer_group gid strategy b = (b', g)" "ms' = ms"
    using eff by (cases "create_consumer_group gid strategy b") (auto simp: Create_Group on_broker_def)
  have "touches {} {} b b'" by (rule create_group_touches [OF q(1)])
  then show ?thesis using broker_step.add_group [OF q(1), of ms] q(2)
    by (simp add: Create_Group r_into_rtranclp)
next
  case (Remove_Group gid)
  have q: "b' = fst (delete_consumer_group gid b)" "ms' = ms"
    using eff by (auto simp: Remove_Group on_broker_def delete_consumer_group_def)
  have "touches {} {} b b'" unfolding q(1)
    by (auto simp: touches_def delete_consumer_group_def outsider_def delete_conv split: if_split_asm)
  then show ?thesis using broker_step.del_group [of ms b gid] q
    by (simp add: Remove_Group r_into_rtranclp)
qed (use eff in \<open>simp_all add: touches_refl\<close>)

subsection \<open>Whole runs\<close>

definition all_messages :: "broker_call list \<Rightarrow> mref list" where
  "all_messages cs = concat (map messages_of cs)"

lemma serial_broker_run:
  assumes "broker_inv ms b" "b_middleware b = []"
    and "distinct (all_messages (map snd h))" "\<forall>r \<in> set (all_messages (map snd h)). fresh_in r b"
  shows "all_allowed (concat (map (\<lambda>x. ops_of_call (snd x)) h)) (ms, b)
    \<and> fst (serial (sequential_effect (\<lambda>_. [])) h (ms, b)) = perform_all (concat (map (\<lambda>x. ops_of_call (snd x)) h)) (ms, b)"
  using assms
proof (induction h arbitrary: ms b)
  case (Cons x h)
  obtain ms1 b1 a where eff: "sequential_effect (\<lambda>_. []) (snd x) (ms, b) = ((ms1, b1), a)" by (metis surj_pair)
  have split: "all_messages (map snd (x # h)) = messages_of (snd x) @ all_messages (map snd h)"
    by (simp add: all_messages_def)
  have one: "broker_step\<^sup>*\<^sup>* (ms, b) (ms1, b1)" and t: "touches (set (messages_of (snd x))) {} b b1"
    using sequential_effect_step [OF Cons.prems(1,2) _ eff] Cons.prems(4) unfolding split by auto
  have "broker_inv ms1 b1" using broker_run_inv [OF one] Cons.prems(1) by simp
  moreover have "b_middleware b1 = []" using t Cons.prems(2) by (simp add: touches_def)
  moreover have "\<forall>r \<in> set (all_messages (map snd h)). fresh_in r b1"
    using t Cons.prems(3,4) unfolding split touches_def by auto
  ultimately have rest: "all_allowed (concat (map (\<lambda>x. ops_of_call (snd x)) h)) (ms1, b1)
      \<and> fst (serial (sequential_effect (\<lambda>_. [])) h (ms1, b1)) = perform_all (concat (map (\<lambda>x. ops_of_call (snd x)) h)) (ms1, b1)"
    using Cons.IH Cons.prems(3) unfolding split by simp
  have "\<forall>r \<in> set (messages_of (snd x)). fresh_in r b" using Cons.prems(4) unfolding split by simp
  note now = sequential_effect_ops [OF Cons.prems(2) this, of ms]
  have "(ms1, b1) = perform_all (ops_of_call (snd x)) (ms, b)" using now(2) eff by simp
  with now(1) rest show ?case by (simp add: eff split_def Let_def)
qed simp

text \<open>An order of all the calls has the calls of the threads, each as often.\<close>

lemma mset_by_thread:
  "\<forall>x \<in> set h. fst x < n \<Longrightarrow> mset (map snd h) = (\<Sum>i < n. mset (of_thread i h))"
proof (induction h)
  case (Cons x h)
  have "(\<Sum>i < n. mset (of_thread i (x # h))) =
      (\<Sum>i < n. (if i = fst x then {#snd x#} else {#}) + mset (of_thread i h))"
    by (rule sum.cong) auto
  also have "\<dots> = {#snd x#} + mset (map snd h)"
    using Cons by (simp add: sum.distrib sum.delta)
  finally show ?case by simp
qed simp

lemma order_of_mset: "order_of css h \<Longrightarrow> mset (map snd h) = mset (concat css)"
  using mset_by_thread [of h "length css"]
  by (simp add: order_of_def mset_concat sum_list_sum_nth atLeast0LessThan)

lemma mset_all_messages: "mset cs = mset cs' \<Longrightarrow> mset (all_messages cs) = mset (all_messages cs')"
proof -
  have "mset (all_messages cs) = sum_mset (image_mset (\<lambda>c. mset (messages_of c)) (mset cs))" for cs
    by (induction cs) (simp_all add: all_messages_def)
  then show "mset cs = mset cs' \<Longrightarrow> ?thesis" by simp
qed

text \<open>C11. Threads make calls of ten kinds on a broker without middleware that its operations have reached:
  publishing and enqueueing messages that are in no log yet, each once, creating topics, creating and
  deleting queues and groups, and listing topics, queues and groups. Every interleaving comes
  to an end, and at every end the broker is as if exactly these calls had been performed as
  operations one after the other, in an order that keeps the order within each thread and each
  under the condition that keeps the invariant; so it is a state that the broker's operations
  reach, and what holds of all such states (unique names, limits, ordered logs, settled groups)
  holds behind these threads.\<close>

theorem concurrent_runs_refine_broker:
  assumes "broker_step\<^sup>*\<^sup>* (ms0, broker_new cfg ps nx cs) (ms, b)" and "b_middleware b = []"
    and "distinct (all_messages (concat css))" and "\<forall>r \<in> set (all_messages (concat css)). fresh_in r b"
    and "runs_to (start (locked_call BrokerLock broker_body) (ms, b) css) d"
  shows "(\<exists>d'. runs_to d d' \<and> finished d')
    \<and> (finished d \<longrightarrow>
        (\<exists>h. order_of css h \<and> all_allowed (concat (map (\<lambda>x. ops_of_call (snd x)) h)) (ms, b)
           \<and> fst d = perform_all (concat (map (\<lambda>x. ops_of_call (snd x)) h)) (ms, b))
        \<and> broker_step\<^sup>*\<^sup>* (ms0, broker_new cfg ps nx cs) (fst d))"
proof (intro conjI impI)
  show "\<exists>d'. runs_to d d' \<and> finished d'" using brok.always_finishes [OF _ assms(5)] by simp
next
  assume fin: "finished d"
  obtain h where h: "serial_outcome broker_effect css h (ms, b) d"
    using brok.serializable [OF assms(5) fin] by blast
  then have ord: "order_of css h" by (simp add: serial_outcome_def)
  have msgs: "mset (all_messages (map snd h)) = mset (all_messages (concat css))"
    by (rule mset_all_messages [OF order_of_mset [OF ord]])
  have "broker_inv ms b" using broker_run_inv [OF assms(1)] broker_new_inv by simp
  moreover have "distinct (all_messages (map snd h))"
    using assms(3) msgs mset_eq_imp_distinct_iff by blast
  moreover have "\<forall>r \<in> set (all_messages (map snd h)). fresh_in r b"
    using assms(4) mset_eq_setD [OF msgs] by simp
  ultimately have run: "all_allowed (concat (map (\<lambda>x. ops_of_call (snd x)) h)) (ms, b)
      \<and> fst (serial (sequential_effect (\<lambda>_. [])) h (ms, b)) = perform_all (concat (map (\<lambda>x. ops_of_call (snd x)) h)) (ms, b)"
    by (intro serial_broker_run assms(2))
  have d: "fst (serial (sequential_effect (\<lambda>_. [])) h (ms, b)) = fst d"
    using h assms(2) by (simp add: serial_outcome_def serial_sequential)
  show exact: "\<exists>h. order_of css h \<and> all_allowed (concat (map (\<lambda>x. ops_of_call (snd x)) h)) (ms, b)
      \<and> fst d = perform_all (concat (map (\<lambda>x. ops_of_call (snd x)) h)) (ms, b)"
    using ord run d by (intro exI [of _ h]) simp
  have "broker_step\<^sup>*\<^sup>* (ms, b) (fst d)" using perform_all_run run unfolding d by metis
  with assms(1) show "broker_step\<^sup>*\<^sup>* (ms0, broker_new cfg ps nx cs) (fst d)" by (rule rtranclp_trans)
qed

theorem concurrent_runs_refine_broker_witness:
  "\<exists>d h. runs_to (start (locked_call BrokerLock broker_body) an_empty_broker publishers) d \<and> finished d
    \<and> order_of publishers h \<and> fst d = perform_all (concat (map (\<lambda>x. ops_of_call (snd x)) h)) an_empty_broker
    \<and> broker_step\<^sup>*\<^sup>* an_empty_broker (fst d)"
proof -
  obtain d where d: "runs_to (start (locked_call BrokerLock broker_body) an_empty_broker publishers) d" "finished d"
    using brok.always_finishes [of publishers, OF _ rtranclp.rtrancl_refl] by blast
  let ?b = "snd an_empty_broker"
  have "b_middleware ?b = []" "distinct (all_messages (concat publishers))"
    "\<forall>r \<in> set (all_messages (concat publishers)). fresh_in r ?b"
    by (simp_all add: all_messages_def broker_new_def fresh_all_def)
  from concurrent_runs_refine_broker [OF rtranclp.rtrancl_refl [of broker_step] this [unfolded snd_conv] d(1)] d
  show ?thesis by blast
qed

end
