(* ===== verification/Races.thy ===== *)
theory Races
  imports Middleware Producer Partition_Threads
begin

section \<open>What is not under a lock\<close>

text \<open>
  Two places where the code reads shared state in one statement and acts on it in a later one
  without a lock around both. \<open>DeduplicationMiddleware.process\<close> has no lock, and \<open>Broker.publish\<close>
  runs the middleware before it takes its own. \<open>Producer.send\<close> looks at \<open>_closed\<close> outside the lock
  under which it fills the batch. The code here is statement by statement; alone it does what
  \<open>Middleware\<close> and \<open>Producer\<close> say, interleaved it does not.
\<close>

subsection \<open>Deduplication\<close>

record dedup_state =
  ds_seen :: "string set"
  ds_order :: "string list"
  ds_duplicates :: nat

text \<open>\<open>while len(self._order) > self.window_size\<close>, for at most \<open>fuel\<close> rounds.\<close>

primrec trim_code :: "int \<Rightarrow> nat \<Rightarrow> (lock, dedup_state, bool result) code" where
  "trim_code w 0 = Return (Inr True)"
| "trim_code w (Suc fuel) =
     look (\<lambda>s. int (length (ds_order s)) > w) (\<lambda>more.
       if \<not> more then Return (Inr True)
       else
         Atomic (\<lambda>s.
           case ds_order s of
             [] \<Rightarrow> (s, Return (Inl IndexError))
           | old # rest \<Rightarrow>
               (s\<lparr>ds_order := rest\<rparr>,
                assign (\<lambda>s. s\<lparr>ds_seen := ds_seen s - {old}\<rparr>) (trim_code w fuel))))"

text \<open>\<open>process\<close>: whether the message with this id is kept.\<close>

definition dedup_code :: "int \<Rightarrow> nat \<Rightarrow> string \<Rightarrow> (lock, dedup_state, bool result) code" where
  "dedup_code w fuel mid =
     look (\<lambda>s. mid \<in> ds_seen s) (\<lambda>duplicate.
       if duplicate then
         look ds_duplicates (\<lambda>n.
         assign (\<lambda>s. s\<lparr>ds_duplicates := n + 1\<rparr>) (
         Return (Inr False)))
       else
         assign (\<lambda>s. s\<lparr>ds_seen := insert mid (ds_seen s)\<rparr>) (
         assign (\<lambda>s. s\<lparr>ds_order := ds_order s @ [mid]\<rparr>) (
         trim_code w fuel)))"

lemma alone_trim:
  "length (ds_order s) < fuel \<Longrightarrow> dedup_trim w (ds_order s) (ds_seen s) = ((ord, sn), res) \<Longrightarrow>
     alone (trim_code w fuel) s = (s\<lparr>ds_seen := sn, ds_order := ord\<rparr>, map_sum id (\<lambda>_. True) res)"
proof (induction fuel arbitrary: s)
  case (Suc fuel)
  show ?case
  proof (cases "ds_order s")
    case Nil
    then show ?thesis using Suc.prems by (cases s) (auto split: if_split_asm)
  next
    case (Cons old rest)
    let ?s = "s\<lparr>ds_order := rest, ds_seen := ds_seen s - {old}\<rparr>"
    show ?thesis
    proof (cases "int (length (ds_order s)) > w")
      case True
      then have "dedup_trim w (ds_order ?s) (ds_seen ?s) = ((ord, sn), res)"
        using Suc.prems Cons by simp
      from Suc.IH [OF _ this] show ?thesis using Suc.prems Cons True by simp
    next
      case False
      then show ?thesis using Suc.prems Cons by (cases s) auto
    qed
  qed
qed simp

text \<open>One thread alone: the code is \<open>dedup_process\<close>.\<close>

lemma alone_dedup:
  assumes "length (ds_order s) + 1 < fuel"
    and "alone (dedup_code w fuel (m_id (ms r))) s = (s', res)"
  shows "dedup_process w (ds_seen s) (ds_order s) (ds_duplicates s) ms r =
    ((DeduplicationMiddleware w (ds_seen s') (ds_order s') (ds_duplicates s'), ms),
     map_sum id (\<lambda>kept. if kept then Some r else None) res)"
proof (cases "m_id (ms r) \<in> ds_seen s")
  case True
  then show ?thesis using assms(2) by (auto simp: dedup_code_def dedup_process_def)
next
  case False
  let ?s = "s\<lparr>ds_seen := insert (m_id (ms r)) (ds_seen s), ds_order := ds_order s @ [m_id (ms r)]\<rparr>"
  obtain ord sn t where t: "dedup_trim w (ds_order ?s) (ds_seen ?s) = ((ord, sn), t)"
    by (metis surj_pair)
  have "alone (trim_code w fuel) ?s = (?s\<lparr>ds_seen := sn, ds_order := ord\<rparr>, map_sum id (\<lambda>_. True) t)"
    by (rule alone_trim [OF _ t]) (use assms(1) in simp)
  then show ?thesis using assms(2) False t
    by (cases t) (auto simp: dedup_code_def dedup_process_def Let_def)
qed

text \<open>C39. Two threads can publish a message with the same id at the same time and both get it through
  the deduplication: each finds the id unseen before the other has noted it (and it is then
  noted twice). One after the other, in either order, the second is dropped.\<close>

theorem dedup_race:
  fixes mid :: string
  defines "fresh \<equiv> \<lparr>ds_seen = {}, ds_order = [], ds_duplicates = 0\<rparr>"
  shows "(\<exists>d. runs_to (start (dedup_code 10000 (Suc fuel)) fresh [[mid], [mid]]) d \<and> finished d
           \<and> map fst (snd d) = [Return [Inr True], Return [Inr True]] \<and> ds_order (fst d) = [mid, mid])
    \<and> (case alone (dedup_code 10000 (Suc fuel) mid) fresh of (s, first) \<Rightarrow>
         first = Inr True \<and> snd (alone (dedup_code 10000 (Suc fuel) mid) s) = Inr False)"
proof
  let ?start = "start (dedup_code 10000 (Suc fuel)) fresh [[mid], [mid]]"
  obtain d where d: "run_schedule [0, 1, 0, 0, 0, 1, 1, 1] ?start = Some d"
    and fin: "d = (\<lparr>ds_seen = {mid}, ds_order = [mid, mid], ds_duplicates = 0\<rparr>,
      [(Return [Inr True], []), (Return [Inr True], [])])"
    by (simp add: start_def run_thread_def dedup_code_def look_def assign_def fresh_def)
  show "\<exists>d. runs_to ?start d \<and> finished d
      \<and> map fst (snd d) = [Return [Inr True], Return [Inr True]] \<and> ds_order (fst d) = [mid, mid]"
    by (rule exI [of _ d], intro conjI, rule run_schedule_runs [OF d]) (simp_all add: fin finished_def)
  show "case alone (dedup_code 10000 (Suc fuel) mid) fresh of (s, first) \<Rightarrow>
      first = Inr True \<and> snd (alone (dedup_code 10000 (Suc fuel) mid) s) = Inr False"
    by (simp add: dedup_code_def fresh_def)
qed

subsection \<open>Sending and closing\<close>

type_synonym 'x producer_state = "(mstore \<times> 'x) \<times> producer"

record send_call =
  sc_uid :: string
  sc_created :: real
  sc_checked :: real
  sc_flushed :: real
  sc_message :: mref
  sc_args :: send_args

datatype producer_call = Send_Message send_call | Close_Producer real

datatype producer_answer = Sent "record_metadata option result" | Closed "unit result"

abbreviation on_producer :: "(producer \<Rightarrow> producer) \<Rightarrow> 'x producer_state \<Rightarrow> 'x producer_state" where
  "on_producer f s \<equiv> (fst s, f (snd s))"

abbreviation fresh_message :: "mref \<Rightarrow> message \<Rightarrow> 'x producer_state \<Rightarrow> 'x producer_state" where
  "fresh_message r m s \<equiv> (((fst (fst s))(r := m), snd (fst s)), snd s)"

text \<open>The part of \<open>send\<close> under the lock: buffer the message, flush when the batch is full or old.\<close>

definition buffer_message ::
    "'x hooks \<Rightarrow> (mref \<Rightarrow> real) \<Rightarrow> send_call \<Rightarrow> 'x producer_state \<Rightarrow> 'x producer_state \<times> record_metadata option result" where
  "buffer_message h clock c s =
     (let p2 = (snd s)\<lparr>pr_batch := pr_batch (snd s) @ [sc_message c]\<rparr> in
      if int (length (pr_batch p2)) \<ge> pc_batch_size (pr_config p2)
      then flush_batch h clock (sc_flushed c) (fst s) p2
      else if (sc_checked c - pr_last_flush p2) * 1000 \<ge> of_int (linger_ms (pr_config p2))
      then flush_batch h clock (sc_flushed c) (fst s) p2
      else ((fst s, p2), Inr None))"

definition send_code ::
    "'x hooks \<Rightarrow> (mref \<Rightarrow> real) \<Rightarrow> nat \<Rightarrow> send_call \<Rightarrow> (lock, 'x producer_state, record_metadata option result) code" where
  "send_code h clock n c =
     look (\<lambda>s. pr_closed (snd s)) (\<lambda>is_closed.
     if is_closed then Return (Inl RuntimeError)
     else
       look (\<lambda>s. make_message (sc_uid c) (sc_created c) (snd s) (sc_args c)) (\<lambda>m.
       assign (fresh_message (sc_message c) m) (
       followed_by
         (look (\<lambda>s. enable_idempotence (pr_config (snd s))) (\<lambda>idempotent.
            if idempotent
            then with_lock (ProducerLock n)
                   (look (\<lambda>s. pr_sequence (snd s)) (\<lambda>k.
                    assign (fresh_message (sc_message c) (m\<lparr>m_sequence_number := k\<rparr>)) (
                    assign (on_producer (\<lambda>p. p\<lparr>pr_sequence := k + 1\<rparr>)) (Return ()))))
            else Return ()))
         (\<lambda>_.
            look (\<lambda>s. pc_batch_size (pr_config (snd s))) (\<lambda>size.
            if size \<le> 1
            then statement (\<lambda>s. do_send h (clock (sc_message c)) (sc_message c) (fst s) (snd s))
            else with_lock (ProducerLock n) (statement (buffer_message h clock c)))))))"

text \<open>\<open>close\<close>: flush under the lock, then note that the producer is closed.\<close>

definition close_code ::
    "'x hooks \<Rightarrow> (mref \<Rightarrow> real) \<Rightarrow> nat \<Rightarrow> real \<Rightarrow> (lock, 'x producer_state, unit result) code" where
  "close_code h clock n now =
     followed_by (with_lock (ProducerLock n) (statement (\<lambda>s. producer_flush h clock now (fst s) (snd s))))
       (\<lambda>res. case res of
          Inl e \<Rightarrow> Return (Inl e)
        | Inr _ \<Rightarrow> assign (on_producer (\<lambda>p. p\<lparr>pr_closed := True\<rparr>)) (Return (Inr ())))"

fun producer_code ::
    "'x hooks \<Rightarrow> (mref \<Rightarrow> real) \<Rightarrow> nat \<Rightarrow> producer_call \<Rightarrow> (lock, 'x producer_state, producer_answer) code" where
  "producer_code h clock n (Send_Message c) = followed_by (send_code h clock n c) (\<lambda>x. Return (Sent x))"
| "producer_code h clock n (Close_Producer now) = followed_by (close_code h clock n now) (\<lambda>x. Return (Closed x))"

text \<open>One thread alone: \<open>send\<close> and \<open>producer_close\<close>.\<close>

lemma alone_send:
  "alone (send_code h clock n c) (s, p) =
     send h clock (sc_uid c) (sc_created c) (sc_checked c) (sc_flushed c) (sc_message c) (sc_args c) s p"
  by (cases s) (simp add: send_code_def send_def buffer_message_def make_message_def Let_def)

lemma alone_close:
  "alone (close_code h clock n now) (s, p) = producer_close h clock now s p"
  by (simp add: close_code_def producer_close_def split: prod.split sum.split)

lemma flush_empties:
  "producer_flush h clock now s p = ((s', p'), res) \<Longrightarrow> pr_batch p' = []"
  unfolding producer_flush_def
proof (induction h clock now s p arbitrary: s' p' res rule: flush_loop.induct)
  case (1 h clock now s p)
  show ?case
  proof (cases "pr_batch p = []")
    case True
    then show ?thesis using 1(2) by (simp add: flush_loop.simps)
  next
    case False
    obtain s1 p1 r where f: "flush_batch h clock now s p = ((s1, p1), r)" by (metis surj_pair)
    from flush_batch_empties [OF f] have "pr_batch p1 = []" by simp
    then show ?thesis using 1(2) False f
      by (cases r) (simp_all add: flush_loop.simps [of h clock now s p] flush_loop.simps [of h clock now s1 p1])
  qed
qed

lemma close_empties: "producer_close h clock now s p = ((s', p'), res) \<Longrightarrow> pr_batch p' = []"
  by (auto simp: producer_close_def dest: flush_empties split: prod.split_asm sum.split_asm)

text \<open>C40. A message can be accepted and left behind: \<open>send\<close> finds the producer open, \<open>close\<close> flushes and
  closes it, then \<open>send\<close> puts its message into the batch of the closed producer; both calls return
  without an error, and the message is still in the batch with nothing handed to the publish
  function or a callback (the state \<open>'x\<close> of the hooks is as before). It is published only if somebody
  flushes or closes the closed producer once more, as stopping its broker does. One after the other
  this cannot happen: after \<open>send\<close> and then \<open>close\<close> the batch is empty, after \<open>close\<close> a \<open>send\<close> raises.\<close>

theorem close_strands_message:
  fixes h :: "'x hooks" and r :: mref and pid uid :: string and t :: real and a :: send_args
  defines "p \<equiv> producer_new pid default_producer_config 0"
    and "c \<equiv> Send_Message \<lparr>sc_uid = uid, sc_created = t, sc_checked = 0, sc_flushed = 0, sc_message = r, sc_args = a\<rparr>"
  shows "(\<exists>d. runs_to (start (producer_code h clock n) (s, p) [[c], [Close_Producer now]]) d \<and> finished d
        \<and> map fst (snd d) = [Return [Sent (Inr None)], Return [Closed (Inr ())]]
        \<and> pr_closed (snd (fst d)) \<and> pr_batch (snd (fst d)) = [r] \<and> snd (fst (fst d)) = snd s)
    \<and> (case alone (producer_code h clock n c) (s, p) of (s1, _) \<Rightarrow>
         pr_batch (snd (fst (alone (producer_code h clock n (Close_Producer now)) s1))) = [])
    \<and> (case alone (producer_code h clock n (Close_Producer now)) (s, p) of (s1, _) \<Rightarrow>
         snd (alone (producer_code h clock n c) s1) = Sent (Inl RuntimeError))"
proof (intro conjI)
  let ?start = "start (producer_code h clock n) (s, p) [[c], [Close_Producer now]]"
  have flush: "producer_flush h clock now s' p = ((s', p), Inr [])" for s'
    by (simp add: producer_flush_def flush_loop.simps p_def producer_new_def)
  obtain d s' where d: "run_schedule [0, 1, 1, 1, 1, 0, 0, 0, 0, 0, 0, 0] ?start = Some d"
    and s': "snd s' = snd s" and fin: "d = ((s', p\<lparr>pr_closed := True, pr_batch := [r]\<rparr>),
      [(Return [Sent (Inr None)], []), (Return [Closed (Inr ())], [])])"
    using flush
    by (simp add: start_def run_thread_def c_def p_def send_code_def close_code_def look_def assign_def
        with_lock_def statement_def buffer_message_def producer_new_def default_producer_config_def Let_def upt_rec)
  show "\<exists>d. runs_to ?start d \<and> finished d
        \<and> map fst (snd d) = [Return [Sent (Inr None)], Return [Closed (Inr ())]]
        \<and> pr_closed (snd (fst d)) \<and> pr_batch (snd (fst d)) = [r] \<and> snd (fst (fst d)) = snd s"
    by (rule exI [of _ d], intro conjI, rule run_schedule_runs [OF d]) (simp_all add: fin s' finished_def)
  show "case alone (producer_code h clock n c) (s, p) of (s1, _) \<Rightarrow>
         pr_batch (snd (fst (alone (producer_code h clock n (Close_Producer now)) s1))) = []"
    by (auto simp: alone_close close_empties split: prod.split)
  show "case alone (producer_code h clock n (Close_Producer now)) (s, p) of (s1, _) \<Rightarrow>
         snd (alone (producer_code h clock n c) s1) = Sent (Inl RuntimeError)"
    by (simp add: alone_close producer_close_def flush c_def alone_send send_def)
qed

end
